(* ===== verification/Prelude.thy ===== *)
theory Prelude
  imports Main "HOL-Library.Sublist"
begin

text \<open>
  What every component of the development shares: the Rust \<open>Result\<close> type and its
  combinators, state-passing operations, the numeric limits of \<open>u64\<close> and \<open>i64\<close> with the
  saturating and checked operations the code uses, the text helpers of the standard library
  (\<open>format!\<close> of an integer, \<open>contains\<close>, \<open>to_ascii_lowercase\<close>), and the generic list lemmas
  of the component proofs.  The collections \<open>result_simps\<close> and \<open>text_simps\<close> are handed to
  the simplifier by the component proofs.
\<close>

section \<open>Results\<close>

named_theorems result_simps "unfolding of the Result combinators"
named_theorems text_simps "facts about rendered text"

text \<open>\<open>Result<T, E>\<close> is \<open>E + T\<close>: \<open>Err\<close> on the left, \<open>Ok\<close> on the right.\<close>

abbreviation Ok :: "'a \<Rightarrow> 'e + 'a" where "Ok \<equiv> Inr"
abbreviation Err :: "'e \<Rightarrow> 'e + 'a" where "Err \<equiv> Inl"

fun map_err :: "('e \<Rightarrow> 'f) \<Rightarrow> 'e + 'a \<Rightarrow> 'f + 'a" where
  "map_err f (Inl e) = Err (f e)"
| "map_err f (Inr a) = Ok a"

fun map_ok :: "('a \<Rightarrow> 'b) \<Rightarrow> 'e + 'a \<Rightarrow> 'e + 'b" where
  "map_ok f (Inl e) = Err e"
| "map_ok f (Inr a) = Ok (f a)"

fun and_then :: "'e + 'a \<Rightarrow> ('a \<Rightarrow> 'e + 'b) \<Rightarrow> 'e + 'b" where
  "and_then (Inl e) k = Err e"
| "and_then (Inr a) k = k a"

fun ok_or :: "'e \<Rightarrow> 'a option \<Rightarrow> 'e + 'a" where
  "ok_or e None = Err e"
| "ok_or e (Some a) = Ok a"

text \<open>\<open>iter.map(f).collect::<Result<Vec<_>, _>>()\<close>: the first error ends the iteration.\<close>

fun collect_results :: "('a \<Rightarrow> 'e + 'b) \<Rightarrow> 'a list \<Rightarrow> 'e + 'b list" where
  "collect_results f [] = Ok []"
| "collect_results f (x # xs) =
     and_then (f x) (\<lambda>y. map_ok (Cons y) (collect_results f xs))"

lemma map_err_Ok_iff [result_simps]: "map_err f r = Inr a \<longleftrightarrow> r = Inr a"
  by (cases r) auto

lemma map_err_Err_iff [result_simps]: "map_err f r = Inl e' \<longleftrightarrow> (\<exists>e. r = Inl e \<and> f e = e')"
  by (cases r) auto

lemma map_ok_Ok_iff [result_simps]: "map_ok f r = Inr b \<longleftrightarrow> (\<exists>a. r = Inr a \<and> f a = b)"
  by (cases r) auto

lemma and_then_Ok_iff [result_simps]:
  "and_then r k = Inr b \<longleftrightarrow> (\<exists>a. r = Inr a \<and> k a = Inr b)"
  by (cases r) auto

lemma ok_or_Ok_iff [result_simps]: "ok_or e x = Inr a \<longleftrightarrow> x = Some a"
  by (cases x) auto

lemma collect_results_Ok:
  "collect_results f xs = Inr ys \<longleftrightarrow> list_all2 (\<lambda>x y. f x = Inr y) xs ys"
  by (induction xs arbitrary: ys)
     (auto simp: result_simps list_all2_Cons1 split: sum.splits)

lemma collect_results_total:
  "\<forall>x\<in>set xs. f x = Inr (g x) \<Longrightarrow> collect_results f xs = Inr (map g xs)"
  by (induction xs) auto

section \<open>State-passing operations\<close>

text \<open>
  A call on shared state returns its result with the state after the call.  Everything
  other clients do is part of the state the next call sees.
\<close>

type_synonym ('w, 'a) op = "'w \<Rightarrow> 'a \<times> 'w"

text \<open>\<open>f()?\<close> followed by the rest of the function, and \<open>f().map_err(g)\<close>.\<close>

definition try_op :: "('w, 'e + 'a) op \<Rightarrow> ('a \<Rightarrow> ('w, 'e + 'b) op) \<Rightarrow> ('w, 'e + 'b) op" where
  "try_op f k w = (case f w of (Inl e, w') \<Rightarrow> (Err e, w') | (Inr a, w') \<Rightarrow> k a w')"

definition op_map_err :: "('e \<Rightarrow> 'f) \<Rightarrow> ('w, 'e + 'a) op \<Rightarrow> ('w, 'f + 'a) op" where
  "op_map_err g f w = (case f w of (r, w') \<Rightarrow> (map_err g r, w'))"

definition return_op :: "'a \<Rightarrow> ('w, 'a) op" where
  "return_op a w = (a, w)"

text \<open>\<open>f().map_err(h)?\<close> where \<open>h\<close> itself acts on the state.\<close>

definition try_or_op ::
  "('w, 'd + 'a) op \<Rightarrow> ('d \<Rightarrow> ('w, 'e) op) \<Rightarrow> ('a \<Rightarrow> ('w, 'e + 'b) op) \<Rightarrow> ('w, 'e + 'b) op" where
  "try_or_op f h k w = (case f w of
      (Inl d, w1) \<Rightarrow> (case h d w1 of (e, w2) \<Rightarrow> (Err e, w2))
    | (Inr a, w1) \<Rightarrow> k a w1)"

lemma try_op_run:
  "f w = (Inr a, w1) \<Longrightarrow> try_op f k w = k a w1"
  "f w = (Inl e, w1) \<Longrightarrow> try_op f k w = (Err e, w1)"
  by (simp_all add: try_op_def)

lemma try_op_Ok_iff [result_simps]:
  "try_op f k w = (Inr b, w') \<longleftrightarrow> (\<exists>a w1. f w = (Inr a, w1) \<and> k a w1 = (Inr b, w'))"
  by (auto simp: try_op_def split: prod.splits sum.splits)

lemma try_op_Err_iff:
  "try_op f k w = (Inl e, w') \<longleftrightarrow>
     f w = (Inl e, w') \<or> (\<exists>a w1. f w = (Inr a, w1) \<and> k a w1 = (Inl e, w'))"
  by (auto simp: try_op_def split: prod.splits sum.splits)

lemma op_map_err_Ok_iff [result_simps]: "op_map_err g f w = (Inr a, w') \<longleftrightarrow> f w = (Inr a, w')"
  by (auto simp: op_map_err_def result_simps split: prod.splits)

lemma op_map_err_Err_iff:
  "op_map_err g f w = (Inl e', w') \<longleftrightarrow> (\<exists>e. f w = (Inl e, w') \<and> g e = e')"
  by (auto simp: op_map_err_def result_simps split: prod.splits)

lemma return_op_iff [result_simps]: "return_op a w = (b, w') \<longleftrightarrow> a = b \<and> w = w'"
  by (auto simp: return_op_def)

lemma try_op_return:
  "try_op (return_op (Inr a)) k = k a" "try_op (return_op (Inl e)) k = return_op (Err e)"
  by (simp_all add: fun_eq_iff try_op_def return_op_def)

text \<open>Mapping the error of a whole body maps the error of each of its calls.\<close>

lemma map_err_map_err: "map_err f (map_err g r) = map_err (\<lambda>e. f (g e)) r"
  by (cases r) auto

lemma op_map_err_op_map_err: "op_map_err f (op_map_err g h) = op_map_err (\<lambda>e. f (g e)) h"
  by (auto simp: fun_eq_iff op_map_err_def map_err_map_err split: prod.splits)

lemma op_map_err_try_op:
  "op_map_err g (try_op f k) = try_op (op_map_err g f) (\<lambda>a. op_map_err g (k a))"
  by (auto simp: fun_eq_iff op_map_err_def try_op_def split: prod.splits sum.splits)

lemma op_map_err_return_op: "op_map_err g (return_op r) = return_op (map_err g r)"
  by (simp add: fun_eq_iff op_map_err_def return_op_def)

lemmas op_map_err_laws =
  op_map_err_try_op op_map_err_return_op op_map_err_op_map_err map_err_map_err

text \<open>An operation that leaves a part of the state alone.\<close>

named_theorems keeps_intros

definition keeps :: "('w \<Rightarrow> 'g) \<Rightarrow> ('w, 'a) op \<Rightarrow> bool" where
  "keeps g f \<longleftrightarrow> (\<forall>w. g (snd (f w)) = g w)"

lemma keepsD: "keeps g f \<Longrightarrow> f w = (r, w') \<Longrightarrow> g w' = g w"
  by (metis keeps_def snd_conv)

lemma keepsI: "(\<And>w r w'. f w = (r, w') \<Longrightarrow> g w' = g w) \<Longrightarrow> keeps g f"
  by (metis keeps_def prod.collapse)

lemma keeps_return [keeps_intros]: "keeps g (return_op a)"
  by (simp add: keeps_def return_op_def)

lemma keeps_try [keeps_intros]: "keeps g f \<Longrightarrow> (\<And>a. keeps g (k a)) \<Longrightarrow> keeps g (try_op f k)"
  by (rule keepsI, auto simp: try_op_def split: prod.splits sum.splits) (metis keepsD)+

lemma keeps_map_err [keeps_intros]: "keeps g f \<Longrightarrow> keeps g (op_map_err h f)"
  by (rule keepsI) (auto simp: op_map_err_def split: prod.splits dest!: keepsD)

lemma keeps_try_or [keeps_intros]:
  "keeps g f \<Longrightarrow> (\<And>d. keeps g (h d)) \<Longrightarrow> (\<And>a. keeps g (k a)) \<Longrightarrow> keeps g (try_or_op f h k)"
  by (rule keepsI, auto simp: try_or_op_def split: prod.splits sum.splits) (metis keepsD)+

lemma keeps_if [keeps_intros]: "keeps g f \<Longrightarrow> keeps g h \<Longrightarrow> keeps g (if b then f else h)"
  by simp

lemma keeps_case_of:
  assumes "keeps g f" and "\<And>a. keeps g (k a)"
  shows "keeps g (\<lambda>w. case f w of (a, w1) \<Rightarrow> k a w1)"
  by (rule keepsI) (auto split: prod.splits dest!: keepsD [OF assms(1)] keepsD [OF assms(2)])

lemma try_or_op_Ok_iff [result_simps]:
  "try_or_op f h k w = (Inr b, w') \<longleftrightarrow> (\<exists>a w1. f w = (Inr a, w1) \<and> k a w1 = (Inr b, w'))"
  by (auto simp: try_or_op_def split: prod.splits sum.splits)

section \<open>Machine integers\<close>

definition u64_max :: nat where "u64_max = 2 ^ 64 - 1"
definition i64_max :: nat where "i64_max = 2 ^ 63 - 1"

definition saturating_add_u64 :: "nat \<Rightarrow> nat \<Rightarrow> nat" where
  "saturating_add_u64 a b = min (a + b) u64_max"

text \<open>\<open>u64 as\<close> of a wider unsigned value keeps the low 64 bits.\<close>

definition as_u64 :: "nat \<Rightarrow> nat" where
  "as_u64 n = n mod 2 ^ 64"

text \<open>\<open>i64::try_from(u64)\<close> and \<open>u64::try_from(i64)\<close>.\<close>

definition i64_try_from_u64 :: "nat \<Rightarrow> int option" where
  "i64_try_from_u64 n = (if n \<le> i64_max then Some (int n) else None)"

definition u64_try_from_i64 :: "int \<Rightarrow> nat option" where
  "u64_try_from_i64 z = (if 0 \<le> z then Some (nat z) else None)"

lemma u64_i64_roundtrip: "i64_try_from_u64 n = Some z \<Longrightarrow> u64_try_from_i64 z = Some n"
  by (auto simp: i64_try_from_u64_def u64_try_from_i64_def split: if_splits)

lemma saturating_add_u64_le: "saturating_add_u64 a b \<le> u64_max"
  by (simp add: saturating_add_u64_def)

section \<open>Text\<close>

definition digit_char :: "nat \<Rightarrow> char" where
  "digit_char d = (if d < 10 then char_of (48 + d) else char_of (87 + d))"

definition digit_val :: "char \<Rightarrow> nat" where
  "digit_val c = (if of_char c < (58::nat) then of_char c - 48 else of_char c - 87)"

text \<open>\<open>format!("{n}")\<close> is \<open>radix 10\<close>, \<open>format!("{n:x}")\<close> is \<open>radix 16\<close>.\<close>

fun radix :: "nat \<Rightarrow> nat \<Rightarrow> string" where
  "radix b n = (if b < 2 \<or> n < b then [digit_char n]
     else radix b (n div b) @ [digit_char (n mod b)])"

declare radix.simps [simp del]

abbreviation show_nat :: "nat \<Rightarrow> string" where "show_nat \<equiv> radix 10"
abbreviation show_hex :: "nat \<Rightarrow> string" where "show_hex \<equiv> radix 16"

definition digits_val :: "nat \<Rightarrow> string \<Rightarrow> nat" where
  "digits_val b s = foldl (\<lambda>a c. b * a + digit_val c) 0 s"

lemma digit_val_char [simp]: "d < 16 \<Longrightarrow> digit_val (digit_char d) = d"
  by (auto simp: digit_val_def digit_char_def)

lemma digits_val_radix: "2 \<le> b \<Longrightarrow> b \<le> 16 \<Longrightarrow> digits_val b (radix b n) = n"
proof (induction b n rule: radix.induct)
  case (1 b n)
  show ?case
  proof (cases "n < b")
    case True
    then show ?thesis using 1(2,3) by (subst radix.simps) (simp add: digits_val_def)
  next
    case False
    then have "digits_val b (radix b (n div b)) = n div b" using 1 by simp
    moreover have "n mod b < 16"
      using 1(2,3) mod_less_divisor [of b n] by linarith
    ultimately show ?thesis using False 1(2,3)
      by (subst radix.simps) (simp add: digits_val_def)
  qed
qed

lemma radix_inj: "2 \<le> b \<Longrightarrow> b \<le> 16 \<Longrightarrow> radix b m = radix b n \<longleftrightarrow> m = n"
  by (metis digits_val_radix)

lemma show_nat_inj [simp]: "show_nat m = show_nat n \<longleftrightarrow> m = n"
  by (rule radix_inj) auto

lemma show_hex_inj [simp]: "show_hex m = show_hex n \<longleftrightarrow> m = n"
  by (rule radix_inj) auto

definition is_digit_char :: "char \<Rightarrow> bool" where
  "is_digit_char c \<longleftrightarrow> (48::nat) \<le> of_char c \<and> of_char c \<le> (57::nat)
     \<or> (97::nat) \<le> of_char c \<and> of_char c \<le> (102::nat)"

lemma is_digit_char_digit: "d < 16 \<Longrightarrow> is_digit_char (digit_char d)"
  by (auto simp: is_digit_char_def digit_char_def)

lemma radix_digits:
  "2 \<le> b \<Longrightarrow> b \<le> 16 \<Longrightarrow> c \<in> set (radix b n) \<Longrightarrow> is_digit_char c"
proof (induction b n rule: radix.induct)
  case (1 b n)
  show ?case
  proof (cases "n < b")
    case True
    then show ?thesis using 1(2-4) by (subst (asm) radix.simps) (auto intro: is_digit_char_digit)
  next
    case False
    have mod: "is_digit_char (digit_char (n mod b))"
      using 1(2,3) by (auto intro!: is_digit_char_digit simp: order_less_le_trans[OF mod_less_divisor])
    have "c \<in> set (radix b (n div b)) \<or> c = digit_char (n mod b)"
      using 1(2,4) False by (subst (asm) radix.simps) auto
    then show ?thesis using 1(1) 1(2,3) False mod by auto
  qed
qed

lemma separator_not_digit [simp]: "\<not> is_digit_char CHR '':''" "\<not> is_digit_char CHR ''-''"
  by (auto simp: is_digit_char_def)

lemma radix_nonempty [simp]: "radix b n \<noteq> []"
  by (subst radix.simps) simp

text \<open>Text before a separator that the text itself does not hold is determined by the whole.\<close>

lemma append_sep_inj:
  "\<lbrakk>xs @ c # ys = xs' @ c # ys'; c \<notin> set ys; c \<notin> set ys'\<rbrakk> \<Longrightarrow> xs = xs' \<and> ys = ys'"
proof (induction xs arbitrary: xs')
  case Nil
  then show ?case by (cases xs') auto
next
  case (Cons x xs)
  then show ?case by (cases xs') auto
qed

text \<open>\<open>str::to_ascii_lowercase\<close> and \<open>str::contains\<close>.\<close>

definition ascii_lower :: "char \<Rightarrow> char" where
  "ascii_lower c = (if (65::nat) \<le> of_char c \<and> of_char c \<le> (90::nat)
     then char_of (of_char c + (32::nat)) else c)"

definition to_ascii_lowercase :: "string \<Rightarrow> string" where
  "to_ascii_lowercase s = map ascii_lower s"

fun starts_with :: "string \<Rightarrow> string \<Rightarrow> bool" where
  "starts_with s [] = True"
| "starts_with [] (p # ps) = False"
| "starts_with (c # cs) (p # ps) = (c = p \<and> starts_with cs ps)"

fun contains :: "string \<Rightarrow> string \<Rightarrow> bool" where
  "contains [] p = (p = [])"
| "contains (c # cs) p = (starts_with (c # cs) p \<or> contains cs p)"

lemma starts_with_prefix: "starts_with s p \<longleftrightarrow> prefix p s"
  by (induction s p rule: starts_with.induct) auto

lemma contains_sublist: "contains s p \<longleftrightarrow> sublist p s"
proof (induction s)
  case (Cons c cs)
  show ?case by (simp add: Cons starts_with_prefix sublist_Cons_right del: starts_with.simps)
qed simp

section \<open>Lists\<close>

lemma nth_append_map_upt:
  "length xs = n \<Longrightarrow> map ((!) (xs @ ys)) [n..<n + length ys] = ys"
  by (rule nth_equalityI) (auto simp: nth_append)

lemma prefix_length_eq: "prefix xs ys \<Longrightarrow> length xs = length ys \<Longrightarrow> xs = ys"
  by (auto simp: prefix_def)

lemma prefix_length_exact:
  "\<lbrakk>prefix xs ys; length ys \<le> length xs\<rbrakk> \<Longrightarrow> xs = ys"
  by (auto simp: prefix_def)

lemma takeWhile_length_filter_sorted:
  "sorted_wrt (<) (map f xs) \<Longrightarrow>
   drop (length (takeWhile (\<lambda>x. f x \<le> (c::'k::linorder)) xs)) xs = filter (\<lambda>x. c < f x) xs"
proof (induction xs)
  case (Cons x xs)
  show ?case
  proof (cases "f x \<le> c")
    case False
    then have "\<forall>y\<in>set xs. c < f y" using Cons.prems by auto
    then show ?thesis using False by (simp add: filter_id_conv not_le)
  qed (use Cons in \<open>auto simp: not_less\<close>)
qed simp

end
