(* ===== verification/Event_Model.thy ===== *)
theory Event_Model
  imports Prelude "HOL-Library.List_Lexorder" "HOL-Library.Char_ord"
begin

text \<open>
  The event data model of \<open>src/event.rs\<close> and \<open>src/metadata.rs\<close>: the stable name types
  (\<open>EventType\<close>, \<open>AggregateType\<close>, \<open>EventId\<close>), event metadata, the concurrency expectation of
  an append, a new event, and the persisted envelope with its builder.  A Rust \<open>String\<close> is the
  list of its UTF-8 bytes; \<open>Cow\<close> is the string it holds.  A \<open>SystemTime\<close> is its signed distance
  from the epoch in nanoseconds.  A \<open>u64\<close> revision or sequence is a \<open>nat\<close>: it counts stored
  events, so it stays below \<open>2 ^ 64\<close>.
\<close>

section \<open>Names and identifiers\<close>

type_synonym revision = nat
type_synonym system_time = int

definition INITIAL_REVISION :: revision where
  "INITIAL_REVISION = 0"

datatype event_type = EventType string
datatype aggregate_type = AggregateType string
datatype event_id = EventId string

text \<open>\<open>EventType::new\<close>, \<open>from_static\<close> and the \<open>From\<close> conversions all store the name.\<close>

definition event_type_new :: "string \<Rightarrow> event_type" where
  "event_type_new value = EventType value"

definition event_type_from_static :: "string \<Rightarrow> event_type" where
  "event_type_from_static value = EventType value"

fun event_type_as_str :: "event_type \<Rightarrow> string" where
  "event_type_as_str (EventType s) = s"

definition aggregate_type_new :: "string \<Rightarrow> aggregate_type" where
  "aggregate_type_new value = AggregateType value"

definition aggregate_type_from_static :: "string \<Rightarrow> aggregate_type" where
  "aggregate_type_from_static value = AggregateType value"

fun aggregate_type_as_str :: "aggregate_type \<Rightarrow> string" where
  "aggregate_type_as_str (AggregateType s) = s"

definition event_id_from_string :: "string \<Rightarrow> event_id" where
  "event_id_from_string value = EventId value"

fun event_id_as_str :: "event_id \<Rightarrow> string" where
  "event_id_as_str (EventId s) = s"

text \<open>
  \<open>EventId::new\<close> without the \<open>uuid\<close> feature.  \<open>nanos\<close> is the clock reading, 0 when the clock
  stands before the epoch; \<open>counter\<close> is the process-wide atomic counter, which the call
  advances (\<open>fetch_add\<close> wraps at \<open>2 ^ 64\<close>).
\<close>

definition event_id_new :: "nat \<Rightarrow> nat \<Rightarrow> event_id \<times> nat" where
  "event_id_new nanos counter =
     (EventId (''evt-'' @ show_hex nanos @ ''-'' @ show_hex counter), as_u64 (counter + 1))"

text \<open>\<open>n\<close> successive calls, with the clock reading of each.\<close>

fun event_ids :: "nat list \<Rightarrow> nat \<Rightarrow> event_id list" where
  "event_ids [] counter = []"
| "event_ids (t # ts) counter =
     (let (i, counter') = event_id_new t counter in i # event_ids ts counter')"

lemma event_id_new_inj:
  "fst (event_id_new t c) = fst (event_id_new t' c') \<longleftrightarrow> t = t' \<and> c = c'"
proof
  assume eq: "fst (event_id_new t c) = fst (event_id_new t' c')"
  have "CHR ''-'' \<notin> set (show_hex n)" for n
    using radix_digits [of 16 "CHR ''-''" n] by auto
  with eq show "t = t' \<and> c = c'"
    using append_sep_inj [of "show_hex t" "CHR ''-''" "show_hex c" "show_hex t'" "show_hex c'"]
    by (simp add: event_id_new_def)
qed simp

lemma event_ids_counter:
  "i \<in> set (event_ids ts c) \<Longrightarrow> c + length ts \<le> 2 ^ 64 \<Longrightarrow>
   \<exists>t c'. c \<le> c' \<and> c' < c + length ts \<and> i = fst (event_id_new t c')"
proof (induction ts arbitrary: c)
  case (Cons t ts)
  show ?case
  proof (cases "i = fst (event_id_new t c)")
    case False
    moreover have "ts \<noteq> [] \<Longrightarrow> as_u64 (c + 1) = c + 1"
      using Cons.prems(2) by (cases ts) (simp_all add: as_u64_def)
    ultimately have "i \<in> set (event_ids ts (c + 1))"
      using Cons.prems(1) by (cases ts) (auto simp: event_id_new_def)
    then obtain t' c' where "c + 1 \<le> c'" "c' < c + 1 + length ts" "i = fst (event_id_new t' c')"
      using Cons.IH [of "c + 1"] Cons.prems(2) by auto
    then show ?thesis by (intro exI [of _ t'] exI [of _ c']) simp
  qed (use Cons in force)
qed simp

text \<open>The derived \<open>Ord\<close> of an identifier is the byte order of its text.\<close>

instantiation event_id :: linorder
begin

definition less_eq_event_id :: "event_id \<Rightarrow> event_id \<Rightarrow> bool" where
  "less_eq_event_id a b \<longleftrightarrow> event_id_as_str a \<le> event_id_as_str b"

definition less_event_id :: "event_id \<Rightarrow> event_id \<Rightarrow> bool" where
  "less_event_id a b \<longleftrightarrow> event_id_as_str a < event_id_as_str b"

instance
proof
  fix x y z :: event_id
  show "x < y \<longleftrightarrow> x \<le> y \<and> \<not> y \<le> x"
    by (auto simp: less_eq_event_id_def less_event_id_def)
  show "x \<le> x" by (simp add: less_eq_event_id_def)
  show "x \<le> y \<Longrightarrow> y \<le> z \<Longrightarrow> x \<le> z" by (simp add: less_eq_event_id_def)
  show "x \<le> y \<Longrightarrow> y \<le> x \<Longrightarrow> x = y"
    by (cases x; cases y) (simp add: less_eq_event_id_def)
  show "x \<le> y \<or> y \<le> x" by (auto simp: less_eq_event_id_def)
qed

end

section \<open>Metadata\<close>

record metadata =
  md_correlation_id :: "string option"
  md_causation_id :: "string option"
  md_actor_id :: "string option"
  md_tenant_id :: "string option"
  md_request_id :: "string option"
  md_headers :: "string \<rightharpoonup> string"

definition metadata_new :: metadata where
  "metadata_new = \<lparr>md_correlation_id = None, md_causation_id = None, md_actor_id = None,
     md_tenant_id = None, md_request_id = None, md_headers = Map.empty\<rparr>"

definition with_correlation_id :: "metadata \<Rightarrow> string \<Rightarrow> metadata" where
  "with_correlation_id m v = m\<lparr>md_correlation_id := Some v\<rparr>"

definition with_causation_id :: "metadata \<Rightarrow> string \<Rightarrow> metadata" where
  "with_causation_id m v = m\<lparr>md_causation_id := Some v\<rparr>"

definition with_actor_id :: "metadata \<Rightarrow> string \<Rightarrow> metadata" where
  "with_actor_id m v = m\<lparr>md_actor_id := Some v\<rparr>"

definition with_tenant_id :: "metadata \<Rightarrow> string \<Rightarrow> metadata" where
  "with_tenant_id m v = m\<lparr>md_tenant_id := Some v\<rparr>"

definition with_request_id :: "metadata \<Rightarrow> string \<Rightarrow> metadata" where
  "with_request_id m v = m\<lparr>md_request_id := Some v\<rparr>"

definition with_header :: "metadata \<Rightarrow> string \<Rightarrow> string \<Rightarrow> metadata" where
  "with_header m k v = m\<lparr>md_headers := (md_headers m)(k \<mapsto> v)\<rparr>"

section \<open>Appending\<close>

datatype expected_revision = Any | NoStream | Exact revision

text \<open>The \<open>DomainEvent\<close> implementation of an event type: its stable name and schema version.\<close>

record 'e domain_event =
  de_event_type :: "'e \<Rightarrow> string"
  de_event_version :: "'e \<Rightarrow> nat"

record 'e new_event =
  ne_payload :: 'e
  ne_event_type :: event_type
  ne_event_version :: nat
  ne_metadata :: metadata

definition new_event_new :: "'e domain_event \<Rightarrow> 'e \<Rightarrow> metadata \<Rightarrow> 'e new_event" where
  "new_event_new D payload metadata =
     (let event_type = event_type_from_static (de_event_type D payload);
          event_version = de_event_version D payload
      in \<lparr>ne_payload = payload, ne_event_type = event_type, ne_event_version = event_version,
          ne_metadata = metadata\<rparr>)"

definition new_event_with_type :: "'e \<Rightarrow> event_type \<Rightarrow> metadata \<Rightarrow> 'e new_event" where
  "new_event_with_type payload event_type metadata =
     \<lparr>ne_payload = payload, ne_event_type = event_type, ne_event_version = 1,
      ne_metadata = metadata\<rparr>"

definition new_event_with_version :: "'e new_event \<Rightarrow> nat \<Rightarrow> 'e new_event" where
  "new_event_with_version e v = e\<lparr>ne_event_version := v\<rparr>"

section \<open>Persisted envelopes\<close>

record ('e, 'id) event_envelope =
  env_event_id :: event_id
  env_aggregate_id :: 'id
  env_aggregate_type :: aggregate_type
  env_revision :: revision
  env_sequence :: "nat option"
  env_event_type :: event_type
  env_event_version :: nat
  env_payload :: 'e
  env_metadata :: metadata
  env_recorded_at :: system_time

type_synonym ('e, 'id) event_stream = "('e, 'id) event_envelope list"

definition envelope_new ::
  "event_id \<Rightarrow> 'id \<Rightarrow> aggregate_type \<Rightarrow> revision \<Rightarrow> nat option \<Rightarrow> event_type \<Rightarrow> nat \<Rightarrow> 'e \<Rightarrow>
   metadata \<Rightarrow> system_time \<Rightarrow> ('e, 'id) event_envelope" where
  "envelope_new event_id aggregate_id aggregate_type revision sequence event_type event_version
     payload metadata recorded_at =
     \<lparr>env_event_id = event_id, env_aggregate_id = aggregate_id,
      env_aggregate_type = aggregate_type, env_revision = revision, env_sequence = sequence,
      env_event_type = event_type, env_event_version = event_version, env_payload = payload,
      env_metadata = metadata, env_recorded_at = recorded_at\<rparr>"

text \<open>
  \<open>EventEnvelope::builder\<close> and its setters; \<open>now\<close> is the clock reading of the call.  The
  builder is the envelope it holds, so \<open>build\<close> returns it.
\<close>

definition envelope_builder ::
  "system_time \<Rightarrow> event_id \<Rightarrow> 'id \<Rightarrow> aggregate_type \<Rightarrow> revision \<Rightarrow> event_type \<Rightarrow> 'e \<Rightarrow>
   ('e, 'id) event_envelope" where
  "envelope_builder now event_id aggregate_id aggregate_type revision event_type payload =
     \<lparr>env_event_id = event_id, env_aggregate_id = aggregate_id,
      env_aggregate_type = aggregate_type, env_revision = revision, env_sequence = None,
      env_event_type = event_type, env_event_version = 1, env_payload = payload,
      env_metadata = metadata_new, env_recorded_at = now\<rparr>"

definition builder_sequence ::
  "('e, 'id) event_envelope \<Rightarrow> nat \<Rightarrow> ('e, 'id) event_envelope" where
  "builder_sequence b v = b\<lparr>env_sequence := Some v\<rparr>"

definition builder_event_version ::
  "('e, 'id) event_envelope \<Rightarrow> nat \<Rightarrow> ('e, 'id) event_envelope" where
  "builder_event_version b v = b\<lparr>env_event_version := v\<rparr>"

definition builder_metadata ::
  "('e, 'id) event_envelope \<Rightarrow> metadata \<Rightarrow> ('e, 'id) event_envelope" where
  "builder_metadata b v = b\<lparr>env_metadata := v\<rparr>"

definition builder_recorded_at ::
  "('e, 'id) event_envelope \<Rightarrow> system_time \<Rightarrow> ('e, 'id) event_envelope" where
  "builder_recorded_at b v = b\<lparr>env_recorded_at := v\<rparr>"

definition map_payload ::
  "('e, 'id) event_envelope \<Rightarrow> ('e \<Rightarrow> 't) \<Rightarrow> ('t, 'id) event_envelope" where
  "map_payload env f =
     \<lparr>env_event_id = env_event_id env, env_aggregate_id = env_aggregate_id env,
      env_aggregate_type = env_aggregate_type env, env_revision = env_revision env,
      env_sequence = env_sequence env, env_event_type = env_event_type env,
      env_event_version = env_event_version env, env_payload = f (env_payload env),
      env_metadata = env_metadata env, env_recorded_at = env_recorded_at env\<rparr>"

section \<open>Facts\<close>

lemma envelope_new_simps [simp]:
  "env_event_id (envelope_new i a t r s et v p m at) = i"
  "env_aggregate_id (envelope_new i a t r s et v p m at) = a"
  "env_aggregate_type (envelope_new i a t r s et v p m at) = t"
  "env_revision (envelope_new i a t r s et v p m at) = r"
  "env_sequence (envelope_new i a t r s et v p m at) = s"
  "env_event_type (envelope_new i a t r s et v p m at) = et"
  "env_event_version (envelope_new i a t r s et v p m at) = v"
  "env_payload (envelope_new i a t r s et v p m at) = p"
  "env_metadata (envelope_new i a t r s et v p m at) = m"
  "env_recorded_at (envelope_new i a t r s et v p m at) = at"
  by (simp_all add: envelope_new_def)

lemma new_event_new_simps [simp]:
  "ne_payload (new_event_new D p m) = p"
  "ne_event_type (new_event_new D p m) = EventType (de_event_type D p)"
  "ne_event_version (new_event_new D p m) = de_event_version D p"
  "ne_metadata (new_event_new D p m) = m"
  by (simp_all add: new_event_new_def Let_def event_type_from_static_def)

text \<open>The builder with every setter called reaches every envelope.\<close>

lemma builder_complete:
  "builder_recorded_at (builder_metadata (builder_event_version (builder_sequence
     (envelope_builder now i a t r et p) s) v) m) at = envelope_new i a t r (Some s) et v p m at"
  by (simp add: envelope_builder_def builder_sequence_def builder_event_version_def
      builder_metadata_def builder_recorded_at_def envelope_new_def)

text \<open>Mapping payloads is functorial and keeps the position of an event in its stream.\<close>

lemma map_payload_comp: "map_payload (map_payload e f) g = map_payload e (g \<circ> f)"
  by (simp add: map_payload_def)

text \<open>Process-local event identifiers are unique.  Whatever the clock reads, and even if it
  stands still or steps back, no two of the identifiers generated before the process-wide
  counter wraps are equal.\<close>

lemma event_ids_distinct:
  "c + length ts \<le> 2 ^ 64 \<Longrightarrow> distinct (event_ids ts c)"
proof (induction ts arbitrary: c)
  case (Cons t ts)
  show ?case
  proof (cases "ts = []")
    case False
    then have next_counter: "as_u64 (c + 1) = c + 1"
      using Cons.prems by (cases ts) (simp_all add: as_u64_def)
    have "fst (event_id_new t c) \<notin> set (event_ids ts (c + 1))"
      using event_ids_counter [of "fst (event_id_new t c)" ts "c + 1"] Cons.prems
      by (auto simp: event_id_new_inj)
    then show ?thesis
      using Cons next_counter by (simp add: event_id_new_def)
  qed (simp add: event_id_new_def)
qed simp


lemma event_ids_distinct_witness:
  "distinct (event_ids [7, 7, 3] 1)"
  by (rule event_ids_distinct) simp

end
