(* ===== verification/Store_Errors.thy ===== *)
theory Store_Errors
  imports Event_Model
begin

text \<open>
  The error taxonomy of \<open>src/error.rs\<close>: concurrency failures, the event store error with its
  constructors, classification and rendering, and the repository error with the conversion
  \<open>into_repository_error\<close>.  An attached source error is kept as its display text.
\<close>

section \<open>Concurrency errors\<close>

datatype concurrency_error =
    StreamAlreadyExists
  | WrongExpectedRevision expected_revision revision
  | StaleSnapshotRevision revision revision

definition concurrency_is_retryable :: "concurrency_error \<Rightarrow> bool" where
  "concurrency_is_retryable e = True"

text \<open>The derived \<open>Debug\<close> text of the expectation.\<close>

fun debug_expected_revision :: "expected_revision \<Rightarrow> string" where
  "debug_expected_revision Any = ''Any''"
| "debug_expected_revision NoStream = ''NoStream''"
| "debug_expected_revision (Exact r) = ''Exact('' @ show_nat r @ '')''"

fun display_concurrency_error :: "concurrency_error \<Rightarrow> string" where
  "display_concurrency_error StreamAlreadyExists = ''event stream already exists''"
| "display_concurrency_error (WrongExpectedRevision expected actual) =
     ''wrong expected revision: expected '' @ debug_expected_revision expected @
     '', actual revision '' @ show_nat actual"
| "display_concurrency_error (StaleSnapshotRevision offered current) =
     ''stale snapshot revision: offered '' @ show_nat offered @ '', current '' @ show_nat current"

section \<open>Event store errors\<close>

datatype event_store_error_kind =
  KConcurrency | KSerialization | KDeserialization | KConnection | KPoisoned | KBackend | KUnknown

text \<open>Message, code and source of the variants that carry them, in this order.\<close>

datatype event_store_error =
    Concurrency concurrency_error
  | Serialization string "string option" "string option"
  | Deserialization string "string option" "string option"
  | Connection string "string option" "string option"
  | Poisoned
  | Backend string "string option" "string option"
  | Unknown string "string option" "string option"

definition error_serialization :: "string \<Rightarrow> event_store_error" where
  "error_serialization message = Serialization message None None"

definition error_deserialization :: "string \<Rightarrow> event_store_error" where
  "error_deserialization message = Deserialization message None None"

definition error_connection :: "string \<Rightarrow> event_store_error" where
  "error_connection message = Connection message None None"

definition error_backend :: "string \<Rightarrow> event_store_error" where
  "error_backend message = Backend message None None"

definition error_unknown :: "string \<Rightarrow> event_store_error" where
  "error_unknown message = Unknown message None None"

fun with_code :: "event_store_error \<Rightarrow> string \<Rightarrow> event_store_error" where
  "with_code (Serialization m c s) v = Serialization m (Some v) s"
| "with_code (Deserialization m c s) v = Deserialization m (Some v) s"
| "with_code (Connection m c s) v = Connection m (Some v) s"
| "with_code (Backend m c s) v = Backend m (Some v) s"
| "with_code (Unknown m c s) v = Unknown m (Some v) s"
| "with_code (Concurrency e) v = Concurrency e"
| "with_code Poisoned v = Poisoned"

fun with_source :: "event_store_error \<Rightarrow> string \<Rightarrow> event_store_error" where
  "with_source (Serialization m c s) v = Serialization m c (Some v)"
| "with_source (Deserialization m c s) v = Deserialization m c (Some v)"
| "with_source (Connection m c s) v = Connection m c (Some v)"
| "with_source (Backend m c s) v = Backend m c (Some v)"
| "with_source (Unknown m c s) v = Unknown m c (Some v)"
| "with_source (Concurrency e) v = Concurrency e"
| "with_source Poisoned v = Poisoned"

definition serialization_with_source :: "string \<Rightarrow> string \<Rightarrow> event_store_error" where
  "serialization_with_source message source = with_source (error_serialization message) source"

definition deserialization_with_source :: "string \<Rightarrow> string \<Rightarrow> event_store_error" where
  "deserialization_with_source message source =
     with_source (error_deserialization message) source"

definition connection_with_source :: "string \<Rightarrow> string \<Rightarrow> event_store_error" where
  "connection_with_source message source = with_source (error_connection message) source"

definition backend_with_source :: "string \<Rightarrow> string \<Rightarrow> event_store_error" where
  "backend_with_source message source = with_source (error_backend message) source"

definition unknown_with_source :: "string \<Rightarrow> string \<Rightarrow> event_store_error" where
  "unknown_with_source message source = with_source (error_unknown message) source"

fun error_kind :: "event_store_error \<Rightarrow> event_store_error_kind" where
  "error_kind (Concurrency _) = KConcurrency"
| "error_kind (Serialization _ _ _) = KSerialization"
| "error_kind (Deserialization _ _ _) = KDeserialization"
| "error_kind (Connection _ _ _) = KConnection"
| "error_kind Poisoned = KPoisoned"
| "error_kind (Backend _ _ _) = KBackend"
| "error_kind (Unknown _ _ _) = KUnknown"

fun public_message :: "event_store_error \<Rightarrow> string" where
  "public_message (Concurrency error) = (case error of
       StreamAlreadyExists \<Rightarrow> ''event stream already exists''
     | WrongExpectedRevision _ _ \<Rightarrow> ''wrong expected revision for append''
     | StaleSnapshotRevision _ _ \<Rightarrow> ''stale snapshot revision'')"
| "public_message (Serialization m _ _) = m"
| "public_message (Deserialization m _ _) = m"
| "public_message (Connection m _ _) = m"
| "public_message (Backend m _ _) = m"
| "public_message (Unknown m _ _) = m"
| "public_message Poisoned = ''event store lock was poisoned''"

fun store_source :: "event_store_error \<Rightarrow> string option" where
  "store_source (Serialization _ _ s) = s"
| "store_source (Deserialization _ _ s) = s"
| "store_source (Connection _ _ s) = s"
| "store_source (Backend _ _ s) = s"
| "store_source (Unknown _ _ s) = s"
| "store_source (Concurrency _) = None"
| "store_source Poisoned = None"

fun error_code :: "event_store_error \<Rightarrow> string option" where
  "error_code (Serialization _ c _) = c"
| "error_code (Deserialization _ c _) = c"
| "error_code (Connection _ c _) = c"
| "error_code (Backend _ c _) = c"
| "error_code (Unknown _ c _) = c"
| "error_code (Concurrency _) = None"
| "error_code Poisoned = None"

definition is_stream_revision_violation_lower :: "string \<Rightarrow> bool" where
  "is_stream_revision_violation_lower lower \<longleftrightarrow>
     (if contains lower ''event_id'' then False
      else contains lower ''revision'' \<and>
        (contains lower ''aggregate'' \<or> contains lower ''aggregate_id'' \<or>
         contains lower ''aggregate_type'' \<or> contains lower ''idx_aggregate_revision''))"

definition is_retryable_backend_conflict :: "string \<Rightarrow> string option \<Rightarrow> bool" where
  "is_retryable_backend_conflict message code =
     (let lower = to_ascii_lowercase message
      in if contains lower ''locked'' then True
         else if code \<in> {Some ''23505'', Some ''1062'', Some ''40001''}
           then is_stream_revision_violation_lower lower
         else (contains lower ''unique'' \<or> contains lower ''duplicate'' \<or>
               contains lower ''constraint'') \<and> is_stream_revision_violation_lower lower)"

fun is_retryable :: "event_store_error \<Rightarrow> bool" where
  "is_retryable (Concurrency _) = True"
| "is_retryable (Connection _ _ _) = True"
| "is_retryable (Backend message code _) = is_retryable_backend_conflict message code"
| "is_retryable (Serialization _ _ _) = False"
| "is_retryable (Deserialization _ _ _) = False"
| "is_retryable Poisoned = False"
| "is_retryable (Unknown _ _ _) = False"

text \<open>\<open>PartialEq\<close> compares message and code and ignores the source.\<close>

fun event_store_error_eq :: "event_store_error \<Rightarrow> event_store_error \<Rightarrow> bool" where
  "event_store_error_eq (Concurrency l) (Concurrency r) = (l = r)"
| "event_store_error_eq Poisoned Poisoned = True"
| "event_store_error_eq (Serialization l lc _) (Serialization r rc _) = (l = r \<and> lc = rc)"
| "event_store_error_eq (Deserialization l lc _) (Deserialization r rc _) = (l = r \<and> lc = rc)"
| "event_store_error_eq (Connection l lc _) (Connection r rc _) = (l = r \<and> lc = rc)"
| "event_store_error_eq (Backend l lc _) (Backend r rc _) = (l = r \<and> lc = rc)"
| "event_store_error_eq (Unknown l lc _) (Unknown r rc _) = (l = r \<and> lc = rc)"
| "event_store_error_eq _ _ = False"

fun display_event_store_error :: "event_store_error \<Rightarrow> string" where
  "display_event_store_error (Concurrency error) = display_concurrency_error error"
| "display_event_store_error (Serialization m _ _) = ''serialization error: '' @ m"
| "display_event_store_error (Deserialization m _ _) = ''deserialization error: '' @ m"
| "display_event_store_error (Connection m _ _) = ''connection error: '' @ m"
| "display_event_store_error Poisoned = ''event store lock was poisoned''"
| "display_event_store_error (Backend m _ _) = ''event store backend error: '' @ m"
| "display_event_store_error (Unknown m _ _) = ''unknown event store error: '' @ m"

text \<open>\<open>Error::source\<close>: the wrapped concurrency error or the attached source.\<close>

fun error_source :: "event_store_error \<Rightarrow> string option" where
  "error_source (Concurrency error) = Some (display_concurrency_error error)"
| "error_source (Serialization _ _ s) = s"
| "error_source (Deserialization _ _ s) = s"
| "error_source (Connection _ _ s) = s"
| "error_source (Backend _ _ s) = s"
| "error_source (Unknown _ _ s) = s"
| "error_source Poisoned = None"

section \<open>Repository errors\<close>

datatype ('de, 'se) repository_error =
    RDomain 'de
  | RConcurrency concurrency_error
  | RStore 'se

text \<open>
  \<open>EventStoreFailure\<close>: how a store's error becomes a repository error.  The trait's default
  keeps every error opaque; \<open>EventStoreError\<close> surfaces its concurrency failures.
\<close>

definition default_into_repository_error :: "'se \<Rightarrow> ('de, 'se) repository_error" where
  "default_into_repository_error e = RStore e"

definition default_is_retryable :: "'se \<Rightarrow> bool" where
  "default_is_retryable e = False"

fun into_repository_error :: "event_store_error \<Rightarrow> ('de, event_store_error) repository_error" where
  "into_repository_error (Concurrency error) = RConcurrency error"
| "into_repository_error error = RStore error"

fun repository_error_from :: "event_store_error \<Rightarrow> ('de, event_store_error) repository_error" where
  "repository_error_from (Concurrency error) = RConcurrency error"
| "repository_error_from error = RStore error"

fun repository_is_retryable :: "('se \<Rightarrow> bool) \<Rightarrow> ('de, 'se) repository_error \<Rightarrow> bool" where
  "repository_is_retryable store_retryable (RConcurrency error) = concurrency_is_retryable error"
| "repository_is_retryable store_retryable (RStore error) = store_retryable error"
| "repository_is_retryable store_retryable (RDomain _) = False"

fun display_repository_error ::
  "('de \<Rightarrow> string) \<Rightarrow> ('se \<Rightarrow> string) \<Rightarrow> ('de, 'se) repository_error \<Rightarrow> string" where
  "display_repository_error dd ds (RDomain error) = dd error"
| "display_repository_error dd ds (RConcurrency error) = display_concurrency_error error"
| "display_repository_error dd ds (RStore error) = ds error"

section \<open>Facts\<close>

lemma event_store_error_eq_iff:
  "event_store_error_eq a b \<longleftrightarrow>
     error_kind a = error_kind b \<and> public_message a = public_message b \<and>
     error_code a = error_code b \<and> (\<forall>e. a = Concurrency e \<longleftrightarrow> b = Concurrency e)"
  by (cases a; cases b) auto

lemma with_source_eq: "event_store_error_eq (with_source e s) e"
  by (cases e) auto

lemma event_store_error_eq_display:
  "event_store_error_eq a b \<Longrightarrow> display_event_store_error a = display_event_store_error b"
  by (cases a; cases b) auto

lemma event_store_error_eq_retryable:
  "event_store_error_eq a b \<Longrightarrow> is_retryable a = is_retryable b"
  by (cases a; cases b) auto

lemma repository_error_from_into: "repository_error_from e = into_repository_error e"
  by (cases e) auto

lemma contains_lower_aggregate:
  "contains s ''aggregate_id'' \<Longrightarrow> contains s ''aggregate''"
  "contains s ''aggregate_type'' \<Longrightarrow> contains s ''aggregate''"
proof -
  have "sublist ''aggregate'' (''aggregate'' @ t)" for t :: string
    by (rule prefix_imp_sublist) simp
  from this [of "''_id''"] this [of "''_type''"]
  show "contains s ''aggregate_id'' \<Longrightarrow> contains s ''aggregate''"
    and "contains s ''aggregate_type'' \<Longrightarrow> contains s ''aggregate''"
    by (auto simp: contains_sublist intro: sublist_order.order_trans)
qed

text \<open>
  The two weaker \<open>aggregate\<close> tests of the source are subsumed by the first one: the last
  \<open>idx_aggregate_revision\<close> test is the same.
\<close>

lemma is_stream_revision_violation_lower_simplified:
  "is_stream_revision_violation_lower s \<longleftrightarrow>
     \<not> contains s ''event_id'' \<and> contains s ''revision'' \<and> contains s ''aggregate''"
proof -
  have "sublist ''aggregate'' (''idx_'' @ ''aggregate'' @ ''_revision'')"
    by (rule sublist_appendI)
  then have "contains s ''idx_aggregate_revision'' \<Longrightarrow> contains s ''aggregate''"
    by (auto simp: contains_sublist intro: sublist_order.order_trans)
  then show ?thesis
    using contains_lower_aggregate [of s] by (auto simp: is_stream_revision_violation_lower_def)
qed

text \<open>The hand-written equality of event store errors is an equivalence relation that ignores
  only the attached source, and every classification of an error respects it: equal errors have
  the same kind, code, public message, display text, retry verdict and repository
  classification.\<close>

lemma event_store_error_eq_congruence:
  "equivp event_store_error_eq \<and>
   (\<forall>e s. event_store_error_eq (with_source e s) e) \<and>
   (\<forall>a b. event_store_error_eq a b \<longrightarrow>
      error_kind a = error_kind b \<and> error_code a = error_code b \<and>
      public_message a = public_message b \<and>
      display_event_store_error a = display_event_store_error b \<and>
      is_retryable a = is_retryable b \<and>
      (\<forall>c. into_repository_error a = RConcurrency c \<longleftrightarrow>
           into_repository_error b = (RConcurrency c :: (unit, _) repository_error)))"
proof (intro conjI allI impI)
  show "equivp event_store_error_eq"
    by (rule equivpI) (auto simp: reflp_def symp_def transp_def event_store_error_eq_iff)
next
  fix a b c assume "event_store_error_eq a b"
  then show "into_repository_error a = RConcurrency c \<longleftrightarrow>
           into_repository_error b = (RConcurrency c :: (unit, _) repository_error)"
    by (cases a; cases b) auto
next
  show "event_store_error_eq (with_source e s) e" for e s
    by (rule with_source_eq)
qed (auto simp: event_store_error_eq_iff [THEN iffD1]
      event_store_error_eq_display event_store_error_eq_retryable)

lemma event_store_error_eq_congruence_witness:
  "is_retryable (Backend ''database is locked'' None (Some ''io''))
   = is_retryable (Backend ''database is locked'' None None)"
proof -
  have "event_store_error_eq (Backend ''database is locked'' None (Some ''io''))
          (Backend ''database is locked'' None None)" by simp
  then show ?thesis using event_store_error_eq_congruence by blast
qed

text \<open>Which errors the library retries.  A store error is retryable exactly when it is a
  concurrency or connection failure, or a backend failure that reports a lock, or one that
  reports a violation of the stream-revision uniqueness and not of event identity: a collision
  of event identifiers is never retried unless the message also reports a lock.\<close>

lemma is_retryable_characterised:
  "is_retryable e \<longleftrightarrow>
     (\<exists>c. e = Concurrency c) \<or> (\<exists>m c s. e = Connection m c s) \<or>
     (\<exists>m c s. e = Backend m c s \<and>
        (contains (to_ascii_lowercase m) ''locked'' \<or>
         (c \<in> {Some ''23505'', Some ''1062'', Some ''40001''} \<or>
          contains (to_ascii_lowercase m) ''unique'' \<or>
          contains (to_ascii_lowercase m) ''duplicate'' \<or>
          contains (to_ascii_lowercase m) ''constraint'') \<and>
         \<not> contains (to_ascii_lowercase m) ''event_id'' \<and>
         contains (to_ascii_lowercase m) ''revision'' \<and>
         contains (to_ascii_lowercase m) ''aggregate''))"
  by (cases e) (auto simp: is_retryable_backend_conflict_def Let_def
      is_stream_revision_violation_lower_simplified)

end
