(* ===== verification/Aggregate_Core.thy ===== *)
theory Aggregate_Core
  imports Store_Errors
begin

text \<open>
  \<open>src/aggregate.rs\<close> and the pure helpers of \<open>src/repository_support.rs\<close>.  An implementation of
  the \<open>Aggregate\<close> trait is application code: it is the record \<open>aggregate\<close> of its functions, an
  argument of every definition that uses it.  \<open>handle\<close> decides events or rejects the command,
  \<open>apply\<close> evolves the state, \<open>replay\<close> folds a stored stream.
\<close>

record ('st, 'cmd, 'e, 'de) aggregate =
  agg_aggregate_type :: string
  agg_new :: 'st
  agg_apply :: "'st \<Rightarrow> 'e \<Rightarrow> 'st"
  agg_handle :: "'st \<Rightarrow> 'cmd \<Rightarrow> 'de + 'e list"
  agg_event :: "'e domain_event"

record 'st loaded_aggregate =
  la_state :: 'st
  la_revision :: revision

definition loaded_aggregate_new :: "'st \<Rightarrow> revision \<Rightarrow> 'st loaded_aggregate" where
  "loaded_aggregate_new state revision = \<lparr>la_state = state, la_revision = revision\<rparr>"

definition into_inner :: "'st loaded_aggregate \<Rightarrow> 'st" where
  "into_inner loaded = la_state loaded"

section \<open>Replay\<close>

text \<open>The loop shared by every replay: apply each payload, keep the last revision seen.\<close>

fun replay_loop ::
  "('st, 'cmd, 'e, 'de) aggregate \<Rightarrow> 'st \<Rightarrow> revision \<Rightarrow> ('e, 'id) event_stream \<Rightarrow>
   'st \<times> revision" where
  "replay_loop A state revision [] = (state, revision)"
| "replay_loop A state revision (envelope # events) =
     replay_loop A (agg_apply A state (env_payload envelope)) (env_revision envelope) events"

definition replay ::
  "('st, 'cmd, 'e, 'de) aggregate \<Rightarrow> ('e, 'id) event_stream \<Rightarrow> 'st loaded_aggregate" where
  "replay A events =
     (let (state, revision) = replay_loop A (agg_new A) INITIAL_REVISION events
      in loaded_aggregate_new state revision)"

fun apply_raw_loop :: "('st, 'cmd, 'e, 'de) aggregate \<Rightarrow> 'st \<Rightarrow> 'e list \<Rightarrow> 'st" where
  "apply_raw_loop A state [] = state"
| "apply_raw_loop A state (event # events) = apply_raw_loop A (agg_apply A state event) events"

definition replay_raw_events_from_zero ::
  "('st, 'cmd, 'e, 'de) aggregate \<Rightarrow> 'e list \<Rightarrow> 'st loaded_aggregate" where
  "replay_raw_events_from_zero A events =
     (let state = apply_raw_loop A (agg_new A) events
      in \<lparr>la_state = state, la_revision = length events\<rparr>)"

section \<open>Deciding and applying events\<close>

definition new_events_with_metadata ::
  "('st, 'cmd, 'e, 'de) aggregate \<Rightarrow> 'e list \<Rightarrow> metadata \<Rightarrow> 'e new_event list" where
  "new_events_with_metadata A events metadata =
     map (\<lambda>event. new_event_new (agg_event A) event metadata) events"

definition handle_command_as_new_events ::
  "('st, 'cmd, 'e, 'de) aggregate \<Rightarrow> 'st \<Rightarrow> 'cmd \<Rightarrow> metadata \<Rightarrow> 'de + 'e new_event list" where
  "handle_command_as_new_events A state command metadata =
     map_ok (\<lambda>events. new_events_with_metadata A events metadata) (agg_handle A state command)"

definition apply_committed_events ::
  "('st, 'cmd, 'e, 'de) aggregate \<Rightarrow> 'st loaded_aggregate \<Rightarrow> ('e, 'id) event_stream \<Rightarrow>
   'st loaded_aggregate" where
  "apply_committed_events A loaded committed =
     (let (state, revision) = replay_loop A (la_state loaded) (la_revision loaded) committed
      in loaded\<lparr>la_state := state, la_revision := revision\<rparr>)"

section \<open>Facts\<close>

text \<open>A well-formed stream: revisions count from \<open>r + 1\<close> without a gap.\<close>

fun contiguous_from :: "revision \<Rightarrow> ('e, 'id) event_stream \<Rightarrow> bool" where
  "contiguous_from r [] = True"
| "contiguous_from r (e # es) = (env_revision e = Suc r \<and> contiguous_from (Suc r) es)"

lemma contiguous_from_append:
  "contiguous_from r (xs @ ys) \<longleftrightarrow> contiguous_from r xs \<and> contiguous_from (r + length xs) ys"
  by (induction xs arbitrary: r) auto

lemma contiguous_from_revisions:
  "contiguous_from r es \<longleftrightarrow> map env_revision es = [Suc r..<Suc (r + length es)]"
proof (induction es arbitrary: r)
  case (Cons e es)
  show ?case
    by (subst upt_rec) (auto simp: Cons.IH)
qed simp

lemma contiguous_from_bounds:
  "contiguous_from r es \<Longrightarrow> e \<in> set es \<Longrightarrow> r < env_revision e \<and> env_revision e \<le> r + length es"
  by (induction es arbitrary: r) fastforce+

lemma contiguous_filter_after:
  "contiguous_from r es \<Longrightarrow> r \<le> k \<Longrightarrow> filter (\<lambda>e. k < env_revision e) es = drop (k - r) es"
proof (induction es arbitrary: r)
  case (Cons e es)
  show ?case
  proof (cases "r = k")
    case True
    then have "\<forall>x\<in>set (e # es). k < env_revision x"
      using contiguous_from_bounds [OF Cons.prems(1)] by blast
    then show ?thesis using True by (simp add: filter_id_conv)
  next
    case False
    then have "filter (\<lambda>e. k < env_revision e) es = drop (k - Suc r) es"
      using Cons by simp
    moreover have "\<not> k < env_revision e" "k - r = Suc (k - Suc r)"
      using Cons.prems False by auto
    ultimately show ?thesis by simp
  qed
qed simp

lemma replay_loop_append:
  "replay_loop A st r (xs @ ys) =
     (let (st', r') = replay_loop A st r xs in replay_loop A st' r' ys)"
  by (induction xs arbitrary: st r) auto

lemma replay_loop_state:
  "fst (replay_loop A st r es) = apply_raw_loop A st (map env_payload es)"
  by (induction es arbitrary: st r) auto

lemma replay_loop_revision:
  "snd (replay_loop A st r es) = (if es = [] then r else env_revision (last es))"
  by (induction es arbitrary: st r) auto

lemma replay_loop_contiguous:
  "contiguous_from r es \<Longrightarrow> snd (replay_loop A st r es) = r + length es"
  by (induction es arbitrary: st r) auto

lemma apply_raw_loop_append:
  "apply_raw_loop A st (xs @ ys) = apply_raw_loop A (apply_raw_loop A st xs) ys"
  by (induction xs arbitrary: st) auto

lemma apply_raw_loop_foldl: "apply_raw_loop A st es = foldl (agg_apply A) st es"
  by (induction es arbitrary: st) auto

lemma replay_simps:
  "la_state (replay A es) = apply_raw_loop A (agg_new A) (map env_payload es)"
  "la_revision (replay A es) = (if es = [] then 0 else env_revision (last es))"
  using replay_loop_state [of A "agg_new A" INITIAL_REVISION es]
    replay_loop_revision [of A "agg_new A" INITIAL_REVISION es]
  by (auto simp: replay_def loaded_aggregate_new_def INITIAL_REVISION_def split: prod.splits)

lemma replay_contiguous: "contiguous_from 0 es \<Longrightarrow> la_revision (replay A es) = length es"
  using replay_loop_contiguous [of 0 es A "agg_new A"]
  by (auto simp: replay_def loaded_aggregate_new_def INITIAL_REVISION_def split: prod.splits)

lemma replay_snoc_committed:
  "apply_committed_events A (replay A es) cs = replay A (es @ cs)"
  by (auto simp: apply_committed_events_def replay_def replay_loop_append
      loaded_aggregate_new_def split: prod.splits)

lemma new_events_with_metadata_payload [simp]:
  "map ne_payload (new_events_with_metadata A es m) = es"
  by (simp add: new_events_with_metadata_def comp_def)

lemma handle_command_as_new_events_Ok:
  "handle_command_as_new_events A st c m = Inr nes \<longleftrightarrow>
     (\<exists>es. agg_handle A st c = Inr es \<and> nes = new_events_with_metadata A es m)"
  by (auto simp: handle_command_as_new_events_def result_simps)

lemma handle_command_as_new_events_Err:
  "handle_command_as_new_events A st c m = Inl e \<longleftrightarrow> agg_handle A st c = Inl e"
  by (cases "agg_handle A st c") (auto simp: handle_command_as_new_events_def)

text \<open>Replaying a well-formed stored stream gives the same state and revision as folding its
  raw payloads from zero: the stored envelopes add nothing but the revision, and the loaded
  revision is the number of events.\<close>

lemma replay_matches_raw_replay:
  "contiguous_from 0 es \<Longrightarrow>
   replay A es = replay_raw_events_from_zero A (map env_payload es)"
  by (rule loaded_aggregate.equality)
     (simp_all add: replay_simps(1) replay_contiguous replay_raw_events_from_zero_def Let_def)

lemma replay_matches_raw_replay_witness:
  "replay \<lparr>agg_aggregate_type = ''counter'', agg_new = 0, agg_apply = (+),
      agg_handle = (\<lambda>s c. Ok [c] :: string + nat list),
      agg_event = \<lparr>de_event_type = (\<lambda>_. ''incremented''), de_event_version = (\<lambda>_. 1)\<rparr>\<rparr>
     [envelope_new (EventId ''e1'') ''c'' (AggregateType ''counter'') 1 (Some 1)
        (EventType ''incremented'') 1 (5::nat) metadata_new 0]
   = replay_raw_events_from_zero \<lparr>agg_aggregate_type = ''counter'', agg_new = 0, agg_apply = (+),
      agg_handle = (\<lambda>s c. Ok [c] :: string + nat list),
      agg_event = \<lparr>de_event_type = (\<lambda>_. ''incremented''), de_event_version = (\<lambda>_. 1)\<rparr>\<rparr> [5]"
proof -
  have "contiguous_from 0 [envelope_new (EventId ''e1'') ''c'' (AggregateType ''counter'') 1
      (Some 1) (EventType ''incremented'') 1 (5::nat) metadata_new 0]" by simp
  from replay_matches_raw_replay [OF this] show ?thesis by simp
qed

end
