(* ===== verification/Event_Store.thy ===== *)
theory Event_Store
  imports Aggregate_Core
begin

text \<open>
  The \<open>EventStore\<close> interface of \<open>src/event_store.rs\<close>.  A store is the record \<open>event_store\<close> of
  the trait's methods as operations on the shared state \<open>'w\<close>; the trait's provided methods
  are definitions over it.  The locale \<open>event_store_contract\<close> states what a store promises when
  other writers may act around every call: streams only grow, a load returns a state of the
  stream that existed during the call, and a successful append lands exactly where its
  expectation says.  \<open>quiet_event_store\<close> is the same store with no other writer, and
  \<open>event_feed\<close> the globally ordered feed projections read.
\<close>

section \<open>Interface\<close>

datatype ('k, 'se) idempotent_append_error = APending 'k | AStore 'se

fun display_idempotent_append_error ::
  "('k \<Rightarrow> string) \<Rightarrow> ('se \<Rightarrow> string) \<Rightarrow> ('k, 'se) idempotent_append_error \<Rightarrow> string" where
  "display_idempotent_append_error dk ds (APending key) =
     ''idempotency key `'' @ dk key @ ''` is pending''"
| "display_idempotent_append_error dk ds (AStore error) = ds error"

definition GLOBAL_REPLAY_PAGE_SIZE :: nat where
  "GLOBAL_REPLAY_PAGE_SIZE = 500"

record ('w, 'id, 'e, 'se) event_store =
  es_load :: "'id \<Rightarrow> ('w, 'se + ('e, 'id) event_stream) op"
  es_load_after_revision :: "'id \<Rightarrow> revision \<Rightarrow> ('w, 'se + ('e, 'id) event_stream) op"
  es_append :: "'id \<Rightarrow> expected_revision \<Rightarrow> 'e new_event list \<Rightarrow>
     ('w, 'se + ('e, 'id) event_stream) op"
  es_load_global_after_limited :: "nat option \<Rightarrow> nat \<Rightarrow> ('w, 'se + ('e, 'id) event_stream) op"

text \<open>The provided \<open>load_after_revision\<close>: load the whole stream and filter.\<close>

definition default_load_after_revision ::
  "('id \<Rightarrow> ('w, 'se + ('e, 'id) event_stream) op) \<Rightarrow> 'id \<Rightarrow> revision \<Rightarrow>
   ('w, 'se + ('e, 'id) event_stream) op" where
  "default_load_after_revision load aggregate_id revision w =
     (case load aggregate_id w of
        (Inl e, w') \<Rightarrow> (Err e, w')
      | (Inr events, w') \<Rightarrow> (Ok (filter (\<lambda>event. env_revision event > revision) events), w'))"

text \<open>
  The provided \<open>load_global_after\<close>: pages of \<open>GLOBAL_REPLAY_PAGE_SIZE\<close> until a short page or
  one whose last sequence does not move the cursor.  \<open>page_size\<close> is a parameter so that
  concrete runs can use small pages.
\<close>

definition cursor_advances :: "nat option \<Rightarrow> nat \<Rightarrow> bool" where
  "cursor_advances cursor sequence \<longleftrightarrow> (case cursor of None \<Rightarrow> True | Some c \<Rightarrow> sequence > c)"

definition last_event_sequence :: "('e, 'id) event_stream \<Rightarrow> nat option" where
  "last_event_sequence page = (if page = [] then None else env_sequence (last page))"

partial_function (option) drain_global ::
  "(nat option \<Rightarrow> nat \<Rightarrow> ('w, 'se + ('e, 'id) event_stream) op) \<Rightarrow> nat \<Rightarrow> nat option \<Rightarrow>
   ('e, 'id) event_stream \<Rightarrow> 'w \<Rightarrow> (('se + ('e, 'id) event_stream) \<times> 'w) option" where
  "drain_global load page_size cursor all w =
     (case load cursor page_size w of
        (Inl e, w') \<Rightarrow> Some (Err e, w')
      | (Inr page, w') \<Rightarrow>
          (if length page < page_size then Some (Ok (all @ page), w')
           else case last_event_sequence page of
             None \<Rightarrow> Some (Ok (all @ page), w')
           | Some sequence \<Rightarrow>
               if cursor_advances cursor sequence
               then drain_global load page_size (Some sequence) (all @ page) w'
               else Some (Ok (all @ page), w')))"

definition default_load_global_after ::
  "(nat option \<Rightarrow> nat \<Rightarrow> ('w, 'se + ('e, 'id) event_stream) op) \<Rightarrow> nat option \<Rightarrow> 'w \<Rightarrow>
   (('se + ('e, 'id) event_stream) \<times> 'w) option" where
  "default_load_global_after load sequence w =
     drain_global load GLOBAL_REPLAY_PAGE_SIZE sequence [] w"

section \<open>What an append expects\<close>

fun expectation_met :: "expected_revision \<Rightarrow> revision \<Rightarrow> bool" where
  "expectation_met Any actual = True"
| "expectation_met NoStream actual = (actual = 0)"
| "expectation_met (Exact r) actual = (r = actual)"

fun expectation_error :: "expected_revision \<Rightarrow> revision \<Rightarrow> concurrency_error" where
  "expectation_error NoStream actual = StreamAlreadyExists"
| "expectation_error x actual = WrongExpectedRevision x actual"

section \<open>The contract\<close>

locale event_store_contract =
  fixes S :: "('w, 'id, 'e, 'se) event_store"
    and inv :: "'w \<Rightarrow> bool"
    and strm :: "'w \<Rightarrow> 'id \<Rightarrow> ('e, 'id) event_stream"
  assumes contiguous: "inv w \<Longrightarrow> contiguous_from 0 (strm w i)"
    and load_step: "inv w \<Longrightarrow> es_load S i w = (r, w') \<Longrightarrow>
      inv w' \<and> (\<forall>j. prefix (strm w j) (strm w' j)) \<and>
      (\<forall>es. r = Inr es \<longrightarrow> prefix (strm w i) es \<and> prefix es (strm w' i))"
    and load_after_step: "inv w \<Longrightarrow> es_load_after_revision S i k w = (r, w') \<Longrightarrow>
      inv w' \<and> (\<forall>j. prefix (strm w j) (strm w' j)) \<and>
      (\<forall>es. r = Inr es \<longrightarrow> (\<exists>seen. prefix (strm w i) seen \<and> prefix seen (strm w' i) \<and>
         es = filter (\<lambda>e. env_revision e > k) seen))"
    and append_step: "inv w \<Longrightarrow> es_append S i x evs w = (r, w') \<Longrightarrow>
      inv w' \<and> (\<forall>j. prefix (strm w j) (strm w' j)) \<and>
      (\<forall>cs. r = Inr cs \<longrightarrow> (\<exists>before. prefix (strm w i) before \<and>
         prefix (before @ cs) (strm w' i) \<and> expectation_met x (length before) \<and>
         map env_payload cs = map ne_payload evs))"
begin

lemma load_Ok_contiguous:
  assumes "inv w" "es_load S i w = (Inr es, w')"
  shows "contiguous_from 0 es"
proof -
  have "inv w'" "prefix es (strm w' i)" using load_step [OF assms] by auto
  then show ?thesis using contiguous [of w' i] by (auto simp: prefix_def contiguous_from_append)
qed

text \<open>A load followed by an exact append at the loaded revision extends the loaded stream.\<close>

lemma load_then_exact_append:
  assumes "inv w" "es_load S i w = (Inr es, w1)"
    and "es_append S i (Exact (length es)) evs w1 = (Inr cs, w2)"
  shows "prefix (es @ cs) (strm w2 i) \<and> map env_payload cs = map ne_payload evs"
proof -
  have 1: "inv w1" "prefix es (strm w1 i)" using load_step [OF assms(1,2)] by auto
  obtain before where "prefix (strm w1 i) before" "prefix (before @ cs) (strm w2 i)"
    and "expectation_met (Exact (length es)) (length before)"
    and "map env_payload cs = map ne_payload evs"
    using append_step [OF 1(1) assms(3)] by auto
  then show ?thesis
    using 1(2) prefix_length_eq [of es before] prefix_order.trans by auto
qed

end

text \<open>No other writer acts: reads do not change the streams, an append adds what it returns.\<close>

locale quiet_event_store = event_store_contract +
  assumes load_quiet: "inv w \<Longrightarrow> es_load S i w = (r, w') \<Longrightarrow> strm w' = strm w"
    and load_after_quiet: "inv w \<Longrightarrow> es_load_after_revision S i k w = (r, w') \<Longrightarrow> strm w' = strm w"
    and append_quiet: "inv w \<Longrightarrow> es_append S i x evs w = (Inr cs, w') \<Longrightarrow>
      strm w' = (strm w)(i := strm w i @ cs)"
    and append_failed_quiet: "inv w \<Longrightarrow> es_append S i x evs w = (Inl e, w') \<Longrightarrow> strm w' = strm w"
begin

lemma load_exact: "inv w \<Longrightarrow> es_load S i w = (Inr es, w') \<Longrightarrow> es = strm w i"
  using load_step [of w i "Inr es" w'] load_quiet [of w i "Inr es" w']
  by (auto dest: prefix_order.antisym)

lemma load_after_exact:
  "inv w \<Longrightarrow> es_load_after_revision S i k w = (Inr es, w') \<Longrightarrow>
   es = filter (\<lambda>e. env_revision e > k) (strm w i)"
  using load_after_step [of w i k "Inr es" w'] load_after_quiet [of w i k "Inr es" w']
  by (auto dest: prefix_order.antisym)

end

section \<open>The global feed\<close>

text \<open>Sequences of a feed are assigned and strictly increasing.\<close>

definition feed_sorted :: "('e, 'id) event_stream \<Rightarrow> bool" where
  "feed_sorted es \<longleftrightarrow> (\<forall>e\<in>set es. env_sequence e \<noteq> None) \<and>
     sorted_wrt (<) (map (\<lambda>e. the (env_sequence e)) es)"

definition after_cursor :: "nat option \<Rightarrow> ('e, 'id) event_stream \<Rightarrow> ('e, 'id) event_stream" where
  "after_cursor cursor es = (case cursor of
      None \<Rightarrow> es
    | Some c \<Rightarrow> filter (\<lambda>e. c < the (env_sequence e)) es)"

lemma feed_sorted_Cons:
  "feed_sorted (e # es) \<longleftrightarrow> (\<exists>s. env_sequence e = Some s \<and>
     (\<forall>x\<in>set es. s < the (env_sequence x))) \<and> feed_sorted es"
  by (auto simp: feed_sorted_def)

lemma feed_sorted_append:
  "feed_sorted (xs @ ys) \<longleftrightarrow> feed_sorted xs \<and> feed_sorted ys \<and>
     (\<forall>x\<in>set xs. \<forall>y\<in>set ys. the (env_sequence x) < the (env_sequence y))"
  by (auto simp: feed_sorted_def sorted_wrt_append)

lemma feed_sorted_filter: "feed_sorted es \<Longrightarrow> feed_sorted (filter P es)"
  by (auto simp: feed_sorted_def sorted_wrt_map intro: sorted_wrt_filter)

lemma feed_sorted_take: "feed_sorted es \<Longrightarrow> feed_sorted (take n es)"
  by (metis append_take_drop_id feed_sorted_append)

lemma feed_sorted_after: "feed_sorted es \<Longrightarrow> feed_sorted (after_cursor c es)"
  by (auto simp: after_cursor_def feed_sorted_filter split: option.splits)

lemma last_event_sequence_take:
  "\<lbrakk>feed_sorted es; 0 < n; es \<noteq> []\<rbrakk> \<Longrightarrow>
   \<exists>s. last_event_sequence (take n es) = Some s \<and> filter (\<lambda>e. s < the (env_sequence e)) es = drop n es"
proof -
  assume a: "feed_sorted es" "0 < n" "es \<noteq> []"
  let ?t = "take n es"
  have split: "es = ?t @ drop n es" and ne: "?t \<noteq> []" using a by auto
  have sorted: "feed_sorted ?t" "feed_sorted (butlast ?t @ [last ?t])"
    and cross: "\<forall>x\<in>set ?t. \<forall>y\<in>set (drop n es). the (env_sequence x) < the (env_sequence y)"
    using a(1) ne by (metis split feed_sorted_append append_butlast_last_id)+
  have lt: "last ?t \<in> set ?t" using ne by simp
  obtain s where s: "env_sequence (last ?t) = Some s"
    using sorted(1) lt by (auto simp: feed_sorted_def)
  have "\<forall>x\<in>set ?t. \<not> s < the (env_sequence x)"
  proof
    fix x assume "x \<in> set ?t"
    then have "x = last ?t \<or> x \<in> set (butlast ?t)"
      using ne by (metis in_set_butlastD append_butlast_last_id rotate1.simps(2) set_ConsD set_rotate1)
    then show "\<not> s < the (env_sequence x)"
      using sorted(2) s by (auto simp: feed_sorted_append)
  qed
  then have "filter (\<lambda>e. s < the (env_sequence e)) ?t = []" by (simp add: filter_empty_conv)
  moreover have "filter (\<lambda>e. s < the (env_sequence e)) (drop n es) = drop n es"
    using cross lt s by (auto simp: filter_id_conv)
  ultimately have "filter (\<lambda>e. s < the (env_sequence e)) es = drop n es"
    by (metis split filter_append append_Nil)
  then show ?thesis using ne s by (auto simp: last_event_sequence_def)
qed

lemma after_cursor_comp:
  "cursor_advances c s \<Longrightarrow>
   filter (\<lambda>e. s < the (env_sequence e)) (after_cursor c es) = after_cursor (Some s) es"
  by (auto simp: after_cursor_def cursor_advances_def split: option.splits intro!: filter_cong)

lemma after_cursor_page:
  assumes "feed_sorted es" "0 < n" "n \<le> length (after_cursor c es)"
  shows "\<exists>s. last_event_sequence (take n (after_cursor c es)) = Some s \<and> cursor_advances c s \<and>
     after_cursor (Some s) es = drop n (after_cursor c es)"
proof -
  let ?rest = "after_cursor c es"
  have ne: "?rest \<noteq> []" using assms by auto
  obtain s where s: "last_event_sequence (take n ?rest) = Some s"
    "filter (\<lambda>e. s < the (env_sequence e)) ?rest = drop n ?rest"
    using last_event_sequence_take [OF feed_sorted_after [OF assms(1)] assms(2) ne] by blast
  have "last (take n ?rest) \<in> set ?rest"
    using assms(2) ne by (metis in_set_takeD last_in_set take_eq_Nil2 not_gr_zero)
  moreover have "env_sequence (last (take n ?rest)) = Some s"
    using s(1) by (auto simp: last_event_sequence_def split: if_splits)
  ultimately have "cursor_advances c s"
    by (auto simp: cursor_advances_def after_cursor_def split: option.splits)
  then show ?thesis using s after_cursor_comp by metis
qed

text \<open>A store read by one client: the feed is a fixed sorted log and reads do not change it.\<close>

locale event_feed =
  fixes load :: "nat option \<Rightarrow> nat \<Rightarrow> ('w, 'se + ('e, 'id) event_stream) op"
    and finv :: "'w \<Rightarrow> bool"
    and feed :: "'w \<Rightarrow> ('e, 'id) event_stream"
    and max_limit :: "'w \<Rightarrow> nat"
  assumes feed_sorted: "finv w \<Longrightarrow> feed_sorted (feed w)"
    and load_page: "finv w \<Longrightarrow> n \<le> max_limit w \<Longrightarrow>
      load c n w = (Inr (take n (after_cursor c (feed w))), w)"
begin

lemma drain_complete:
  "\<lbrakk>finv w; 0 < n; n \<le> max_limit w\<rbrakk> \<Longrightarrow>
   drain_global load n c all w = Some (Inr (all @ after_cursor c (feed w)), w)"
proof (induction "length (after_cursor c (feed w))" arbitrary: c all rule: less_induct)
  case less
  let ?rest = "after_cursor c (feed w)"
  have page: "load c n w = (Inr (take n ?rest), w)" using less.prems by (intro load_page)
  show ?case
  proof (cases "length ?rest < n")
    case True
    then show ?thesis by (subst drain_global.simps) (simp add: page)
  next
    case False
    then obtain s where s: "last_event_sequence (take n ?rest) = Some s" "cursor_advances c s"
      "after_cursor (Some s) (feed w) = drop n ?rest"
      using after_cursor_page [OF feed_sorted [OF less.prems(1)] less.prems(2), of c] by auto
    have "length (after_cursor (Some s) (feed w)) < length ?rest"
      using False s(3) less.prems(2) by simp
    from less.hyps [OF this less.prems, of "all @ take n ?rest"] show ?thesis
      using False s by (subst drain_global.simps) (simp add: page)
  qed
qed

end

section \<open>Other writers\<close>

text \<open>
  A store shared with other clients: the second component holds, per call, the append
  requests that win the race and are served before it.  This is every interleaving of the
  client's calls with the calls of other writers.
\<close>

type_synonym ('id, 'e) append_request = "'id \<times> expected_revision \<times> 'e new_event list"
type_synonym ('w, 'id, 'e) shared = "'w \<times> ('id, 'e) append_request list list"

fun serve :: "('w, 'id, 'e, 'se) event_store \<Rightarrow> ('id, 'e) append_request list \<Rightarrow> 'w \<Rightarrow> 'w" where
  "serve S [] w = w"
| "serve S ((i, x, evs) # reqs) w = serve S reqs (snd (es_append S i x evs w))"

fun serve_next ::
  "('w, 'id, 'e, 'se) event_store \<Rightarrow> ('w, 'id, 'e) shared \<Rightarrow> ('w, 'id, 'e) shared" where
  "serve_next S (w, []) = (w, [])"
| "serve_next S (w, reqs # pending) = (serve S reqs w, pending)"

definition in_turn ::
  "('w, 'id, 'e, 'se) event_store \<Rightarrow> ('w, 'a) op \<Rightarrow> (('w, 'id, 'e) shared, 'a) op" where
  "in_turn S f sh = (let (w, pending) = serve_next S sh; (r, w') = f w in (r, (w', pending)))"

definition interleaved ::
  "('w, 'id, 'e, 'se) event_store \<Rightarrow> (('w, 'id, 'e) shared, 'id, 'e, 'se) event_store" where
  "interleaved S = \<lparr>es_load = (\<lambda>i. in_turn S (es_load S i)),
     es_load_after_revision = (\<lambda>i k. in_turn S (es_load_after_revision S i k)),
     es_append = (\<lambda>i x evs. in_turn S (es_append S i x evs)),
     es_load_global_after_limited = (\<lambda>c n. in_turn S (es_load_global_after_limited S c n))\<rparr>"

context event_store_contract
begin

lemma serve_grows:
  "inv w \<Longrightarrow> inv (serve S reqs w) \<and> (\<forall>j. prefix (strm w j) (strm (serve S reqs w) j))"
proof (induction reqs arbitrary: w)
  case (Cons req reqs)
  obtain i x evs where req: "req = (i, x, evs)" by (cases req)
  have step: "inv (snd (es_append S i x evs w))"
    "\<forall>j. prefix (strm w j) (strm (snd (es_append S i x evs w)) j)"
    using append_step [OF Cons.prems prod.collapse [symmetric]] by blast+
  show ?case
    using Cons.IH [OF step(1)] step(2) req by (auto intro: prefix_order.trans)
qed simp

lemma serve_next_grows:
  "inv (fst sh) \<Longrightarrow> serve_next S sh = (w, pending) \<Longrightarrow>
   inv w \<and> (\<forall>j. prefix (strm (fst sh) j) (strm w j))"
  using serve_grows by (cases "(S, sh)" rule: serve_next.cases) auto

lemma in_turn_unfold:
  "in_turn S f sh = (r, sh') \<longleftrightarrow>
   (\<exists>w pending w'. serve_next S sh = (w, pending) \<and> f w = (r, w') \<and> sh' = (w', pending))"
  by (auto simp: in_turn_def split: prod.splits)

lemma interleaved_contract:
  "event_store_contract (interleaved S) (inv \<circ> fst) (strm \<circ> fst)"
proof (unfold_locales, goal_cases)
  case (1 w i)
  then show ?case by (simp add: contiguous)
next
  case (2 w i r w')
  then obtain u p u' where u: "serve_next S w = (u, p)" "es_load S i u = (r, u')" "w' = (u', p)"
    by (auto simp: interleaved_def in_turn_unfold)
  have g: "inv u" "\<And>j. prefix (strm (fst w) j) (strm u j)"
    using serve_next_grows [OF _ u(1)] 2(1) by auto
  have h: "inv u'" "\<And>j. prefix (strm u j) (strm u' j)"
    "\<And>es. r = Inr es \<Longrightarrow> prefix (strm u i) es \<and> prefix es (strm u' i)"
    using load_step [OF g(1) u(2)] by auto
  show ?case using prefix_order.trans [OF g(2) h(2)] prefix_order.trans [OF g(2)] h u(3) by simp
next
  case (3 w i k r w')
  then obtain u p u' where u: "serve_next S w = (u, p)"
    "es_load_after_revision S i k u = (r, u')" "w' = (u', p)"
    by (auto simp: interleaved_def in_turn_unfold)
  have g: "inv u" "\<And>j. prefix (strm (fst w) j) (strm u j)"
    using serve_next_grows [OF _ u(1)] 3(1) by auto
  have h: "inv u'" "\<And>j. prefix (strm u j) (strm u' j)"
    "\<And>es. r = Inr es \<Longrightarrow> \<exists>seen. prefix (strm u i) seen \<and> prefix seen (strm u' i) \<and>
       es = filter (\<lambda>e. env_revision e > k) seen"
    using load_after_step [OF g(1) u(2)] by auto
  have "\<exists>seen. prefix (strm (fst w) i) seen \<and> prefix seen (strm u' i) \<and>
       es = filter (\<lambda>e. env_revision e > k) seen" if "r = Inr es" for es
    using h(3) [OF that] prefix_order.trans [OF g(2) [of i]] by blast
  then show ?case using prefix_order.trans [OF g(2) h(2)] h(1) u(3) by simp
next
  case (4 w i x evs r w')
  then obtain u p u' where u: "serve_next S w = (u, p)" "es_append S i x evs u = (r, u')"
    "w' = (u', p)"
    by (auto simp: interleaved_def in_turn_unfold)
  have g: "inv u" "\<And>j. prefix (strm (fst w) j) (strm u j)"
    using serve_next_grows [OF _ u(1)] 4(1) by auto
  have h: "inv u'" "\<And>j. prefix (strm u j) (strm u' j)"
    "\<And>cs. r = Inr cs \<Longrightarrow> \<exists>before. prefix (strm u i) before \<and> prefix (before @ cs) (strm u' i) \<and>
       expectation_met x (length before) \<and> map env_payload cs = map ne_payload evs"
    using append_step [OF g(1) u(2)] by auto
  have "\<exists>before. prefix (strm (fst w) i) before \<and> prefix (before @ cs) (strm u' i) \<and>
       expectation_met x (length before) \<and> map env_payload cs = map ne_payload evs"
    if "r = Inr cs" for cs
    using h(3) [OF that] prefix_order.trans [OF g(2) [of i]] by blast
  then show ?case using prefix_order.trans [OF g(2) h(2)] h(1) u(3) by simp
qed

end

end
