(* ===== verification/Timing.thy ===== *)
theory Timing
  imports Prelude
begin

text \<open>
  Durations and clocks of the Rust standard library as the crate uses them.  A \<open>Duration\<close> is its
  number of nanoseconds, at most \<open>duration_max\<close>.  A \<open>clock\<close> is a source of readings: the
  \<open>k\<close>-th reading of \<open>SystemTime\<close> is arbitrary (a wall clock may stand still or step back), while
  \<open>Instant\<close> never goes back and a sleep of \<open>d\<close> lasts at least \<open>d\<close>.  A \<open>timer\<close> is the clock
  as the operations of a larger state see it, and the locale \<open>monotonic_timer\<close> its contract.
\<close>

section \<open>Durations\<close>

type_synonym duration = nat

definition nanos_per_milli :: nat where "nanos_per_milli = 1000000"
definition nanos_per_sec :: nat where "nanos_per_sec = 1000000000"
definition duration_max :: duration where
  "duration_max = u64_max * nanos_per_sec + (nanos_per_sec - 1)"

definition from_millis :: "nat \<Rightarrow> duration" where "from_millis n = n * nanos_per_milli"
definition from_secs :: "nat \<Rightarrow> duration" where "from_secs n = n * nanos_per_sec"
definition as_millis :: "duration \<Rightarrow> nat" where "as_millis d = d div nanos_per_milli"

definition duration_saturating_add :: "duration \<Rightarrow> duration \<Rightarrow> duration" where
  "duration_saturating_add a b = min (a + b) duration_max"

definition duration_checked_sub :: "duration \<Rightarrow> duration \<Rightarrow> duration option" where
  "duration_checked_sub a b = (if b \<le> a then Some (a - b) else None)"

section \<open>Clocks\<close>

record clock =
  ck_wall :: "nat \<Rightarrow> int"
  ck_wall_reads :: nat
  ck_mono :: nat
  ck_drift :: "nat \<Rightarrow> nat"
  ck_mono_reads :: nat

text \<open>\<open>now_ms\<close> of \<open>src/idempotency.rs\<close>: milliseconds since the epoch, 0 before it.\<close>

definition millis_of_system_time :: "int \<Rightarrow> nat" where
  "millis_of_system_time t = (if t < 0 then 0 else as_u64 (as_millis (nat t)))"

definition now_ms :: "(clock, nat) op" where
  "now_ms c = (millis_of_system_time (ck_wall c (ck_wall_reads c)),
     c\<lparr>ck_wall_reads := ck_wall_reads c + 1\<rparr>)"

definition instant_now :: "(clock, nat) op" where
  "instant_now c = (let t = ck_mono c + ck_drift c (ck_mono_reads c)
     in (t, c\<lparr>ck_mono := t, ck_mono_reads := ck_mono_reads c + 1\<rparr>))"

definition thread_sleep :: "duration \<Rightarrow> (clock, unit) op" where
  "thread_sleep d c = ((), c\<lparr>ck_mono := ck_mono c + d + ck_drift c (ck_mono_reads c),
     ck_mono_reads := ck_mono_reads c + 1\<rparr>)"

section \<open>Components of a larger state\<close>

text \<open>An operation on one component, as an operation on the state that holds it.\<close>

definition lift_op :: "('w \<Rightarrow> 's) \<Rightarrow> ('s \<Rightarrow> 'w \<Rightarrow> 'w) \<Rightarrow> ('s, 'a) op \<Rightarrow> ('w, 'a) op" where
  "lift_op get put f w = (let (r, s) = f (get w) in (r, put s w))"

lemma lift_op_iff:
  "lift_op get put f w = (r, w') \<longleftrightarrow> (\<exists>s. f (get w) = (r, s) \<and> w' = put s w)"
  by (auto simp: lift_op_def split: prod.splits)

lemma snd_lift_op: "snd (lift_op get put f w) = put (snd (f (get w))) w"
  by (simp add: lift_op_def split: prod.splits)

section \<open>Timers\<close>

record 'w timer =
  tm_now_ms :: "('w, nat) op"
  tm_instant :: "('w, nat) op"
  tm_sleep :: "duration \<Rightarrow> ('w, unit) op"

definition clock_timer :: "('w \<Rightarrow> clock) \<Rightarrow> (clock \<Rightarrow> 'w \<Rightarrow> 'w) \<Rightarrow> 'w timer" where
  "clock_timer get put = \<lparr>tm_now_ms = lift_op get put now_ms,
     tm_instant = lift_op get put instant_now,
     tm_sleep = (\<lambda>d. lift_op get put (thread_sleep d))\<rparr>"

text \<open>\<open>started.elapsed()\<close>.\<close>

definition elapsed_since :: "'w timer \<Rightarrow> nat \<Rightarrow> ('w, duration) op" where
  "elapsed_since T started w = (let (t, w') = tm_instant T w in (t - started, w'))"

locale monotonic_timer =
  fixes T :: "'w timer" and time :: "'w \<Rightarrow> nat"
  assumes now_ms_time: "tm_now_ms T w = (n, w') \<Longrightarrow> time w \<le> time w'"
    and instant_time: "tm_instant T w = (t, w') \<Longrightarrow> time w \<le> t \<and> t \<le> time w'"
    and sleep_time: "tm_sleep T d w = (u, w') \<Longrightarrow> time w + d \<le> time w'"
begin

lemma elapsed_time:
  "elapsed_since T started w = (e, w') \<Longrightarrow>
   time w - started \<le> e \<and> started + e \<le> max started (time w') \<and> time w \<le> time w'"
  using instant_time [of w] by (fastforce simp: elapsed_since_def split: prod.splits)

end

lemma clock_timer_monotonic:
  assumes "\<And>s w. get (put s w) = s"
  shows "monotonic_timer (clock_timer get put) (ck_mono \<circ> get)"
  by unfold_locales
    (auto simp: clock_timer_def lift_op_iff assms now_ms_def instant_now_def thread_sleep_def Let_def)

interpretation system_timer: monotonic_timer "clock_timer (\<lambda>c. c) (\<lambda>c _. c)" "ck_mono"
  using clock_timer_monotonic [of "\<lambda>c. c" "\<lambda>c _. c"] by (simp add: comp_def)

end
