(* ===== verification/Snapshot.thy ===== *)
theory Snapshot
  imports Aggregate_Core Timing
begin

text \<open>
  \<open>src/snapshot.rs\<close>: a snapshot of an aggregate state at a revision, the snapshot store trait as
  the record of its operations, the in-memory store with its refusal of snapshots older than the
  stored one, and the errors of a repository that loads through snapshots.
\<close>

section \<open>Data\<close>

record ('st, 'id) snapshot =
  sn_aggregate_id :: 'id
  sn_aggregate_type :: string
  sn_revision :: nat
  sn_state :: 'st
  sn_metadata :: metadata
  sn_recorded_at :: system_time

definition snapshot_new ::
  "('st, 'cmd, 'e, 'de) aggregate \<Rightarrow> system_time \<Rightarrow> 'id \<Rightarrow> nat \<Rightarrow> 'st \<Rightarrow> metadata \<Rightarrow>
   ('st, 'id) snapshot" where
  "snapshot_new A now aggregate_id revision state metadata =
     \<lparr>sn_aggregate_id = aggregate_id, sn_aggregate_type = agg_aggregate_type A,
      sn_revision = revision, sn_state = state, sn_metadata = metadata, sn_recorded_at = now\<rparr>"

record ('w, 'st, 'id, 'sse) snapshot_store =
  ss_load_snapshot :: "'id \<Rightarrow> ('w, 'sse + ('st, 'id) snapshot option) op"
  ss_save_snapshot :: "('st, 'id) snapshot \<Rightarrow> ('w, 'sse + unit) op"

section \<open>The in-memory store\<close>

datatype in_memory_snapshot_error =
    SnapshotPoisoned
  | StaleRevision nat nat  \<comment> \<open>offered, current\<close>

fun display_in_memory_snapshot_error :: "in_memory_snapshot_error \<Rightarrow> string" where
  "display_in_memory_snapshot_error SnapshotPoisoned = ''snapshot store lock was poisoned''"
| "display_in_memory_snapshot_error (StaleRevision offered current) =
     ''stale snapshot revision: offered '' @ show_nat offered @ '', current '' @ show_nat current"

record ('st, 'id) snapshot_memory =
  sm_snapshots :: "'id \<rightharpoonup> ('st, 'id) snapshot"
  sm_poisoned :: bool

definition snapshot_memory_new :: "('st, 'id) snapshot_memory" where
  "snapshot_memory_new = \<lparr>sm_snapshots = Map.empty, sm_poisoned = False\<rparr>"

definition snapshot_clear ::
  "(('st, 'id) snapshot_memory, in_memory_snapshot_error + unit) op" where
  "snapshot_clear s = (if sm_poisoned s then (Err SnapshotPoisoned, s)
     else (Ok (), s\<lparr>sm_snapshots := Map.empty\<rparr>))"

definition load_snapshot ::
  "'id \<Rightarrow> (('st, 'id) snapshot_memory, in_memory_snapshot_error + ('st, 'id) snapshot option) op"
where
  "load_snapshot aggregate_id s = (if sm_poisoned s then (Err SnapshotPoisoned, s)
     else (Ok (sm_snapshots s aggregate_id), s))"

definition save_snapshot ::
  "('st, 'id) snapshot \<Rightarrow> (('st, 'id) snapshot_memory, in_memory_snapshot_error + unit) op" where
  "save_snapshot snapshot s =
     (if sm_poisoned s then (Err SnapshotPoisoned, s)
      else case sm_snapshots s (sn_aggregate_id snapshot) of
          None \<Rightarrow> (Ok (), s\<lparr>sm_snapshots := (sm_snapshots s)(sn_aggregate_id snapshot \<mapsto> snapshot)\<rparr>)
        | Some entry \<Rightarrow>
            let current = sn_revision entry
            in if sn_revision snapshot < current
               then (Err (StaleRevision (sn_revision snapshot) current), s)
               else (Ok (), s\<lparr>sm_snapshots := (sm_snapshots s)(sn_aggregate_id snapshot \<mapsto> snapshot)\<rparr>))"

definition memory_snapshot_store ::
  "(('st, 'id) snapshot_memory, 'st, 'id, in_memory_snapshot_error) snapshot_store" where
  "memory_snapshot_store =
     \<lparr>ss_load_snapshot = load_snapshot, ss_save_snapshot = save_snapshot\<rparr>"

section \<open>Errors\<close>

datatype ('de, 'se, 'sse) snapshot_repository_error =
    SnapDomain 'de
  | SnapConcurrency concurrency_error
  | SnapStore 'se
  | SnapSnapshot 'sse

fun snapshot_from_store_error ::
  "('se \<Rightarrow> ('de, 'se) repository_error) \<Rightarrow> 'se \<Rightarrow> ('de, 'se, 'sse) snapshot_repository_error" where
  "snapshot_from_store_error into error = (case into error of
      RDomain e \<Rightarrow> SnapDomain e
    | RConcurrency e \<Rightarrow> SnapConcurrency e
    | RStore e \<Rightarrow> SnapStore e)"

fun display_snapshot_repository_error ::
  "('de \<Rightarrow> string) \<Rightarrow> ('se \<Rightarrow> string) \<Rightarrow> ('sse \<Rightarrow> string) \<Rightarrow>
   ('de, 'se, 'sse) snapshot_repository_error \<Rightarrow> string" where
  "display_snapshot_repository_error dd ds dss (SnapDomain error) = dd error"
| "display_snapshot_repository_error dd ds dss (SnapConcurrency error) = display_concurrency_error error"
| "display_snapshot_repository_error dd ds dss (SnapStore error) = ds error"
| "display_snapshot_repository_error dd ds dss (SnapSnapshot error) = dss error"

section \<open>The contract\<close>

text \<open>
  \<open>save_all\<close> saves snapshots in turn, whether each is accepted or not.
  What a repository relies on: loading answers with the snapshot held for that aggregate and
  changes none; saving replaces the snapshot of its own aggregate only, and never by one at an
  older revision.
\<close>

fun save_all ::
  "('w, 'st, 'id, 'sse) snapshot_store \<Rightarrow> ('st, 'id) snapshot list \<Rightarrow> 'w \<Rightarrow> 'w" where
  "save_all S [] w = w"
| "save_all S (s # ss) w = save_all S ss (snd (ss_save_snapshot S s w))"

locale snapshot_contract =
  fixes S :: "('w, 'st, 'id, 'sse) snapshot_store"
    and held :: "'w \<Rightarrow> 'id \<rightharpoonup> ('st, 'id) snapshot"
  assumes load_held: "ss_load_snapshot S i w = (r, w') \<Longrightarrow>
      held w' = held w \<and> (\<forall>s. r = Inr s \<longrightarrow> s = held w i)"
    and save_held: "ss_save_snapshot S s w = (Inr u, w') \<Longrightarrow>
      held w' = (held w)(sn_aggregate_id s \<mapsto> s) \<and>
      (\<forall>old. held w (sn_aggregate_id s) = Some old \<longrightarrow> sn_revision old \<le> sn_revision s)"
    and save_refused: "ss_save_snapshot S s w = (Inl e, w') \<Longrightarrow> held w' = held w"
begin

text \<open>The held revision of an aggregate never decreases, whatever is saved in whatever order.\<close>

lemma save_all_monotone:
  "held w i = Some old \<Longrightarrow>
   \<exists>new. held (save_all S ss w) i = Some new \<and> sn_revision old \<le> sn_revision new"
proof (induction ss arbitrary: w old)
  case (Cons s ss)
  obtain r w' where run: "ss_save_snapshot S s w = (r, w')" by (cases "ss_save_snapshot S s w")
  have "\<exists>mid. held w' i = Some mid \<and> sn_revision old \<le> sn_revision mid"
  proof (cases r)
    case (Inl e)
    then show ?thesis using save_refused run Cons.prems by auto
  next
    case (Inr u)
    then show ?thesis using save_held [of s w u w'] run Cons.prems
      by (cases "i = sn_aggregate_id s") auto
  qed
  then show ?case using Cons.IH [of w'] run by (auto intro: order_trans)
qed simp

end

lemma lift_snapshot_contract:
  assumes "snapshot_contract S held" and "\<And>s w. get (put s w) = s"
  shows "snapshot_contract
    \<lparr>ss_load_snapshot = \<lambda>i. lift_op get put (ss_load_snapshot S i),
     ss_save_snapshot = \<lambda>s. lift_op get put (ss_save_snapshot S s)\<rparr> (held \<circ> get)"
  by unfold_locales
    (auto simp: lift_op_iff assms(2) dest: snapshot_contract.load_held [OF assms(1)]
      snapshot_contract.save_held [OF assms(1)] snapshot_contract.save_refused [OF assms(1)])

interpretation memory_snapshots: snapshot_contract memory_snapshot_store sm_snapshots
  by unfold_locales
    (auto simp: memory_snapshot_store_def load_snapshot_def save_snapshot_def Let_def
      split: if_splits option.splits)

end
