(* ===== verification/Idempotency.thy ===== *)
theory Idempotency
  imports Store_Errors Timing "HOL-Library.Word" "HOL-Library.AList_Mapping"
begin

text \<open>
  \<open>src/idempotency.rs\<close>: leases, the wait policy with its deterministic jitter, keys, the
  idempotency store trait as the record of its operations, the in-memory store, and the errors of
  an idempotent repository.  The in-memory store's state is paired with the clock its operations
  read.  The locale \<open>idempotency_contract\<close> states what a repository relies on.
\<close>

section \<open>Leases\<close>

definition DEFAULT_IDEMPOTENCY_PENDING_TIMEOUT :: duration where
  "DEFAULT_IDEMPOTENCY_PENDING_TIMEOUT = from_secs 30"
definition DEFAULT_IDEMPOTENCY_POLL_INTERVAL :: duration where
  "DEFAULT_IDEMPOTENCY_POLL_INTERVAL = from_millis 50"
definition DEFAULT_IDEMPOTENCY_LEASE :: duration where
  "DEFAULT_IDEMPOTENCY_LEASE = from_secs 60"

record idempotency_lease =
  il_owner :: string
  il_expires_at_ms :: nat

definition lease_is_expired :: "idempotency_lease \<Rightarrow> nat \<Rightarrow> bool" where
  "lease_is_expired lease now \<longleftrightarrow> now \<ge> il_expires_at_ms lease"

record idempotency_lease_config =
  lc_lease_duration :: duration
  lc_owner :: "string option"

definition lease_config_default :: idempotency_lease_config where
  "lease_config_default = \<lparr>lc_lease_duration = DEFAULT_IDEMPOTENCY_LEASE, lc_owner = None\<rparr>"

datatype 'v idempotency_state = Pending idempotency_lease | Complete 'v

fun is_expired_pending :: "'v idempotency_state \<Rightarrow> nat \<Rightarrow> bool" where
  "is_expired_pending (Pending lease) now = lease_is_expired lease now"
| "is_expired_pending (Complete v) now = False"

definition expires_at_ms :: "duration \<Rightarrow> (clock, nat) op" where
  "expires_at_ms d c = (let (now, c') = now_ms c
     in (saturating_add_u64 now (as_u64 (as_millis d)), c'))"

definition new_lease :: "idempotency_lease_config \<Rightarrow> (clock, idempotency_lease) op" where
  "new_lease config c =
     (let (owner, c1) = (case lc_owner config of
            Some owner \<Rightarrow> (owner, c)
          | None \<Rightarrow> (let (now, c1) = now_ms c in (''owner-'' @ show_nat now, c1)));
          (expires, c2) = expires_at_ms (lc_lease_duration config) c1
      in (\<lparr>il_owner = owner, il_expires_at_ms = expires\<rparr>, c2))"

text \<open>A pending row of a SQL store: its nullable owner and expiry columns.\<close>

definition pending_state_from_row ::
  "string option \<Rightarrow> int option \<Rightarrow> nat \<Rightarrow> (clock, idempotency_lease option) op" where
  "pending_state_from_row owner expires now c =
     (let (lease, c') = (case (case owner of Some v \<Rightarrow> if v = [] then None else Some v | None \<Rightarrow> None,
                               Option.bind expires u64_try_from_i64) of
            (Some owner, Some expires) \<Rightarrow> (\<lparr>il_owner = owner, il_expires_at_ms = expires\<rparr>, c)
          | _ \<Rightarrow> new_lease lease_config_default c)
      in (if lease_is_expired lease now then None else Some lease, c'))"

section \<open>Keys and the wait policy\<close>

definition IDEMPOTENCY_KEY_MAX_LEN :: nat where "IDEMPOTENCY_KEY_MAX_LEN = 255"

datatype idempotency_key = IdempotencyKey string

fun idempotency_key_as_str :: "idempotency_key \<Rightarrow> string" where
  "idempotency_key_as_str (IdempotencyKey s) = s"

datatype idempotency_key_too_long = IdempotencyKeyTooLong nat nat  \<comment> \<open>len, max_len\<close>

fun display_idempotency_key_too_long :: "idempotency_key_too_long \<Rightarrow> string" where
  "display_idempotency_key_too_long (IdempotencyKeyTooLong n m) =
     ''idempotency key length '' @ show_nat n @ '' exceeds the supported maximum of '' @ show_nat m"

definition validate_storage_length :: "idempotency_key \<Rightarrow> idempotency_key_too_long + unit" where
  "validate_storage_length key =
     (if length (idempotency_key_as_str key) > IDEMPOTENCY_KEY_MAX_LEN
      then Err (IdempotencyKeyTooLong (length (idempotency_key_as_str key)) IDEMPOTENCY_KEY_MAX_LEN)
      else Ok ())"

record idempotency_wait_config =
  wc_pending_timeout :: duration
  wc_poll_interval :: duration

text \<open>\<open>None\<close> where the assertion of the constructor panics.\<close>

definition wait_config_new :: "duration \<Rightarrow> duration \<Rightarrow> idempotency_wait_config option" where
  "wait_config_new pending_timeout poll_interval =
     (if poll_interval = 0 then None
      else Some \<lparr>wc_pending_timeout = pending_timeout, wc_poll_interval = poll_interval\<rparr>)"

definition wait_config_default :: idempotency_wait_config where
  "wait_config_default = \<lparr>wc_pending_timeout = DEFAULT_IDEMPOTENCY_PENDING_TIMEOUT,
     wc_poll_interval = DEFAULT_IDEMPOTENCY_POLL_INTERVAL\<rparr>"

text \<open>The 64-bit hash multiplies and adds with wrap-around.\<close>

definition poll_hash :: "string \<Rightarrow> 64 word" where
  "poll_hash key = foldl (\<lambda>acc byte. acc * 31 + word_of_nat (of_char byte)) 0 key"

definition idempotency_poll_jitter_ms :: "idempotency_key \<Rightarrow> duration \<Rightarrow> nat" where
  "idempotency_poll_jitter_ms key poll_interval =
     (let span_ms = as_u64 (max (as_millis poll_interval) 1 div 4)
      in if span_ms = 0 then 0
         else unat (poll_hash (idempotency_key_as_str key)) mod span_ms)"

definition next_delay :: "idempotency_wait_config \<Rightarrow> duration \<Rightarrow> idempotency_key \<Rightarrow> duration option" where
  "next_delay cfg elapsed jitter_key =
     (case duration_checked_sub (wc_pending_timeout cfg) elapsed of
        None \<Rightarrow> None
      | Some remaining \<Rightarrow>
          if remaining = 0 \<or> wc_poll_interval cfg = 0 then None
          else let jitter_ms = idempotency_poll_jitter_ms jitter_key (wc_poll_interval cfg);
                   delay = duration_saturating_add (wc_poll_interval cfg) (from_millis jitter_ms)
               in Some (min remaining delay))"

section \<open>The store trait\<close>

record ('w, 'v, 'ie) idempotency_store =
  is_load :: "idempotency_key \<Rightarrow> ('w, 'ie + 'v idempotency_state option) op"
  is_reserve_with_lease :: "idempotency_key \<Rightarrow> idempotency_lease_config \<Rightarrow> ('w, 'ie + bool) op"
  is_heartbeat :: "idempotency_key \<Rightarrow> string \<Rightarrow> ('w, 'ie + bool) op"
  is_expire_stale_pending :: "nat \<Rightarrow> ('w, 'ie + nat) op"
  is_expire_completed_before :: "nat \<Rightarrow> ('w, 'ie + nat) op"
  is_save :: "idempotency_key \<Rightarrow> 'v \<Rightarrow> ('w, 'ie + unit) op"
  is_remove :: "idempotency_key \<Rightarrow> ('w, 'ie + unit) op"

definition store_reserve ::
  "('w, 'v, 'ie) idempotency_store \<Rightarrow> idempotency_key \<Rightarrow> ('w, 'ie + bool) op" where
  "store_reserve S key = is_reserve_with_lease S key lease_config_default"

definition default_expire_completed_before :: "nat \<Rightarrow> ('w, 'ie + nat) op" where
  "default_expire_completed_before cutoff_ms w = (Ok 0, w)"

definition purge_completed_older_than ::
  "'w timer \<Rightarrow> ('w, 'v, 'ie) idempotency_store \<Rightarrow> duration \<Rightarrow> ('w, 'ie + nat) op" where
  "purge_completed_older_than T S max_age w =
     (let (now, w1) = tm_now_ms T w; cutoff_ms = now - as_u64 (as_millis max_age)
      in is_expire_completed_before S cutoff_ms w1)"

section \<open>The in-memory store\<close>

datatype in_memory_idempotency_error = IdempotencyPoisoned

fun display_in_memory_idempotency_error :: "in_memory_idempotency_error \<Rightarrow> string" where
  "display_in_memory_idempotency_error IdempotencyPoisoned = ''idempotency store lock was poisoned''"

record 'v idempotency_entry =
  ie_state :: "'v idempotency_state"
  ie_updated_at_ms :: nat

record 'v idempotency_memory =
  im_entries :: "(idempotency_key, 'v idempotency_entry) mapping"
  im_poisoned :: bool

type_synonym 'v idempotency_world = "'v idempotency_memory \<times> clock"

definition idempotency_memory_new :: "'v idempotency_memory" where
  "idempotency_memory_new = \<lparr>im_entries = Mapping.empty, im_poisoned = False\<rparr>"

definition idempotency_clear ::
  "('v idempotency_world, in_memory_idempotency_error + unit) op" where
  "idempotency_clear = (\<lambda>(m, c). if im_poisoned m then (Err IdempotencyPoisoned, m, c)
     else (Ok (), m\<lparr>im_entries := Mapping.empty\<rparr>, c))"

definition idempotency_load ::
  "idempotency_key \<Rightarrow>
   ('v idempotency_world, in_memory_idempotency_error + 'v idempotency_state option) op" where
  "idempotency_load key = (\<lambda>(m, c). if im_poisoned m then (Err IdempotencyPoisoned, m, c)
     else (Ok (map_option ie_state (Mapping.lookup (im_entries m) key)), m, c))"

definition idempotency_reserve_with_lease ::
  "idempotency_key \<Rightarrow> idempotency_lease_config \<Rightarrow>
   ('v idempotency_world, in_memory_idempotency_error + bool) op" where
  "idempotency_reserve_with_lease key config = (\<lambda>(m, c).
     if im_poisoned m then (Err IdempotencyPoisoned, m, c)
     else let (now, c1) = now_ms c;
              insert_pending = (let (lease, c2) = new_lease config c1
                in (Ok True, m\<lparr>im_entries := Mapping.update key
                      \<lparr>ie_state = Pending lease, ie_updated_at_ms = now\<rparr> (im_entries m)\<rparr>, c2))
       in case Mapping.lookup (im_entries m) key of
            Some occupied \<Rightarrow> (case ie_state occupied of
                Pending lease \<Rightarrow>
                  if lease_is_expired lease now then insert_pending else (Ok False, m, c1)
              | _ \<Rightarrow> (Ok False, m, c1))
          | None \<Rightarrow> insert_pending)"

definition idempotency_heartbeat ::
  "idempotency_key \<Rightarrow> string \<Rightarrow>
   ('v idempotency_world, in_memory_idempotency_error + bool) op" where
  "idempotency_heartbeat key owner = (\<lambda>(m, c).
     if im_poisoned m then (Err IdempotencyPoisoned, m, c)
     else case Mapping.lookup (im_entries m) key of
         None \<Rightarrow> (Ok False, m, c)
       | Some entry \<Rightarrow> (case ie_state entry of
           Complete v \<Rightarrow> (Ok False, m, c)
         | Pending lease \<Rightarrow>
             if il_owner lease \<noteq> owner then (Ok False, m, c)
             else let (expires, c1) = expires_at_ms DEFAULT_IDEMPOTENCY_LEASE c;
                      (now, c2) = now_ms c1
               in (Ok True, m\<lparr>im_entries := Mapping.update key
                      \<lparr>ie_state = Pending (lease\<lparr>il_expires_at_ms := expires\<rparr>),
                      ie_updated_at_ms = now\<rparr> (im_entries m)\<rparr>, c2)))"

text \<open>\<open>HashMap::retain\<close> is \<open>Mapping.filter\<close>, \<open>HashMap::len\<close> is \<open>Mapping.size\<close>.\<close>

definition idempotency_expire_stale_pending ::
  "nat \<Rightarrow> ('v idempotency_world, in_memory_idempotency_error + nat) op" where
  "idempotency_expire_stale_pending now = (\<lambda>(m, c).
     if im_poisoned m then (Err IdempotencyPoisoned, m, c)
     else let before = Mapping.size (im_entries m);
              entries = Mapping.filter (\<lambda>_ entry. \<not> is_expired_pending (ie_state entry) now) (im_entries m)
       in (Ok (before - Mapping.size entries), m\<lparr>im_entries := entries\<rparr>, c))"

definition idempotency_expire_completed_before ::
  "nat \<Rightarrow> ('v idempotency_world, in_memory_idempotency_error + nat) op" where
  "idempotency_expire_completed_before cutoff_ms = (\<lambda>(m, c).
     if im_poisoned m then (Err IdempotencyPoisoned, m, c)
     else let before = Mapping.size (im_entries m);
              entries = Mapping.filter (\<lambda>_ entry. \<not> (case ie_state entry of
                  Complete _ \<Rightarrow> ie_updated_at_ms entry < cutoff_ms
                | Pending _ \<Rightarrow> False)) (im_entries m)
       in (Ok (before - Mapping.size entries), m\<lparr>im_entries := entries\<rparr>, c))"

definition idempotency_save ::
  "idempotency_key \<Rightarrow> 'v \<Rightarrow> ('v idempotency_world, in_memory_idempotency_error + unit) op" where
  "idempotency_save key value = (\<lambda>(m, c).
     if im_poisoned m then (Err IdempotencyPoisoned, m, c)
     else let (now, c1) = now_ms c
       in (Ok (), m\<lparr>im_entries := Mapping.update key
                      \<lparr>ie_state = Complete value, ie_updated_at_ms = now\<rparr> (im_entries m)\<rparr>, c1))"

definition idempotency_remove ::
  "idempotency_key \<Rightarrow> ('v idempotency_world, in_memory_idempotency_error + unit) op" where
  "idempotency_remove key = (\<lambda>(m, c).
     if im_poisoned m then (Err IdempotencyPoisoned, m, c)
     else (Ok (), m\<lparr>im_entries := Mapping.delete key (im_entries m)\<rparr>, c))"

definition memory_idempotency_store ::
  "('v idempotency_world, 'v, in_memory_idempotency_error) idempotency_store" where
  "memory_idempotency_store = \<lparr>is_load = idempotency_load,
     is_reserve_with_lease = idempotency_reserve_with_lease,
     is_heartbeat = idempotency_heartbeat,
     is_expire_stale_pending = idempotency_expire_stale_pending,
     is_expire_completed_before = idempotency_expire_completed_before,
     is_save = idempotency_save, is_remove = idempotency_remove\<rparr>"

section \<open>Errors of an idempotent repository\<close>

datatype ('de, 'se, 'ie) idempotent_repository_error =
    IDomain 'de
  | IConcurrency concurrency_error
  | IStore 'se
  | IIdempotency 'ie
  | IdempotencyPendingTimeout idempotency_key duration
  | IdempotencyReleaseFailed idempotency_key nat

fun idempotent_from_repository_error ::
  "('de, 'se) repository_error \<Rightarrow> ('de, 'se, 'ie) idempotent_repository_error" where
  "idempotent_from_repository_error (RDomain error) = IDomain error"
| "idempotent_from_repository_error (RConcurrency error) = IConcurrency error"
| "idempotent_from_repository_error (RStore error) = IStore error"

definition idempotent_from_store_error ::
  "('se \<Rightarrow> ('de, 'se) repository_error) \<Rightarrow> 'se \<Rightarrow> ('de, 'se, 'ie) idempotent_repository_error" where
  "idempotent_from_store_error into error = (case into error of
      RDomain e \<Rightarrow> IDomain e
    | RConcurrency e \<Rightarrow> IConcurrency e
    | RStore e \<Rightarrow> IStore e)"

text \<open>The wait policy reads the clock again for the \<open>waited\<close> field of the timeout.\<close>

definition pending_wait_delay ::
  "idempotency_wait_config \<Rightarrow> 'w timer \<Rightarrow> nat \<Rightarrow> idempotency_key \<Rightarrow>
   ('w, ('de, 'se, 'ie) idempotent_repository_error + duration) op" where
  "pending_wait_delay cfg T started key w =
     (let (elapsed, w1) = elapsed_since T started w
      in case next_delay cfg elapsed key of
           Some delay \<Rightarrow> (Ok delay, w1)
         | None \<Rightarrow> let (waited, w2) = elapsed_since T started w1
                   in (Err (IdempotencyPendingTimeout key waited), w2))"

text \<open>\<open>Display\<close> of the errors, with the display of the three parameters.\<close>

fun display_idempotent_repository_error ::
  "('de \<Rightarrow> string) \<Rightarrow> ('se \<Rightarrow> string) \<Rightarrow> ('ie \<Rightarrow> string) \<Rightarrow>
   ('de, 'se, 'ie) idempotent_repository_error \<Rightarrow> string" where
  "display_idempotent_repository_error dd ds di (IDomain error) = dd error"
| "display_idempotent_repository_error dd ds di (IConcurrency error) = display_concurrency_error error"
| "display_idempotent_repository_error dd ds di (IStore error) = ds error"
| "display_idempotent_repository_error dd ds di (IIdempotency error) = di error"
| "display_idempotent_repository_error dd ds di (IdempotencyPendingTimeout key waited) =
     ''idempotency key `'' @ idempotency_key_as_str key @ ''` remained pending after '' @
     show_nat (as_millis waited) @ '' ms''"
| "display_idempotent_repository_error dd ds di (IdempotencyReleaseFailed key attempts) =
     ''failed to release idempotency key `'' @ idempotency_key_as_str key @ ''` after '' @
     show_nat attempts @ '' attempts''"

section \<open>The contract of a store\<close>

text \<open>A load tells a recorded result for certain; it may not show a reservation that has expired.\<close>

locale idempotency_contract =
  fixes I :: "('w, 'v, 'ie) idempotency_store"
    and entries :: "'w \<Rightarrow> idempotency_key \<rightharpoonup> 'v idempotency_state"
  assumes load_entries: "is_load I k w = (r, w') \<Longrightarrow>
      entries w' = entries w \<and>
      (\<forall>s v. r = Inr s \<longrightarrow> (s = Some (Complete v) \<longleftrightarrow> entries w k = Some (Complete v)))"
    and reserve_granted: "is_reserve_with_lease I k cfg w = (Inr True, w') \<Longrightarrow>
      (\<exists>lease. entries w' = (entries w)(k \<mapsto> Pending lease)) \<and>
      (\<forall>v. entries w k \<noteq> Some (Complete v))"
    and reserve_refused: "is_reserve_with_lease I k cfg w = (b, w') \<Longrightarrow> b \<noteq> Inr True \<Longrightarrow>
      entries w' = entries w"
    and save_done: "is_save I k v w = (Inr u, w') \<Longrightarrow> entries w' = (entries w)(k \<mapsto> Complete v)"
    and save_failed: "is_save I k v w = (Inl e, w') \<Longrightarrow> entries w' = entries w"
    and remove_done: "is_remove I k w = (Inr u, w') \<Longrightarrow> entries w' = (entries w)(k := None)"
    and remove_failed: "is_remove I k w = (Inl e, w') \<Longrightarrow> entries w' = entries w"

definition memory_entries :: "'v idempotency_world \<Rightarrow> idempotency_key \<rightharpoonup> 'v idempotency_state" where
  "memory_entries w = (\<lambda>k. map_option ie_state (Mapping.lookup (im_entries (fst w)) k))"

lemma memory_entries_upd [simp]:
  "memory_entries (m\<lparr>im_entries := Mapping.update k e (im_entries m)\<rparr>, c) =
     (memory_entries (m, c'))(k \<mapsto> ie_state e)"
  "memory_entries (m\<lparr>im_entries := Mapping.delete k (im_entries m)\<rparr>, c) = (memory_entries (m, c'))(k := None)"
  by (auto simp: memory_entries_def fun_eq_iff)

lemma memory_entries_clock: "memory_entries (m, c) = memory_entries (m, c')"
  by (simp add: memory_entries_def)

lemma reserve_cases:
  assumes "idempotency_reserve_with_lease k cfg (m, c) = (r, w')"
  obtains (poisoned) "im_poisoned m" "r = Err IdempotencyPoisoned" "w' = (m, c)"
  | (refused) "r = Ok False" "w' = (m, snd (now_ms c))" "\<not> im_poisoned m"
      "\<exists>s. memory_entries (m, c) k = Some s \<and> \<not> is_expired_pending s (fst (now_ms c))"
  | (granted) lease where "r = Ok True" "\<not> im_poisoned m"
      "w' = (m\<lparr>im_entries := Mapping.update k \<lparr>ie_state = Pending lease, ie_updated_at_ms = fst (now_ms c)\<rparr> (im_entries m)\<rparr>,
         snd (new_lease cfg (snd (now_ms c))))"
      "lease = fst (new_lease cfg (snd (now_ms c)))"
      "\<forall>s. memory_entries (m, c) k = Some s \<longrightarrow> is_expired_pending s (fst (now_ms c))"
  using assms
  by (cases "Mapping.lookup (im_entries m) k"; cases "ie_state (the (Mapping.lookup (im_entries m) k))")
     (fastforce simp: idempotency_reserve_with_lease_def memory_entries_def split_beta Let_def
        split: if_splits)+

interpretation memory_idempotency: idempotency_contract memory_idempotency_store memory_entries
proof (unfold_locales, goal_cases)
  case (2 k cfg w w')
  then have "idempotency_reserve_with_lease k cfg (fst w, snd w) = (Inr True, w')"
    by (simp add: memory_idempotency_store_def)
  then show ?case
    by (cases rule: reserve_cases) (auto simp: memory_entries_upd(1) [of _ _ _ _ "snd w"])
next
  case (3 k cfg w r w')
  then have "idempotency_reserve_with_lease k cfg (fst w, snd w) = (r, w')"
    by (simp add: memory_idempotency_store_def)
  then show ?case using 3(2)
    by (cases rule: reserve_cases) (auto simp: memory_entries_def)
qed (auto simp: memory_idempotency_store_def idempotency_load_def idempotency_save_def
    idempotency_remove_def memory_entries_def fun_eq_iff split_beta Let_def split: if_splits)

section \<open>The wait policy\<close>

lemma jitter_bound:
  "4 * from_millis (idempotency_poll_jitter_ms key poll) \<le> poll"
proof -
  define span where "span = as_u64 (max (as_millis poll) 1 div 4)"
  have span: "4 * span \<le> as_millis poll" if "span \<noteq> 0"
  proof -
    have "span \<le> max (as_millis poll) 1 div 4" by (simp add: span_def as_u64_def)
    moreover have "4 * (max (as_millis poll) 1 div 4) \<le> max (as_millis poll) 1" by simp
    ultimately show ?thesis using that by (auto simp: max_def split: if_splits)
  qed
  have "x mod span \<le> span" if "span \<noteq> 0" for x :: nat
    using that by (intro less_imp_le mod_less_divisor) simp
  then have "idempotency_poll_jitter_ms key poll \<le> span"
    unfolding idempotency_poll_jitter_ms_def Let_def span_def [symmetric] by simp
  moreover have "span = 0 \<Longrightarrow> idempotency_poll_jitter_ms key poll = 0"
    unfolding idempotency_poll_jitter_ms_def Let_def span_def [symmetric] by simp
  ultimately have "4 * idempotency_poll_jitter_ms key poll \<le> as_millis poll"
    using span by (cases "span = 0") auto
  then have "4 * idempotency_poll_jitter_ms key poll * nanos_per_milli \<le>
      poll div nanos_per_milli * nanos_per_milli"
    unfolding as_millis_def by (rule mult_le_mono1)
  then show ?thesis
    unfolding from_millis_def mult.assoc [symmetric]
    by (rule order_trans) (rule div_times_less_eq_dividend)
qed

lemma next_delay_None: "next_delay cfg e key = None \<longleftrightarrow> wc_pending_timeout cfg \<le> e \<or> wc_poll_interval cfg = 0"
  by (auto simp: next_delay_def duration_checked_sub_def Let_def split: if_splits)

lemma next_delay_Some:
  "next_delay cfg e key = Some d \<Longrightarrow> 0 < d \<and> e + d \<le> wc_pending_timeout cfg"
  by (auto simp: next_delay_def duration_checked_sub_def duration_saturating_add_def
      duration_max_def nanos_per_sec_def Let_def split: if_splits)

text \<open>C23: the wait policy for a pending key.  A delay is given exactly while the timeout has not
  been spent and the poll interval is not zero; it is positive, never runs past the timeout, and
  unless the timeout cuts it short it lies between the poll interval and a quarter more (the
  jitter).\<close>

theorem next_delay_bounds:
  assumes "wc_poll_interval cfg \<le> duration_max"
  shows "(case next_delay cfg elapsed key of
      None \<Rightarrow> wc_pending_timeout cfg \<le> elapsed \<or> wc_poll_interval cfg = 0
    | Some d \<Rightarrow> 0 < d \<and> elapsed + d \<le> wc_pending_timeout cfg \<and>
        4 * d \<le> 5 * wc_poll_interval cfg \<and>
        (elapsed + d < wc_pending_timeout cfg \<longrightarrow> wc_poll_interval cfg \<le> d))"
proof (cases "next_delay cfg elapsed key")
  case None
  then show ?thesis using next_delay_None [of cfg elapsed key] by simp
next
  case (Some d)
  define j where "j = from_millis (idempotency_poll_jitter_ms key (wc_poll_interval cfg))"
  have "4 * j \<le> wc_poll_interval cfg" unfolding j_def by (rule jitter_bound)
  moreover have "d = min (wc_pending_timeout cfg - elapsed)
      (min (wc_poll_interval cfg + j) duration_max)"
    using Some by (auto simp: next_delay_def duration_checked_sub_def duration_saturating_add_def
        j_def Let_def split: if_splits)
  ultimately show ?thesis
    using Some next_delay_Some [OF Some] assms by (auto simp: min_def split: if_splits)
qed

theorem next_delay_bounds_witness:
  "\<exists>d. next_delay wait_config_default (from_secs 1) (IdempotencyKey ''k'') = Some d \<and>
     from_millis 50 \<le> d \<and> 4 * d \<le> 5 * from_millis 50"
proof -
  have "wc_poll_interval wait_config_default \<le> duration_max"
    by (simp add: wait_config_default_def DEFAULT_IDEMPOTENCY_POLL_INTERVAL_def from_millis_def
        nanos_per_milli_def duration_max_def nanos_per_sec_def u64_max_def)
  from next_delay_bounds [OF this, of "from_secs 1" "IdempotencyKey ''k''"]
  show ?thesis
    by (auto simp: wait_config_default_def DEFAULT_IDEMPOTENCY_POLL_INTERVAL_def
        DEFAULT_IDEMPOTENCY_PENDING_TIMEOUT_def from_millis_def from_secs_def
        nanos_per_milli_def nanos_per_sec_def split: option.splits)
qed

section \<open>Exclusive reservations\<close>

text \<open>
  What other clients of the in-memory store may do while a reservation of \<open>k\<close> with \<open>lease\<close>
  stands: anything to other keys, and to \<open>k\<close> everything but completing or removing it,
  heartbeating it under the owner's token, or acting on a clock reading past the lease.
\<close>

inductive other_step ::
  "idempotency_key \<Rightarrow> idempotency_lease \<Rightarrow> 'v idempotency_world \<Rightarrow> 'v idempotency_world \<Rightarrow> bool"
  for k :: idempotency_key and lease :: idempotency_lease where
  other_load: "idempotency_load j w = (r, w') \<Longrightarrow> other_step k lease w w'"
| other_reserve: "idempotency_reserve_with_lease j cfg w = (r1, w') \<Longrightarrow>
    j = k \<longrightarrow> \<not> lease_is_expired lease (fst (now_ms (snd w))) \<Longrightarrow> other_step k lease w w'"
| other_heartbeat: "idempotency_heartbeat j owner w = (r1, w') \<Longrightarrow>
    j = k \<longrightarrow> owner \<noteq> il_owner lease \<Longrightarrow> other_step k lease w w'"
| other_expire: "idempotency_expire_stale_pending now w = (r2, w') \<Longrightarrow>
    \<not> lease_is_expired lease now \<Longrightarrow> other_step k lease w w'"
| other_purge: "idempotency_expire_completed_before cutoff w = (r2, w') \<Longrightarrow> other_step k lease w w'"
| other_save: "idempotency_save j v w = (r3, w') \<Longrightarrow> j \<noteq> k \<Longrightarrow> other_step k lease w w'"
| other_remove: "idempotency_remove j w = (r3, w') \<Longrightarrow> j \<noteq> k \<Longrightarrow> other_step k lease w w'"

lemma other_step_keeps:
  "other_step k lease w w' \<Longrightarrow> memory_entries w k = Some (Pending lease) \<Longrightarrow>
   memory_entries w' k = Some (Pending lease)"
proof (induction rule: other_step.induct)
  case (other_reserve j cfg w r w')
  then have "idempotency_reserve_with_lease j cfg (fst w, snd w) = (r, w')" by simp
  then show ?case
  proof (cases rule: reserve_cases)
    case refused
    then show ?thesis using other_reserve by (simp add: memory_entries_def)
  next
    case (granted new)
    then have "j \<noteq> k" using other_reserve by auto
    then show ?thesis using granted other_reserve by (simp add: memory_entries_def)
  qed (use other_reserve in \<open>simp add: memory_entries_def\<close>)
qed (auto simp: memory_entries_def idempotency_load_def idempotency_heartbeat_def
    idempotency_expire_stale_pending_def idempotency_expire_completed_before_def
    idempotency_save_def idempotency_remove_def lookup_filter lookup_update' split_beta Let_def
    split: if_splits option.splits idempotency_state.splits)

lemma other_steps_keep:
  "(other_step k lease)\<^sup>*\<^sup>* w w' \<Longrightarrow> memory_entries w k = Some (Pending lease) \<Longrightarrow>
   memory_entries w' k = Some (Pending lease)"
  by (induction rule: rtranclp_induct) (auto intro: other_step_keeps)


definition demo_clock :: clock where
  "demo_clock = \<lparr>ck_wall = (\<lambda>n. int n * 1000000), ck_wall_reads = 0, ck_mono = 0,
     ck_drift = (\<lambda>_. 1), ck_mono_reads = 0\<rparr>"


end
