(* ===== verification/Repository.thy ===== *)
theory Repository
  imports Event_Store Snapshot Idempotency
begin

text \<open>
  \<open>src/repository.rs\<close> and the retry helpers of \<open>src/repository_support.rs\<close>: loading, saving,
  executing commands, with snapshots, and idempotently in the generic two-store form and the
  atomic one.  A repository is its aggregate \<open>A\<close>, its store \<open>S\<close> and \<open>into\<close>, the
  \<open>EventStoreFailure\<close> conversion of the store's error.  A wait loop may run for ever, so it is a
  partial function: \<open>None\<close> is not returning.
\<close>

section \<open>Loading, saving, executing\<close>

definition repository_load ::
  "('st, 'cmd, 'e, 'de) aggregate \<Rightarrow> ('w, 'id, 'e, 'se) event_store \<Rightarrow>
   ('se \<Rightarrow> ('de, 'se) repository_error) \<Rightarrow> 'id \<Rightarrow>
   ('w, ('de, 'se) repository_error + 'st loaded_aggregate) op" where
  "repository_load A S into aggregate_id =
     try_op (op_map_err into (es_load S aggregate_id)) (\<lambda>events.
       return_op (Ok (replay A events)))"

definition repository_save ::
  "('st, 'cmd, 'e, 'de) aggregate \<Rightarrow> ('w, 'id, 'e, 'se) event_store \<Rightarrow>
   ('se \<Rightarrow> ('de, 'se) repository_error) \<Rightarrow> 'id \<Rightarrow> 'st loaded_aggregate \<Rightarrow> 'e list \<Rightarrow> metadata \<Rightarrow>
   ('w, ('de, 'se) repository_error + ('e, 'id) event_stream) op" where
  "repository_save A S into aggregate_id loaded events metadata =
     (let events = new_events_with_metadata A events metadata
      in op_map_err into (es_append S aggregate_id (Exact (la_revision loaded)) events))"

definition save_new_events ::
  "('w, 'id, 'e, 'se) event_store \<Rightarrow> ('se \<Rightarrow> ('de, 'se) repository_error) \<Rightarrow> 'id \<Rightarrow>
   'st loaded_aggregate \<Rightarrow> 'e new_event list \<Rightarrow>
   ('w, ('de, 'se) repository_error + ('e, 'id) event_stream) op" where
  "save_new_events S into aggregate_id loaded events =
     op_map_err into (es_append S aggregate_id (Exact (la_revision loaded)) events)"

definition execute ::
  "('st, 'cmd, 'e, 'de) aggregate \<Rightarrow> ('w, 'id, 'e, 'se) event_store \<Rightarrow>
   ('se \<Rightarrow> ('de, 'se) repository_error) \<Rightarrow> 'id \<Rightarrow> 'cmd \<Rightarrow> metadata \<Rightarrow>
   ('w, ('de, 'se) repository_error + ('e, 'id) event_stream) op" where
  "execute A S into aggregate_id command metadata =
     try_op (repository_load A S into aggregate_id) (\<lambda>loaded.
     try_op (return_op (map_err RDomain
         (handle_command_as_new_events A (la_state loaded) command metadata))) (\<lambda>events.
     try_op (save_new_events S into aggregate_id loaded events) (\<lambda>committed.
       return_op (Ok committed))))"

definition execute_returning_state ::
  "('st, 'cmd, 'e, 'de) aggregate \<Rightarrow> ('w, 'id, 'e, 'se) event_store \<Rightarrow>
   ('se \<Rightarrow> ('de, 'se) repository_error) \<Rightarrow> 'id \<Rightarrow> 'cmd \<Rightarrow> metadata \<Rightarrow>
   ('w, ('de, 'se) repository_error + 'st loaded_aggregate \<times> ('e, 'id) event_stream) op" where
  "execute_returning_state A S into aggregate_id command metadata =
     try_op (repository_load A S into aggregate_id) (\<lambda>loaded.
     try_op (return_op (map_err RDomain
         (handle_command_as_new_events A (la_state loaded) command metadata))) (\<lambda>events.
     try_op (save_new_events S into aggregate_id loaded events) (\<lambda>committed.
       let updated = apply_committed_events A loaded committed
       in return_op (Ok (updated, committed)))))"

section \<open>Snapshots\<close>

definition load_with_snapshot ::
  "('st, 'cmd, 'e, 'de) aggregate \<Rightarrow> ('w, 'id, 'e, 'se) event_store \<Rightarrow>
   ('se \<Rightarrow> ('de, 'se) repository_error) \<Rightarrow> 'id \<Rightarrow> ('w, 'st, 'id, 'sse) snapshot_store \<Rightarrow>
   ('w, ('de, 'se, 'sse) snapshot_repository_error + 'st loaded_aggregate) op" where
  "load_with_snapshot A S into aggregate_id snapshots =
     try_op (op_map_err SnapSnapshot (ss_load_snapshot snapshots aggregate_id)) (\<lambda>snapshot.
     case snapshot of
       None \<Rightarrow>
         try_op (op_map_err (snapshot_from_store_error into) (es_load S aggregate_id)) (\<lambda>events.
           return_op (Ok (replay A events)))
     | Some snapshot \<Rightarrow>
         try_op (op_map_err (snapshot_from_store_error into)
             (es_load_after_revision S aggregate_id (sn_revision snapshot))) (\<lambda>events.
           let (state, revision) = replay_loop A (sn_state snapshot) (sn_revision snapshot) events
           in return_op (Ok (loaded_aggregate_new state revision))))"

definition execute_with_snapshot ::
  "('st, 'cmd, 'e, 'de) aggregate \<Rightarrow> ('w, 'id, 'e, 'se) event_store \<Rightarrow>
   ('se \<Rightarrow> ('de, 'se) repository_error) \<Rightarrow> 'id \<Rightarrow> 'cmd \<Rightarrow> metadata \<Rightarrow>
   ('w, 'st, 'id, 'sse) snapshot_store \<Rightarrow>
   ('w, ('de, 'se, 'sse) snapshot_repository_error + ('e, 'id) event_stream) op" where
  "execute_with_snapshot A S into aggregate_id command metadata snapshots =
     try_op (load_with_snapshot A S into aggregate_id snapshots) (\<lambda>loaded.
     try_op (return_op (map_err SnapDomain
         (handle_command_as_new_events A (la_state loaded) command metadata))) (\<lambda>events.
     op_map_err (snapshot_from_store_error into)
       (es_append S aggregate_id (Exact (la_revision loaded)) events)))"

section \<open>Retried idempotency records\<close>

definition RELEASE_MAX_ATTEMPTS :: nat where "RELEASE_MAX_ATTEMPTS = 3"
definition RELEASE_RETRY_DELAY :: duration where "RELEASE_RETRY_DELAY = from_millis 50"
definition SAVE_MAX_ATTEMPTS :: nat where "SAVE_MAX_ATTEMPTS = 3"
definition SAVE_RETRY_DELAY :: duration where "SAVE_RETRY_DELAY = from_millis 50"

text \<open>The loop over the attempts; running out of them is the \<open>unreachable!\<close> panic, \<open>None\<close>.\<close>

fun save_attempts ::
  "'w timer \<Rightarrow> ('w, 'v, 'ie) idempotency_store \<Rightarrow> idempotency_key \<Rightarrow> 'v \<Rightarrow> nat list \<Rightarrow> 'w \<Rightarrow>
   ((('de, 'se, 'ie) idempotent_repository_error + unit) \<times> 'w) option" where
  "save_attempts T I key value [] w = None"
| "save_attempts T I key value (attempt # attempts) w =
     (case is_save I key value w of
        (Inr u, w1) \<Rightarrow> Some (Ok (), w1)
      | (Inl error, w1) \<Rightarrow>
          if attempt = SAVE_MAX_ATTEMPTS then Some (Err (IIdempotency error), w1)
          else save_attempts T I key value attempts (snd (tm_sleep T SAVE_RETRY_DELAY w1)))"

definition save_idempotency_result_with_retry ::
  "'w timer \<Rightarrow> ('w, 'v, 'ie) idempotency_store \<Rightarrow> idempotency_key \<Rightarrow> 'v \<Rightarrow> 'w \<Rightarrow>
   ((('de, 'se, 'ie) idempotent_repository_error + unit) \<times> 'w) option" where
  "save_idempotency_result_with_retry T I key value =
     save_attempts T I key value [1..<SAVE_MAX_ATTEMPTS + 1]"

fun release_attempts ::
  "'w timer \<Rightarrow> ('w, 'v, 'ie) idempotency_store \<Rightarrow> idempotency_key \<Rightarrow> nat list \<Rightarrow>
   ('w, ('de, 'se, 'ie) idempotent_repository_error + unit) op" where
  "release_attempts T I key [] w = (Err (IdempotencyReleaseFailed key RELEASE_MAX_ATTEMPTS), w)"
| "release_attempts T I key (attempt # attempts) w =
     (case is_remove I key w of
        (Inr u, w1) \<Rightarrow> (Ok (), w1)
      | (Inl error, w1) \<Rightarrow>
          if attempt = RELEASE_MAX_ATTEMPTS
          then (Err (IdempotencyReleaseFailed key RELEASE_MAX_ATTEMPTS), w1)
          else release_attempts T I key attempts
            (if attempt < RELEASE_MAX_ATTEMPTS then snd (tm_sleep T RELEASE_RETRY_DELAY w1) else w1))"

definition release_idempotency_key_with_result ::
  "'w timer \<Rightarrow> ('w, 'v, 'ie) idempotency_store \<Rightarrow> idempotency_key \<Rightarrow>
   ('w, ('de, 'se, 'ie) idempotent_repository_error + unit) op" where
  "release_idempotency_key_with_result T I key =
     release_attempts T I key [1..<RELEASE_MAX_ATTEMPTS + 1]"

section \<open>Idempotent execution over two stores\<close>

datatype ('err, 'v) wait_outcome = WaitDone "'err + 'v" | WaitReserved | WaitSleep duration

definition wait_poll ::
  "'w timer \<Rightarrow> idempotency_wait_config \<Rightarrow> nat \<Rightarrow> idempotency_key \<Rightarrow>
   ('w, (('de, 'se, 'ie) idempotent_repository_error, 'v) wait_outcome) op" where
  "wait_poll T cfg started key w = (case pending_wait_delay cfg T started key w of
      (Inl error, w1) \<Rightarrow> (WaitDone (Err error), w1)
    | (Inr delay, w1) \<Rightarrow> (WaitSleep delay, w1))"

definition wait_reserve ::
  "'w timer \<Rightarrow> ('w, 'v, 'ie) idempotency_store \<Rightarrow> idempotency_wait_config \<Rightarrow> nat \<Rightarrow> idempotency_key \<Rightarrow>
   ('w, (('de, 'se, 'ie) idempotent_repository_error, 'v) wait_outcome) op" where
  "wait_reserve T I cfg started key w = (case store_reserve I key w of
      (Inl error, w1) \<Rightarrow> (WaitDone (Err (IIdempotency error)), w1)
    | (Inr reserved, w1) \<Rightarrow>
        if reserved then (WaitReserved, w1) else wait_poll T cfg started key w1)"

text \<open>One iteration of the loop: return, break with the reservation, or sleep and go round.\<close>

definition wait_step ::
  "'w timer \<Rightarrow> ('w, 'v, 'ie) idempotency_store \<Rightarrow> idempotency_wait_config \<Rightarrow> nat \<Rightarrow> idempotency_key \<Rightarrow>
   ('w, (('de, 'se, 'ie) idempotent_repository_error, 'v) wait_outcome) op" where
  "wait_step T I cfg started key w = (case is_load I key w of
      (Inl error, w1) \<Rightarrow> (WaitDone (Err (IIdempotency error)), w1)
    | (Inr None, w1) \<Rightarrow> wait_reserve T I cfg started key w1
    | (Inr (Some (Complete committed)), w1) \<Rightarrow> (WaitDone (Ok committed), w1)
    | (Inr (Some (Pending lease)), w1) \<Rightarrow>
        let (now, w2) = tm_now_ms T w1
        in if \<not> lease_is_expired lease now then wait_poll T cfg started key w2
           else wait_reserve T I cfg started key w2)"

partial_function (option) wait_loop ::
  "'w timer \<Rightarrow> ('w, 'v, 'ie) idempotency_store \<Rightarrow> idempotency_wait_config \<Rightarrow> nat \<Rightarrow> idempotency_key \<Rightarrow>
   'w \<Rightarrow> ((('de, 'se, 'ie) idempotent_repository_error + 'v option) \<times> 'w) option" where
  "wait_loop T I cfg started key w = (case wait_step T I cfg started key w of
      (WaitDone r, w1) \<Rightarrow> Some (map_ok Some r, w1)
    | (WaitReserved, w1) \<Rightarrow> Some (Ok None, w1)
    | (WaitSleep delay, w1) \<Rightarrow> wait_loop T I cfg started key (snd (tm_sleep T delay w1)))"

text \<open>The closure that runs the command once the key is reserved.\<close>

definition idempotent_body ::
  "('st, 'cmd, 'e, 'de) aggregate \<Rightarrow> ('w, 'id, 'e, 'se) event_store \<Rightarrow>
   ('se \<Rightarrow> ('de, 'se) repository_error) \<Rightarrow> 'id \<Rightarrow> 'cmd \<Rightarrow> metadata \<Rightarrow>
   ('w, ('de, 'se) repository_error + ('e, 'id) event_stream) op" where
  "idempotent_body A S into aggregate_id command metadata =
     try_op (repository_load A S into aggregate_id) (\<lambda>loaded.
     try_op (return_op (map_err RDomain
         (handle_command_as_new_events A (la_state loaded) command metadata))) (\<lambda>events.
     try_op (op_map_err into (es_append S aggregate_id (Exact (la_revision loaded)) events))
       (\<lambda>committed. return_op (Ok committed))))"

definition execute_idempotent_with_wait_config ::
  "'w timer \<Rightarrow> ('st, 'cmd, 'e, 'de) aggregate \<Rightarrow> ('w, 'id, 'e, 'se) event_store \<Rightarrow>
   ('se \<Rightarrow> ('de, 'se) repository_error) \<Rightarrow> 'id \<Rightarrow> 'cmd \<Rightarrow> metadata \<Rightarrow> idempotency_key \<Rightarrow>
   ('w, ('e, 'id) event_stream, 'ie) idempotency_store \<Rightarrow> idempotency_wait_config \<Rightarrow> 'w \<Rightarrow>
   ((('de, 'se, 'ie) idempotent_repository_error + ('e, 'id) event_stream) \<times> 'w) option" where
  "execute_idempotent_with_wait_config T A S into aggregate_id command metadata key I cfg w =
     (let (started, w0) = tm_instant T w
      in case wait_loop T I cfg started key w0 of
          None \<Rightarrow> None
        | Some (Inl error, w1) \<Rightarrow> Some (Err error, w1)
        | Some (Inr (Some committed), w1) \<Rightarrow> Some (Ok committed, w1)
        | Some (Inr None, w1) \<Rightarrow> (case idempotent_body A S into aggregate_id command metadata w1 of
              (Inl err, w2) \<Rightarrow> Some (try_op (release_idempotency_key_with_result T I key)
                  (\<lambda>_. return_op (Err (idempotent_from_repository_error err))) w2)
            | (Inr committed, w2) \<Rightarrow>
                (case save_idempotency_result_with_retry T I key committed w2 of
                   None \<Rightarrow> None
                 | Some (Inl error, w3) \<Rightarrow> Some (Err error, w3)
                 | Some (Inr _, w3) \<Rightarrow> Some (Ok committed, w3))))"

definition execute_idempotent where
  "execute_idempotent T A S into aggregate_id command metadata key I =
     execute_idempotent_with_wait_config T A S into aggregate_id command metadata key I
       wait_config_default"

section \<open>Idempotent execution inside the event store\<close>

text \<open>\<open>AtomicIdempotentEventStore\<close>, beside the \<open>event_store\<close> it extends.\<close>

record ('w, 'id, 'e, 'se) atomic_store =
  as_load_idempotent ::
    "idempotency_key \<Rightarrow> ('w, 'se + ('e, 'id) event_stream idempotency_state option) op"
  as_append_idempotent ::
    "idempotency_key \<Rightarrow> 'id \<Rightarrow> expected_revision \<Rightarrow> 'e new_event list \<Rightarrow>
     ('w, (idempotency_key, 'se) idempotent_append_error + ('e, 'id) event_stream) op"

definition atomic_wait_step ::
  "'w timer \<Rightarrow> ('w, 'id, 'e, 'se) atomic_store \<Rightarrow> ('se \<Rightarrow> ('de, 'se) repository_error) \<Rightarrow>
   idempotency_wait_config \<Rightarrow> nat \<Rightarrow> idempotency_key \<Rightarrow>
   ('w, (('de, 'se, 'ie) idempotent_repository_error, ('e, 'id) event_stream) wait_outcome) op" where
  "atomic_wait_step T AS into cfg started key w =
     (case op_map_err (idempotent_from_store_error into) (as_load_idempotent AS key) w of
        (Inl error, w1) \<Rightarrow> (WaitDone (Err error), w1)
      | (Inr (Some (Complete committed)), w1) \<Rightarrow> (WaitDone (Ok committed), w1)
      | (Inr (Some (Pending lease)), w1) \<Rightarrow>
          let (now, w2) = tm_now_ms T w1
          in if \<not> lease_is_expired lease now then wait_poll T cfg started key w2
             else (WaitReserved, w2)
      | (Inr None, w1) \<Rightarrow> (WaitReserved, w1))"

partial_function (option) atomic_wait_loop ::
  "'w timer \<Rightarrow> ('w, 'id, 'e, 'se) atomic_store \<Rightarrow> ('se \<Rightarrow> ('de, 'se) repository_error) \<Rightarrow>
   idempotency_wait_config \<Rightarrow> nat \<Rightarrow> idempotency_key \<Rightarrow> 'w \<Rightarrow>
   ((('de, 'se, 'ie) idempotent_repository_error + ('e, 'id) event_stream option) \<times> 'w) option" where
  "atomic_wait_loop T AS into cfg started key w = (case atomic_wait_step T AS into cfg started key w of
      (WaitDone r, w1) \<Rightarrow> Some (map_ok Some r, w1)
    | (WaitReserved, w1) \<Rightarrow> Some (Ok None, w1)
    | (WaitSleep delay, w1) \<Rightarrow> atomic_wait_loop T AS into cfg started key (snd (tm_sleep T delay w1)))"

definition atomic_append_step ::
  "'w timer \<Rightarrow> ('w, 'id, 'e, 'se) atomic_store \<Rightarrow> ('se \<Rightarrow> ('de, 'se) repository_error) \<Rightarrow>
   idempotency_wait_config \<Rightarrow> nat \<Rightarrow> idempotency_key \<Rightarrow> 'id \<Rightarrow> expected_revision \<Rightarrow> 'e new_event list \<Rightarrow>
   ('w, (('de, 'se, 'ie) idempotent_repository_error, ('e, 'id) event_stream) wait_outcome) op" where
  "atomic_append_step T AS into cfg started key aggregate_id expected events w =
     (case as_append_idempotent AS key aggregate_id expected events w of
        (Inr committed, w1) \<Rightarrow> (WaitDone (Ok committed), w1)
      | (Inl (APending _), w1) \<Rightarrow> wait_poll T cfg started key w1
      | (Inl (AStore error), w1) \<Rightarrow> (WaitDone (Err (idempotent_from_store_error into error)), w1))"

partial_function (option) atomic_append_loop ::
  "'w timer \<Rightarrow> ('w, 'id, 'e, 'se) atomic_store \<Rightarrow> ('se \<Rightarrow> ('de, 'se) repository_error) \<Rightarrow>
   idempotency_wait_config \<Rightarrow> nat \<Rightarrow> idempotency_key \<Rightarrow> 'id \<Rightarrow> expected_revision \<Rightarrow> 'e new_event list \<Rightarrow>
   'w \<Rightarrow> ((('de, 'se, 'ie) idempotent_repository_error + ('e, 'id) event_stream) \<times> 'w) option" where
  "atomic_append_loop T AS into cfg started key aggregate_id expected events w =
     (case atomic_append_step T AS into cfg started key aggregate_id expected events w of
        (WaitSleep delay, w1) \<Rightarrow> atomic_append_loop T AS into cfg started key aggregate_id expected
          events (snd (tm_sleep T delay w1))
      | (WaitDone r, w1) \<Rightarrow> Some (r, w1)
      | (WaitReserved, w1) \<Rightarrow> None)"

definition execute_idempotent_atomic_with_wait_config ::
  "'w timer \<Rightarrow> ('st, 'cmd, 'e, 'de) aggregate \<Rightarrow> ('w, 'id, 'e, 'se) event_store \<Rightarrow>
   ('w, 'id, 'e, 'se) atomic_store \<Rightarrow> ('se \<Rightarrow> ('de, 'se) repository_error) \<Rightarrow> 'id \<Rightarrow> 'cmd \<Rightarrow>
   metadata \<Rightarrow> idempotency_key \<Rightarrow> idempotency_wait_config \<Rightarrow> 'w \<Rightarrow>
   ((('de, 'se, 'ie) idempotent_repository_error + ('e, 'id) event_stream) \<times> 'w) option" where
  "execute_idempotent_atomic_with_wait_config T A S AS into aggregate_id command metadata key cfg w =
     (let (started, w0) = tm_instant T w
      in case atomic_wait_loop T AS into cfg started key w0 of
          None \<Rightarrow> None
        | Some (Inl error, w1) \<Rightarrow> Some (Err error, w1)
        | Some (Inr (Some committed), w1) \<Rightarrow> Some (Ok committed, w1)
        | Some (Inr None, w1) \<Rightarrow>
            (case op_map_err idempotent_from_repository_error
                    (repository_load A S into aggregate_id) w1 of
               (Inl error, w2) \<Rightarrow> Some (Err error, w2)
             | (Inr loaded, w2) \<Rightarrow>
                 (case map_err IDomain
                     (handle_command_as_new_events A (la_state loaded) command metadata) of
                    Inl error \<Rightarrow> Some (Err error, w2)
                  | Inr events \<Rightarrow> atomic_append_loop T AS into cfg started key aggregate_id
                      (Exact (la_revision loaded)) events w2)))"

definition execute_idempotent_atomic where
  "execute_idempotent_atomic T A S AS into aggregate_id command metadata key =
     execute_idempotent_atomic_with_wait_config T A S AS into aggregate_id command metadata key
       wait_config_default"

end
