(* ===== verification/Idempotent_Facts.thy ===== *)
theory Idempotent_Facts
  imports Repository_Facts
begin

text \<open>
  Idempotent execution on a world with an event store, an idempotency store and a clock: the
  frame laws between the three, the wait loop returns within its timeout, and what an execution
  leaves in the idempotency store.
\<close>

definition undisturbed ::
  "('w \<Rightarrow> bool) \<Rightarrow> ('w \<Rightarrow> 'id \<Rightarrow> ('e, 'id) event_stream) \<Rightarrow> ('w \<Rightarrow> nat) \<Rightarrow> 'w \<Rightarrow> 'w \<Rightarrow> bool" where
  "undisturbed ok strm time w w' \<longleftrightarrow> (ok w \<longrightarrow> ok w') \<and> strm w' = strm w \<and> time w \<le> time w'"

lemma undisturbed_refl [simp]: "undisturbed ok strm time w w"
  by (simp add: undisturbed_def)

lemma undisturbed_trans:
  "undisturbed ok strm time w w' \<Longrightarrow> undisturbed ok strm time w' w'' \<Longrightarrow>
   undisturbed ok strm time w w''"
  by (auto simp: undisturbed_def)

locale idempotent_world =
  event_store_contract S inv strm + idempotency_contract I entries + monotonic_timer T time
  for S :: "('w, 'id, 'e, 'se) event_store" and inv and strm
    and I :: "('w, ('e, 'id) event_stream, 'ie) idempotency_store" and entries
    and T :: "'w timer" and time +
  assumes store_load_frame: "es_load S i w = (r, w') \<Longrightarrow> entries w' = entries w \<and> time w \<le> time w'"
    and store_append_frame: "es_append S i x evs w = (r, w') \<Longrightarrow>
      entries w' = entries w \<and> time w \<le> time w'"
    and idem_load_frame: "is_load I k w = (s, w') \<Longrightarrow> undisturbed inv strm time w w'"
    and idem_reserve_frame: "is_reserve_with_lease I k c w = (b, w') \<Longrightarrow> undisturbed inv strm time w w'"
    and idem_save_frame: "is_save I k v w = (u, w') \<Longrightarrow> undisturbed inv strm time w w'"
    and idem_remove_frame: "is_remove I k w = (u, w') \<Longrightarrow> undisturbed inv strm time w w'"
    and now_ms_frame: "tm_now_ms T w = (n, w') \<Longrightarrow> undisturbed inv strm time w w' \<and> entries w' = entries w"
    and instant_frame: "tm_instant T w = (n, w') \<Longrightarrow> undisturbed inv strm time w w' \<and> entries w' = entries w"
    and sleep_frame: "tm_sleep T d w = (z, w') \<Longrightarrow> undisturbed inv strm time w w' \<and> entries w' = entries w"
begin

lemma elapsed_frame:
  "elapsed_since T started w = (e, w') \<Longrightarrow> undisturbed inv strm time w w' \<and> entries w' = entries w"
  using instant_frame [of w] by (auto simp: elapsed_since_def split: prod.splits)

lemma pending_wait_delay_frame:
  "pending_wait_delay cfg T started key w = (r, w') \<Longrightarrow>
   undisturbed inv strm time w w' \<and> entries w' = entries w"
  unfolding pending_wait_delay_def
  by (auto split: prod.splits option.splits dest!: elapsed_frame intro: undisturbed_trans)

lemma pending_wait_delay_Ok:
  assumes "pending_wait_delay cfg T started key w = (Inr d, w')"
  shows "0 < d \<and> time w + d \<le> started + wc_pending_timeout cfg"
proof -
  obtain e where e: "elapsed_since T started w = (e, w')" "next_delay cfg e key = Some d"
    using assms by (auto simp: pending_wait_delay_def split: prod.splits option.splits)
  then show ?thesis
    using next_delay_Some [OF e(2)] elapsed_time [OF e(1)] by auto
qed

lemma pending_wait_delay_Err:
  assumes "pending_wait_delay cfg T started key w = (Inl err, w')" "wc_poll_interval cfg \<noteq> 0"
  shows "\<exists>waited. err = IdempotencyPendingTimeout key waited \<and> wc_pending_timeout cfg \<le> waited"
proof -
  obtain e w1 waited where e: "elapsed_since T started w = (e, w1)" "next_delay cfg e key = None"
    "elapsed_since T started w1 = (waited, w')" "err = IdempotencyPendingTimeout key waited"
    using assms(1) by (auto simp: pending_wait_delay_def split: prod.splits option.splits)
  have "e \<le> waited"
    using elapsed_time [OF e(1)] elapsed_time [OF e(3)] by auto
  then show ?thesis using e(2,4) assms(2) by (auto simp: next_delay_None)
qed

lemma pending_wait_delay_timeout:
  "pending_wait_delay cfg T started key w = (Inl err, w') \<Longrightarrow>
   \<exists>waited. err = IdempotencyPendingTimeout key waited"
  by (auto simp: pending_wait_delay_def split: prod.splits option.splits)

lemma from_repository_error_cases:
  "idempotent_from_repository_error x \<noteq> IIdempotency e"
  "idempotent_from_repository_error x \<noteq> IdempotencyPendingTimeout k t"
  "idempotent_from_repository_error x \<noteq> IdempotencyReleaseFailed k n"
  by (cases x; simp)+

lemmas repository_errors_differ = from_repository_error_cases from_repository_error_cases [symmetric]

section \<open>One iteration\<close>

lemma wait_poll_cases:
  assumes "wait_poll T cfg started key w = (x, w')"
  shows "undisturbed inv strm time w w' \<and> entries w' = entries w \<and>
    (case x of WaitDone r \<Rightarrow> (\<exists>t. r = Inl (IdempotencyPendingTimeout key t)) | WaitReserved \<Rightarrow> False
     | WaitSleep d \<Rightarrow> 0 < d \<and> time w + d \<le> started + wc_pending_timeout cfg)"
  using assms unfolding wait_poll_def
  by (auto split: prod.splits sum.splits dest: pending_wait_delay_frame pending_wait_delay_Ok pending_wait_delay_timeout)

definition outcome_ok where
  "outcome_ok cfg started key w x w' \<longleftrightarrow> undisturbed inv strm time w w' \<and>
     (case x of
        WaitDone (Inl e) \<Rightarrow> entries w' = entries w \<and> (\<forall>x. e \<noteq> idempotent_from_repository_error x)
      | WaitDone (Inr v) \<Rightarrow> entries w' = entries w \<and> entries w key = Some (Complete v)
      | WaitReserved \<Rightarrow> (\<exists>lease. entries w' = (entries w)(key \<mapsto> Pending lease)) \<and>
          (\<forall>v. entries w key \<noteq> Some (Complete v))
      | WaitSleep d \<Rightarrow> entries w' = entries w \<and> 0 < d \<and>
          time w + d \<le> started + wc_pending_timeout cfg)"

lemma wait_poll_ok:
  "wait_poll T cfg started key w = (x, w') \<Longrightarrow> outcome_ok cfg started key w x w'"
  using wait_poll_cases [of cfg started key w x w']
  by (auto simp: outcome_ok_def repository_errors_differ split: wait_outcome.splits sum.splits)

lemma outcome_ok_before:
  "undisturbed inv strm time w w1 \<Longrightarrow> entries w1 = entries w \<Longrightarrow> outcome_ok cfg started key w1 x w' \<Longrightarrow>
   outcome_ok cfg started key w x w'"
  by (auto simp: outcome_ok_def undisturbed_def split: wait_outcome.splits sum.splits)

lemma wait_reserve_ok:
  assumes "wait_reserve T I cfg started key w = (x, w')"
  shows "outcome_ok cfg started key w x w'"
proof -
  obtain b w1 where b: "is_reserve_with_lease I key lease_config_default w = (b, w1)"
    by (cases "is_reserve_with_lease I key lease_config_default w")
  note frame = idem_reserve_frame [OF b]
  show ?thesis
  proof (cases "b = Inr True")
    case True
    then have "x = WaitReserved" "w' = w1"
      using assms b by (auto simp: wait_reserve_def store_reserve_def)
    then show ?thesis using True b frame reserve_granted by (auto simp: outcome_ok_def)
  next
    case False
    then have same: "entries w1 = entries w" using reserve_refused b by blast
    show ?thesis
    proof (cases b)
      case (Inl e)
      then have "x = WaitDone (Err (IIdempotency e))" "w' = w1"
        using assms b by (auto simp: wait_reserve_def store_reserve_def)
      then show ?thesis using same frame by (auto simp: outcome_ok_def repository_errors_differ)
    next
      case (Inr granted)
      then have "wait_poll T cfg started key w1 = (x, w')"
        using assms b False by (auto simp: wait_reserve_def store_reserve_def)
      then show ?thesis using outcome_ok_before [OF frame same wait_poll_ok] by blast
    qed
  qed
qed

lemma wait_step_ok:
  assumes "wait_step T I cfg started key w = (x, w')"
  shows "outcome_ok cfg started key w x w'"
proof -
  obtain s w1 where s: "is_load I key w = (s, w1)" by (cases "is_load I key w")
  have frame: "undisturbed inv strm time w w1" and same: "entries w1 = entries w"
    using idem_load_frame [OF s] load_entries [OF s] by auto
  consider (err) e where "s = Inl e" | (none) "s = Inr None"
    | (complete) v where "s = Inr (Some (Complete v))"
    | (pending) lease where "s = Inr (Some (Pending lease))"
    by (metis idempotency_state.exhaust option.exhaust sum.exhaust)
  then show ?thesis
  proof cases
    case err
    then show ?thesis using assms s frame same
      by (auto simp: wait_step_def outcome_ok_def repository_errors_differ)
  next
    case none
    then have "wait_reserve T I cfg started key w1 = (x, w')"
      using assms s by (simp add: wait_step_def)
    then show ?thesis using outcome_ok_before [OF frame same wait_reserve_ok] by blast
  next
    case complete
    then have "entries w key = Some (Complete v)" using load_entries [OF s] by blast
    then show ?thesis
      using assms s frame same complete by (auto simp: wait_step_def outcome_ok_def)
  next
    case pending
    obtain now w2 where now: "tm_now_ms T w1 = (now, w2)" by (cases "tm_now_ms T w1")
    have frame2: "undisturbed inv strm time w w2" "entries w2 = entries w"
      using now_ms_frame [OF now] frame same by (auto intro: undisturbed_trans)
    have "wait_poll T cfg started key w2 = (x, w') \<or> wait_reserve T I cfg started key w2 = (x, w')"
      using assms s now pending by (auto simp: wait_step_def split: if_splits)
    then show ?thesis
      using outcome_ok_before [OF frame2] wait_reserve_ok wait_poll_ok by blast
  qed
qed

section \<open>The loop\<close>

text \<open>The loop returns: every sleep brings the clock nearer to the end of the timeout.\<close>

lemma wait_loop_returns:
  "\<exists>r w'. wait_loop T I cfg started key w =
     Some (r :: ('de, 'se, 'ie) idempotent_repository_error + ('e, 'id) event_stream option, w')"
proof (induction "started + wc_pending_timeout cfg - time w" arbitrary: w rule: less_induct)
  case less
  obtain x w1 where step: "wait_step T I cfg started key w =
      (x :: (('de, 'se, 'ie) idempotent_repository_error, _) wait_outcome, w1)"
    by (meson surj_pair)
  show ?case
  proof (cases x)
    case (WaitSleep d)
    obtain z w2 where sleep: "tm_sleep T d w1 = (z, w2)" by (cases "tm_sleep T d w1")
    have "time w \<le> time w1" "0 < d" "time w + d \<le> started + wc_pending_timeout cfg"
      using wait_step_ok [OF step] WaitSleep by (auto simp: outcome_ok_def undisturbed_def)
    then have "started + wc_pending_timeout cfg - time w2 < started + wc_pending_timeout cfg - time w"
      using sleep_time [OF sleep] by linarith
    from less.hyps [OF this] show ?thesis
      by (subst wait_loop.simps) (simp add: step WaitSleep sleep)
  qed (subst wait_loop.simps, simp add: step)+
qed

definition loop_ok where
  "loop_ok key w r w' \<longleftrightarrow> undisturbed inv strm time w w' \<and>
     (case r of
        Inl e \<Rightarrow> entries w' = entries w \<and> (\<forall>x. e \<noteq> idempotent_from_repository_error x)
      | Inr (Some v) \<Rightarrow> entries w' = entries w \<and> entries w key = Some (Complete v)
      | Inr None \<Rightarrow> (\<exists>lease. entries w' = (entries w)(key \<mapsto> Pending lease)) \<and>
          (\<forall>v. entries w key \<noteq> Some (Complete v)))"

lemma loop_ok_before:
  "undisturbed inv strm time w w1 \<Longrightarrow> entries w1 = entries w \<Longrightarrow> loop_ok key w1 r w' \<Longrightarrow>
   loop_ok key w r w'"
  by (auto simp: loop_ok_def undisturbed_def split: sum.splits option.splits)

lemma wait_loop_ok:
  "wait_loop T I cfg started key w =
     Some (r :: ('de, 'se, 'ie) idempotent_repository_error + ('e, 'id) event_stream option, w') \<Longrightarrow>
   loop_ok key w r w'"
proof (induction "started + wc_pending_timeout cfg - time w" arbitrary: w rule: less_induct)
  case less
  obtain x w1 where step: "wait_step T I cfg started key w =
      (x :: (('de, 'se, 'ie) idempotent_repository_error, _) wait_outcome, w1)"
    by (meson surj_pair)
  note ok = wait_step_ok [OF step]
  show ?case
  proof (cases x)
    case (WaitDone r1)
    then have "r = map_ok Some r1" "w' = w1"
      using less.prems by (auto simp: wait_loop.simps [of T I cfg started key w] step)
    then show ?thesis using ok WaitDone by (cases r1) (auto simp: outcome_ok_def loop_ok_def)
  next
    case WaitReserved
    then have "r = Inr None" "w' = w1"
      using less.prems by (auto simp: wait_loop.simps [of T I cfg started key w] step)
    then show ?thesis using ok WaitReserved by (auto simp: outcome_ok_def loop_ok_def)
  next
    case (WaitSleep d)
    obtain z w2 where sleep: "tm_sleep T d w1 = (z, w2)" by (cases "tm_sleep T d w1")
    have o: "undisturbed inv strm time w w1" "entries w1 = entries w" "0 < d"
      "time w + d \<le> started + wc_pending_timeout cfg"
      using ok WaitSleep by (auto simp: outcome_ok_def)
    then have "started + wc_pending_timeout cfg - time w2 < started + wc_pending_timeout cfg - time w"
      using sleep_time [OF sleep] by (auto simp: undisturbed_def)
    moreover have "wait_loop T I cfg started key w2 = Some (r, w')"
      using less.prems by (simp add: wait_loop.simps [of T I cfg started key w] step WaitSleep sleep)
    ultimately have "loop_ok key w2 r w'" by (rule less.hyps)
    then show ?thesis
      using loop_ok_before [OF undisturbed_trans [OF o(1)]] sleep_frame [OF sleep] o(2) by auto
  qed
qed

section \<open>Recording the outcome\<close>

definition saved_ok where
  "saved_ok key v w r w' \<longleftrightarrow> undisturbed inv strm time w w' \<and>
     (case r of
        Inl e \<Rightarrow> (\<exists>x. e = IIdempotency x) \<and> entries w' = entries w
      | Inr (u :: unit) \<Rightarrow> entries w' = (entries w)(key \<mapsto> Complete v))"

lemma saved_ok_before:
  "undisturbed inv strm time w w1 \<Longrightarrow> entries w1 = entries w \<Longrightarrow> saved_ok key v w1 r w' \<Longrightarrow>
   saved_ok key v w r w'"
  by (auto simp: saved_ok_def intro: undisturbed_trans split: sum.splits)

lemma save_attempts_ok:
  "SAVE_MAX_ATTEMPTS \<in> set attempts \<Longrightarrow>
   \<exists>(r :: ('de, 'se, 'ie) idempotent_repository_error + unit) w'.
     save_attempts T I key v attempts w = Some (r, w') \<and> saved_ok key v w r w'"
proof (induction attempts arbitrary: w)
  case (Cons a attempts)
  obtain u w1 where save: "is_save I key v w = (u, w1)" by (meson surj_pair)
  note frame = idem_save_frame [OF save]
  show ?case
  proof (cases u)
    case (Inr z)
    then show ?thesis using save frame save_done by (simp add: saved_ok_def)
  next
    case (Inl e)
    then have same: "entries w1 = entries w" using save save_failed by blast
    show ?thesis
    proof (cases "a = SAVE_MAX_ATTEMPTS")
      case True
      then show ?thesis using save frame same Inl by (simp add: saved_ok_def)
    next
      case False
      obtain z w2 where sleep: "tm_sleep T SAVE_RETRY_DELAY w1 = (z, w2)" by (meson surj_pair)
      have to: "undisturbed inv strm time w w2" "entries w2 = entries w"
        using sleep_frame [OF sleep] frame same by (auto intro: undisturbed_trans)
      from False Cons.prems have "SAVE_MAX_ATTEMPTS \<in> set attempts" by auto
      from Cons.IH [OF this, of w2] show ?thesis
        using save Inl sleep False saved_ok_before [OF to] by simp blast
    qed
  qed
qed simp

lemma save_with_retry_ok:
  "\<exists>(r :: ('de, 'se, 'ie) idempotent_repository_error + unit) w'.
     save_idempotency_result_with_retry T I key v w = Some (r, w') \<and> saved_ok key v w r w'"
  unfolding save_idempotency_result_with_retry_def
  by (rule save_attempts_ok) (simp add: SAVE_MAX_ATTEMPTS_def)

lemma release_attempts_ok:
  "release_attempts T I key attempts w = (r, w') \<Longrightarrow> undisturbed inv strm time w w' \<and>
     (case r of
        Inl e \<Rightarrow> e = IdempotencyReleaseFailed key RELEASE_MAX_ATTEMPTS \<and> entries w' = entries w
      | Inr u \<Rightarrow> entries w' = (entries w)(key := None))"
proof (induction attempts arbitrary: w)
  case (Cons a attempts)
  obtain u w1 where remove: "is_remove I key w = (u, w1)" by (meson surj_pair)
  note frame = idem_remove_frame [OF remove]
  show ?case
  proof (cases u)
    case (Inr z)
    then show ?thesis using Cons.prems remove frame remove_done by auto
  next
    case (Inl e)
    then have same: "entries w1 = entries w" using remove remove_failed by blast
    show ?thesis
    proof (cases "a = RELEASE_MAX_ATTEMPTS")
      case True
      then show ?thesis using Cons.prems remove frame same Inl by auto
    next
      case False
      let ?w2 = "if a < RELEASE_MAX_ATTEMPTS then snd (tm_sleep T RELEASE_RETRY_DELAY w1) else w1"
      obtain z w2 where sleep: "tm_sleep T RELEASE_RETRY_DELAY w1 = (z, w2)" by (meson surj_pair)
      have to: "undisturbed inv strm time w ?w2" "entries ?w2 = entries w"
        using sleep_frame [OF sleep] sleep frame same by (auto intro: undisturbed_trans)
      have "release_attempts T I key attempts ?w2 = (r, w')"
        using Cons.prems remove Inl False by simp
      from Cons.IH [OF this] show ?thesis
        using to(2) by (auto intro: undisturbed_trans [OF to(1)] split: sum.splits)
    qed
  qed
qed auto

section \<open>Executing once\<close>

lemma body_frame:
  assumes "inv w" "idempotent_body A S into i cmd m w = (r, w')"
  shows "inv w' \<and> entries w' = entries w \<and> time w \<le> time w' \<and> (\<forall>j. prefix (strm w j) (strm w' j))"
proof -
  obtain l w1 where load: "es_load S i w = (l, w1)" by (meson surj_pair)
  note 1 = load_step [OF assms(1) load] store_load_frame [OF load]
  show ?thesis
  proof (cases "w' = w1")
    case False
    then obtain evs x rr where "es_append S i x evs w1 = (rr, w')"
      using assms(2) load by (fastforce simp: idempotent_body_def repository_load_def try_op_def
          op_map_err_def return_op_def split: prod.splits sum.splits)
    then have "inv w' \<and> (\<forall>j. prefix (strm w1 j) (strm w' j)) \<and> entries w' = entries w1 \<and> time w1 \<le> time w'"
      using append_step store_append_frame 1 by blast
    then show ?thesis using 1 by (auto intro: prefix_order.trans)
  qed (use 1 in auto)
qed

lemma body_Ok:
  assumes "inv w" "idempotent_body A S into i cmd m w = (Inr cs, w')"
  shows "\<exists>es. prefix (strm w i) es \<and> prefix (es @ cs) (strm w' i) \<and>
    agg_handle A (la_state (replay A es)) cmd = Inr (map env_payload cs)"
proof -
  have "execute A S into i cmd m w = (Inr cs, w')"
    using assms(2) by (simp add: idempotent_body_def execute_def save_new_events_def)
  from execute_committed [OF assms(1) this] show ?thesis by metis
qed

text \<open>The ways an execution ends.\<close>

definition ends_ok where
  "ends_ok A i cmd key w r w' \<longleftrightarrow> inv w' \<and>
     (\<forall>cs. r = Inr cs \<longrightarrow> entries w' key = Some (Complete cs)) \<and>
     (\<forall>cs. r = Inr cs \<longrightarrow> entries w key = Some (Complete cs) \<and> strm w' = strm w \<or>
        (\<forall>v. entries w key \<noteq> Some (Complete v)) \<and>
        (\<exists>es. prefix (strm w i) es \<and> prefix (es @ cs) (strm w' i) \<and>
           agg_handle A (la_state (replay A es)) cmd = Inr (map env_payload cs))) \<and>
     (\<forall>v. entries w key = Some (Complete v) \<longrightarrow> strm w' = strm w \<and> entries w' = entries w \<and>
        (r = Inr v \<or> isl r)) \<and>
     (\<forall>e. r = Inl (idempotent_from_repository_error e) \<longrightarrow>
        entries w' key = None)"

lemma execute_idempotent_ends:
  fixes A :: "('st, 'cmd, 'e, 'de) aggregate"
  assumes "inv w"
  shows "\<exists>r w'. execute_idempotent_with_wait_config T A S into i cmd m key I cfg w = Some (r, w') \<and>
    ends_ok A i cmd key w r w'"
proof -
  obtain started w0 where start: "tm_instant T w = (started, w0)" by (meson surj_pair)
  have f0: "inv w0" "strm w0 = strm w" "entries w0 = entries w"
    using instant_frame [OF start] assms by (auto simp: undisturbed_def)
  obtain l w1 where loop: "wait_loop T I cfg started key w0 =
      Some (l :: ('de, 'se, 'ie) idempotent_repository_error + ('e, 'id) event_stream option, w1)"
    using wait_loop_returns by blast
  note lok = wait_loop_ok [OF loop, unfolded loop_ok_def f0]
  have f1: "inv w1" "strm w1 = strm w" using lok f0 by (auto simp: undisturbed_def)
  note run_simps = execute_idempotent_with_wait_config_def start loop
  consider (err) e where "l = Inl e" | (finished) cs where "l = Inr (Some cs)" | (reserved) "l = Inr None"
    by (metis option.exhaust sum.exhaust)
  then show ?thesis
  proof cases
    case err
    have "ends_ok A i cmd key w (Inl e) w1"
      unfolding ends_ok_def using lok err f1 by simp
    then show ?thesis using err by (simp add: run_simps)
  next
    case finished
    have "ends_ok A i cmd key w (Inr cs) w1"
      unfolding ends_ok_def using lok finished f1 by simp
    then show ?thesis using finished by (simp add: run_simps)
  next
    case reserved
    then have fresh: "\<forall>v. entries w key \<noteq> Some (Complete v)" using lok by simp
    obtain b w2 where body: "idempotent_body A S into i cmd m w1 = (b, w2)" by (meson surj_pair)
    note f2 = body_frame [OF f1(1) body]
    show ?thesis
    proof (cases b)
      case (Inl error)
      obtain rel w3 where rel: "release_idempotency_key_with_result T I key w2 =
          (rel :: ('de, 'se, 'ie) idempotent_repository_error + unit, w3)" by (meson surj_pair)
      note rok = release_attempts_ok [OF rel [unfolded release_idempotency_key_with_result_def]]
      have inv3: "inv w3" using rok f2 by (simp add: undisturbed_def)
      have "ends_ok A i cmd key w
          (case rel of Inl e \<Rightarrow> Inl e | Inr _ \<Rightarrow> Inl (idempotent_from_repository_error error)) w3"
      proof (cases rel)
        case (Inl e)
        have "e \<noteq> idempotent_from_repository_error x" for x :: "('de, 'se) repository_error"
          using rok Inl by (cases x) auto
        then show ?thesis unfolding ends_ok_def using Inl inv3 fresh by simp
      next
        case (Inr u)
        then show ?thesis unfolding ends_ok_def using rok inv3 fresh by simp
      qed
      then show ?thesis
        using reserved Inl by (cases rel) (auto simp: run_simps body try_op_def rel return_op_def)
    next
      case (Inr cs)
      obtain s w3 where s: "save_idempotency_result_with_retry T I key cs w2 =
          Some (s :: ('de, 'se, 'ie) idempotent_repository_error + unit, w3)" "saved_ok key cs w2 s w3"
        using save_with_retry_ok by blast
      have inv3: "inv w3" "strm w3 = strm w2"
        using s(2) f2 by (auto simp: saved_ok_def undisturbed_def)
      have "ends_ok A i cmd key w (case s of Inl e \<Rightarrow> Inl e | Inr _ \<Rightarrow> Inr cs) w3"
      proof (cases s)
        case (Inl e)
        have "e \<noteq> idempotent_from_repository_error x" for x :: "('de, 'se) repository_error"
          using s(2) Inl by (cases x) (auto simp: saved_ok_def)
        then show ?thesis unfolding ends_ok_def using Inl inv3 fresh by simp
      next
        case (Inr u)
        then show ?thesis
          unfolding ends_ok_def
          using s(2) Inr inv3 fresh body_Ok [OF f1(1) body [unfolded \<open>b = Inr cs\<close>]] f1(2)
          by (simp add: saved_ok_def)
      qed
      then show ?thesis
        using reserved Inr s(1) by (cases s) (auto simp: run_simps body)
    qed
  qed
qed

end

end
