(* ===== verification/Memory_Store.thy ===== *)
theory Memory_Store
  imports Event_Store
begin

text \<open>
  \<open>InMemoryEventStore\<close> of \<open>src/memory.rs\<close>.  The state is one append-ordered log of envelopes with,
  per stream, the indices of its events in the log.  A lock poisoned by a panicking writer is
  the flag \<open>ms_poisoned\<close>.  An operation that indexes or slices a vector returns \<open>None\<close> where Rust
  panics.  \<open>stamp n\<close> is the identifier and clock reading of the event that gets sequence \<open>n\<close>.
  The invariant \<open>mem_inv\<close> ties the indices to the log; the store satisfies the event store and
  feed contracts.
\<close>

section \<open>State\<close>

record ('e, 'id) memory_state =
  ms_streams :: "'id \<rightharpoonup> nat list"
  ms_global :: "('e, 'id) event_stream"
  ms_next_sequence :: nat
  ms_poisoned :: bool

definition memory_default :: "('e, 'id) memory_state" where
  "memory_default = \<lparr>ms_streams = Map.empty, ms_global = [], ms_next_sequence = 1,
     ms_poisoned = False\<rparr>"

type_synonym stamp = "nat \<Rightarrow> event_id \<times> system_time"

section \<open>Operations\<close>

text \<open>\<open>slice::partition_point\<close>: a binary search for the first index that fails the predicate.\<close>

function partition_search :: "('a \<Rightarrow> bool) \<Rightarrow> 'a list \<Rightarrow> nat \<Rightarrow> nat \<Rightarrow> nat" where
  "partition_search p xs lo hi =
     (if lo < hi then
        let mid = lo + (hi - lo) div 2
        in if p (xs ! mid) then partition_search p xs (mid + 1) hi
           else partition_search p xs lo mid
      else lo)"
  by pat_completeness auto
termination
  by (relation "measure (\<lambda>(p, xs, lo, hi). hi - lo)") auto

declare partition_search.simps [simp del]

definition partition_point :: "('a \<Rightarrow> bool) \<Rightarrow> 'a list \<Rightarrow> nat" where
  "partition_point p xs = partition_search p xs 0 (length xs)"

definition first_index_after :: "('e, 'id) memory_state \<Rightarrow> nat option \<Rightarrow> nat" where
  "first_index_after st checkpoint = (case checkpoint of
      None \<Rightarrow> 0
    | Some c \<Rightarrow> partition_point
        (\<lambda>event. case env_sequence event of None \<Rightarrow> False | Some s \<Rightarrow> s \<le> c) (ms_global st))"

definition memory_stream_count :: "('e, 'id) memory_state \<Rightarrow> event_store_error + nat" where
  "memory_stream_count st =
     (if ms_poisoned st then Err Poisoned else Ok (card (dom (ms_streams st))))"

definition memory_clear ::
  "('e, 'id) memory_state \<Rightarrow> (event_store_error + unit) \<times> ('e, 'id) memory_state" where
  "memory_clear st =
     (if ms_poisoned st then (Err Poisoned, st)
      else (Ok (), st\<lparr>ms_streams := Map.empty, ms_global := [], ms_next_sequence := 1\<rparr>))"

text \<open>\<open>indices.iter().map(|i| global[i])\<close>: \<open>None\<close> where an index is out of bounds.\<close>

fun index_all :: "'a list \<Rightarrow> nat list \<Rightarrow> 'a list option" where
  "index_all xs [] = Some []"
| "index_all xs (i # is) =
     (if i < length xs then map_option (Cons (xs ! i)) (index_all xs is) else None)"

definition memory_load ::
  "('e, 'id) memory_state \<Rightarrow> 'id \<Rightarrow> (event_store_error + ('e, 'id) event_stream) option" where
  "memory_load st aggregate_id =
     (if ms_poisoned st then Some (Err Poisoned)
      else case ms_streams st aggregate_id of
          None \<Rightarrow> Some (Ok [])
        | Some indices \<Rightarrow> map_option Ok (index_all (ms_global st) indices))"

definition memory_load_after_revision ::
  "('e, 'id) memory_state \<Rightarrow> 'id \<Rightarrow> revision \<Rightarrow>
   (event_store_error + ('e, 'id) event_stream) option" where
  "memory_load_after_revision st aggregate_id revision =
     (if ms_poisoned st then Some (Err Poisoned)
      else case ms_streams st aggregate_id of
          None \<Rightarrow> Some (Ok [])
        | Some indices \<Rightarrow>
            map_option (\<lambda>events. Ok (filter (\<lambda>event. env_revision event > revision) events))
              (index_all (ms_global st) indices))"

fun memory_check_expected :: "expected_revision \<Rightarrow> revision \<Rightarrow> event_store_error option" where
  "memory_check_expected Any actual = None"
| "memory_check_expected NoStream actual =
     (if actual = 0 then None else Some (Concurrency StreamAlreadyExists))"
| "memory_check_expected (Exact expected) actual =
     (if expected = actual then None
      else Some (Concurrency (WrongExpectedRevision (Exact expected) actual)))"

text \<open>The append loop: the events still to add, then \<open>stream_events\<close> and \<open>new_indices\<close>.\<close>

fun memory_append_loop ::
  "string \<Rightarrow> stamp \<Rightarrow> 'id \<Rightarrow> revision \<Rightarrow> 'e new_event list \<Rightarrow> ('e, 'id) memory_state \<Rightarrow>
   ('e, 'id) event_stream \<Rightarrow> nat list \<Rightarrow>
   ('e, 'id) memory_state \<times> ('e, 'id) event_stream \<times> nat list" where
  "memory_append_loop at stamp i actual [] st stream_events new_indices =
     (st, stream_events, new_indices)"
| "memory_append_loop at stamp i actual (new_event # events) st stream_events new_indices =
     (let sequence = ms_next_sequence st;
          st1 = st\<lparr>ms_next_sequence := sequence + 1\<rparr>;
          revision = actual + length stream_events + 1;
          envelope = envelope_new (fst (stamp sequence)) i (aggregate_type_from_static at) revision
            (Some sequence) (ne_event_type new_event) (ne_event_version new_event)
            (ne_payload new_event) (ne_metadata new_event) (snd (stamp sequence));
          new_indices' = new_indices @ [length (ms_global st1)];
          st2 = st1\<lparr>ms_global := ms_global st1 @ [envelope]\<rparr>
      in memory_append_loop at stamp i actual events st2 (stream_events @ [envelope]) new_indices')"

definition memory_append ::
  "string \<Rightarrow> stamp \<Rightarrow> 'id \<Rightarrow> expected_revision \<Rightarrow> 'e new_event list \<Rightarrow>
   ('e, 'id) memory_state \<Rightarrow>
   (event_store_error + ('e, 'id) event_stream) \<times> ('e, 'id) memory_state" where
  "memory_append at stamp i expected_revision events st =
     (if ms_poisoned st then (Err Poisoned, st)
      else let actual_revision = (case ms_streams st i of None \<Rightarrow> 0 | Some s \<Rightarrow> length s)
        in case memory_check_expected expected_revision actual_revision of
          Some e \<Rightarrow> (Err e, st)
        | None \<Rightarrow>
            if events = [] then (Ok [], st)
            else let (st', stream_events, new_indices) =
                   memory_append_loop at stamp i actual_revision events st [] [];
                 entry = (case ms_streams st' i of None \<Rightarrow> [] | Some s \<Rightarrow> s)
              in (Ok stream_events,
                  st'\<lparr>ms_streams := (ms_streams st')(i \<mapsto> entry @ new_indices)\<rparr>))"

definition memory_load_global_after ::
  "('e, 'id) memory_state \<Rightarrow> nat option \<Rightarrow> event_store_error + ('e, 'id) event_stream" where
  "memory_load_global_after st sequence =
     (if ms_poisoned st then Err Poisoned
      else let start = first_index_after st sequence in Ok (drop start (ms_global st)))"

text \<open>
  \<open>start + limit\<close> is a \<open>usize\<close> sum: where it overflows, a debug build panics and a release
  build wraps to an end below \<open>start\<close>, whose slice panics.  The slice \<open>start..end\<close> panics where
  \<open>end\<close> lies below \<open>start\<close>.
\<close>

definition memory_load_global_after_limited ::
  "('e, 'id) memory_state \<Rightarrow> nat option \<Rightarrow> nat \<Rightarrow>
   (event_store_error + ('e, 'id) event_stream) option" where
  "memory_load_global_after_limited st sequence limit =
     (if ms_poisoned st then Some (Err Poisoned)
      else let start = first_index_after st sequence
        in if start + limit > u64_max then None
           else let stop = min (length (ms_global st)) (start + limit)
             in if start \<le> stop then Some (Ok (take (stop - start) (drop start (ms_global st))))
                else None)"

text \<open>
  The untyped feed: payloads and identifiers are rendered by \<open>serde_json\<close>, given as
  \<open>to_value\<close> and \<open>to_string\<close> with the text of their errors.
\<close>

definition memory_raw_envelope ::
  "('e \<Rightarrow> string + 'j) \<Rightarrow> ('id \<Rightarrow> string + string) \<Rightarrow> ('e, 'id) event_envelope \<Rightarrow>
   event_store_error + ('j, string) event_envelope" where
  "memory_raw_envelope to_value to_string envelope =
     and_then (map_err (\<lambda>error. error_serialization (''payload JSON: '' @ error))
         (to_value (env_payload envelope)))
      (\<lambda>payload. and_then (map_err (\<lambda>error. error_serialization (''aggregate_id: '' @ error))
           (to_string (env_aggregate_id envelope)))
        (\<lambda>aggregate_id. Ok (envelope_new (env_event_id envelope) aggregate_id
           (env_aggregate_type envelope) (env_revision envelope) (env_sequence envelope)
           (env_event_type envelope) (env_event_version envelope) payload
           (env_metadata envelope) (env_recorded_at envelope))))"

definition memory_load_raw_global_after_limited ::
  "('e \<Rightarrow> string + 'j) \<Rightarrow> ('id \<Rightarrow> string + string) \<Rightarrow> ('e, 'id) memory_state \<Rightarrow> nat option \<Rightarrow> nat \<Rightarrow>
   (event_store_error + ('j, string) event_stream) option" where
  "memory_load_raw_global_after_limited to_value to_string st sequence limit =
     (if ms_poisoned st then Some (Err Poisoned)
      else let start = first_index_after st sequence
        in if start + limit > u64_max then None
           else let stop = min (length (ms_global st)) (start + limit)
             in if start \<le> stop
                then Some (collect_results (memory_raw_envelope to_value to_string)
                       (take (stop - start) (drop start (ms_global st))))
                else None)"

text \<open>The store as an implementation of the \<open>EventStore\<close> trait.\<close>

definition memory_event_store ::
  "string \<Rightarrow> stamp \<Rightarrow>
   (('e, 'id) memory_state, 'id, 'e, event_store_error) event_store" where
  "memory_event_store at stamp = \<lparr>
     es_load = (\<lambda>i st. (the (memory_load st i), st)),
     es_load_after_revision = (\<lambda>i k st. (the (memory_load_after_revision st i k), st)),
     es_append = memory_append at stamp,
     es_load_global_after_limited =
       (\<lambda>c n st. (the (memory_load_global_after_limited st c n), st))\<rparr>"

section \<open>Invariant\<close>

definition stream_of :: "('e, 'id) memory_state \<Rightarrow> 'id \<Rightarrow> ('e, 'id) event_stream" where
  "stream_of st i = filter (\<lambda>e. env_aggregate_id e = i) (ms_global st)"

definition stream_index :: "('e, 'id) event_stream \<Rightarrow> 'id \<Rightarrow> nat list" where
  "stream_index g i = filter (\<lambda>k. env_aggregate_id (g ! k) = i) [0..<length g]"

definition mem_inv :: "('e, 'id) memory_state \<Rightarrow> bool" where
  "mem_inv st \<longleftrightarrow>
     ms_next_sequence st = length (ms_global st) + 1 \<and>
     map env_sequence (ms_global st) = map Some [1..<length (ms_global st) + 1] \<and>
     (\<forall>i. ms_streams st i =
        (if stream_index (ms_global st) i = [] then None
         else Some (stream_index (ms_global st) i))) \<and>
     (\<forall>i. contiguous_from 0 (stream_of st i))"

lemma index_all_in_bounds:
  "\<forall>i\<in>set is. i < length xs \<Longrightarrow> index_all xs is = Some (map ((!) xs) is)"
  by (induction "is") auto

lemma stream_index_nth: "map ((!) g) (stream_index g i) = filter (\<lambda>e. env_aggregate_id e = i) g"
proof -
  have "filter (\<lambda>e. env_aggregate_id e = i) (map ((!) g) [0..<length g]) =
    map ((!) g) (filter ((\<lambda>e. env_aggregate_id e = i) \<circ> (!) g) [0..<length g])"
    by (rule filter_map)
  then show ?thesis by (simp add: stream_index_def map_nth comp_def)
qed

lemma stream_index_bounds: "k \<in> set (stream_index g i) \<Longrightarrow> k < length g"
  by (simp add: stream_index_def)

lemma length_stream_index: "length (stream_index (ms_global st) i) = length (stream_of st i)"
  unfolding stream_of_def by (metis length_map stream_index_nth)

lemma mem_inv_index_all:
  "mem_inv st \<Longrightarrow> (case ms_streams st i of None \<Rightarrow> Some [] | Some ix \<Rightarrow> index_all (ms_global st) ix)
     = Some (stream_of st i)"
proof -
  have "index_all (ms_global st) (stream_index (ms_global st) i) = Some (stream_of st i)"
    by (subst index_all_in_bounds)
       (auto simp: stream_index_nth stream_of_def dest: stream_index_bounds)
  moreover have "stream_index (ms_global st) i = [] \<Longrightarrow> stream_of st i = []"
    using length_stream_index [of st i] by simp
  ultimately show "mem_inv st \<Longrightarrow> ?thesis" by (simp add: mem_inv_def)
qed

lemma mem_inv_length:
  "mem_inv st \<Longrightarrow> (case ms_streams st i of None \<Rightarrow> 0 | Some ix \<Rightarrow> length ix)
     = length (stream_of st i)"
  by (simp add: mem_inv_def length_stream_index [symmetric])

lemma memory_load_eq:
  "mem_inv st \<Longrightarrow> memory_load st i =
     Some (if ms_poisoned st then Err Poisoned else Ok (stream_of st i))"
  using mem_inv_index_all [of st i] by (auto simp: memory_load_def split: option.splits)

lemma memory_load_after_revision_eq:
  "mem_inv st \<Longrightarrow> memory_load_after_revision st i k =
     Some (if ms_poisoned st then Err Poisoned
           else Ok (filter (\<lambda>e. env_revision e > k) (stream_of st i)))"
  using mem_inv_index_all [of st i]
  by (fastforce simp: memory_load_after_revision_def split: option.splits)

section \<open>Appending\<close>

text \<open>What an append adds to the log, without the accumulators of the loop.\<close>

fun commit_envelopes ::
  "string \<Rightarrow> stamp \<Rightarrow> 'id \<Rightarrow> revision \<Rightarrow> nat \<Rightarrow> 'e new_event list \<Rightarrow> ('e, 'id) event_stream" where
  "commit_envelopes at stamp i revision sequence [] = []"
| "commit_envelopes at stamp i revision sequence (e # es) =
     envelope_new (fst (stamp sequence)) i (AggregateType at) (revision + 1) (Some sequence)
       (ne_event_type e) (ne_event_version e) (ne_payload e) (ne_metadata e) (snd (stamp sequence))
     # commit_envelopes at stamp i (revision + 1) (sequence + 1) es"

lemma commit_envelopes_facts [simp]:
  "length (commit_envelopes at stamp i r s es) = length es"
  "map env_payload (commit_envelopes at stamp i r s es) = map ne_payload es"
  "map env_event_type (commit_envelopes at stamp i r s es) = map ne_event_type es"
  "map env_event_version (commit_envelopes at stamp i r s es) = map ne_event_version es"
  "map env_metadata (commit_envelopes at stamp i r s es) = map ne_metadata es"
  by (induction es arbitrary: r s) auto

lemma commit_envelopes_id:
  "e \<in> set (commit_envelopes at stamp i r s es) \<Longrightarrow> env_aggregate_id e = i"
  by (induction es arbitrary: r s) auto

lemma commit_envelopes_contiguous: "contiguous_from r (commit_envelopes at stamp i r s es)"
  by (induction es arbitrary: r s) auto

lemma commit_envelopes_sequences:
  "map env_sequence (commit_envelopes at stamp i r s es) = map Some [s..<s + length es]"
proof (induction es arbitrary: r s)
  case (Cons e es)
  show ?case by (subst upt_rec) (simp add: Cons.IH)
qed simp

lemma memory_append_loop_eq:
  "memory_append_loop at stamp i actual es st ses ixs =
     (st\<lparr>ms_next_sequence := ms_next_sequence st + length es,
         ms_global := ms_global st @ commit_envelopes at stamp i (actual + length ses)
           (ms_next_sequence st) es\<rparr>,
      ses @ commit_envelopes at stamp i (actual + length ses) (ms_next_sequence st) es,
      ixs @ [length (ms_global st)..<length (ms_global st) + length es])"
proof (induction es arbitrary: st ses ixs)
  case (Cons e es)
  have "[length (ms_global st)..<length (ms_global st) + length (e # es)] =
    length (ms_global st) # [Suc (length (ms_global st))..<length (ms_global st) + length (e # es)]"
    by (rule upt_conv_Cons) simp
  then show ?case by (simp add: Let_def Cons.IH aggregate_type_from_static_def)
qed simp

definition append_result ::
  "string \<Rightarrow> stamp \<Rightarrow> 'id \<Rightarrow> 'e new_event list \<Rightarrow> ('e, 'id) memory_state \<Rightarrow>
   ('e, 'id) event_stream" where
  "append_result at stamp i events st =
     commit_envelopes at stamp i (length (stream_of st i))
       (ms_next_sequence st) events"

definition appended_state :: "('e, 'id) event_stream \<Rightarrow> ('e, 'id) memory_state \<Rightarrow> 'id \<Rightarrow>
   ('e, 'id) memory_state" where
  "appended_state cs st i = (if cs = [] then st else
     st\<lparr>ms_next_sequence := ms_next_sequence st + length cs,
        ms_global := ms_global st @ cs,
        ms_streams := (ms_streams st)(i \<mapsto> (case ms_streams st i of None \<Rightarrow> [] | Some s \<Rightarrow> s) @
           [length (ms_global st)..<length (ms_global st) + length cs])\<rparr>)"

lemma memory_check_expected_eq:
  "memory_check_expected x actual =
     (if expectation_met x actual then None else Some (Concurrency (expectation_error x actual)))"
  by (cases x) auto

lemma memory_append_eq:
  assumes "mem_inv st"
  shows "memory_append at stamp i x es st =
    (if ms_poisoned st then (Err Poisoned, st)
     else if \<not> expectation_met x (length (stream_of st i))
       then (Err (Concurrency (expectation_error x (length (stream_of st i)))), st)
     else (Ok (append_result at stamp i es st), appended_state (append_result at stamp i es st) st i))"
proof -
  have "append_result at stamp i es st = [] \<longleftrightarrow> es = []"
    unfolding append_result_def by (metis commit_envelopes_facts(1) length_0_conv)
  then show ?thesis
    using mem_inv_length [OF assms, of i]
    by (auto simp: memory_append_def memory_append_loop_eq memory_check_expected_eq
        append_result_def appended_state_def Let_def)
qed

lemma stream_of_appended:
  assumes "\<forall>c\<in>set cs. env_aggregate_id c = i"
  shows "stream_of (appended_state cs st i) j =
    (if j = i then stream_of st i @ cs else stream_of st j)"
proof -
  have "filter (\<lambda>e. env_aggregate_id e = j) cs = (if j = i then cs else [])"
    using assms by (auto simp: filter_id_conv filter_empty_conv)
  then show ?thesis by (auto simp: stream_of_def appended_state_def)
qed

lemma stream_index_append:
  assumes "\<forall>c\<in>set cs. env_aggregate_id c = i"
  shows "stream_index (g @ cs) j =
    stream_index g j @ (if j = i then [length g..<length g + length cs] else [])"
proof -
  have split: "[0..<length (g @ cs)] = [0..<length g] @ [length g..<length g + length cs]"
    by (metis length_append upt_add_eq_append zero_le)
  have "filter (\<lambda>k. env_aggregate_id ((g @ cs) ! k) = j) [0..<length g] = stream_index g j"
    unfolding stream_index_def by (rule filter_cong) (auto simp: nth_append)
  moreover have "filter (\<lambda>k. env_aggregate_id ((g @ cs) ! k) = j) [length g..<length g + length cs] =
      (if j = i then [length g..<length g + length cs] else [])"
    using assms by (auto simp: filter_id_conv filter_empty_conv nth_append)
  ultimately show ?thesis unfolding stream_index_def split by simp
qed

lemma appended_state_inv:
  assumes inv: "mem_inv st" and cs: "cs = append_result at stamp i es st"
  shows "mem_inv (appended_state cs st i)"
proof (cases "cs = []")
  case False
  have id: "\<forall>c\<in>set cs. env_aggregate_id c = i"
    using cs by (auto simp: append_result_def dest: commit_envelopes_id)
  let ?st = "appended_state cs st i"
  have "map env_sequence cs = map Some [ms_next_sequence st..<ms_next_sequence st + length cs]"
    using cs by (simp add: append_result_def commit_envelopes_sequences)
  then have "map env_sequence (ms_global ?st) = map Some [1..<length (ms_global ?st) + 1]"
    using inv False upt_add_eq_append [of 1 "length (ms_global st) + 1" "length cs"]
    by (simp add: mem_inv_def appended_state_def)
  moreover have "ms_streams ?st j = (if stream_index (ms_global ?st) j = [] then None
      else Some (stream_index (ms_global ?st) j))" for j
    using inv False stream_index_append [OF id, of "ms_global st" j]
    by (auto simp: mem_inv_def appended_state_def)
  moreover have "contiguous_from 0 (stream_of ?st j)" for j
  proof -
    have "contiguous_from (length (stream_of st i)) cs"
      using cs by (simp add: append_result_def commit_envelopes_contiguous)
    then show ?thesis
      using inv by (auto simp: stream_of_appended [OF id] mem_inv_def contiguous_from_append)
  qed
  moreover have "ms_next_sequence ?st = length (ms_global ?st) + 1"
    using inv by (simp add: mem_inv_def appended_state_def)
  ultimately show ?thesis unfolding mem_inv_def by blast
qed (simp add: appended_state_def inv)

section \<open>The global feed\<close>

text \<open>The precondition of \<open>partition_point\<close>: the predicate holds on an initial part only.\<close>

definition partitioned :: "('a \<Rightarrow> bool) \<Rightarrow> 'a list \<Rightarrow> bool" where
  "partitioned p xs \<longleftrightarrow> (\<forall>j k. j \<le> k \<and> k < length xs \<and> p (xs ! k) \<longrightarrow> p (xs ! j))"

lemma partitionedD: "partitioned p xs \<Longrightarrow> p (xs ! k) \<Longrightarrow> j \<le> k \<Longrightarrow> k < length xs \<Longrightarrow> p (xs ! j)"
  unfolding partitioned_def by blast

lemma partition_search_correct:
  "\<lbrakk>lo \<le> hi; hi \<le> length xs; \<And>k. k < lo \<Longrightarrow> p (xs ! k);
    \<And>k. hi \<le> k \<Longrightarrow> k < length xs \<Longrightarrow> \<not> p (xs ! k); partitioned p xs\<rbrakk> \<Longrightarrow>
   partition_search p xs lo hi \<le> length xs \<and>
   (\<forall>k<partition_search p xs lo hi. p (xs ! k)) \<and>
   (\<forall>k. partition_search p xs lo hi \<le> k \<and> k < length xs \<longrightarrow> \<not> p (xs ! k))"
proof (induction p xs lo hi rule: partition_search.induct)
  case (1 p xs lo hi)
  let ?mid = "lo + (hi - lo) div 2"
  show ?case
  proof (cases "lo < hi")
    case lt: True
    then have mid: "lo \<le> ?mid" "?mid < hi" "?mid < length xs" using 1(4) by auto
    show ?thesis
    proof (cases "p (xs ! ?mid)")
      case True
      have eq: "partition_search p xs lo hi = partition_search p xs (?mid + 1) hi"
        using lt True by (subst partition_search.simps) (simp add: Let_def)
      have "p (xs ! k)" if "k < ?mid + 1" for k
        by (rule partitionedD [OF 1(7) True]) (use that mid in auto)
      then show ?thesis
        unfolding eq by (intro 1(1) [OF lt refl True]) (use mid(2) 1(4,6,7) in simp_all)
    next
      case False
      have eq: "partition_search p xs lo hi = partition_search p xs lo ?mid"
        using lt False by (subst partition_search.simps) (simp add: Let_def)
      have "\<not> p (xs ! k)" if "?mid \<le> k" "k < length xs" for k
        using partitionedD [OF 1(7) _ that] False by blast
      then show ?thesis
        unfolding eq by (intro 1(2) [OF lt refl False mid(1)]) (use mid(3) 1(5,7) in simp_all)
    qed
  next
    case False
    then have "partition_search p xs lo hi = lo"
      by (subst partition_search.simps) simp
    then show ?thesis using 1(3-6) False by simp
  qed
qed

lemma partition_point_takeWhile:
  assumes "partitioned p xs"
  shows "partition_point p xs = length (takeWhile p xs)"
proof -
  let ?n = "partition_point p xs"
  have n: "?n \<le> length xs \<and> (\<forall>k<?n. p (xs ! k)) \<and>
      (\<forall>k. ?n \<le> k \<and> k < length xs \<longrightarrow> \<not> p (xs ! k))"
    unfolding partition_point_def by (rule partition_search_correct) (use assms in auto)
  have "takeWhile p xs = take ?n xs"
    by (rule takeWhile_eq_take_P_nth) (use n in auto)
  then show ?thesis using n by simp
qed

lemma mem_inv_sequence:
  "mem_inv st \<Longrightarrow> k < length (ms_global st) \<Longrightarrow> env_sequence (ms_global st ! k) = Some (k + 1)"
proof -
  assume "mem_inv st" and k: "k < length (ms_global st)"
  then have "map env_sequence (ms_global st) ! k = map Some [1..<length (ms_global st) + 1] ! k"
    by (simp add: mem_inv_def)
  then show ?thesis using k by (simp del: upt_Suc)
qed

lemma mem_inv_feed_sorted: "mem_inv st \<Longrightarrow> feed_sorted (ms_global st)"
proof -
  assume inv: "mem_inv st"
  then have "map (\<lambda>e. the (env_sequence e)) (ms_global st) = [1..<length (ms_global st) + 1]"
    by (intro nth_equalityI) (auto simp: mem_inv_sequence simp del: upt_Suc)
  then show ?thesis
    using mem_inv_sequence [OF inv]
    by (auto simp: feed_sorted_def in_set_conv_nth simp del: upt_Suc)
qed

lemma first_index_after_drop:
  assumes "mem_inv st"
  shows "drop (first_index_after st c) (ms_global st) = after_cursor c (ms_global st)"
    and "first_index_after st c \<le> length (ms_global st)"
proof -
  let ?p = "\<lambda>c event. case env_sequence event of None \<Rightarrow> False | Some s \<Rightarrow> s \<le> (c::nat)"
  have part: "partition_point (?p c) (ms_global st) = length (takeWhile (?p c) (ms_global st))" for c
    by (rule partition_point_takeWhile) (auto simp: partitioned_def mem_inv_sequence [OF assms])
  have "takeWhile (?p c) (ms_global st) =
      takeWhile (\<lambda>e. the (env_sequence e) \<le> c) (ms_global st)" for c
    using mem_inv_feed_sorted [OF assms]
    by (intro takeWhile_cong) (auto simp: feed_sorted_def split: option.splits)
  with part show "drop (first_index_after st c) (ms_global st) = after_cursor c (ms_global st)"
    using takeWhile_length_filter_sorted [of "\<lambda>e. the (env_sequence e)" "ms_global st"]
      mem_inv_feed_sorted [OF assms]
    by (auto simp: first_index_after_def after_cursor_def feed_sorted_def split: option.splits)
  show "first_index_after st c \<le> length (ms_global st)"
    using part by (auto simp: first_index_after_def length_takeWhile_le split: option.splits)
qed

lemma memory_load_global_after_eq:
  "mem_inv st \<Longrightarrow> memory_load_global_after st c =
     (if ms_poisoned st then Err Poisoned else Ok (after_cursor c (ms_global st)))"
  by (simp add: memory_load_global_after_def first_index_after_drop)

lemma memory_load_limited_eq:
  assumes "mem_inv st"
  shows "memory_load_global_after_limited st c n =
     (if ms_poisoned st then Some (Err Poisoned)
      else if first_index_after st c + n > u64_max then None
      else Some (Ok (take n (after_cursor c (ms_global st)))))"
proof -
  let ?s = "first_index_after st c" and ?g = "ms_global st"
  have "take (min (length ?g) (?s + n) - ?s) (drop ?s ?g) = take n (drop ?s ?g)"
    by (cases "length ?g \<le> ?s + n") auto
  then show ?thesis
    using first_index_after_drop [OF assms, of c]
    by (simp add: memory_load_global_after_limited_def Let_def)
qed

section \<open>The contracts\<close>

lemma memory_append_step:
  assumes "mem_inv st" "memory_append at stamp i x evs st = (r, st')"
  shows "mem_inv st'" "ms_poisoned st' = ms_poisoned st"
    and "r = Inl e \<Longrightarrow> st' = st"
    and "r = Inr cs \<Longrightarrow> cs = append_result at stamp i evs st \<and>
      expectation_met x (length (stream_of st i)) \<and>
      ms_global st' = ms_global st @ cs \<and> stream_of st' = (stream_of st)(i := stream_of st i @ cs)"
proof -
  let ?cs = "append_result at stamp i evs st"
  have id: "\<forall>c\<in>set ?cs. env_aggregate_id c = i"
    by (auto simp: append_result_def dest: commit_envelopes_id)
  show "mem_inv st'" "ms_poisoned st' = ms_poisoned st" "r = Inl e \<Longrightarrow> st' = st"
    using assms appended_state_inv [OF assms(1) refl, of at stamp i evs]
    by (auto simp: memory_append_eq appended_state_def split: if_splits)
  show "r = Inr cs \<Longrightarrow> cs = ?cs \<and> expectation_met x (length (stream_of st i)) \<and>
      ms_global st' = ms_global st @ cs \<and> stream_of st' = (stream_of st)(i := stream_of st i @ cs)"
    using assms stream_of_appended [OF id, of st]
    by (auto simp: memory_append_eq appended_state_def fun_eq_iff split: if_splits)
qed

interpretation memory: quiet_event_store "memory_event_store at stamp" mem_inv stream_of
  for at :: string and stamp :: stamp
proof (unfold_locales, goal_cases)
  case (4 w i x evs r w')
  then have step: "mem_inv w" "memory_append at stamp i x evs w = (r, w')"
    by (simp_all add: memory_event_store_def)
  show ?case
  proof (cases r)
    case (Inl e)
    then show ?thesis using memory_append_step(1,3) [OF step] by auto
  next
    case (Inr cs)
    then show ?thesis using memory_append_step(1,4) [OF step]
      by (auto simp: append_result_def intro!: exI [of _ "stream_of w i"])
  qed
next
  case (7 w i x evs cs w')
  then show ?case using memory_append_step(4) [of w at stamp i x evs "Inr cs" w']
    by (auto simp: memory_event_store_def)
next
  case (8 w i x evs e w')
  then show ?case using memory_append_step(3) [of w at stamp i x evs "Inl e" w']
    by (auto simp: memory_event_store_def)
next
  case (3 w i k r w')
  then show ?case
    by (auto simp: memory_event_store_def memory_load_after_revision_eq split: if_splits)
qed (auto simp: mem_inv_def memory_event_store_def memory_load_eq memory_load_after_revision_eq
  split: if_splits)

interpretation shared_memory: event_store_contract
  "interleaved (memory_event_store at stamp)" "mem_inv \<circ> fst" "stream_of \<circ> fst"
  for at :: string and stamp :: stamp
  by (rule memory.interleaved_contract)

definition mem_feed_ready :: "('e, 'id) memory_state \<Rightarrow> bool" where
  "mem_feed_ready st \<longleftrightarrow> mem_inv st \<and> \<not> ms_poisoned st \<and> length (ms_global st) \<le> u64_max"

interpretation memory_feed: event_feed
  "es_load_global_after_limited (memory_event_store at stamp)" mem_feed_ready ms_global
  "\<lambda>st. u64_max - length (ms_global st)"
  for at :: string and stamp :: stamp
proof (unfold_locales, goal_cases)
  case (2 w n c)
  then show ?case using first_index_after_drop(2) [of w c]
    by (auto simp: memory_event_store_def mem_feed_ready_def memory_load_limited_eq)
qed (simp add: mem_feed_ready_def mem_inv_feed_sorted)

section \<open>Properties\<close>

text \<open>
  The states an in-memory store can be in: appends (of any aggregate type with any
  stamps), \<open>clear\<close>, and a writer that panics while it holds the lock.
\<close>

inductive memory_reachable :: "('e, 'id) memory_state \<Rightarrow> bool" where
  reach_new: "memory_reachable memory_default"
| reach_append: "memory_reachable st \<Longrightarrow> memory_append at stamp i x es st = (r, st') \<Longrightarrow>
    memory_reachable st'"
| reach_clear: "memory_reachable st \<Longrightarrow> memory_clear st = (r, st') \<Longrightarrow> memory_reachable st'"
| reach_poison: "memory_reachable st \<Longrightarrow> memory_reachable (st\<lparr>ms_poisoned := True\<rparr>)"

lemma mem_inv_default: "mem_inv memory_default"
  by (simp add: mem_inv_def memory_default_def stream_index_def stream_of_def)

lemma mem_inv_clear: "mem_inv st \<Longrightarrow> memory_clear st = (r, st') \<Longrightarrow> mem_inv st'"
  by (auto simp: mem_inv_def memory_clear_def stream_index_def stream_of_def split: if_splits)

lemma memory_reachable_inv: "memory_reachable st \<Longrightarrow> mem_inv st"
proof (induction rule: memory_reachable.induct)
  case (reach_poison st)
  then show ?case by (simp add: mem_inv_def stream_of_def)
qed (auto simp: mem_inv_default dest: memory_append_step(1) mem_inv_clear)

text \<open>C4: in every reachable state of the in-memory store the per-stream indices agree with the
  log.  A load never indexes out of bounds, returns exactly the log's events of that stream in
  append order, and their revisions count from 1 without a gap; the log's global sequences
  count from 1 without a gap.\<close>

theorem memory_load_reachable:
  "memory_reachable st \<Longrightarrow>
     memory_load st i = Some (if ms_poisoned st then Err Poisoned
        else Ok (filter (\<lambda>e. env_aggregate_id e = i) (ms_global st))) \<and>
     contiguous_from 0 (filter (\<lambda>e. env_aggregate_id e = i) (ms_global st)) \<and>
     map env_sequence (ms_global st) = map Some [1..<length (ms_global st) + 1]"
  using memory_reachable_inv [of st] memory_load_eq [of st i]
  by (auto simp: mem_inv_def stream_of_def)

definition demo_aggregate :: "(nat, nat, nat, string) aggregate" where
  "demo_aggregate = \<lparr>agg_aggregate_type = ''counter'', agg_new = 0, agg_apply = (+),
     agg_handle = (\<lambda>s c. if c = 0 then Err ''increment must be positive'' else Ok [c]),
     agg_event = \<lparr>de_event_type = (\<lambda>_. ''incremented''), de_event_version = (\<lambda>_. 1)\<rparr>\<rparr>"

definition demo_stamp :: stamp where
  "demo_stamp n = (EventId (show_nat n), int n)"

definition demo_event :: "nat \<Rightarrow> nat new_event" where
  "demo_event n = new_event_new (agg_event demo_aggregate) n metadata_new"

definition demo_state :: "(nat, string) memory_state" where
  "demo_state = snd (memory_append ''counter'' demo_stamp ''b'' Any [demo_event 7]
     (snd (memory_append ''counter'' demo_stamp ''a'' NoStream [demo_event 5, demo_event 6]
       memory_default)))"

lemmas demo_defs = demo_state_def demo_aggregate_def demo_stamp_def demo_event_def

lemma demo_state_reachable: "memory_reachable demo_state"
  unfolding demo_state_def
  by (rule reach_append [OF reach_append [OF reach_new] prod.collapse [symmetric]]
      prod.collapse [symmetric])+

theorem memory_load_reachable_witness:
  "contiguous_from 0 (filter (\<lambda>e. env_aggregate_id e = ''a'') (ms_global demo_state))"
  using memory_load_reachable [OF demo_state_reachable, of "''a''"] by simp

text \<open>C3: an append to the in-memory store checks the expectation against the number of events
  of the stream.  On a mismatch it returns the concurrency error the expectation calls for and
  leaves the store untouched; otherwise it commits exactly the given events, in order, with the
  next revisions of the stream and the next global sequences, adds them to the end of the log
  and of this stream, and changes no other stream.\<close>

theorem memory_append_correct:
  fixes i :: 'id and st st' :: "('e, 'id) memory_state"
  assumes "memory_reachable st" and "\<not> ms_poisoned st"
  defines "actual \<equiv> length (filter (\<lambda>e. env_aggregate_id e = i) (ms_global st))"
  shows "memory_append at stamp i x es st = (r, st') \<Longrightarrow>
    (case r of
       Inl e \<Rightarrow> \<not> expectation_met x actual \<and> e = Concurrency (expectation_error x actual) \<and> st' = st
     | Inr cs \<Rightarrow> expectation_met x actual \<and>
         map env_payload cs = map ne_payload es \<and>
         map env_event_type cs = map ne_event_type es \<and>
         map env_event_version cs = map ne_event_version es \<and>
         map env_metadata cs = map ne_metadata es \<and>
         map env_revision cs = [actual + 1..<actual + 1 + length es] \<and>
         map env_sequence cs = map Some [length (ms_global st) + 1..<length (ms_global st) + 1 + length es] \<and>
         ms_global st' = ms_global st @ cs \<and>
         (\<forall>j. memory_load st' j = Some (Ok (if j = i
            then filter (\<lambda>e. env_aggregate_id e = i) (ms_global st) @ cs
            else filter (\<lambda>e. env_aggregate_id e = j) (ms_global st)))))"
proof -
  assume run: "memory_append at stamp i x es st = (r, st')"
  have inv: "mem_inv st" using assms(1) by (rule memory_reachable_inv)
  have actual: "actual = length (stream_of st i)" by (simp add: actual_def stream_of_def)
  note step = memory_append_step [OF inv run]
  show ?thesis
  proof (cases r)
    case (Inl e)
    then show ?thesis using run step(3) assms(2)
      by (auto simp: memory_append_eq [OF inv] actual split: if_splits)
  next
    case (Inr cs)
    then have cs: "cs = append_result at stamp i es st" using step(4) by blast
    have "contiguous_from actual cs"
      by (simp add: cs append_result_def actual commit_envelopes_contiguous)
    moreover have "length cs = length es" by (simp add: cs append_result_def)
    moreover have "map env_sequence cs =
        map Some [ms_next_sequence st..<ms_next_sequence st + length es]"
      by (simp add: cs append_result_def commit_envelopes_sequences)
    ultimately show ?thesis
      using Inr step assms(2) inv
      by (auto simp: contiguous_from_revisions memory_load_eq actual cs append_result_def
          mem_inv_def stream_of_def fun_eq_iff simp del: upt_Suc)
  qed
qed

theorem memory_append_correct_witness:
  "\<exists>cs. fst (memory_append ''counter'' demo_stamp ''a'' (Exact 2) [demo_event 9] demo_state) = Ok cs
     \<and> map env_revision cs = [3] \<and> map env_sequence cs = [Some 4]"
proof -
  let ?run = "memory_append ''counter'' demo_stamp ''a'' (Exact 2) [demo_event 9] demo_state"
  have np: "\<not> ms_poisoned demo_state"
    and two: "length (filter (\<lambda>e. env_aggregate_id e = ''a'') (ms_global demo_state)) = 2"
    and three: "length (ms_global demo_state) = 3"
    by (simp_all add: demo_defs memory_append_def memory_default_def new_event_new_def Let_def)
  show ?thesis
    using memory_append_correct [OF demo_state_reachable np prod.collapse [symmetric],
        where at = "''counter''" and stamp = demo_stamp and i = "''a''" and x = "Exact 2"
          and es = "[demo_event 9]"] two three
    by (cases "fst ?run") (auto simp: upt_rec)
qed

text \<open>Optimistic concurrency of the in-memory store.  Of two writers that loaded the same
  revision and append at least one event each, the one served second is rejected with the
  revision it should have seen and changes nothing.\<close>

lemma memory_exact_append_race:
  assumes "memory_reachable st" and "es \<noteq> []"
    and "memory_append at stamp i (Exact r) es st = (Ok cs, st1)"
  shows "memory_append at' stamp' i (Exact r) fs st1 =
     (Err (Concurrency (WrongExpectedRevision (Exact r) (r + length es))), st1)"
proof -
  have inv: "mem_inv st" using assms(1) by (rule memory_reachable_inv)
  note step = memory_append_step [OF inv assms(3)]
  have "length (stream_of st1 i) = r + length es" "r = length (stream_of st i)"
    using step(4) [OF refl] by (auto simp: append_result_def)
  moreover have "\<not> ms_poisoned st1"
    using step(2) assms(3) by (auto simp: memory_append_def)
  ultimately show ?thesis
    using assms(2) by (simp add: memory_append_eq [OF step(1)])
qed

lemma memory_exact_append_race_witness:
  "\<exists>st1. memory_append ''counter'' demo_stamp ''a'' (Exact 2) [demo_event 3] st1 =
     (Err (Concurrency (WrongExpectedRevision (Exact 2) 3)), st1)"
proof -
  let ?run = "memory_append ''counter'' demo_stamp ''a'' (Exact 2) [demo_event 9] demo_state"
  have "\<not> isl (fst ?run)"
    by (simp add: demo_defs memory_append_def memory_default_def new_event_new_def Let_def)
  then obtain cs where "?run = (Ok cs, snd ?run)" by (metis prod.collapse sum.collapse(2))
  from memory_exact_append_race [OF demo_state_reachable _ this, of "''counter''" demo_stamp
      "[demo_event 3]"] show ?thesis by (intro exI [of _ "snd ?run"]) simp
qed

text \<open>C21: the bounded global feed of the in-memory store.  It returns the first \<open>limit\<close> events
  after the checkpoint, found by binary search; it fails (a panic) exactly when the start index
  plus the limit overflows \<open>usize\<close>, which an unbounded limit does as soon as an event has been
  consumed.\<close>

theorem memory_limited_feed:
  assumes "memory_reachable st" and "\<not> ms_poisoned st"
  shows "memory_load_global_after_limited st c limit =
     (if length (ms_global st) - length (after_cursor c (ms_global st)) + limit > u64_max then None
      else Some (Ok (take limit (after_cursor c (ms_global st)))))"
proof -
  have inv: "mem_inv st" using assms(1) by (rule memory_reachable_inv)
  have "length (after_cursor c (ms_global st)) = length (ms_global st) - first_index_after st c"
    by (metis first_index_after_drop(1) [OF inv] length_drop)
  then have "first_index_after st c =
      length (ms_global st) - length (after_cursor c (ms_global st))"
    using first_index_after_drop(2) [OF inv, of c] by simp
  then show ?thesis using assms(2) by (simp add: memory_load_limited_eq [OF inv])
qed

theorem memory_limited_feed_witness:
  "memory_load_global_after_limited demo_state (Some 1) u64_max = None"
proof -
  have np: "\<not> ms_poisoned demo_state"
    and log: "length (after_cursor (Some 1) (ms_global demo_state)) = 2"
      "length (ms_global demo_state) = 3"
    by (simp_all add: demo_defs memory_append_def memory_default_def new_event_new_def Let_def
        after_cursor_def)
  show ?thesis
    using memory_limited_feed [OF demo_state_reachable np, of "Some 1" u64_max] log by simp
qed

text \<open>The optimised \<open>load_global_after\<close> of the in-memory store agrees with the trait's paged
  default: draining the bounded feed in pages terminates and returns the same events.\<close>

lemma memory_paged_drain_agrees:
  assumes "memory_reachable st" and "\<not> ms_poisoned st"
    and "length (ms_global st) + GLOBAL_REPLAY_PAGE_SIZE \<le> u64_max"
  shows "default_load_global_after (es_load_global_after_limited (memory_event_store at stamp))
      sequence st = Some (memory_load_global_after st sequence, st)"
proof -
  have "mem_feed_ready st" "GLOBAL_REPLAY_PAGE_SIZE \<le> u64_max - length (ms_global st)"
    using assms memory_reachable_inv by (auto simp: mem_feed_ready_def)
  then show ?thesis
    unfolding default_load_global_after_def
    using assms(2) memory_reachable_inv [OF assms(1)]
    by (subst memory_feed.drain_complete)
       (simp_all add: GLOBAL_REPLAY_PAGE_SIZE_def memory_load_global_after_eq)
qed

lemma memory_paged_drain_agrees_witness:
  "default_load_global_after (es_load_global_after_limited
      (memory_event_store ''counter'' demo_stamp)) (Some 2) demo_state
   = Some (memory_load_global_after demo_state (Some 2), demo_state)"
proof (rule memory_paged_drain_agrees [OF demo_state_reachable])
  show "\<not> ms_poisoned demo_state"
    "length (ms_global demo_state) + GLOBAL_REPLAY_PAGE_SIZE \<le> u64_max"
    by (simp_all add: demo_defs memory_append_def memory_default_def new_event_new_def Let_def
        GLOBAL_REPLAY_PAGE_SIZE_def u64_max_def)
qed

end
