(* ===== verification/Memory_World.thy ===== *)
theory Memory_World
  imports Idempotent_Facts Memory_Store
begin

text \<open>
  The in-memory event store, snapshot store and idempotency store of the crate as one world with
  a clock and rival writers: before every event store call, the rivals' appends of that turn are
  served.  It interprets the contracts of the repository, whose guarantees become properties of
  the code's own stores.
\<close>

record ('st, 'e, 'id) world =
  wd_events :: "('e, 'id) memory_state"
  wd_rivals :: "('id, 'e) append_request list list"
  wd_snapshots :: "('st, 'id) snapshot_memory"
  wd_idempotency :: "('e, 'id) event_stream idempotency_memory"
  wd_clock :: clock

section \<open>The stores as operations of the world\<close>

definition lift_event_store ::
  "('w \<Rightarrow> 's) \<Rightarrow> ('s \<Rightarrow> 'w \<Rightarrow> 'w) \<Rightarrow> ('s, 'id, 'e, 'se) event_store \<Rightarrow> ('w, 'id, 'e, 'se) event_store" where
  "lift_event_store get put S = \<lparr>es_load = (\<lambda>i. lift_op get put (es_load S i)),
     es_load_after_revision = (\<lambda>i k. lift_op get put (es_load_after_revision S i k)),
     es_append = (\<lambda>i x evs. lift_op get put (es_append S i x evs)),
     es_load_global_after_limited =
       (\<lambda>c n. lift_op get put (es_load_global_after_limited S c n))\<rparr>"

definition lift_idempotency_store ::
  "('w \<Rightarrow> 's) \<Rightarrow> ('s \<Rightarrow> 'w \<Rightarrow> 'w) \<Rightarrow> ('s, 'v, 'ie) idempotency_store \<Rightarrow> ('w, 'v, 'ie) idempotency_store" where
  "lift_idempotency_store get put I = \<lparr>is_load = (\<lambda>k. lift_op get put (is_load I k)),
     is_reserve_with_lease = (\<lambda>k c. lift_op get put (is_reserve_with_lease I k c)),
     is_heartbeat = (\<lambda>k owner. lift_op get put (is_heartbeat I k owner)),
     is_expire_stale_pending = (\<lambda>now. lift_op get put (is_expire_stale_pending I now)),
     is_expire_completed_before = (\<lambda>now. lift_op get put (is_expire_completed_before I now)),
     is_save = (\<lambda>k v. lift_op get put (is_save I k v)),
     is_remove = (\<lambda>k. lift_op get put (is_remove I k))\<rparr>"

definition put_events where
  "put_events s w = w\<lparr>wd_events := fst s, wd_rivals := snd s\<rparr>"
definition put_idempotency where
  "put_idempotency s w = w\<lparr>wd_idempotency := fst s, wd_clock := snd s\<rparr>"
definition put_snapshots where
  "put_snapshots s w = w\<lparr>wd_snapshots := s\<rparr>"
definition put_clock where
  "put_clock c w = w\<lparr>wd_clock := c\<rparr>"

lemmas world_puts = put_events_def put_idempotency_def put_snapshots_def put_clock_def

definition world_store ::
  "string \<Rightarrow> stamp \<Rightarrow> (('st, 'e, 'id) world, 'id, 'e, event_store_error) event_store" where
  "world_store at stamp = lift_event_store (\<lambda>w. (wd_events w, wd_rivals w)) put_events
     (interleaved (memory_event_store at stamp))"

definition world_snapshots ::
  "(('st, 'e, 'id) world, 'st, 'id, in_memory_snapshot_error) snapshot_store" where
  "world_snapshots =
     \<lparr>ss_load_snapshot = \<lambda>i. lift_op wd_snapshots put_snapshots (ss_load_snapshot memory_snapshot_store i),
      ss_save_snapshot = \<lambda>s. lift_op wd_snapshots put_snapshots (ss_save_snapshot memory_snapshot_store s)\<rparr>"

definition world_idempotency ::
  "(('st, 'e, 'id) world, ('e, 'id) event_stream, in_memory_idempotency_error) idempotency_store" where
  "world_idempotency = lift_idempotency_store (\<lambda>w. (wd_idempotency w, wd_clock w)) put_idempotency
     memory_idempotency_store"

definition world_timer :: "('st, 'e, 'id) world timer" where
  "world_timer = clock_timer wd_clock put_clock"

definition world_stream :: "('st, 'e, 'id) world \<Rightarrow> 'id \<Rightarrow> ('e, 'id) event_stream" where
  "world_stream w i = filter (\<lambda>e. env_aggregate_id e = i) (ms_global (wd_events w))"

definition world_entries where
  "world_entries w = memory_entries (wd_idempotency w, wd_clock w)"

lemma world_stream_of: "world_stream w = stream_of (wd_events w)"
  by (simp add: fun_eq_iff world_stream_def stream_of_def)

section \<open>The contracts\<close>

lemma lift_event_store_contract:
  assumes c: "event_store_contract S ok strm" and lens: "\<And>s w. get (put s w) = s"
  shows "event_store_contract (lift_event_store get put S) (ok \<circ> get) (strm \<circ> get)"
proof (unfold_locales, goal_cases)
  case (1 w i)
  then show ?case using event_store_contract.contiguous [OF c] by simp
next
  case (2 w i r w')
  then obtain s where s: "es_load S i (get w) = (r, s)" "w' = put s w"
    by (auto simp: lift_event_store_def lift_op_iff)
  show ?case using event_store_contract.load_step [OF c _ s(1)] 2(1) by (simp add: s(2) lens)
next
  case (3 w i k r w')
  then obtain s where s: "es_load_after_revision S i k (get w) = (r, s)" "w' = put s w"
    by (auto simp: lift_event_store_def lift_op_iff)
  show ?case using event_store_contract.load_after_step [OF c _ s(1)] 3(1) by (simp add: s(2) lens)
next
  case (4 w i x evs r w')
  then obtain s where s: "es_append S i x evs (get w) = (r, s)" "w' = put s w"
    by (auto simp: lift_event_store_def lift_op_iff)
  show ?case using event_store_contract.append_step [OF c _ s(1)] 4(1) by (simp add: s(2) lens)
qed

lemma lift_idempotency_contract:
  assumes c: "idempotency_contract I entries" and lens: "\<And>s w. get (put s w) = s"
  shows "idempotency_contract (lift_idempotency_store get put I) (entries \<circ> get)"
  by unfold_locales
    (auto simp: lift_idempotency_store_def lift_op_iff lens
      dest: idempotency_contract.load_entries [OF c] idempotency_contract.reserve_granted [OF c]
        idempotency_contract.reserve_refused [OF c] idempotency_contract.save_done [OF c]
        idempotency_contract.save_failed [OF c] idempotency_contract.remove_done [OF c]
        idempotency_contract.remove_failed [OF c])

lemma world_event_contract:
  "event_store_contract (world_store at stamp) (\<lambda>w. mem_inv (wd_events w)) world_stream"
proof -
  have "event_store_contract (world_store at stamp :: (('st, 'e, 'id) world, _, _, _) event_store)
    ((mem_inv \<circ> fst) \<circ> (\<lambda>w. (wd_events w, wd_rivals w)))
    ((stream_of \<circ> fst) \<circ> (\<lambda>w. (wd_events w, wd_rivals w)))"
    unfolding world_store_def
    by (rule lift_event_store_contract [OF shared_memory.event_store_contract_axioms])
       (simp add: put_events_def)
  then show ?thesis by (simp add: comp_def world_stream_of [abs_def] fun_eq_iff)
qed

lemma memory_idempotency_time:
  "is_load memory_idempotency_store k s = (r1, s') \<Longrightarrow> ck_mono (snd s') = ck_mono (snd s)"
  "is_reserve_with_lease memory_idempotency_store k c s = (r2, s') \<Longrightarrow> ck_mono (snd s') = ck_mono (snd s)"
  "is_save memory_idempotency_store k v s = (r3, s') \<Longrightarrow> ck_mono (snd s') = ck_mono (snd s)"
  "is_remove memory_idempotency_store k s = (r3, s') \<Longrightarrow> ck_mono (snd s') = ck_mono (snd s)"
  by (auto simp: memory_idempotency_store_def idempotency_load_def idempotency_save_def
      idempotency_remove_def idempotency_reserve_with_lease_def new_lease_def expires_at_ms_def
      now_ms_def Let_def split_beta
      split: if_splits option.splits idempotency_state.splits)

interpretation world: idempotent_world
  "world_store at stamp" "\<lambda>w. mem_inv (wd_events w)" world_stream
  world_idempotency world_entries world_timer "\<lambda>w. ck_mono (wd_clock w)"
  for at :: string and stamp :: stamp
proof -
  have e: "event_store_contract (world_store at stamp) (\<lambda>w. mem_inv (wd_events w)) world_stream"
    by (rule world_event_contract)
  have "idempotency_contract world_idempotency (memory_entries \<circ> (\<lambda>w. (wd_idempotency w, wd_clock w)))"
    unfolding world_idempotency_def
    by (rule lift_idempotency_contract [OF memory_idempotency.idempotency_contract_axioms])
       (simp add: put_idempotency_def)
  then have i: "idempotency_contract world_idempotency world_entries"
    by (simp add: comp_def world_entries_def [abs_def])
  have "monotonic_timer world_timer (ck_mono \<circ> wd_clock)"
    unfolding world_timer_def by (rule clock_timer_monotonic) (simp add: put_clock_def)
  then have t: "monotonic_timer world_timer (\<lambda>w. ck_mono (wd_clock w))"
    by (simp add: comp_def)
  show "idempotent_world (world_store at stamp) (\<lambda>w. mem_inv (wd_events w)) world_stream
    world_idempotency world_entries world_timer (\<lambda>w. ck_mono (wd_clock w))"
    by (intro idempotent_world.intro [OF e i t] idempotent_world_axioms.intro)
      (auto simp: world_store_def lift_event_store_def world_idempotency_def
        lift_idempotency_store_def world_timer_def clock_timer_def lift_op_iff world_puts
        world_entries_def memory_entries_def world_stream_def undisturbed_def now_ms_def
        instant_now_def thread_sleep_def Let_def dest: memory_idempotency_time)
qed

interpretation world_snapshot: snapshot_repository
  "world_store at stamp" "\<lambda>w. mem_inv (wd_events w)" world_stream
  world_snapshots "\<lambda>w. sm_snapshots (wd_snapshots w)"
  for at :: string and stamp :: stamp
proof -
  have e: "event_store_contract (world_store at stamp) (\<lambda>w. mem_inv (wd_events w)) world_stream"
    by (rule world_event_contract)
  have "snapshot_contract world_snapshots (sm_snapshots \<circ> wd_snapshots)"
    unfolding world_snapshots_def
    by (rule lift_snapshot_contract [OF memory_snapshots.snapshot_contract_axioms])
       (simp add: put_snapshots_def)
  then have s: "snapshot_contract world_snapshots (\<lambda>w. sm_snapshots (wd_snapshots w))"
    by (simp add: comp_def)
  show "snapshot_repository (world_store at stamp) (\<lambda>w. mem_inv (wd_events w)) world_stream
    world_snapshots (\<lambda>w. sm_snapshots (wd_snapshots w))"
    by (intro snapshot_repository.intro [OF e s] snapshot_repository_axioms.intro)
      (auto simp: world_snapshots_def lift_op_iff put_snapshots_def world_stream_def)
qed

end
