(* ===== verification/Repository_Properties.thy ===== *)
theory Repository_Properties
  imports Memory_World
begin

text \<open>
  The guarantees of the repository on the crate's in-memory stores, with rival writers between
  its calls: no lost updates, returned states, snapshots, idempotent execution.
\<close>

definition demo_world :: "(nat, nat, string) world" where
  "demo_world = \<lparr>wd_events = demo_state, wd_rivals = [], wd_snapshots = snapshot_memory_new,
     wd_idempotency = idempotency_memory_new, wd_clock = demo_clock\<rparr>"

text \<open>A rival appends to stream \<open>a\<close> before the first call of the repository.\<close>

definition rival_world :: "(nat, nat, string) world" where
  "rival_world = demo_world\<lparr>wd_rivals := [[(''a'', Any, [demo_event 100])]]\<rparr>"

definition demo_snapshot :: "(nat, string) snapshot" where
  "demo_snapshot = snapshot_new demo_aggregate 0 ''a'' 1 5 metadata_new"

definition snapshot_world :: "(nat, nat, string) world" where
  "snapshot_world = demo_world\<lparr>wd_snapshots :=
     snd (save_snapshot demo_snapshot snapshot_memory_new)\<rparr>"

abbreviation demo_store where "demo_store \<equiv> world_store ''counter'' demo_stamp"

lemma demo_worlds_reachable [simp]:
  "memory_reachable (wd_events demo_world)" "memory_reachable (wd_events rival_world)"
  "memory_reachable (wd_events snapshot_world)"
  by (simp_all add: demo_world_def rival_world_def snapshot_world_def demo_state_reachable)

lemma not_isl_run: "\<not> isl (fst run) \<Longrightarrow> \<exists>a w. run = (Inr a, w)"
  by (cases run; cases "fst run") auto

section \<open>Commands\<close>

text \<open>C1: no lost update.  Whatever rival writers do before each store call, the events a command
  commits were decided by the aggregate on exactly the stream they extend: the state handed to
  \<open>handle\<close> is the replay of all events of the stream before them, and the stream before the call
  is part of it.\<close>

theorem execute_no_lost_update:
  assumes "memory_reachable (wd_events w)"
    and "execute A (world_store at stamp) into i cmd m w = (Ok cs, w')"
  shows "\<exists>es. prefix (world_stream w i) es \<and> prefix (es @ cs) (world_stream w' i) \<and>
    agg_handle A (la_state (replay A es)) cmd = Ok (map env_payload cs)"
proof -
  have "mem_inv (wd_events w)" using assms(1) by (rule memory_reachable_inv)
  from world.execute_committed [OF this assms(2)] show ?thesis by metis
qed

theorem execute_no_lost_update_witness:
  "\<exists>cs w'. execute demo_aggregate demo_store into_repository_error ''a'' 9 metadata_new rival_world
      = (Ok cs, w') \<and>
    (\<exists>es. prefix (world_stream rival_world ''a'') es \<and> prefix (es @ cs) (world_stream w' ''a'') \<and>
      agg_handle demo_aggregate (la_state (replay demo_aggregate es)) 9 = Ok (map env_payload cs))"
proof -
  have "\<not> isl (fst (execute demo_aggregate demo_store into_repository_error ''a'' 9 metadata_new
      rival_world))" by code_simp
  then obtain cs w' where "execute demo_aggregate demo_store into_repository_error ''a'' 9
      metadata_new rival_world = (Ok cs, w')" using not_isl_run by blast
  from execute_no_lost_update [OF _ this] this show ?thesis by auto
qed

lemma execute_one:
  assumes "memory_reachable (wd_events w)" and "\<not> ms_poisoned (wd_events w)" and "wd_rivals w = []"
  shows "(case agg_handle A (la_state (replay A (world_stream w i))) cmd of
      Inl e \<Rightarrow> execute A (world_store at stamp) into_repository_error i cmd m w = (Err (RDomain e), w)
    | Inr evs \<Rightarrow> \<exists>cs w'. execute A (world_store at stamp) into_repository_error i cmd m w = (Ok cs, w') \<and>
        map env_payload cs = evs \<and> (\<forall>c\<in>set cs. env_metadata c = m) \<and>
        map env_revision cs = [length (world_stream w i) + 1..<length (world_stream w i) + 1 + length evs] \<and>
        world_stream w' = (world_stream w)(i := world_stream w i @ cs) \<and>
        w' = w\<lparr>wd_events := wd_events w'\<rparr>)"
proof -
  have inv: "mem_inv (wd_events w)" using assms(1) by (rule memory_reachable_inv)
  have stay: "put_events (wd_events w, wd_rivals w) w = w" by (simp add: put_events_def)
  have load: "es_load (world_store at stamp) i w = (Ok (world_stream w i), w)"
    using assms(2,3) stay by (simp add: world_store_def lift_event_store_def lift_op_def
        interleaved_def in_turn_def memory_event_store_def memory_load_eq [OF inv] world_stream_of)
  have rev: "la_revision (replay A (world_stream w i)) = length (world_stream w i)"
    by (rule replay_contiguous) (use inv in \<open>simp add: mem_inv_def world_stream_of\<close>)
  have append: "es_append (world_store at stamp) i x evs w =
      (let (r, st) = memory_append at stamp i x evs (wd_events w) in (r, w\<lparr>wd_events := st\<rparr>))" for x evs
    using assms(3) by (simp add: world_store_def lift_event_store_def lift_op_def interleaved_def
        in_turn_def memory_event_store_def put_events_def split: prod.splits)
  show ?thesis
  proof (cases "agg_handle A (la_state (replay A (world_stream w i))) cmd")
    case (Inl e)
    then show ?thesis
      by (simp add: execute_def repository_load_def try_op_def op_map_err_def return_op_def load
          handle_command_as_new_events_def)
  next
    case (Inr evs)
    let ?nes = "new_events_with_metadata A evs m"
    let ?run = "memory_append at stamp i (Exact (length (world_stream w i))) ?nes (wd_events w)"
    obtain cs st where run: "?run = (Ok cs, st)"
      using assms(2) by (auto simp: memory_append_eq [OF inv] world_stream_of)
    note step = memory_append_step [OF inv run]
    have cs: "cs = append_result at stamp i ?nes (wd_events w)" using step(4) by blast
    have len: "length ?nes = length evs" by (simp add: new_events_with_metadata_def)
    have meta: "map env_metadata cs = map ne_metadata ?nes" by (simp add: cs append_result_def)
    have "\<forall>c\<in>set cs. env_metadata c = m"
    proof
      fix c assume "c \<in> set cs"
      then have "env_metadata c \<in> set (map ne_metadata ?nes)" unfolding meta [symmetric] by simp
      then show "env_metadata c = m" by (auto simp: new_events_with_metadata_def)
    qed
    moreover have "contiguous_from (length (world_stream w i)) cs"
      by (simp add: cs append_result_def world_stream_of commit_envelopes_contiguous)
    moreover have "length cs = length evs" using len by (simp add: cs append_result_def)
    moreover have "map env_payload cs = evs" by (simp add: cs append_result_def)
    moreover have "world_stream (w\<lparr>wd_events := st\<rparr>) = (world_stream w)(i := world_stream w i @ cs)"
      using step(4) [OF refl] by (simp add: world_stream_of)
    moreover have "execute A (world_store at stamp) into_repository_error i cmd m w =
        (Ok cs, w\<lparr>wd_events := st\<rparr>)"
      using Inr run by (simp add: execute_def repository_load_def save_new_events_def try_op_def
          op_map_err_def return_op_def load rev append handle_command_as_new_events_def)
    ultimately show ?thesis
      unfolding Inr sum.case
      by (intro exI [of _ cs] exI [of _ "w\<lparr>wd_events := st\<rparr>"])
        (simp add: contiguous_from_revisions)
  qed
qed

text \<open>A command executed without rivals.  A rejected command returns the domain error and
  changes nothing at all; an accepted one never fails and appends exactly the decided events, with
  the caller's metadata and the next revisions, to its own stream only.\<close>

lemma execute_sequential:
  assumes "memory_reachable (wd_events w)" and "\<not> ms_poisoned (wd_events w)" and "wd_rivals w = []"
  shows "(case agg_handle A (la_state (replay A (world_stream w i))) cmd of
      Inl e \<Rightarrow> execute A (world_store at stamp) into_repository_error i cmd m w = (Err (RDomain e), w)
    | Inr evs \<Rightarrow> \<exists>cs w'. execute A (world_store at stamp) into_repository_error i cmd m w = (Ok cs, w') \<and>
        map env_payload cs = evs \<and> (\<forall>c\<in>set cs. env_metadata c = m) \<and>
        map env_revision cs = [length (world_stream w i) + 1..<length (world_stream w i) + 1 + length evs] \<and>
        world_stream w' = (world_stream w)(i := world_stream w i @ cs) \<and>
        w' = w\<lparr>wd_events := wd_events w'\<rparr>)"
  by (rule execute_one [OF assms])

lemma execute_sequential_witness:
  "execute demo_aggregate demo_store into_repository_error ''a'' 0 metadata_new demo_world
   = (Err (RDomain ''increment must be positive''), demo_world)"
proof -
  have "\<not> ms_poisoned (wd_events demo_world)" "wd_rivals demo_world = []"
    by (simp_all add: demo_world_def demo_defs memory_append_def memory_default_def
        new_event_new_def Let_def)
  from execute_sequential [OF demo_worlds_reachable(1) this, where A = demo_aggregate and i = "''a''" and cmd = 0]
  show ?thesis by (simp add: demo_aggregate_def)
qed

text \<open>The state \<open>execute_returning_state\<close> returns is the state of the stream after the commit:
  the replay of everything up to and including the committed events, whose number is its
  revision.\<close>

lemma execute_returning_state_current:
  assumes "memory_reachable (wd_events w)"
    and "execute_returning_state A (world_store at stamp) into i cmd m w = (Ok (updated, cs), w')"
  shows "\<exists>es. prefix (world_stream w i) es \<and> prefix (es @ cs) (world_stream w' i) \<and>
    agg_handle A (la_state (replay A es)) cmd = Ok (map env_payload cs) \<and>
    updated = replay A (es @ cs) \<and> la_revision updated = length (es @ cs)"
proof -
  have "mem_inv (wd_events w)" using assms(1) by (rule memory_reachable_inv)
  from world.execute_returning_state_Ok [OF this assms(2)] show ?thesis by metis
qed

lemma execute_returning_state_current_witness:
  "\<exists>updated cs w'. execute_returning_state demo_aggregate demo_store into_repository_error ''a'' 9
      metadata_new rival_world = (Ok (updated, cs), w') \<and>
    (\<exists>es. updated = replay demo_aggregate (es @ cs))"
proof -
  have "\<not> isl (fst (execute_returning_state demo_aggregate demo_store into_repository_error ''a'' 9
      metadata_new rival_world))" by code_simp
  then obtain o1 w' where run: "execute_returning_state demo_aggregate demo_store
      into_repository_error ''a'' 9 metadata_new rival_world = (Ok o1, w')"
    using not_isl_run by blast
  obtain updated cs where "o1 = (updated, cs)" by (cases o1)
  with execute_returning_state_current [OF _ run [unfolded this]] run show ?thesis by auto
qed

section \<open>Snapshots\<close>

text \<open>C18: loading through a snapshot is the full replay.  If the stored snapshot is the replay of
  the first events of its stream, the loaded aggregate is the replay of the whole stream as it
  stood at some moment of the call, and its revision is the number of those events.\<close>

theorem load_with_snapshot_is_replay:
  assumes "memory_reachable (wd_events w)"
    and "\<forall>s. sm_snapshots (wd_snapshots w) i = Some s \<longrightarrow> faithful_snapshot A (world_stream w i) s"
    and "load_with_snapshot A (world_store at stamp) into i world_snapshots w = (Ok loaded, w')"
  shows "\<exists>es. loaded = replay A es \<and> la_revision loaded = length es \<and>
    prefix (world_stream w i) es \<and> prefix es (world_stream w' i)"
proof -
  have "mem_inv (wd_events w)" using assms(1) by (rule memory_reachable_inv)
  from world_snapshot.load_with_snapshot_Ok [OF this assms(3,2)] show ?thesis by blast
qed

lemma demo_snapshot_faithful:
  "\<forall>s. sm_snapshots (wd_snapshots snapshot_world) ''a'' = Some s \<longrightarrow>
     faithful_snapshot demo_aggregate (world_stream snapshot_world ''a'') s"
proof -
  have "sm_snapshots (wd_snapshots snapshot_world) ''a'' = Some demo_snapshot"
    by (simp add: snapshot_world_def save_snapshot_def snapshot_memory_new_def demo_snapshot_def
        snapshot_new_def)
  moreover have "faithful_snapshot demo_aggregate (world_stream snapshot_world ''a'') demo_snapshot"
    unfolding faithful_snapshot_def by code_simp
  ultimately show ?thesis by simp
qed

theorem load_with_snapshot_is_replay_witness:
  "\<exists>loaded w'. load_with_snapshot demo_aggregate demo_store into_repository_error ''a'' world_snapshots
      snapshot_world = (Ok loaded, w') \<and>
    (\<exists>es. loaded = replay demo_aggregate es \<and> prefix (world_stream snapshot_world ''a'') es)"
proof -
  have "\<not> isl (fst (load_with_snapshot demo_aggregate demo_store into_repository_error ''a''
      world_snapshots snapshot_world))" by code_simp
  then obtain loaded w' where "load_with_snapshot demo_aggregate demo_store into_repository_error
      ''a'' world_snapshots snapshot_world = (Ok loaded, w')" using not_isl_run by blast
  with load_with_snapshot_is_replay [OF _ demo_snapshot_faithful this] show ?thesis by auto
qed

text \<open>Commands executed through snapshots lose no update either.\<close>

lemma execute_with_snapshot_no_lost_update:
  assumes "memory_reachable (wd_events w)"
    and "\<forall>s. sm_snapshots (wd_snapshots w) i = Some s \<longrightarrow> faithful_snapshot A (world_stream w i) s"
    and "execute_with_snapshot A (world_store at stamp) into i cmd m world_snapshots w = (Ok cs, w')"
  shows "\<exists>es. prefix (world_stream w i) es \<and> prefix (es @ cs) (world_stream w' i) \<and>
    agg_handle A (la_state (replay A es)) cmd = Ok (map env_payload cs)"
proof -
  have "mem_inv (wd_events w)" using assms(1) by (rule memory_reachable_inv)
  from world_snapshot.execute_with_snapshot_committed [OF this assms(3,2)] show ?thesis by metis
qed

lemma execute_with_snapshot_no_lost_update_witness:
  "\<exists>cs w'. execute_with_snapshot demo_aggregate demo_store into_repository_error ''a'' 9 metadata_new
      world_snapshots snapshot_world = (Ok cs, w') \<and>
    (\<exists>es. prefix (world_stream snapshot_world ''a'') es \<and> prefix (es @ cs) (world_stream w' ''a''))"
proof -
  have "\<not> isl (fst (execute_with_snapshot demo_aggregate demo_store into_repository_error ''a'' 9
      metadata_new world_snapshots snapshot_world))" by code_simp
  then obtain cs w' where "execute_with_snapshot demo_aggregate demo_store into_repository_error
      ''a'' 9 metadata_new world_snapshots snapshot_world = (Ok cs, w')" using not_isl_run by blast
  with execute_with_snapshot_no_lost_update [OF _ demo_snapshot_faithful this] show ?thesis by auto
qed

section \<open>Idempotent execution\<close>

lemma world_entries_eq: "world_entries w key = map_option ie_state (Mapping.lookup (im_entries (wd_idempotency w)) key)"
  by (simp add: world_entries_def memory_entries_def)

abbreviation run_idempotent where
  "run_idempotent A at stamp into i cmd m key cfg w \<equiv>
     execute_idempotent_with_wait_config world_timer A (world_store at stamp) into i cmd m key
       world_idempotency cfg w"

lemma run_idempotent_ends:
  assumes "memory_reachable (wd_events w)"
  obtains r w' where "run_idempotent A at stamp into i cmd m key cfg w = Some (r, w')"
    "world.ends_ok A i cmd key w r w'"
  using world.execute_idempotent_ends [of w A at stamp into i cmd m key cfg]
    memory_reachable_inv [OF assms] by blast

lemma run_idempotent_result:
  assumes "memory_reachable (wd_events w)"
    and "run_idempotent A at stamp into i cmd m key cfg w = Some (r, w')"
  shows "world.ends_ok A i cmd key w r w'"
  using run_idempotent_ends [OF assms(1), of A at stamp into i cmd m key cfg] assms(2) by auto

text \<open>C17: idempotent execution returns.  Whatever the wait limits, and however long another caller
  holds the key, the polling loop ends: the command is executed, its earlier result is returned,
  or an error is.\<close>

theorem execute_idempotent_returns:
  "memory_reachable (wd_events w) \<Longrightarrow>
   \<exists>r w'. execute_idempotent_with_wait_config world_timer A (world_store at stamp) into i cmd m key
     world_idempotency cfg w = Some (r, w')"
  using run_idempotent_ends by metis

text \<open>Another caller holds the key and never finishes.\<close>

definition held_world :: "(nat, nat, string) world" where
  "held_world = demo_world\<lparr>wd_idempotency := fst (snd (idempotency_reserve_with_lease
     (IdempotencyKey ''k'') lease_config_default (idempotency_memory_new, demo_clock)))\<rparr>"

theorem execute_idempotent_returns_witness:
  "\<exists>r w'. execute_idempotent_with_wait_config world_timer demo_aggregate demo_store
     into_repository_error ''a'' 9 metadata_new (IdempotencyKey ''k'') world_idempotency
     wait_config_default held_world = Some (r, w')"
  by (rule execute_idempotent_returns) (simp add: held_world_def)

text \<open>C2: a completed key is never executed again.  Once an execution has returned its committed
  events, any later execution with the same key, of whatever command on whatever aggregate,
  returns those events and appends nothing, as long as the entry is not purged.\<close>

theorem execute_idempotent_once:
  assumes "memory_reachable (wd_events w)"
    and first: "execute_idempotent_with_wait_config world_timer A (world_store at stamp) into i cmd m
        key world_idempotency cfg w = Some (Ok cs, w1)"
    and later: "memory_reachable (wd_events w2)" "\<not> im_poisoned (wd_idempotency w2)"
      "Mapping.lookup (im_entries (wd_idempotency w2)) key = Mapping.lookup (im_entries (wd_idempotency w1)) key"
    and second: "execute_idempotent_with_wait_config world_timer A' (world_store at' stamp') into' j
        cmd' m' key world_idempotency cfg' w2 = Some (r, w3)"
  shows "r = Ok cs \<and> world_stream w3 = world_stream w2 \<and>
    Mapping.lookup (im_entries (wd_idempotency w3)) key = Mapping.lookup (im_entries (wd_idempotency w2)) key"
proof -
  have completed: "world_entries w2 key = Some (Complete cs)"
    using run_idempotent_result [OF assms(1) first] later(3)
    by (simp add: world.ends_ok_def world_entries_eq)
  then obtain e where e: "Mapping.lookup (im_entries (wd_idempotency w2)) key = Some e" "ie_state e = Complete cs"
    by (auto simp: world_entries_eq)
  obtain started w0 where start: "tm_instant world_timer w2 = (started, w0)" by (meson surj_pair)
  then have w0: "w0 = w2\<lparr>wd_clock := wd_clock w0\<rparr>"
    by (auto simp: world_timer_def clock_timer_def lift_op_def put_clock_def split: prod.splits)
  have load: "is_load world_idempotency key w0 = (Ok (Some (Complete cs)), w0)"
    using e later(2) by (subst (1 2) w0)
      (simp add: world_idempotency_def lift_idempotency_store_def lift_op_def
        memory_idempotency_store_def idempotency_load_def put_idempotency_def)
  have "run_idempotent A' at' stamp' into' j cmd' m' key cfg' w2 = Some (Ok cs, w0)"
    by (simp add: execute_idempotent_with_wait_config_def start wait_loop.simps wait_step_def load)
  then have r: "r = Ok cs" and w3: "w3 = w0" using second by simp_all
  show ?thesis unfolding r w3 by (subst (1 2) w0) (simp add: world_stream_def fun_eq_iff)
qed

text \<open>C19: a failed execution leaves the key free.  When the command is rejected, the append loses
  the race or the event store fails, the reservation is gone once the error is returned, so a
  retry with the same key executes again; on failure of the release itself another error is
  returned.\<close>

theorem execute_idempotent_failure_frees_key:
  assumes "memory_reachable (wd_events w)"
    and "execute_idempotent_with_wait_config world_timer A (world_store at stamp) into i cmd m
        key world_idempotency cfg w = Some (Err (idempotent_from_repository_error e), w')"
  shows "Mapping.lookup (im_entries (wd_idempotency w')) key = None"
  using run_idempotent_result [OF assms] by (auto simp: world.ends_ok_def world_entries_eq)

text \<open>A fresh key in an unshared world: the command is executed.\<close>

lemma wait_loop_fresh:
  assumes "Mapping.lookup (im_entries (wd_idempotency w)) key = None" "\<not> im_poisoned (wd_idempotency w)"
  shows "\<exists>m c. wait_loop world_timer world_idempotency cfg started key w =
    Some (Ok None :: ('de, 'se, _) idempotent_repository_error + _,
      w\<lparr>wd_idempotency := m, wd_clock := c\<rparr>) \<and> \<not> im_poisoned m"
proof -
  let ?s = "(wd_idempotency w, wd_clock w)"
  have load: "is_load world_idempotency key w = (Ok None, w)"
    using assms by (simp add: world_idempotency_def lift_idempotency_store_def lift_op_def
        memory_idempotency_store_def idempotency_load_def put_idempotency_def)
  have "\<exists>m c. idempotency_reserve_with_lease key lease_config_default ?s = (Ok True, (m, c)) \<and>
      \<not> im_poisoned m"
    using assms by (simp add: idempotency_reserve_with_lease_def split_beta Let_def)
  then obtain m c where "idempotency_reserve_with_lease key lease_config_default ?s = (Ok True, (m, c))"
    and np: "\<not> im_poisoned m" by blast
  then have "store_reserve world_idempotency key w =
      (Ok True, w\<lparr>wd_idempotency := m, wd_clock := c\<rparr>)"
    by (simp add: store_reserve_def world_idempotency_def lift_idempotency_store_def lift_op_def
        memory_idempotency_store_def put_idempotency_def)
  then have "wait_step world_timer world_idempotency cfg started key w =
      (WaitReserved :: (('de, 'se, _) idempotent_repository_error, _) wait_outcome,
       w\<lparr>wd_idempotency := m, wd_clock := c\<rparr>)"
    by (simp add: wait_step_def load wait_reserve_def)
  then show ?thesis using np
    by (subst wait_loop.simps) (auto intro!: exI [of _ m] exI [of _ c])
qed

lemma instant_world:
  "\<exists>t c. tm_instant world_timer w = (t, w\<lparr>wd_clock := c\<rparr>)"
  by (simp add: world_timer_def clock_timer_def lift_op_def put_clock_def split: prod.splits) blast

lemma world_release:
  "\<not> im_poisoned (wd_idempotency w) \<Longrightarrow>
   release_idempotency_key_with_result world_timer world_idempotency key w =
     (Ok (), snd (is_remove world_idempotency key w))"
  by (simp add: release_idempotency_key_with_result_def RELEASE_MAX_ATTEMPTS_def upt_rec
      world_idempotency_def lift_idempotency_store_def lift_op_def memory_idempotency_store_def
      idempotency_remove_def)

lemma world_save:
  "\<not> im_poisoned (wd_idempotency w) \<Longrightarrow>
   save_idempotency_result_with_retry world_timer world_idempotency key v w =
     Some (Ok (), snd (is_save world_idempotency key v w))"
  by (simp add: save_idempotency_result_with_retry_def SAVE_MAX_ATTEMPTS_def upt_rec
      world_idempotency_def lift_idempotency_store_def lift_op_def memory_idempotency_store_def
      idempotency_save_def split_beta Let_def)

lemma world_save_poisoned:
  "\<not> im_poisoned (wd_idempotency w) \<Longrightarrow>
   \<not> im_poisoned (wd_idempotency (snd (is_save world_idempotency key v w)))"
  by (simp add: world_idempotency_def lift_idempotency_store_def lift_op_def put_idempotency_def
      memory_idempotency_store_def idempotency_save_def split_beta Let_def)

lemma idempotent_body_execute: "idempotent_body A S into i cmd m = execute A S into i cmd m"
  by (simp add: fun_eq_iff idempotent_body_def execute_def save_new_events_def)

lemma run_idempotent_fresh:
  fixes A :: "('st, 'cmd, 'e, 'de) aggregate"
  assumes "memory_reachable (wd_events w)" "\<not> ms_poisoned (wd_events w)" "wd_rivals w = []"
    and "Mapping.lookup (im_entries (wd_idempotency w)) key = None" "\<not> im_poisoned (wd_idempotency w)"
  shows "(case agg_handle A (la_state (replay A (world_stream w i))) cmd of
      Inl e \<Rightarrow> \<exists>w'. run_idempotent A at stamp into_repository_error i cmd m key cfg w =
        Some (Err (idempotent_from_repository_error (RDomain e)), w')
    | Inr evs \<Rightarrow> \<exists>cs w'. run_idempotent A at stamp into_repository_error i cmd m key cfg w =
        Some (Ok cs, w') \<and> map env_payload cs = evs \<and> \<not> im_poisoned (wd_idempotency w'))"
proof -
  obtain t c0 where start: "tm_instant world_timer w = (t, w\<lparr>wd_clock := c0\<rparr>)"
    using instant_world by blast
  let ?w0 = "w\<lparr>wd_clock := c0\<rparr>"
  obtain md c where loop: "wait_loop world_timer world_idempotency cfg t key ?w0 =
      Some (Ok None :: ('de, event_store_error, _) idempotent_repository_error + _,
        ?w0\<lparr>wd_idempotency := md, wd_clock := c\<rparr>)" and np: "\<not> im_poisoned md"
    using wait_loop_fresh [of ?w0 key cfg t] assms(4,5) by auto
  let ?w1 = "?w0\<lparr>wd_idempotency := md, wd_clock := c\<rparr>"
  have stream: "world_stream ?w1 = world_stream w" by (simp add: world_stream_def fun_eq_iff)
  note run_simps = execute_idempotent_with_wait_config_def start idempotent_body_execute
  have one: "memory_reachable (wd_events ?w1)" "\<not> ms_poisoned (wd_events ?w1)" "wd_rivals ?w1 = []"
    using assms(1-3) by simp_all
  note exec = execute_one [OF one, where A = A and i = i and cmd = cmd and at = at and stamp = stamp and m = m,
      unfolded stream]
  show ?thesis
  proof (cases "agg_handle A (la_state (replay A (world_stream w i))) cmd")
    case (Inl e)
    then show ?thesis
      using exec loop np by (simp add: run_simps try_op_def return_op_def world_release)
  next
    case (Inr evs)
    then obtain cs w2 where run: "execute A (world_store at stamp) into_repository_error i cmd m ?w1 = (Ok cs, w2)"
      "map env_payload cs = evs" "w2 = ?w1\<lparr>wd_events := wd_events w2\<rparr>"
      using exec by auto
    have "\<not> im_poisoned (wd_idempotency w2)" using np by (subst run(3)) simp
    then show ?thesis
      using Inr run(1,2) loop by (auto simp: run_simps world_save world_save_poisoned)
  qed
qed

lemma demo_world_quiet:
  "\<not> ms_poisoned (wd_events demo_world)" "wd_rivals demo_world = []"
  "Mapping.lookup (im_entries (wd_idempotency demo_world)) key = None"
  "\<not> im_poisoned (wd_idempotency demo_world)"
  by (simp_all add: demo_world_def demo_defs memory_append_def memory_default_def
      new_event_new_def Let_def idempotency_memory_new_def lookup_empty)

lemma demo_decides:
  "agg_handle demo_aggregate st 0 = Err ''increment must be positive''"
  "agg_handle demo_aggregate st 9 = Ok [9]"
  by (simp_all add: demo_aggregate_def)

lemmas demo_fresh = run_idempotent_fresh [OF demo_worlds_reachable(1) demo_world_quiet,
    where A = demo_aggregate and i = "''a''" and at = "''counter''" and stamp = demo_stamp and
      m = metadata_new and key = "IdempotencyKey ''k''" and cfg = wait_config_default]

theorem execute_idempotent_once_witness:
  "\<exists>cs w1 w3. execute_idempotent_with_wait_config world_timer demo_aggregate demo_store
      into_repository_error ''a'' 9 metadata_new (IdempotencyKey ''k'') world_idempotency
      wait_config_default demo_world = Some (Ok cs, w1) \<and>
    execute_idempotent_with_wait_config world_timer demo_aggregate demo_store
      into_repository_error ''b'' 4 metadata_new (IdempotencyKey ''k'') world_idempotency
      wait_config_default (rival_world\<lparr>wd_idempotency := wd_idempotency w1\<rparr>) = Some (Ok cs, w3)"
proof -
  obtain cs w1 where run: "run_idempotent demo_aggregate ''counter'' demo_stamp into_repository_error
      ''a'' 9 metadata_new (IdempotencyKey ''k'') wait_config_default demo_world = Some (Ok cs, w1)"
    and np: "\<not> im_poisoned (wd_idempotency w1)"
    using demo_fresh [where cmd = 9] unfolding demo_decides by auto
  let ?w2 = "rival_world\<lparr>wd_idempotency := wd_idempotency w1\<rparr>"
  have reach: "memory_reachable (wd_events ?w2)" by simp
  obtain r w3 where again: "run_idempotent demo_aggregate ''counter'' demo_stamp into_repository_error
      ''b'' 4 metadata_new (IdempotencyKey ''k'') wait_config_default ?w2 = Some (r, w3)"
    using run_idempotent_ends [OF reach] by metis
  have "r = Ok cs"
    using execute_idempotent_once [OF demo_worlds_reachable(1) run reach _ _ again] np by simp
  then show ?thesis using run again by blast
qed

theorem execute_idempotent_failure_frees_key_witness:
  "\<exists>w'. execute_idempotent_with_wait_config world_timer demo_aggregate demo_store
      into_repository_error ''a'' 0 metadata_new (IdempotencyKey ''k'') world_idempotency
      wait_config_default demo_world
      = Some (Err (idempotent_from_repository_error (RDomain ''increment must be positive'')), w') \<and>
    Mapping.lookup (im_entries (wd_idempotency w')) (IdempotencyKey ''k'') = None"
proof -
  obtain w' where run: "run_idempotent demo_aggregate ''counter'' demo_stamp into_repository_error
      ''a'' 0 metadata_new (IdempotencyKey ''k'') wait_config_default demo_world
      = Some (Err (idempotent_from_repository_error (RDomain ''increment must be positive'')), w')"
    using demo_fresh [where cmd = 0] unfolding demo_decides by auto
  then show ?thesis
    using execute_idempotent_failure_frees_key [OF demo_worlds_reachable(1) run] by blast
qed

end
