(* ===== verification/Async_Repository.thy ===== *)
theory Async_Repository
  imports Repository
begin

text \<open>
  \<open>AsyncRepository\<close> of \<open>src/async_api.rs\<close> and the async retry helpers of
  \<open>src/repository_support.rs\<close>.  A future is run to completion by its caller, so an async
  operation is the state-passing operation of its body, each \<open>await\<close> a point at which the state
  may have been changed by others.  The async code is written separately from the sync code; it
  is translated separately here and proved equal to it.
\<close>

section \<open>Delays\<close>

definition async_retry_delay :: "'w timer \<Rightarrow> duration \<Rightarrow> ('w, unit) op" where
  "async_retry_delay T duration w = (if duration = 0 then ((), w) else tm_sleep T duration w)"

section \<open>Stores\<close>

definition async_default_load_after_revision ::
  "('id \<Rightarrow> ('w, 'se + ('e, 'id) event_stream) op) \<Rightarrow> 'id \<Rightarrow> nat \<Rightarrow>
   ('w, 'se + ('e, 'id) event_stream) op" where
  "async_default_load_after_revision load aggregate_id revision =
     try_op (load aggregate_id) (\<lambda>events.
       return_op (Ok (filter (\<lambda>event. env_revision event > revision) events)))"

partial_function (option) async_drain ::
  "(nat option \<Rightarrow> nat \<Rightarrow> ('w, 'se + ('e, 'id) event_stream) op) \<Rightarrow> nat \<Rightarrow> nat option \<Rightarrow>
   ('e, 'id) event_stream \<Rightarrow> 'w \<Rightarrow> (('se + ('e, 'id) event_stream) \<times> 'w) option" where
  "async_drain load page_size cursor all w =
     (case load cursor page_size w of
        (Inl e, w') \<Rightarrow> Some (Err e, w')
      | (Inr page, w') \<Rightarrow>
          let all' = all @ page
          in if length page < page_size then Some (Ok all', w')
             else case last_event_sequence page of
                 None \<Rightarrow> Some (Ok all', w')
               | Some sequence \<Rightarrow>
                   if cursor_advances cursor sequence
                   then async_drain load page_size (Some sequence) all' w'
                   else Some (Ok all', w'))"

definition async_default_load_global_after where
  "async_default_load_global_after load sequence w =
     async_drain load GLOBAL_REPLAY_PAGE_SIZE sequence [] w"

section \<open>Commands\<close>

definition async_load ::
  "('st, 'cmd, 'e, 'de) aggregate \<Rightarrow> ('w, 'id, 'e, 'se) event_store \<Rightarrow>
   ('se \<Rightarrow> ('de, 'se) repository_error) \<Rightarrow> 'id \<Rightarrow>
   ('w, ('de, 'se) repository_error + 'st loaded_aggregate) op" where
  "async_load A S into aggregate_id =
     try_op (op_map_err into (es_load S aggregate_id)) (\<lambda>events.
       return_op (Ok (replay A events)))"

definition async_execute ::
  "('st, 'cmd, 'e, 'de) aggregate \<Rightarrow> ('w, 'id, 'e, 'se) event_store \<Rightarrow>
   ('se \<Rightarrow> ('de, 'se) repository_error) \<Rightarrow> 'id \<Rightarrow> 'cmd \<Rightarrow> metadata \<Rightarrow>
   ('w, ('de, 'se) repository_error + ('e, 'id) event_stream) op" where
  "async_execute A S into aggregate_id command metadata =
     try_op (async_load A S into aggregate_id) (\<lambda>loaded.
     try_op (return_op (map_err RDomain
         (handle_command_as_new_events A (la_state loaded) command metadata))) (\<lambda>events.
     op_map_err into (es_append S aggregate_id (Exact (la_revision loaded)) events)))"

definition async_save ::
  "('st, 'cmd, 'e, 'de) aggregate \<Rightarrow> ('w, 'id, 'e, 'se) event_store \<Rightarrow>
   ('se \<Rightarrow> ('de, 'se) repository_error) \<Rightarrow> 'id \<Rightarrow> 'st loaded_aggregate \<Rightarrow> 'e list \<Rightarrow> metadata \<Rightarrow>
   ('w, ('de, 'se) repository_error + ('e, 'id) event_stream) op" where
  "async_save A S into aggregate_id loaded events metadata =
     (let events = new_events_with_metadata A events metadata
      in op_map_err into (es_append S aggregate_id (Exact (la_revision loaded)) events))"

definition async_save_new_events ::
  "('w, 'id, 'e, 'se) event_store \<Rightarrow> ('se \<Rightarrow> ('de, 'se) repository_error) \<Rightarrow> 'id \<Rightarrow>
   'st loaded_aggregate \<Rightarrow> 'e new_event list \<Rightarrow>
   ('w, ('de, 'se) repository_error + ('e, 'id) event_stream) op" where
  "async_save_new_events S into aggregate_id loaded events =
     op_map_err into (es_append S aggregate_id (Exact (la_revision loaded)) events)"

definition async_execute_returning_state ::
  "('st, 'cmd, 'e, 'de) aggregate \<Rightarrow> ('w, 'id, 'e, 'se) event_store \<Rightarrow>
   ('se \<Rightarrow> ('de, 'se) repository_error) \<Rightarrow> 'id \<Rightarrow> 'cmd \<Rightarrow> metadata \<Rightarrow>
   ('w, ('de, 'se) repository_error + 'st loaded_aggregate \<times> ('e, 'id) event_stream) op" where
  "async_execute_returning_state A S into aggregate_id command metadata =
     try_op (async_load A S into aggregate_id) (\<lambda>loaded.
     try_op (return_op (map_err RDomain
         (handle_command_as_new_events A (la_state loaded) command metadata))) (\<lambda>events.
     try_op (async_save_new_events S into aggregate_id loaded events) (\<lambda>committed.
       let updated = apply_committed_events A loaded committed
       in return_op (Ok (updated, committed)))))"

definition async_load_with_snapshot ::
  "('st, 'cmd, 'e, 'de) aggregate \<Rightarrow> ('w, 'id, 'e, 'se) event_store \<Rightarrow>
   ('se \<Rightarrow> ('de, 'se) repository_error) \<Rightarrow> 'id \<Rightarrow> ('w, 'st, 'id, 'sse) snapshot_store \<Rightarrow>
   ('w, ('de, 'se, 'sse) snapshot_repository_error + 'st loaded_aggregate) op" where
  "async_load_with_snapshot A S into aggregate_id snapshots =
     try_op (op_map_err SnapSnapshot (ss_load_snapshot snapshots aggregate_id)) (\<lambda>snapshot.
     case snapshot of
       None \<Rightarrow>
         try_op (op_map_err (snapshot_from_store_error into) (es_load S aggregate_id)) (\<lambda>events.
           return_op (Ok (replay A events)))
     | Some snapshot \<Rightarrow>
         try_op (op_map_err (snapshot_from_store_error into)
             (es_load_after_revision S aggregate_id (sn_revision snapshot))) (\<lambda>events.
           let (state, revision) = replay_loop A (sn_state snapshot) (sn_revision snapshot) events
           in return_op (Ok (loaded_aggregate_new state revision))))"

definition async_execute_with_snapshot ::
  "('st, 'cmd, 'e, 'de) aggregate \<Rightarrow> ('w, 'id, 'e, 'se) event_store \<Rightarrow>
   ('se \<Rightarrow> ('de, 'se) repository_error) \<Rightarrow> 'id \<Rightarrow> 'cmd \<Rightarrow> metadata \<Rightarrow>
   ('w, 'st, 'id, 'sse) snapshot_store \<Rightarrow>
   ('w, ('de, 'se, 'sse) snapshot_repository_error + ('e, 'id) event_stream) op" where
  "async_execute_with_snapshot A S into aggregate_id command metadata snapshots =
     try_op (async_load_with_snapshot A S into aggregate_id snapshots) (\<lambda>loaded.
     try_op (return_op (map_err SnapDomain
         (handle_command_as_new_events A (la_state loaded) command metadata))) (\<lambda>events.
     op_map_err (snapshot_from_store_error into)
       (es_append S aggregate_id (Exact (la_revision loaded)) events)))"

section \<open>Idempotent execution\<close>

fun async_save_attempts ::
  "'w timer \<Rightarrow> ('w, 'v, 'ie) idempotency_store \<Rightarrow> idempotency_key \<Rightarrow> 'v \<Rightarrow> nat list \<Rightarrow> 'w \<Rightarrow>
   ((('de, 'se, 'ie) idempotent_repository_error + unit) \<times> 'w) option" where
  "async_save_attempts T I key value [] w = None"
| "async_save_attempts T I key value (attempt # attempts) w =
     (case is_save I key value w of
        (Inr u, w1) \<Rightarrow> Some (Ok (), w1)
      | (Inl error, w1) \<Rightarrow>
          if attempt = SAVE_MAX_ATTEMPTS then Some (Err (IIdempotency error), w1)
          else async_save_attempts T I key value attempts (snd (async_retry_delay T SAVE_RETRY_DELAY w1)))"

definition async_save_idempotency_result_with_retry where
  "async_save_idempotency_result_with_retry T I key value =
     async_save_attempts T I key value [1..<SAVE_MAX_ATTEMPTS + 1]"

fun async_release_attempts ::
  "'w timer \<Rightarrow> ('w, 'v, 'ie) idempotency_store \<Rightarrow> idempotency_key \<Rightarrow> nat list \<Rightarrow>
   ('w, ('de, 'se, 'ie) idempotent_repository_error + unit) op" where
  "async_release_attempts T I key [] w =
     (Err (IdempotencyReleaseFailed key RELEASE_MAX_ATTEMPTS), w)"
| "async_release_attempts T I key (attempt # attempts) w =
     (case is_remove I key w of
        (Inr u, w1) \<Rightarrow> (Ok (), w1)
      | (Inl error, w1) \<Rightarrow>
          if attempt = RELEASE_MAX_ATTEMPTS
          then (Err (IdempotencyReleaseFailed key RELEASE_MAX_ATTEMPTS), w1)
          else async_release_attempts T I key attempts (snd (async_retry_delay T RELEASE_RETRY_DELAY w1)))"

definition async_release_idempotency_key_with_result where
  "async_release_idempotency_key_with_result T I key =
     async_release_attempts T I key [1..<RELEASE_MAX_ATTEMPTS + 1]"

partial_function (option) async_wait_loop ::
  "'w timer \<Rightarrow> ('w, 'v, 'ie) idempotency_store \<Rightarrow> idempotency_wait_config \<Rightarrow> nat \<Rightarrow> idempotency_key \<Rightarrow>
   'w \<Rightarrow> ((('de, 'se, 'ie) idempotent_repository_error + 'v option) \<times> 'w) option" where
  "async_wait_loop T I cfg started key w = (case wait_step T I cfg started key w of
      (WaitDone r, w1) \<Rightarrow> Some (map_ok Some r, w1)
    | (WaitReserved, w1) \<Rightarrow> Some (Ok None, w1)
    | (WaitSleep delay, w1) \<Rightarrow>
        async_wait_loop T I cfg started key (snd (async_retry_delay T delay w1)))"

text \<open>The \<open>async\<close> block maps every error to the idempotent error at its \<open>?\<close>.\<close>

definition async_idempotent_body ::
  "('st, 'cmd, 'e, 'de) aggregate \<Rightarrow> ('w, 'id, 'e, 'se) event_store \<Rightarrow>
   ('se \<Rightarrow> ('de, 'se) repository_error) \<Rightarrow> 'id \<Rightarrow> 'cmd \<Rightarrow> metadata \<Rightarrow>
   ('w, ('de, 'se, 'ie) idempotent_repository_error + ('e, 'id) event_stream) op" where
  "async_idempotent_body A S into aggregate_id command metadata =
     try_op (op_map_err idempotent_from_repository_error (async_load A S into aggregate_id)) (\<lambda>loaded.
     try_op (return_op (map_err IDomain
         (handle_command_as_new_events A (la_state loaded) command metadata))) (\<lambda>events.
     try_op (op_map_err (idempotent_from_store_error into)
         (es_append S aggregate_id (Exact (la_revision loaded)) events))
       (\<lambda>committed. return_op (Ok committed))))"

definition async_execute_idempotent_with_wait_config ::
  "'w timer \<Rightarrow> ('st, 'cmd, 'e, 'de) aggregate \<Rightarrow> ('w, 'id, 'e, 'se) event_store \<Rightarrow>
   ('se \<Rightarrow> ('de, 'se) repository_error) \<Rightarrow> 'id \<Rightarrow> 'cmd \<Rightarrow> metadata \<Rightarrow> idempotency_key \<Rightarrow>
   ('w, ('e, 'id) event_stream, 'ie) idempotency_store \<Rightarrow> idempotency_wait_config \<Rightarrow> 'w \<Rightarrow>
   ((('de, 'se, 'ie) idempotent_repository_error + ('e, 'id) event_stream) \<times> 'w) option" where
  "async_execute_idempotent_with_wait_config T A S into aggregate_id command metadata key I cfg w =
     (let (started, w0) = tm_instant T w
      in case async_wait_loop T I cfg started key w0 of
          None \<Rightarrow> None
        | Some (Inl error, w1) \<Rightarrow> Some (Err error, w1)
        | Some (Inr (Some committed), w1) \<Rightarrow> Some (Ok committed, w1)
        | Some (Inr None, w1) \<Rightarrow>
            (case async_idempotent_body A S into aggregate_id command metadata w1 of
              (Inl err, w2) \<Rightarrow> Some (try_op (async_release_idempotency_key_with_result T I key)
                  (\<lambda>_. return_op (Err err)) w2)
            | (Inr committed, w2) \<Rightarrow>
                (case async_save_idempotency_result_with_retry T I key committed w2 of
                   None \<Rightarrow> None
                 | Some (Inl error, w3) \<Rightarrow> Some (Err error, w3)
                 | Some (Inr _, w3) \<Rightarrow> Some (Ok committed, w3))))"

definition async_execute_idempotent where
  "async_execute_idempotent T A S into aggregate_id command metadata key I =
     async_execute_idempotent_with_wait_config T A S into aggregate_id command metadata key I
       wait_config_default"

partial_function (option) async_atomic_wait_loop ::
  "'w timer \<Rightarrow> ('w, 'id, 'e, 'se) atomic_store \<Rightarrow> ('se \<Rightarrow> ('de, 'se) repository_error) \<Rightarrow>
   idempotency_wait_config \<Rightarrow> nat \<Rightarrow> idempotency_key \<Rightarrow> 'w \<Rightarrow>
   ((('de, 'se, 'ie) idempotent_repository_error + ('e, 'id) event_stream option) \<times> 'w) option" where
  "async_atomic_wait_loop T AS into cfg started key w =
     (case atomic_wait_step T AS into cfg started key w of
        (WaitDone r, w1) \<Rightarrow> Some (map_ok Some r, w1)
      | (WaitReserved, w1) \<Rightarrow> Some (Ok None, w1)
      | (WaitSleep delay, w1) \<Rightarrow>
          async_atomic_wait_loop T AS into cfg started key (snd (async_retry_delay T delay w1)))"

partial_function (option) async_atomic_append_loop ::
  "'w timer \<Rightarrow> ('w, 'id, 'e, 'se) atomic_store \<Rightarrow> ('se \<Rightarrow> ('de, 'se) repository_error) \<Rightarrow>
   idempotency_wait_config \<Rightarrow> nat \<Rightarrow> idempotency_key \<Rightarrow> 'id \<Rightarrow> expected_revision \<Rightarrow> 'e new_event list \<Rightarrow>
   'w \<Rightarrow> ((('de, 'se, 'ie) idempotent_repository_error + ('e, 'id) event_stream) \<times> 'w) option" where
  "async_atomic_append_loop T AS into cfg started key aggregate_id expected events w =
     (case atomic_append_step T AS into cfg started key aggregate_id expected events w of
        (WaitSleep delay, w1) \<Rightarrow> async_atomic_append_loop T AS into cfg started key aggregate_id
          expected events (snd (async_retry_delay T delay w1))
      | (WaitDone r, w1) \<Rightarrow> Some (r, w1)
      | (WaitReserved, w1) \<Rightarrow> None)"

definition async_execute_idempotent_atomic_with_wait_config ::
  "'w timer \<Rightarrow> ('st, 'cmd, 'e, 'de) aggregate \<Rightarrow> ('w, 'id, 'e, 'se) event_store \<Rightarrow>
   ('w, 'id, 'e, 'se) atomic_store \<Rightarrow> ('se \<Rightarrow> ('de, 'se) repository_error) \<Rightarrow> 'id \<Rightarrow> 'cmd \<Rightarrow>
   metadata \<Rightarrow> idempotency_key \<Rightarrow> idempotency_wait_config \<Rightarrow> 'w \<Rightarrow>
   ((('de, 'se, 'ie) idempotent_repository_error + ('e, 'id) event_stream) \<times> 'w) option" where
  "async_execute_idempotent_atomic_with_wait_config T A S AS into aggregate_id command metadata key
       cfg w =
     (let (started, w0) = tm_instant T w
      in case async_atomic_wait_loop T AS into cfg started key w0 of
          None \<Rightarrow> None
        | Some (Inl error, w1) \<Rightarrow> Some (Err error, w1)
        | Some (Inr (Some committed), w1) \<Rightarrow> Some (Ok committed, w1)
        | Some (Inr None, w1) \<Rightarrow>
            (case op_map_err idempotent_from_repository_error
                    (async_load A S into aggregate_id) w1 of
               (Inl error, w2) \<Rightarrow> Some (Err error, w2)
             | (Inr loaded, w2) \<Rightarrow>
                 (case map_err IDomain
                     (handle_command_as_new_events A (la_state loaded) command metadata) of
                    Inl error \<Rightarrow> Some (Err error, w2)
                  | Inr events \<Rightarrow> async_atomic_append_loop T AS into cfg started key aggregate_id
                      (Exact (la_revision loaded)) events w2)))"

definition async_execute_idempotent_atomic where
  "async_execute_idempotent_atomic T A S AS into aggregate_id command metadata key =
     async_execute_idempotent_atomic_with_wait_config T A S AS into aggregate_id command metadata key
       wait_config_default"

section \<open>The async code is the sync code\<close>

lemma async_retry_delay_positive: "0 < d \<Longrightarrow> async_retry_delay T d = tm_sleep T d"
  by (simp add: fun_eq_iff async_retry_delay_def)

lemma retry_delays_positive [simp]: "0 < SAVE_RETRY_DELAY" "0 < RELEASE_RETRY_DELAY"
  by (simp_all add: SAVE_RETRY_DELAY_def RELEASE_RETRY_DELAY_def from_millis_def nanos_per_milli_def)

lemma async_save_attempts_eq: "async_save_attempts T I key v attempts w = save_attempts T I key v attempts w"
  by (induction T I key v attempts w rule: save_attempts.induct)
     (simp_all add: async_retry_delay_positive split: prod.splits sum.splits)

lemma release_attempts_from:
  "\<lbrakk>RELEASE_MAX_ATTEMPTS \<in> set attempts; sorted attempts\<rbrakk> \<Longrightarrow>
   async_release_attempts T I key attempts w = release_attempts T I key attempts w"
proof (induction attempts arbitrary: w)
  case (Cons a attempts)
  have "a \<noteq> RELEASE_MAX_ATTEMPTS \<Longrightarrow> a < RELEASE_MAX_ATTEMPTS \<and> RELEASE_MAX_ATTEMPTS \<in> set attempts"
    using Cons.prems by fastforce
  then show ?case
    using Cons by (auto simp: async_retry_delay_positive split: prod.splits sum.splits)
qed simp

lemma wait_poll_sleeps: "wait_poll T cfg started key w = (WaitSleep d, w') \<Longrightarrow> 0 < d"
  by (auto simp: wait_poll_def pending_wait_delay_def dest: next_delay_Some
      split: prod.splits sum.splits option.splits)

lemma wait_step_sleeps: "wait_step T I cfg started key w = (WaitSleep d, w') \<Longrightarrow> 0 < d"
  by (auto simp: wait_step_def wait_reserve_def dest: wait_poll_sleeps
      split: prod.splits sum.splits option.splits idempotency_state.splits if_splits)

lemma atomic_wait_step_sleeps:
  "atomic_wait_step T AS into cfg started key w = (WaitSleep d, w') \<Longrightarrow> 0 < d"
  by (auto simp: atomic_wait_step_def dest: wait_poll_sleeps
      split: prod.splits sum.splits option.splits idempotency_state.splits if_splits)

lemma atomic_append_step_sleeps:
  "atomic_append_step T AS into cfg started key i x evs w = (WaitSleep d, w') \<Longrightarrow> 0 < d"
  by (auto simp: atomic_append_step_def dest: wait_poll_sleeps
      split: prod.splits sum.splits idempotent_append_error.splits)

lemma wait_step_retry_delay:
  "wait_step T I cfg started key w = (WaitSleep d, w1) \<Longrightarrow> async_retry_delay T d w1 = tm_sleep T d w1"
  by (simp add: async_retry_delay_positive wait_step_sleeps)

lemma async_wait_loop_Some:
  assumes "async_wait_loop T I cfg started key w = Some r"
  shows "wait_loop T I cfg started key w = Some r"
proof (rule async_wait_loop.raw_induct [OF _ assms], goal_cases)
  case (1 loop T I cfg started key w r)
  then show ?case
    by (subst wait_loop.simps)
      (simp add: wait_step_retry_delay split: prod.splits wait_outcome.splits)
qed

lemma wait_loop_Some:
  assumes "wait_loop T I cfg started key w = Some r"
  shows "async_wait_loop T I cfg started key w = Some r"
proof (rule wait_loop.raw_induct [OF _ assms], goal_cases)
  case (1 loop T I cfg started key w r)
  then show ?case
    by (subst async_wait_loop.simps)
      (simp add: wait_step_retry_delay split: prod.splits wait_outcome.splits)
qed

lemma async_wait_loop_eq: "async_wait_loop T I cfg started key w = wait_loop T I cfg started key w"
  by (metis async_wait_loop_Some wait_loop_Some not_None_eq)

lemma atomic_wait_step_retry_delay:
  "atomic_wait_step T AS into cfg started key w = (WaitSleep d, w1) \<Longrightarrow> async_retry_delay T d w1 = tm_sleep T d w1"
  by (simp add: async_retry_delay_positive atomic_wait_step_sleeps)

lemma async_atomic_wait_loop_Some:
  assumes "async_atomic_wait_loop T AS into cfg started key w = Some r"
  shows "atomic_wait_loop T AS into cfg started key w = Some r"
proof (rule async_atomic_wait_loop.raw_induct [OF _ assms], goal_cases)
  case (1 loop T AS into cfg started key w r)
  then show ?case
    by (subst atomic_wait_loop.simps)
      (simp add: atomic_wait_step_retry_delay split: prod.splits wait_outcome.splits)
qed

lemma atomic_wait_loop_Some:
  assumes "atomic_wait_loop T AS into cfg started key w = Some r"
  shows "async_atomic_wait_loop T AS into cfg started key w = Some r"
proof (rule atomic_wait_loop.raw_induct [OF _ assms], goal_cases)
  case (1 loop T AS into cfg started key w r)
  then show ?case
    by (subst async_atomic_wait_loop.simps)
      (simp add: atomic_wait_step_retry_delay split: prod.splits wait_outcome.splits)
qed

lemma async_atomic_wait_loop_eq: "async_atomic_wait_loop T AS into cfg started key w = atomic_wait_loop T AS into cfg started key w"
  by (metis async_atomic_wait_loop_Some atomic_wait_loop_Some not_None_eq)

lemma atomic_append_step_retry_delay:
  "atomic_append_step T AS into cfg started key i x evs w = (WaitSleep d, w1) \<Longrightarrow> async_retry_delay T d w1 = tm_sleep T d w1"
  by (simp add: async_retry_delay_positive atomic_append_step_sleeps)

lemma async_atomic_append_loop_Some:
  assumes "async_atomic_append_loop T AS into cfg started key i x evs w = Some r"
  shows "atomic_append_loop T AS into cfg started key i x evs w = Some r"
proof (rule async_atomic_append_loop.raw_induct [OF _ assms], goal_cases)
  case (1 loop T AS into cfg started key i x evs w r)
  then show ?case
    by (subst atomic_append_loop.simps)
      (simp add: atomic_append_step_retry_delay split: prod.splits wait_outcome.splits)
qed

lemma atomic_append_loop_Some:
  assumes "atomic_append_loop T AS into cfg started key i x evs w = Some r"
  shows "async_atomic_append_loop T AS into cfg started key i x evs w = Some r"
proof (rule atomic_append_loop.raw_induct [OF _ assms], goal_cases)
  case (1 loop T AS into cfg started key i x evs w r)
  then show ?case
    by (subst async_atomic_append_loop.simps)
      (simp add: atomic_append_step_retry_delay split: prod.splits wait_outcome.splits)
qed

lemma async_atomic_append_loop_eq: "async_atomic_append_loop T AS into cfg started key i x evs w = atomic_append_loop T AS into cfg started key i x evs w"
  by (metis async_atomic_append_loop_Some atomic_append_loop_Some not_None_eq)

lemma async_drain_Some:
  assumes "async_drain load n c all w = Some r" shows "drain_global load n c all w = Some r"
proof (rule async_drain.raw_induct [OF _ assms], goal_cases)
  case (1 loop load n c all w r)
  then show ?case
    by (cases r; subst drain_global.simps) (auto simp: Let_def split: prod.splits sum.splits option.splits if_splits)
qed

lemma drain_global_Some:
  assumes "drain_global load n c all w = Some r" shows "async_drain load n c all w = Some r"
proof (rule drain_global.raw_induct [OF _ assms], goal_cases)
  case (1 loop load n c all w r)
  then show ?case
    by (cases r; subst async_drain.simps) (auto simp: Let_def split: prod.splits sum.splits option.splits if_splits)
qed

lemma async_drain_eq: "async_drain load n c all w = drain_global load n c all w"
  by (metis async_drain_Some drain_global_Some not_None_eq)

lemma idempotent_from_store_error_into:
  "idempotent_from_store_error into = (\<lambda>e. idempotent_from_repository_error (into e))"
proof
  show "idempotent_from_store_error into e = idempotent_from_repository_error (into e)" for e
    by (cases "into e") (simp_all add: idempotent_from_store_error_def)
qed

lemma async_body_eq:
  "async_idempotent_body A S into i cmd m =
     op_map_err idempotent_from_repository_error (idempotent_body A S into i cmd m)"
  by (simp add: async_idempotent_body_def idempotent_body_def async_load_def repository_load_def
      op_map_err_laws idempotent_from_store_error_into)

text \<open>C5: the async repository is the sync repository.  Loading, saving, executing commands, with
  snapshots, idempotently over two stores and inside the store: the separately written async code
  computes the same results and the same effects, in the same order, on every store; it also
  returns exactly when the sync code does.\<close>

theorem async_repository_equivalence:
  "async_load A S into = repository_load A S into \<and>
   async_execute A S into = execute A S into \<and>
   async_save A S into = repository_save A S into \<and>
   async_save_new_events S into = save_new_events S into \<and>
   async_execute_returning_state A S into = execute_returning_state A S into \<and>
   async_load_with_snapshot A S into = load_with_snapshot A S into \<and>
   async_execute_with_snapshot A S into = execute_with_snapshot A S into \<and>
   async_execute_idempotent_with_wait_config T A S into =
     execute_idempotent_with_wait_config T A S into \<and>
   async_execute_idempotent_atomic_with_wait_config T A S AS into =
     execute_idempotent_atomic_with_wait_config T A S AS into \<and>
   async_default_load_global_after load = default_load_global_after load"
proof (intro conjI)
  show load: "async_load A S into = repository_load A S into"
    by (simp add: fun_eq_iff async_load_def repository_load_def)
  show "async_save_new_events S into = save_new_events S into"
    by (simp add: fun_eq_iff async_save_new_events_def save_new_events_def)
  show "async_load_with_snapshot A S into = load_with_snapshot A S into"
    by (simp add: fun_eq_iff async_load_with_snapshot_def load_with_snapshot_def)
  show "async_execute A S into = execute A S into"
    by (auto simp: fun_eq_iff async_execute_def execute_def load save_new_events_def try_op_def
        return_op_def split: prod.splits sum.splits)
  show "async_save A S into = repository_save A S into"
    by (simp add: fun_eq_iff async_save_def repository_save_def)
  show "async_execute_returning_state A S into = execute_returning_state A S into"
    by (simp add: fun_eq_iff async_execute_returning_state_def execute_returning_state_def load
        async_save_new_events_def save_new_events_def)
  show "async_execute_with_snapshot A S into = execute_with_snapshot A S into"
    by (simp add: fun_eq_iff async_execute_with_snapshot_def execute_with_snapshot_def
        async_load_with_snapshot_def load_with_snapshot_def)
  have save: "async_save_idempotency_result_with_retry T I key v w =
      save_idempotency_result_with_retry T I key v w" for I key v w
    by (simp add: async_save_idempotency_result_with_retry_def
        save_idempotency_result_with_retry_def async_save_attempts_eq)
  have release: "async_release_idempotency_key_with_result T I key =
      release_idempotency_key_with_result T I key" for I key
    unfolding async_release_idempotency_key_with_result_def release_idempotency_key_with_result_def
    by (intro ext release_attempts_from) (simp_all add: RELEASE_MAX_ATTEMPTS_def)
  show "async_execute_idempotent_with_wait_config T A S into =
      execute_idempotent_with_wait_config T A S into"
    by (intro ext) (auto simp: async_execute_idempotent_with_wait_config_def
        execute_idempotent_with_wait_config_def async_wait_loop_eq async_body_eq op_map_err_def
        save release Let_def split: prod.splits sum.splits option.splits)
  show "async_execute_idempotent_atomic_with_wait_config T A S AS into =
      execute_idempotent_atomic_with_wait_config T A S AS into"
    by (intro ext) (simp add: async_execute_idempotent_atomic_with_wait_config_def
        execute_idempotent_atomic_with_wait_config_def async_atomic_wait_loop_eq
        async_atomic_append_loop_eq [abs_def] load cong: option.case_cong sum.case_cong prod.case_cong)
  show "async_default_load_global_after load = default_load_global_after load"
    by (simp add: fun_eq_iff async_default_load_global_after_def default_load_global_after_def
        async_drain_eq)
qed

end
