(* ===== verification/Checkpoints.thy ===== *)
theory Checkpoints
  imports Store_Errors
begin

text \<open>
  Projection checkpoints: the \<open>CheckpointStore\<close> trait of \<open>src/projection.rs\<close> with its contract,
  the checkpoint keys, and the SQLite checkpoint store of \<open>src/sqlite.rs\<close>.  The SQL statements are
  translated as the source writes them; what the database engine may answer to a statement (a
  failure, already mapped to an \<open>EventStoreError\<close>) is drawn from a list of outcomes.
\<close>

section \<open>The trait\<close>

record ('w, 'ce) checkpoint_store =
  cs_load_checkpoint :: "string \<Rightarrow> ('w, 'ce + nat option) op"
  cs_save_checkpoint :: "string \<Rightarrow> nat \<Rightarrow> ('w, 'ce + unit) op"
  cs_reset_checkpoint :: "string \<Rightarrow> ('w, 'ce + unit) op"

definition raise_checkpoint :: "nat \<Rightarrow> nat option \<Rightarrow> nat option" where
  "raise_checkpoint sequence existing =
     Some (case existing of None \<Rightarrow> sequence | Some e \<Rightarrow> max e sequence)"

locale checkpoint_contract =
  fixes C :: "('w, 'ce) checkpoint_store" and position :: "'w \<Rightarrow> string \<Rightarrow> nat option"
  assumes load_position: "cs_load_checkpoint C key w = (r, w') \<Longrightarrow>
      position w' = position w \<and> (\<forall>c. r = Inr c \<longrightarrow> c = position w key)"
    and save_position: "cs_save_checkpoint C key s w = (Inr u, w') \<Longrightarrow>
      position w' = (position w)(key := raise_checkpoint s (position w key))"
    and save_failed: "cs_save_checkpoint C key s w = (Inl e, w') \<Longrightarrow> position w' = position w"
    and reset_position: "cs_reset_checkpoint C key w = (Inr u, w') \<Longrightarrow>
      position w' = (position w)(key := None)"
    and reset_failed: "cs_reset_checkpoint C key w = (Inl e, w') \<Longrightarrow> position w' = position w"
begin

text \<open>Saving never moves a checkpoint back.\<close>

lemma save_monotone:
  "cs_save_checkpoint C key s w = (r, w') \<Longrightarrow> position w k = Some c \<Longrightarrow>
   \<exists>c'. position w' k = Some c' \<and> c \<le> c'"
  using save_position [of key s w "()" w'] save_failed [of key s w _ w']
  by (cases r) (auto simp: raise_checkpoint_def)

end

section \<open>Keys\<close>

definition CHECKPOINT_SCOPE_SEPARATOR :: char where "CHECKPOINT_SCOPE_SEPARATOR = CHR ''@''"
definition RAW_CHECKPOINT_SCOPE :: string where "RAW_CHECKPOINT_SCOPE = ''*raw''"

definition aggregate_scoped_checkpoint_key :: "string \<Rightarrow> string \<Rightarrow> string" where
  "aggregate_scoped_checkpoint_key projection_name aggregate_type =
     projection_name @ [CHECKPOINT_SCOPE_SEPARATOR] @ aggregate_type"

definition raw_checkpoint_key :: "string \<Rightarrow> string" where
  "raw_checkpoint_key projection_name =
     aggregate_scoped_checkpoint_key projection_name RAW_CHECKPOINT_SCOPE"

datatype checkpoint_keying = ProjectionName | AggregateScoped

fun checkpoint_key :: "checkpoint_keying \<Rightarrow> string \<Rightarrow> string \<Rightarrow> string" where
  "checkpoint_key ProjectionName name scope = name"
| "checkpoint_key AggregateScoped name scope = aggregate_scoped_checkpoint_key name scope"

text \<open>Feeds keep independent checkpoints.  As long as aggregate type names hold no separator,
  two scoped checkpoint keys are equal only for the same projection and the same feed, whatever
  the projection is called; the raw feed's key is none of an aggregate's unless its type is the
  reserved scope.\<close>

lemma checkpoint_keys_distinct:
  "\<lbrakk>CHECKPOINT_SCOPE_SEPARATOR \<notin> set t1; CHECKPOINT_SCOPE_SEPARATOR \<notin> set t2\<rbrakk> \<Longrightarrow>
   (checkpoint_key AggregateScoped p1 t1 = checkpoint_key AggregateScoped p2 t2 \<longleftrightarrow> p1 = p2 \<and> t1 = t2) \<and>
   (raw_checkpoint_key p1 = checkpoint_key AggregateScoped p2 t2 \<longleftrightarrow>
      p1 = p2 \<and> t2 = RAW_CHECKPOINT_SCOPE)"
  using append_sep_inj [of p1 CHECKPOINT_SCOPE_SEPARATOR t1 p2 t2]
    append_sep_inj [of p1 CHECKPOINT_SCOPE_SEPARATOR RAW_CHECKPOINT_SCOPE p2 t2]
  by (auto simp: aggregate_scoped_checkpoint_key_def raw_checkpoint_key_def RAW_CHECKPOINT_SCOPE_def
      CHECKPOINT_SCOPE_SEPARATOR_def)

lemma checkpoint_keys_distinct_witness:
  "raw_checkpoint_key ''a@b'' \<noteq> checkpoint_key AggregateScoped ''a'' ''b''"
  using checkpoint_keys_distinct [of "''b''" "''b''" "''a@b''" "''a''"]
  by (simp add: CHECKPOINT_SCOPE_SEPARATOR_def RAW_CHECKPOINT_SCOPE_def)

section \<open>The SQLite store\<close>

text \<open>
  The table \<open>(projection_name TEXT PRIMARY KEY, sequence INTEGER)\<close> and the outcomes of the
  statements to come: \<open>Some e\<close> where the engine fails with \<open>e\<close>.
\<close>

record sqlite_checkpoints =
  sc_rows :: "string \<rightharpoonup> int"
  sc_faults :: "event_store_error option list"

definition run_statement ::
  "(sqlite_checkpoints \<Rightarrow> 'a \<times> sqlite_checkpoints) \<Rightarrow>
   (sqlite_checkpoints, event_store_error + 'a) op" where
  "run_statement f db = (case sc_faults db of
      Some e # faults \<Rightarrow> (Err e, db\<lparr>sc_faults := faults\<rparr>)
    | None # faults \<Rightarrow> (let (r, db') = f (db\<lparr>sc_faults := faults\<rparr>) in (Ok r, db'))
    | [] \<Rightarrow> (let (r, db') = f db in (Ok r, db')))"

definition sqlite_load_checkpoint ::
  "string \<Rightarrow> (sqlite_checkpoints, event_store_error + nat option) op" where
  "sqlite_load_checkpoint projection_name =
     try_op (run_statement (\<lambda>db. (sc_rows db projection_name, db))) (\<lambda>row.
       case row of
         None \<Rightarrow> return_op (Ok None)
       | Some sequence \<Rightarrow> (case u64_try_from_i64 sequence of
             None \<Rightarrow> return_op (Err (error_deserialization ''SQLite checkpoint cannot be negative''))
           | Some sequence \<Rightarrow> return_op (Ok (Some sequence))))"

text \<open>
  \<open>INSERT ... ON CONFLICT(projection_name) DO UPDATE SET sequence = CASE WHEN
  excluded.sequence > sequence THEN excluded.sequence ELSE sequence END\<close>.
\<close>

definition upsert_checkpoint :: "string \<Rightarrow> int \<Rightarrow> sqlite_checkpoints \<Rightarrow> unit \<times> sqlite_checkpoints" where
  "upsert_checkpoint projection_name sequence db = ((), db\<lparr>sc_rows := (sc_rows db)(projection_name \<mapsto>
     (case sc_rows db projection_name of
        None \<Rightarrow> sequence
      | Some existing \<Rightarrow> if sequence > existing then sequence else existing))\<rparr>)"

definition sqlite_save_checkpoint ::
  "string \<Rightarrow> nat \<Rightarrow> (sqlite_checkpoints, event_store_error + unit) op" where
  "sqlite_save_checkpoint projection_name sequence =
     (case i64_try_from_u64 sequence of
        None \<Rightarrow> return_op (Err (error_deserialization ''checkpoint exceeds i64''))
      | Some sequence_i64 \<Rightarrow> run_statement (upsert_checkpoint projection_name sequence_i64))"

definition sqlite_reset_checkpoint ::
  "string \<Rightarrow> (sqlite_checkpoints, event_store_error + unit) op" where
  "sqlite_reset_checkpoint projection_name =
     run_statement (\<lambda>db. ((), db\<lparr>sc_rows := (sc_rows db)(projection_name := None)\<rparr>))"

definition sqlite_checkpoint_store :: "(sqlite_checkpoints, event_store_error) checkpoint_store" where
  "sqlite_checkpoint_store = \<lparr>cs_load_checkpoint = sqlite_load_checkpoint,
     cs_save_checkpoint = sqlite_save_checkpoint, cs_reset_checkpoint = sqlite_reset_checkpoint\<rparr>"

text \<open>The checkpoint a row stands for; a negative one is refused on load.\<close>

definition sqlite_position :: "sqlite_checkpoints \<Rightarrow> string \<Rightarrow> nat option" where
  "sqlite_position db key = map_option nat (sc_rows db key)"

lemma run_statement_cases:
  assumes "run_statement f db = (r, db')"
  obtains (fault) e faults where "r = Err e" "db' = db\<lparr>sc_faults := faults\<rparr>"
  | (ran) a faults where "r = Ok a" "f (db\<lparr>sc_faults := faults\<rparr>) = (a, db')"
proof (cases "sc_faults db")
  case Nil
  then have same: "db\<lparr>sc_faults := []\<rparr> = db" by (cases db) simp
  obtain a where "r = Ok a" "f db = (a, db')"
    using assms Nil by (auto simp: run_statement_def split: prod.splits)
  then show ?thesis using ran [of a "[]"] same by simp
next
  case (Cons x faults)
  then show ?thesis
    using assms fault ran by (cases x) (auto simp: run_statement_def split: prod.splits)
qed

interpretation sqlite_checkpoint: checkpoint_contract sqlite_checkpoint_store sqlite_position
proof (unfold_locales, goal_cases)
  case (1 key w r w')
  then obtain q w1 where q: "run_statement (\<lambda>db. (sc_rows db key, db)) w = (q, w1)"
    by (meson surj_pair)
  have run: "try_op (run_statement (\<lambda>db. (sc_rows db key, db))) (\<lambda>row. case row of
         None \<Rightarrow> return_op (Ok None)
       | Some sequence \<Rightarrow> (case u64_try_from_i64 sequence of
             None \<Rightarrow> return_op (Err (error_deserialization ''SQLite checkpoint cannot be negative''))
           | Some sequence \<Rightarrow> return_op (Ok (Some sequence)))) w = (r, w')"
    using 1 by (simp add: sqlite_checkpoint_store_def sqlite_load_checkpoint_def)
  from q show ?case
  proof (cases rule: run_statement_cases)
    case (fault e faults)
    then show ?thesis using run q by (auto simp: try_op_def sqlite_position_def)
  next
    case (ran a faults)
    then show ?thesis using run q
      by (auto simp: try_op_def return_op_def sqlite_position_def u64_try_from_i64_def
          split: option.splits if_splits)
  qed
next
  case (2 key s w u w')
  then obtain z where z: "i64_try_from_u64 s = Some z"
    and run: "run_statement (upsert_checkpoint key z) w = (Inr u, w')"
    by (auto simp: sqlite_checkpoint_store_def sqlite_save_checkpoint_def return_op_def
        split: option.splits)
  have "z = int s" using z by (auto simp: i64_try_from_u64_def split: if_splits)
  from run this show ?case
    by (cases rule: run_statement_cases)
      (auto simp: upsert_checkpoint_def sqlite_position_def raise_checkpoint_def fun_eq_iff
        max_def nat_le_iff split: option.splits)
next
  case (3 key s w e w')
  then show ?case
    by (auto simp: sqlite_checkpoint_store_def sqlite_save_checkpoint_def return_op_def
        sqlite_position_def fun_eq_iff split: option.splits elim: run_statement_cases)
next
  case (4 key w u w')
  then have "run_statement (\<lambda>db. ((), db\<lparr>sc_rows := (sc_rows db)(key := None)\<rparr>)) w = (Inr u, w')"
    by (simp add: sqlite_checkpoint_store_def sqlite_reset_checkpoint_def)
  then show ?case
    by (cases rule: run_statement_cases) (auto simp: sqlite_position_def fun_eq_iff)
next
  case (5 key w e w')
  then show ?case
    by (auto simp: sqlite_checkpoint_store_def sqlite_reset_checkpoint_def
        sqlite_position_def fun_eq_iff elim: run_statement_cases)
qed

text \<open>C22: SQLite checkpoints never move back.  Whatever the engine answers to the statement, after a
  save of any sequence under any key every checkpoint that was there is there and is no smaller,
  and a save that reports success has raised its own checkpoint to at least its sequence.\<close>

theorem sqlite_checkpoints_monotone:
  "sqlite_save_checkpoint key s db = (r, db') \<Longrightarrow>
   (\<forall>k c. sqlite_position db k = Some c \<longrightarrow> (\<exists>c'. sqlite_position db' k = Some c' \<and> c \<le> c')) \<and>
   (r = Ok () \<longrightarrow> (\<exists>c'. sqlite_position db' key = Some c' \<and> s \<le> c'))"
  using sqlite_checkpoint.save_monotone [of key s db r db']
    sqlite_checkpoint.save_position [of key s db "()" db']
  by (auto simp: sqlite_checkpoint_store_def raise_checkpoint_def split: option.splits)

theorem sqlite_checkpoints_monotone_witness:
  "\<exists>db'. sqlite_save_checkpoint ''p'' 3 \<lparr>sc_rows = [''p'' \<mapsto> 7], sc_faults = []\<rparr> = (Ok (), db') \<and>
     (\<exists>c'. sqlite_position db' ''p'' = Some c' \<and> 7 \<le> c')"
proof -
  let ?db = "\<lparr>sc_rows = [''p'' \<mapsto> 7], sc_faults = []\<rparr>"
  obtain db' where run: "sqlite_save_checkpoint ''p'' 3 ?db = (Ok (), db')"
    by (simp add: sqlite_save_checkpoint_def i64_try_from_u64_def i64_max_def run_statement_def
        upsert_checkpoint_def)
  then show ?thesis
    using sqlite_checkpoints_monotone [OF run] by (auto simp: sqlite_position_def)
qed

end
