(* ===== verification/Projection.thy ===== *)
theory Projection
  imports Event_Store Checkpoints
begin

text \<open>
  The projection runners of \<open>src/projection.rs\<close>.  A projection is application code: the record of
  its functions on its own state \<open>'p\<close>, an argument of the runners.  Event store and checkpoint
  store act on a state \<open>'w\<close>.  The runners differ in who keeps the checkpoint: the runner itself
  (in-memory), an external checkpoint store (persisted), or the projection (checkpointed,
  transactional).  A catch-up run repeats bounded batches and may not return: \<open>None\<close>.
\<close>

section \<open>Projections and batches\<close>

record ('p, 'e, 'id, 'pe) projection =
  pj_name :: string
  pj_apply :: "('e, 'id) event_envelope \<Rightarrow> ('p, 'pe + unit) op"
  pj_flush :: "('p, 'pe + unit) op"

fun default_apply_batch ::
  "('p, 'e, 'id, 'pe) projection \<Rightarrow> ('e, 'id) event_stream \<Rightarrow> ('p, 'pe + unit) op" where
  "default_apply_batch P [] p = (Ok (), p)"
| "default_apply_batch P (event # events) p =
     try_op (pj_apply P event) (\<lambda>_. default_apply_batch P events) p"

definition default_flush :: "('p, 'pe + unit) op" where
  "default_flush p = (Ok (), p)"

definition DEFAULT_PROJECTION_BATCH_SIZE :: nat where "DEFAULT_PROJECTION_BATCH_SIZE = 500"

record projection_batch_config =
  bc_batch_size :: nat

definition batch_config_default :: projection_batch_config where
  "batch_config_default = \<lparr>bc_batch_size = DEFAULT_PROJECTION_BATCH_SIZE\<rparr>"

record projection_batch_outcome =
  bo_applied :: nat
  bo_last_sequence :: "nat option"
  bo_caught_up :: bool

definition mk_batch_outcome ::
  "nat \<Rightarrow> nat option \<Rightarrow> projection_batch_config \<Rightarrow> projection_batch_outcome" where
  "mk_batch_outcome applied last_sequence config =
     \<lparr>bo_applied = applied, bo_last_sequence = last_sequence,
      bo_caught_up = (applied < bc_batch_size config)\<rparr>"

text \<open>\<open>batch_advanced\<close> with the updated \<open>position\<close>.\<close>

definition batch_advanced ::
  "projection_batch_outcome \<Rightarrow> nat option \<Rightarrow> bool \<times> nat option" where
  "batch_advanced outcome position =
     (if bo_caught_up outcome then (False, position)
      else case bo_last_sequence outcome of
          Some sequence \<Rightarrow>
            if (case position of None \<Rightarrow> True | Some previous \<Rightarrow> sequence > previous)
            then (True, Some sequence) else (False, position)
        | None \<Rightarrow> (False, position))"

datatype ('pe, 'se, 'ce) projection_runner_error =
    PProjection 'pe
  | PStore 'se
  | PCheckpoint 'ce
  | PPartialBatchFailure 'pe 'ce

fun display_projection_runner_error ::
  "('pe \<Rightarrow> string) \<Rightarrow> ('se \<Rightarrow> string) \<Rightarrow> ('ce \<Rightarrow> string) \<Rightarrow>
   ('pe, 'se, 'ce) projection_runner_error \<Rightarrow> string" where
  "display_projection_runner_error dp ds dc (PProjection error) = dp error"
| "display_projection_runner_error dp ds dc (PStore error) = ds error"
| "display_projection_runner_error dp ds dc (PCheckpoint error) = dc error"
| "display_projection_runner_error dp ds dc (PPartialBatchFailure projection checkpoint) =
     ''projection failed ('' @ dp projection @ '') and checkpoint save also failed ('' @
     dc checkpoint @ '')''"

text \<open>The loop of \<open>run_projection_catch_up\<close>.\<close>

partial_function (option) catch_up_loop ::
  "(projection_batch_config \<Rightarrow> ('s, 'err + projection_batch_outcome) op) \<Rightarrow>
   projection_batch_config \<Rightarrow> nat \<Rightarrow> nat option \<Rightarrow> 's \<Rightarrow> (('err + nat) \<times> 's) option" where
  "catch_up_loop run_batch config applied position s =
     (case run_batch config s of
        (Inl e, s') \<Rightarrow> Some (Err e, s')
      | (Inr outcome, s') \<Rightarrow>
          let applied' = applied + bo_applied outcome;
              (advanced, position') = batch_advanced outcome position
          in if advanced then catch_up_loop run_batch config applied' position' s'
             else Some (Ok applied', s'))"

definition run_projection_catch_up ::
  "(projection_batch_config \<Rightarrow> ('s, 'err + projection_batch_outcome) op) \<Rightarrow> 's \<Rightarrow>
   (('err + nat) \<times> 's) option" where
  "run_projection_catch_up run_batch = catch_up_loop run_batch batch_config_default 0 None"

fun find_last_sequence :: "('e, 'id) event_stream \<Rightarrow> nat option" where
  "find_last_sequence [] = None"
| "find_last_sequence (event # earlier) = (case env_sequence event of
      Some s \<Rightarrow> Some s
    | None \<Rightarrow> find_last_sequence earlier)"

definition projection_batch_stats :: "('e, 'id) event_stream \<Rightarrow> nat \<times> nat option" where
  "projection_batch_stats events = (length events, find_last_sequence (rev events))"

fun apply_events_loop ::
  "('p, 'e, 'id, 'pe) projection \<Rightarrow> ('e, 'id) event_stream \<Rightarrow> nat \<Rightarrow> nat option \<Rightarrow>
   ('p, nat \<times> nat option \<times> 'pe option) op" where
  "apply_events_loop P [] applied last_sequence p = ((applied, last_sequence, None), p)"
| "apply_events_loop P (event # events) applied last_sequence p =
     (case pj_apply P event p of
        (Inl error, p') \<Rightarrow> ((applied, last_sequence, Some error), p')
      | (Inr _, p') \<Rightarrow> apply_events_loop P events (applied + 1)
          (case env_sequence event of Some sequence \<Rightarrow> Some sequence | None \<Rightarrow> last_sequence) p')"

definition apply_projection_events ::
  "('p, 'e, 'id, 'pe) projection \<Rightarrow> ('e, 'id) event_stream \<Rightarrow>
   ('p, nat \<times> nat option \<times> 'pe option) op" where
  "apply_projection_events P events = apply_events_loop P events 0 None"

section \<open>The in-memory runner\<close>

record 'p in_memory_runner =
  ir_projection :: 'p
  ir_checkpoint :: "nat option"

definition in_memory_runner_new :: "'p \<Rightarrow> 'p in_memory_runner" where
  "in_memory_runner_new projection = \<lparr>ir_projection = projection, ir_checkpoint = None\<rparr>"

definition finish_in_memory_projection_batch ::
  "('p, 'e, 'id, 'pe) projection \<Rightarrow> nat \<Rightarrow> nat option \<Rightarrow> 'pe option \<Rightarrow> projection_batch_config \<Rightarrow>
   ('p in_memory_runner, ('pe, 'se, 'ce) projection_runner_error + projection_batch_outcome) op" where
  "finish_in_memory_projection_batch P applied last_sequence failure config r =
     (case pj_flush P (ir_projection r) of
        (Inl e, p') \<Rightarrow> (Err (PProjection e), r\<lparr>ir_projection := p'\<rparr>)
      | (Inr _, p') \<Rightarrow>
          let r1 = r\<lparr>ir_projection := p'\<rparr>;
              r2 = (case last_sequence of
                  Some sequence \<Rightarrow> r1\<lparr>ir_checkpoint := Some sequence\<rparr>
                | None \<Rightarrow> r1)
          in (case failure of
                Some error \<Rightarrow> (Err (PProjection error), r2)
              | None \<Rightarrow> (Ok (mk_batch_outcome applied last_sequence config), r2)))"

definition in_memory_run_batch ::
  "('p, 'e, 'id, 'pe) projection \<Rightarrow> (nat option \<Rightarrow> nat \<Rightarrow> ('w, 'se + ('e, 'id) event_stream) op) \<Rightarrow>
   projection_batch_config \<Rightarrow>
   ('p in_memory_runner \<times> 'w, ('pe, 'se, 'ce) projection_runner_error + projection_batch_outcome) op"
where
  "in_memory_run_batch P load config = (\<lambda>(r, w).
     case load (ir_checkpoint r) (bc_batch_size config) w of
       (Inl e, w') \<Rightarrow> (Err (PStore e), r, w')
     | (Inr events, w') \<Rightarrow>
         let ((applied, last_sequence, failure), p') =
               apply_projection_events P events (ir_projection r);
             (result, r') = finish_in_memory_projection_batch P applied last_sequence failure config
               (r\<lparr>ir_projection := p'\<rparr>)
         in (result, r', w'))"

definition in_memory_run where
  "in_memory_run P load = run_projection_catch_up (in_memory_run_batch P load)"

section \<open>The persisted runner\<close>

definition persist_projection_checkpoint ::
  "('p, 'e, 'id, 'pe) projection \<Rightarrow> ('w, 'ce) checkpoint_store \<Rightarrow> string \<Rightarrow> nat option \<Rightarrow>
   ('p \<times> 'w, ('pe, 'se, 'ce) projection_runner_error + unit) op" where
  "persist_projection_checkpoint P C key last_sequence = (\<lambda>(p, w).
     case last_sequence of
       None \<Rightarrow> (Ok (), p, w)
     | Some sequence \<Rightarrow> (case pj_flush P p of
           (Inl e, p') \<Rightarrow> (Err (PProjection e), p', w)
         | (Inr _, p') \<Rightarrow> (case cs_save_checkpoint C key sequence w of
               (Inl e, w') \<Rightarrow> (Err (PCheckpoint e), p', w')
             | (Inr _, w') \<Rightarrow> (Ok (), p', w'))))"

fun finish_projection_batch ::
  "('pe, 'se, 'ce) projection_runner_error option \<Rightarrow> ('pe, 'se, 'ce) projection_runner_error + unit \<Rightarrow>
   ('pe, 'se, 'ce) projection_runner_error + unit" where
  "finish_projection_batch (Some (PProjection projection_err)) flushed = (case flushed of
      Inl (PCheckpoint checkpoint_err) \<Rightarrow> Err (PPartialBatchFailure projection_err checkpoint_err)
    | Inl other \<Rightarrow> Err other
    | Inr _ \<Rightarrow> Err (PProjection projection_err))"
| "finish_projection_batch (Some other) flushed = Err other"
| "finish_projection_batch None flushed = flushed"

definition run_persisted_projection_batch ::
  "('p, 'e, 'id, 'pe) projection \<Rightarrow> ('w, 'ce) checkpoint_store \<Rightarrow> string \<Rightarrow> ('e, 'id) event_stream \<Rightarrow>
   projection_batch_config \<Rightarrow>
   ('p \<times> 'w, ('pe, 'se, 'ce) projection_runner_error + projection_batch_outcome) op" where
  "run_persisted_projection_batch P C key events config = (\<lambda>(p, w).
     let ((applied, last_sequence, failure), p1) = apply_projection_events P events p;
         (flushed, p2, w2) = persist_projection_checkpoint P C key last_sequence (p1, w)
     in (map_ok (\<lambda>_. mk_batch_outcome applied last_sequence config)
           (finish_projection_batch (map_option PProjection failure) flushed), p2, w2))"

definition persisted_run_batch ::
  "('p, 'e, 'id, 'pe) projection \<Rightarrow> ('w, 'ce) checkpoint_store \<Rightarrow> checkpoint_keying \<Rightarrow> string \<Rightarrow>
   (nat option \<Rightarrow> nat \<Rightarrow> ('w, 'se + ('e, 'id) event_stream) op) \<Rightarrow> projection_batch_config \<Rightarrow>
   ('p \<times> 'w, ('pe, 'se, 'ce) projection_runner_error + projection_batch_outcome) op" where
  "persisted_run_batch P C keying aggregate_type load config = (\<lambda>(p, w).
     let key = checkpoint_key keying (pj_name P) aggregate_type
     in case cs_load_checkpoint C key w of
          (Inl e, w1) \<Rightarrow> (Err (PCheckpoint e), p, w1)
        | (Inr checkpoint, w1) \<Rightarrow> (case load checkpoint (bc_batch_size config) w1 of
              (Inl e, w2) \<Rightarrow> (Err (PStore e), p, w2)
            | (Inr events, w2) \<Rightarrow> run_persisted_projection_batch P C key events config (p, w2)))"

definition persisted_run where
  "persisted_run P C keying aggregate_type load =
     run_projection_catch_up (persisted_run_batch P C keying aggregate_type load)"

text \<open>\<open>run_raw_batch\<close>: the raw feed under its reserved scope.\<close>

definition persisted_run_raw_batch where
  "persisted_run_raw_batch P C keying load config = (\<lambda>(p, w).
     let key = checkpoint_key keying (pj_name P) RAW_CHECKPOINT_SCOPE
     in case cs_load_checkpoint C key w of
          (Inl e, w1) \<Rightarrow> (Err (PCheckpoint e), p, w1)
        | (Inr checkpoint, w1) \<Rightarrow> (case load checkpoint (bc_batch_size config) w1 of
              (Inl e, w2) \<Rightarrow> (Err (PStore e), p, w2)
            | (Inr events, w2) \<Rightarrow> run_persisted_projection_batch P C key events config (p, w2)))"

section \<open>Projections that own their checkpoint\<close>

record ('p, 'e, 'id, 'pe) checkpointed_projection =
  cp_load_checkpoint :: "('p, 'pe + nat option) op"
  cp_apply_and_checkpoint :: "('e, 'id) event_envelope \<Rightarrow> ('p, 'pe + unit) op"

fun apply_batch_and_checkpoint ::
  "('p, 'e, 'id, 'pe) checkpointed_projection \<Rightarrow> ('e, 'id) event_stream \<Rightarrow> ('p, 'pe + unit) op" where
  "apply_batch_and_checkpoint P [] p = (Ok (), p)"
| "apply_batch_and_checkpoint P (event # events) p =
     try_op (cp_apply_and_checkpoint P event) (\<lambda>_. apply_batch_and_checkpoint P events) p"

definition run_owned_checkpoint_projection_batch ::
  "(nat option \<Rightarrow> nat \<Rightarrow> ('w, 'se + ('e, 'id) event_stream) op) \<Rightarrow> projection_batch_config \<Rightarrow>
   ('p, 'pe + nat option) op \<Rightarrow> (('e, 'id) event_stream \<Rightarrow> ('p, 'pe + unit) op) \<Rightarrow>
   ('p \<times> 'w, ('pe, 'se, 'pe) projection_runner_error + projection_batch_outcome) op" where
  "run_owned_checkpoint_projection_batch load config load_checkpoint apply_batch = (\<lambda>(p, w).
     case load_checkpoint p of
       (Inl e, p1) \<Rightarrow> (Err (PCheckpoint e), p1, w)
     | (Inr checkpoint, p1) \<Rightarrow> (case load checkpoint (bc_batch_size config) w of
           (Inl e, w1) \<Rightarrow> (Err (PStore e), p1, w1)
         | (Inr events, w1) \<Rightarrow> (case apply_batch events p1 of
               (Inl e, p2) \<Rightarrow> (Err (PProjection e), p2, w1)
             | (Inr _, p2) \<Rightarrow>
                 let (applied, last_sequence) = projection_batch_stats events
                 in (Ok (mk_batch_outcome applied last_sequence config), p2, w1))))"

definition checkpointed_run_batch where
  "checkpointed_run_batch P load config =
     run_owned_checkpoint_projection_batch load config (cp_load_checkpoint P)
       (apply_batch_and_checkpoint P)"

definition checkpointed_run where
  "checkpointed_run P load = run_projection_catch_up (checkpointed_run_batch P load)"

text \<open>
  \<open>TransactionalCheckpointedProjection\<close> has the same functions, of which the crate asks that
  each is one transaction.
\<close>

fun apply_batch_and_checkpoint_transactionally ::
  "('p, 'e, 'id, 'pe) checkpointed_projection \<Rightarrow> ('e, 'id) event_stream \<Rightarrow> ('p, 'pe + unit) op" where
  "apply_batch_and_checkpoint_transactionally P [] p = (Ok (), p)"
| "apply_batch_and_checkpoint_transactionally P (event # events) p =
     try_op (cp_apply_and_checkpoint P event)
       (\<lambda>_. apply_batch_and_checkpoint_transactionally P events) p"

definition transactional_run_batch where
  "transactional_run_batch P load config =
     run_owned_checkpoint_projection_batch load config (cp_load_checkpoint P)
       (apply_batch_and_checkpoint_transactionally P)"

definition transactional_run where
  "transactional_run P load = run_projection_catch_up (transactional_run_batch P load)"

end
