(* ===== verification/Projection_Facts.thy ===== *)
theory Projection_Facts
  imports Projection
begin

text \<open>
  What the runners do with a feed: a batch applies a successful prefix of its page and never moves
  the checkpoint past an event it did not apply; a catch-up run returns, and on success every
  event of the feed after the starting checkpoint has been applied, in order, once.
\<close>

section \<open>Applying events\<close>

fun consumed :: "('p, 'e, 'id, 'pe) projection \<Rightarrow> 'p \<Rightarrow> ('e, 'id) event_stream \<Rightarrow> 'p option" where
  "consumed P p [] = Some p"
| "consumed P p (e # es) = (case pj_apply P e p of (Inl _, _) \<Rightarrow> None | (Inr _, p') \<Rightarrow> consumed P p' es)"

lemma consumed_append:
  "consumed P p (xs @ ys) = (case consumed P p xs of None \<Rightarrow> None | Some p' \<Rightarrow> consumed P p' ys)"
  by (induction xs arbitrary: p) (auto split: prod.splits sum.splits)

lemma find_last_sequence_append:
  "find_last_sequence (xs @ ys) = (case find_last_sequence xs of None \<Rightarrow> find_last_sequence ys | s \<Rightarrow> s)"
  by (induction xs) (auto split: option.splits)

lemma last_event_sequence_Nil [simp]: "last_event_sequence [] = None"
  by (simp add: last_event_sequence_def)

lemma find_last_sequence_sorted:
  "feed_sorted es \<Longrightarrow> find_last_sequence (rev es) = last_event_sequence es"
proof (cases es rule: rev_cases)
  case (snoc ys y)
  assume "feed_sorted es"
  then show ?thesis using snoc
    by (auto simp: last_event_sequence_def feed_sorted_def split: option.splits)
qed (simp add: last_event_sequence_def)

text \<open>The batch applies the first \<open>k\<close> events; \<open>last\<close> is their last assigned sequence.\<close>

definition applied_prefix where
  "applied_prefix P events p k pk failure p' \<longleftrightarrow> k \<le> length events \<and>
     consumed P p (take k events) = Some pk \<and>
     (case failure of
        None \<Rightarrow> k = length events \<and> p' = pk
      | Some e \<Rightarrow> k < length events \<and> pj_apply P (events ! k) pk = (Inl e, p'))"

lemma apply_events_loop_prefix:
  "\<exists>k pk failure. apply_events_loop P events a l p =
     ((a + k, (case find_last_sequence (rev (take k events)) of None \<Rightarrow> l | s \<Rightarrow> s), failure), p') \<and>
     applied_prefix P events p k pk failure p'"
  if "snd (apply_events_loop P events a l p) = p'"
  using that
proof (induction P events a l p rule: apply_events_loop.induct)
  case (1 P a l p)
  then show ?case by (auto simp: applied_prefix_def)
next
  case (2 P e es a l p)
  obtain r q where run: "pj_apply P e p = (r, q)" by (meson surj_pair)
  show ?case
  proof (cases r)
    case (Inl x)
    then show ?thesis using run 2(2)
      by (intro exI [of _ 0] exI [of _ p] exI [of _ "Some x"]) (auto simp: applied_prefix_def)
  next
    case (Inr u)
    obtain k pk failure where ih: "apply_events_loop P es (a + 1)
        (case env_sequence e of Some s \<Rightarrow> Some s | None \<Rightarrow> l) q =
       ((a + 1 + k, (case find_last_sequence (rev (take k es)) of
           None \<Rightarrow> (case env_sequence e of Some s \<Rightarrow> Some s | None \<Rightarrow> l) | s \<Rightarrow> s), failure), p')"
      "applied_prefix P es q k pk failure p'"
      using 2(1) [OF run [symmetric] Inr] 2(2) run Inr by auto
    show ?thesis
      by (intro exI [of _ "Suc k"] exI [of _ pk] exI [of _ failure])
        (use ih run Inr in \<open>auto simp: applied_prefix_def find_last_sequence_append
          split: option.splits\<close>)
  qed
qed

lemma apply_projection_events_prefix:
  obtains k pk failure p' where
    "apply_projection_events P events p = ((k, find_last_sequence (rev (take k events)), failure), p')"
    "applied_prefix P events p k pk failure p'"
proof -
  have same: "(case x of None \<Rightarrow> None | Some s \<Rightarrow> Some s) = x" for x :: "nat option"
    by (cases x) auto
  show ?thesis
    using apply_events_loop_prefix [OF refl, of P events 0 None p] that
    unfolding apply_projection_events_def same add_0 by blast
qed

section \<open>Positions in a feed\<close>

definition upto :: "nat option \<Rightarrow> ('e, 'id) event_stream \<Rightarrow> ('e, 'id) event_stream" where
  "upto cursor es = (case cursor of
      None \<Rightarrow> []
    | Some c \<Rightarrow> filter (\<lambda>e. the (env_sequence e) \<le> c) es)"

lemma upto_after: "feed_sorted es \<Longrightarrow> upto c es @ after_cursor c es = es"
proof (induction es)
  case (Cons e es)
  show ?case
  proof (cases c)
    case (Some s)
    have "\<not> the (env_sequence e) \<le> s \<Longrightarrow> filter (\<lambda>e. the (env_sequence e) \<le> s) es = []"
      using Cons.prems by (auto simp: feed_sorted_Cons filter_empty_conv)
    then show ?thesis using Cons Some by (auto simp: upto_def after_cursor_def feed_sorted_Cons)
  qed (simp add: upto_def after_cursor_def)
qed (simp add: upto_def after_cursor_def split: option.splits)

lemma upto_page:
  assumes "feed_sorted es" "0 < k" "k \<le> length (after_cursor c es)"
  obtains s where "last_event_sequence (take k (after_cursor c es)) = Some s" "cursor_advances c s"
    "after_cursor (Some s) es = drop k (after_cursor c es)"
    "upto (Some s) es = upto c es @ take k (after_cursor c es)"
proof -
  obtain s where s: "last_event_sequence (take k (after_cursor c es)) = Some s" "cursor_advances c s"
    "after_cursor (Some s) es = drop k (after_cursor c es)"
    using after_cursor_page [OF assms] by blast
  have "upto (Some s) es @ drop k (after_cursor c es) =
      (upto c es @ take k (after_cursor c es)) @ drop k (after_cursor c es)"
    using upto_after [OF assms(1), of c] upto_after [OF assms(1), of "Some s"] s(3) by simp
  then have "upto (Some s) es = upto c es @ take k (after_cursor c es)" by (simp only: append_same_eq)
  with s that show ?thesis by blast
qed

section \<open>Catching up\<close>

text \<open>
  What a catch-up run asks of the batches it repeats, over a state that does not change the feed:
  a successful batch has consumed the page after its cursor, and reports it.
\<close>

locale batch_runner =
  fixes run_batch :: "projection_batch_config \<Rightarrow> ('s, 'err + projection_batch_outcome) op"
    and ready :: "'s \<Rightarrow> bool"
    and feed_of :: "'s \<Rightarrow> ('e, 'id) event_stream"
    and cursor :: "'s \<Rightarrow> nat option"
    and config :: projection_batch_config
  assumes ready_feed: "ready s \<Longrightarrow> feed_sorted (feed_of s) \<and> 0 < bc_batch_size config"
    and batch_keeps: "ready s \<Longrightarrow> run_batch config s = (r, s') \<Longrightarrow>
      ready s' \<and> feed_of s' = feed_of s"
    and batch_done: "ready s \<Longrightarrow> run_batch config s = (Inr out, s') \<Longrightarrow>
      out = mk_batch_outcome (length (take (bc_batch_size config) (after_cursor (cursor s) (feed_of s))))
        (last_event_sequence (take (bc_batch_size config) (after_cursor (cursor s) (feed_of s)))) config \<and>
      cursor s' = (case last_event_sequence
          (take (bc_batch_size config) (after_cursor (cursor s) (feed_of s))) of
        None \<Rightarrow> cursor s | Some q \<Rightarrow> Some q)"
begin

lemma last_batch:
  assumes "ready s" and "run_batch config s = (Inr out, s')"
    and "position = None \<or> position = cursor s"
    and "length (after_cursor (cursor s) (feed_of s)) < bc_batch_size config"
  shows "bo_applied out = length (after_cursor (cursor s) (feed_of s)) \<and>
    batch_advanced out position = (False, position) \<and> after_cursor (cursor s') (feed_of s) = []"
proof -
  let ?rest = "after_cursor (cursor s) (feed_of s)"
  have page: "take (bc_batch_size config) ?rest = ?rest" using assms(4) by simp
  have sorted: "feed_sorted (feed_of s)" using ready_feed [OF assms(1)] by blast
  have out: "out = mk_batch_outcome (length ?rest) (last_event_sequence ?rest) config"
    and cursor: "cursor s' = (case last_event_sequence ?rest of None \<Rightarrow> cursor s | Some q \<Rightarrow> Some q)"
    using batch_done [OF assms(1,2)] unfolding page by blast+
  have "after_cursor (cursor s') (feed_of s) = []"
  proof (cases "?rest = []")
    case True
    then show ?thesis using cursor by simp
  next
    case False
    then have "0 < length ?rest" "length ?rest \<le> length ?rest" by simp_all
    from upto_page [OF sorted this] obtain q where
      "last_event_sequence ?rest = Some q" "after_cursor (Some q) (feed_of s) = []" by auto
    then show ?thesis using cursor by simp
  qed
  then show ?thesis
    using out assms(4) by (simp add: mk_batch_outcome_def batch_advanced_def)
qed

lemma full_batch:
  assumes "ready s" and "run_batch config s = (Inr out, s')"
    and "position = None \<or> position = cursor s"
    and "bc_batch_size config \<le> length (after_cursor (cursor s) (feed_of s))"
  obtains q where "bo_applied out = bc_batch_size config"
    and "batch_advanced out position = (True, Some q)" and "cursor s' = Some q"
    and "after_cursor (Some q) (feed_of s) =
      drop (bc_batch_size config) (after_cursor (cursor s) (feed_of s))"
proof -
  let ?page = "take (bc_batch_size config) (after_cursor (cursor s) (feed_of s))"
  have sorted: "feed_sorted (feed_of s)" "0 < bc_batch_size config"
    using ready_feed [OF assms(1)] by blast+
  from upto_page [OF sorted assms(4)] obtain q where
    q: "last_event_sequence ?page = Some q" "cursor_advances (cursor s) q"
      "after_cursor (Some q) (feed_of s) =
        drop (bc_batch_size config) (after_cursor (cursor s) (feed_of s))"
    by blast
  have out: "out = mk_batch_outcome (length ?page) (Some q) config" "cursor s' = Some q"
    using batch_done [OF assms(1,2)] q(1) by simp_all
  moreover have "length ?page = bc_batch_size config" using assms(4) by simp
  moreover have "batch_advanced out position = (True, Some q)"
    using out(1) q(2) assms(3) \<open>length ?page = bc_batch_size config\<close>
    by (auto simp: batch_advanced_def mk_batch_outcome_def cursor_advances_def split: option.splits)
  ultimately show ?thesis using that q(3) by (simp add: mk_batch_outcome_def)
qed

text \<open>A catch-up run returns; if it succeeds, everything after the cursor has been consumed.\<close>

lemma catch_up:
  "ready s \<Longrightarrow> position = None \<or> position = cursor s \<Longrightarrow>
    \<exists>r s'. catch_up_loop run_batch config applied position s = Some (r, s') \<and>
      ready s' \<and> feed_of s' = feed_of s \<and>
      (\<forall>m. r = Inr m \<longrightarrow> m = applied + length (after_cursor (cursor s) (feed_of s)) \<and>
         after_cursor (cursor s') (feed_of s) = [])"
proof (induction "length (after_cursor (cursor s) (feed_of s))" arbitrary: s position applied
    rule: less_induct)
  case less
  let ?n = "bc_batch_size config" and ?rest = "after_cursor (cursor s) (feed_of s)"
  obtain r s1 where run: "run_batch config s = (r, s1)" by (meson surj_pair)
  note keeps = batch_keeps [OF less.prems(1) run]
  show ?case
  proof (cases r)
    case (Inl e)
    then show ?thesis using keeps by (subst catch_up_loop.simps) (simp add: run)
  next
    case (Inr out)
    note run = run [unfolded Inr]
    show ?thesis
    proof (cases "length ?rest < ?n")
      case True
      show ?thesis
        using last_batch [OF less.prems(1) run less.prems(2) True] keeps
        by (subst catch_up_loop.simps) (simp add: run)
    next
      case False
      then have "?n \<le> length ?rest" by simp
      from full_batch [OF less.prems(1) run less.prems(2) this] obtain q where
        q: "bo_applied out = ?n" "batch_advanced out position = (True, Some q)" "cursor s1 = Some q"
          "after_cursor (Some q) (feed_of s) = drop ?n ?rest" .
      have "0 < ?n" using ready_feed [OF less.prems(1)] by blast
      then have "length (after_cursor (cursor s1) (feed_of s1)) < length ?rest"
        using q(3,4) keeps \<open>?n \<le> length ?rest\<close> by simp
      from less.hyps [OF this, of "Some q" "applied + ?n"] show ?thesis
        using keeps q \<open>?n \<le> length ?rest\<close> by (subst catch_up_loop.simps) (simp add: run)
    qed
  qed
qed

end

section \<open>The in-memory runner\<close>

text \<open>A projection whose failing \<open>apply\<close> changes nothing, with the default \<open>flush\<close>.\<close>

definition atomic_projection :: "('p, 'e, 'id, 'pe) projection \<Rightarrow> bool" where
  "atomic_projection P \<longleftrightarrow> pj_flush P = default_flush \<and>
     (\<forall>e p x p'. pj_apply P e p = (Inl x, p') \<longrightarrow> p' = p)"

definition runner_ok where
  "runner_ok P p0 es r \<longleftrightarrow> consumed P p0 (upto (ir_checkpoint r) es) = Some (ir_projection r)"

context event_feed
begin

lemma in_memory_batch:
  assumes w: "finv w" "bc_batch_size config = n" "0 < n" "n \<le> max_limit w"
    and atomic: "atomic_projection P" and ok: "runner_ok P p0 (feed w) r"
    and run: "in_memory_run_batch P load config (r, w) = (res, r', w')"
  defines "page \<equiv> take n (after_cursor (ir_checkpoint r) (feed w))"
  shows "w' = w \<and> runner_ok P p0 (feed w) r' \<and>
    (case res of
       Inl e \<Rightarrow> \<exists>pe. e = PProjection pe
     | Inr out \<Rightarrow> out = mk_batch_outcome (length page) (last_event_sequence page) config \<and>
         ir_checkpoint r' = (case last_event_sequence page of None \<Rightarrow> ir_checkpoint r | Some q \<Rightarrow> Some q))"
proof -
  let ?c = "ir_checkpoint r"
  have sorted: "feed_sorted (feed w)" "feed_sorted page"
    using feed_sorted [OF w(1)] by (auto simp: page_def feed_sorted_after feed_sorted_take)
  have load: "load ?c n w = (Inr page, w)" unfolding page_def by (rule load_page [OF w(1,4)])
  obtain k pk failure p' where ap:
    "apply_projection_events P page (ir_projection r) =
       ((k, find_last_sequence (rev (take k page)), failure), p')"
    "applied_prefix P page (ir_projection r) k pk failure p'"
    by (rule apply_projection_events_prefix)
  have last: "find_last_sequence (rev (take k page)) = last_event_sequence (take k page)"
    by (rule find_last_sequence_sorted) (rule feed_sorted_take [OF sorted(2)])
  have p': "p' = pk" and k: "k \<le> length page" "consumed P (ir_projection r) (take k page) = Some pk"
    using ap(2) atomic by (auto simp: applied_prefix_def atomic_projection_def split: option.splits)
  have take: "take k page = take k (after_cursor ?c (feed w))" "k \<le> length (after_cursor ?c (feed w))"
    using k(1) by (auto simp: page_def)
  obtain q where q: "last_event_sequence (take k page) = (if k = 0 then None else Some q)"
    "k \<noteq> 0 \<Longrightarrow> upto (Some q) (feed w) = upto ?c (feed w) @ take k page"
  proof (cases "k = 0")
    case True
    then show ?thesis using that by (simp add: last_event_sequence_def)
  next
    case False
    then show ?thesis using that upto_page [OF sorted(1), of k ?c] take by auto
  qed
  define c' where "c' = (if k = 0 then ?c else Some q)"
  have flush: "pj_flush P = default_flush" using atomic by (simp add: atomic_projection_def)
  have "(res, r', w') =
     ((case failure of Some e \<Rightarrow> Err (PProjection e)
       | None \<Rightarrow> Ok (mk_batch_outcome k (last_event_sequence (take k page)) config)),
      r\<lparr>ir_projection := pk, ir_checkpoint := c'\<rparr>, w)"
    unfolding run [symmetric]
    by (cases "k = 0"; cases failure)
      (simp_all add: in_memory_run_batch_def load w(2) ap(1) last q(1) p' flush c'_def
        finish_in_memory_projection_batch_def default_flush_def)
  then have r': "r' = r\<lparr>ir_projection := pk, ir_checkpoint := c'\<rparr>" "w' = w"
    "res = (case failure of Some e \<Rightarrow> Err (PProjection e)
      | None \<Rightarrow> Ok (mk_batch_outcome k (last_event_sequence (take k page)) config))"
    by simp_all
  have "consumed P p0 (upto c' (feed w)) = Some pk"
    using ok k(2) q(2) by (cases "k = 0") (simp_all add: c'_def runner_ok_def consumed_append)
  moreover have "failure = None \<Longrightarrow> k = length page"
    using ap(2) by (simp add: applied_prefix_def)
  ultimately show ?thesis
    using r' q(1) by (cases failure) (auto simp: runner_ok_def c'_def)
qed

end

end
