(* ===== verification/Projection_World.thy ===== *)
theory Projection_World
  imports Projection_Facts Memory_Store Timing
begin

text \<open>
  Projections of the in-memory event store with checkpoints in SQLite: the contract a persisted
  runner asks of the two stores together, its interpretation on that world, and the properties of
  the runners there.
\<close>

section \<open>Events and checkpoints together\<close>

locale persisted_feed = event_feed load finv feed max_limit + checkpoint_contract C position
  for load :: "nat option \<Rightarrow> nat \<Rightarrow> ('w, 'se + ('e, 'id) event_stream) op"
    and finv :: "'w \<Rightarrow> bool" and feed :: "'w \<Rightarrow> ('e, 'id) event_stream"
    and max_limit :: "'w \<Rightarrow> nat"
    and C :: "('w, 'ce) checkpoint_store" and position :: "'w \<Rightarrow> string \<Rightarrow> nat option" +
  assumes load_checkpoint_feed: "finv w \<Longrightarrow> cs_load_checkpoint C key w = (r, w') \<Longrightarrow>
      finv w' \<and> feed w' = feed w \<and> max_limit w' = max_limit w"
    and save_checkpoint_feed: "finv w \<Longrightarrow> cs_save_checkpoint C key s w = (r', w') \<Longrightarrow>
      finv w' \<and> feed w' = feed w \<and> max_limit w' = max_limit w"
begin

text \<open>
  What a persisted batch does: \<open>k\<close> events of the page were applied and its checkpoint stands
  behind them (or, when nothing was saved, stands still).
\<close>

definition persisted_effect where
  "persisted_effect P key n p w res w' \<longleftrightarrow> finv w' \<and> feed w' = feed w \<and> max_limit w' = max_limit w \<and>
     (let rest = after_cursor (position w key) (feed w) in
        (\<exists>k pk. k \<le> length rest \<and> k \<le> n \<and> consumed P p (take k rest) = Some pk \<and>
          after_cursor (position w' key) (feed w) = drop k rest) \<and>
        (\<forall>out. res = Inr out \<longrightarrow>
          out = mk_batch_outcome (length (take n rest)) (last_event_sequence (take n rest)) \<lparr>bc_batch_size = n\<rparr> \<and>
          position w' key = (case last_event_sequence (take n rest) of
            None \<Rightarrow> position w key | Some q \<Rightarrow> Some q)))"

lemma persist_checkpoint:
  assumes "finv w" and "persist_projection_checkpoint P C key moved (p, w) = (flushed, p', w')"
  shows "finv w' \<and> feed w' = feed w \<and> max_limit w' = max_limit w \<and>
    (position w' key = position w key \<or>
     (\<exists>q. moved = Some q \<and> position w' key = raise_checkpoint q (position w key))) \<and>
    (\<forall>u. flushed = Inr u \<longrightarrow> position w' key =
       (case moved of None \<Rightarrow> position w key | Some q \<Rightarrow> raise_checkpoint q (position w key)))"
proof (cases moved)
  case None
  then show ?thesis using assms by (auto simp: persist_projection_checkpoint_def)
next
  case (Some q)
  obtain r1 p1 where flush: "pj_flush P p = (r1, p1)" by (meson surj_pair)
  obtain r2 w2 where save: "cs_save_checkpoint C key q w = (r2, w2)" by (meson surj_pair)
  note frame = save_checkpoint_feed [OF assms(1) save]
  show ?thesis
  proof (cases r1)
    case (Inl e)
    then show ?thesis using assms Some flush by (auto simp: persist_projection_checkpoint_def)
  next
    case (Inr u)
    then show ?thesis
      using assms(2) Some flush save frame save_position [of key q w _ w2] save_failed [of key q w _ w2]
      by (cases r2) (auto simp: persist_projection_checkpoint_def)
  qed
qed

lemma persisted_batch:
  fixes P :: "('p, 'e, 'id, 'pe) projection"
  assumes w: "finv w" "0 < n" "n \<le> max_limit w"
    and run: "persisted_run_batch P C keying at load \<lparr>bc_batch_size = n\<rparr> (p, w) = (res, p', w')"
  shows "persisted_effect P (checkpoint_key keying (pj_name P) at) n p w res w'"
proof -
  let ?key = "checkpoint_key keying (pj_name P) at"
  obtain r1 w1 where l: "cs_load_checkpoint C ?key w = (r1, w1)" by (meson surj_pair)
  note frame1 = load_checkpoint_feed [OF w(1) l] load_position [OF l]
  show ?thesis
  proof (cases r1)
    case (Inl e)
    then have "res = Inl (PCheckpoint e)" "w' = w1"
      using run l by (auto simp: persisted_run_batch_def Let_def)
    then show ?thesis using frame1
      by (auto simp: persisted_effect_def Let_def intro!: exI [of _ 0])
  next
    case (Inr c)
    let ?rest = "after_cursor (position w ?key) (feed w)"
    let ?page = "take n ?rest"
    have "c = position w ?key" using frame1 Inr by blast
    then have load: "load c n w1 = (Inr ?page, w1)"
      using load_page [of w1 n c] frame1 w(3) by auto
    have sorted: "feed_sorted (feed w)" "feed_sorted ?page"
      using feed_sorted [OF w(1)] by (auto simp: feed_sorted_after feed_sorted_take)
    obtain k pk failure q1 where ap:
      "apply_projection_events P ?page p = ((k, find_last_sequence (rev (take k ?page)), failure), q1)"
      "applied_prefix P ?page p k pk failure q1"
      by (rule apply_projection_events_prefix)
    have last: "find_last_sequence (rev (take k ?page)) = last_event_sequence (take k ?page)"
      by (rule find_last_sequence_sorted) (rule feed_sorted_take [OF sorted(2)])
    have k: "k \<le> length ?rest" "k \<le> n" "take k ?page = take k ?rest"
      "consumed P p (take k ?rest) = Some pk" "failure = None \<Longrightarrow> k = length ?page"
      using ap(2) by (auto simp: applied_prefix_def min_def split: if_splits)
    obtain flushed p2 w2 where
      flush: "persist_projection_checkpoint P C ?key (last_event_sequence (take k ?rest)) (q1, w1) =
        ((flushed :: ('pe, 'se, 'ce) projection_runner_error + unit), p2, w2)"
      by (metis prod.exhaust)
    have res: "res = map_ok (\<lambda>_. mk_batch_outcome k (last_event_sequence (take k ?rest))
          \<lparr>bc_batch_size = n\<rparr>) (finish_projection_batch (map_option PProjection failure) flushed)"
      "w' = w2"
      using run l Inr load ap(1) last k(3) flush
      by (auto simp: persisted_run_batch_def run_persisted_projection_batch_def Let_def)
    have raise: "raise_checkpoint q (position w ?key) = Some q \<and>
        after_cursor (Some q) (feed w) = drop k ?rest"
      if "last_event_sequence (take k ?rest) = Some q" for q
    proof -
      have "0 < k" using that by (cases k) simp_all
      from upto_page [OF sorted(1) this k(1)] obtain s where
        "last_event_sequence (take k ?rest) = Some s" "cursor_advances (position w ?key) s"
        "after_cursor (Some s) (feed w) = drop k ?rest" by blast
      then show ?thesis using that
        by (auto simp: raise_checkpoint_def cursor_advances_def split: option.splits)
    qed
    note persisted = persist_checkpoint [OF _ flush]
    have moved: "position w2 ?key = position w ?key \<or>
        (\<exists>q. last_event_sequence (take k ?rest) = Some q \<and> position w2 ?key = Some q)"
      using persisted frame1 raise by fastforce
    have "\<exists>k pk. k \<le> length ?rest \<and> k \<le> n \<and> consumed P p (take k ?rest) = Some pk \<and>
        after_cursor (position w2 ?key) (feed w) = drop k ?rest"
      using moved
    proof
      assume "position w2 ?key = position w ?key"
      then show ?thesis by (intro exI [of _ 0] exI [of _ p]) simp
    next
      assume "\<exists>q. last_event_sequence (take k ?rest) = Some q \<and> position w2 ?key = Some q"
      then show ?thesis using raise k by (intro exI [of _ k] exI [of _ pk]) auto
    qed
    moreover have "out = mk_batch_outcome (length ?page) (last_event_sequence ?page) \<lparr>bc_batch_size = n\<rparr> \<and>
        position w2 ?key = (case last_event_sequence ?page of
          None \<Rightarrow> position w ?key | Some q \<Rightarrow> Some q)" if "res = Inr out" for out
    proof -
      from that res(1) have f: "failure = None" "flushed = Inr ()"
        by (cases failure; auto simp: result_simps split: sum.splits projection_runner_error.splits)+
      then have "k = length ?page" "take k ?rest = ?page" using k by (auto simp: min_def)
      then show ?thesis
        using that res(1) f persisted frame1 raise by (auto split: option.splits)
    qed
    ultimately show ?thesis
      using persisted frame1 res(2) by (simp add: persisted_effect_def Let_def)
  qed
qed

lemma persisted_batch_runner:
  "batch_runner (persisted_run_batch P C keying at load)
     (\<lambda>(p, w). finv w \<and> 0 < n \<and> n \<le> max_limit w) (\<lambda>(p, w). feed w)
     (\<lambda>(p, w). position w (checkpoint_key keying (pj_name P) at)) \<lparr>bc_batch_size = n\<rparr>"
proof (unfold_locales, goal_cases)
  case (1 s)
  then show ?case using feed_sorted by auto
next
  case (2 s r s')
  then show ?case
    using persisted_batch [of "snd s" n P keying at "fst s" r "fst s'" "snd s'"]
    by (auto simp: persisted_effect_def Let_def split: prod.splits)
next
  case (3 s out s')
  obtain p w p' w' where sp: "s = (p, w)" "s' = (p', w')" by (metis surj_pair)
  show ?case
    using persisted_batch [of w n P keying at p "Inr out" p' w'] 3
    unfolding sp prod.case by (simp add: persisted_effect_def Let_def)
qed

end

section \<open>The world\<close>

record ('e, 'id) feed_world =
  fw_events :: "('e, 'id) memory_state"
  fw_checkpoints :: sqlite_checkpoints

definition feed_world_load ::
  "nat option \<Rightarrow> nat \<Rightarrow> (('e, 'id) feed_world, event_store_error + ('e, 'id) event_stream) op" where
  "feed_world_load c n = lift_op fw_events (\<lambda>s w. w\<lparr>fw_events := s\<rparr>)
     (es_load_global_after_limited (memory_event_store [] (\<lambda>_. (EventId [], 0))) c n)"

definition feed_world_checkpoints ::
  "(('e, 'id) feed_world, event_store_error) checkpoint_store" where
  "feed_world_checkpoints =
     \<lparr>cs_load_checkpoint = \<lambda>k. lift_op fw_checkpoints (\<lambda>s w. w\<lparr>fw_checkpoints := s\<rparr>) (sqlite_load_checkpoint k),
      cs_save_checkpoint = \<lambda>k q. lift_op fw_checkpoints (\<lambda>s w. w\<lparr>fw_checkpoints := s\<rparr>) (sqlite_save_checkpoint k q),
      cs_reset_checkpoint = \<lambda>k. lift_op fw_checkpoints (\<lambda>s w. w\<lparr>fw_checkpoints := s\<rparr>) (sqlite_reset_checkpoint k)\<rparr>"

interpretation feed_world: persisted_feed feed_world_load
  "\<lambda>w. mem_feed_ready (fw_events w)" "\<lambda>w. ms_global (fw_events w)"
  "\<lambda>w. u64_max - length (ms_global (fw_events w))"
  feed_world_checkpoints "\<lambda>w. sqlite_position (fw_checkpoints w)"
proof (unfold_locales, goal_cases)
  case (1 w)
  then show ?case by (rule memory_feed.feed_sorted)
next
  case (2 w n c)
  then show ?case
    using memory_feed.load_page [of "fw_events w" n "[]" "\<lambda>_. (EventId [], 0)" c]
    by (simp add: feed_world_load_def lift_op_def)
next
  case (3 key w r w')
  then show ?case
    using sqlite_checkpoint.load_position
    by (fastforce simp: feed_world_checkpoints_def lift_op_iff sqlite_checkpoint_store_def)
next
  case (4 key s w u w')
  then show ?case
    using sqlite_checkpoint.save_position
    by (fastforce simp: feed_world_checkpoints_def lift_op_iff sqlite_checkpoint_store_def)
next
  case (5 key s w e w')
  then show ?case
    using sqlite_checkpoint.save_failed
    by (fastforce simp: feed_world_checkpoints_def lift_op_iff sqlite_checkpoint_store_def)
next
  case (6 key w u w')
  then show ?case
    using sqlite_checkpoint.reset_position
    by (fastforce simp: feed_world_checkpoints_def lift_op_iff sqlite_checkpoint_store_def)
next
  case (7 key w e w')
  then show ?case
    using sqlite_checkpoint.reset_failed
    by (fastforce simp: feed_world_checkpoints_def lift_op_iff sqlite_checkpoint_store_def)
qed (auto simp: feed_world_checkpoints_def lift_op_iff)

lemma in_memory_batch_runner:
  "batch_runner (in_memory_run_batch P feed_world_load)
     (\<lambda>(r, w). mem_feed_ready (fw_events w) \<and> 0 < bc_batch_size config \<and>
        bc_batch_size config \<le> u64_max - length (ms_global (fw_events w)) \<and>
        atomic_projection P \<and> runner_ok P initial (ms_global (fw_events w)) r)
     (\<lambda>(r, w). ms_global (fw_events w)) (\<lambda>(r, w). ir_checkpoint r) config"
proof (unfold_locales, goal_cases)
  case (1 s)
  then show ?case using memory_feed.feed_sorted by auto
next
  case (2 s res s')
  obtain r w r' w' where sp: "s = (r, w)" "s' = (r', w')" by (metis surj_pair)
  show ?case
    using feed_world.in_memory_batch [OF _ refl _ _ _ _ 2(2) [unfolded sp], where ?p0.0 = initial] 2(1) sp
    by simp
next
  case (3 s out s')
  obtain r w r' w' where sp: "s = (r, w)" "s' = (r', w')" by (metis surj_pair)
  show ?case
    using feed_world.in_memory_batch [OF _ refl _ _ _ _ 3(2) [unfolded sp], where ?p0.0 = initial] 3(1)
    unfolding sp prod.case by simp
qed

interpretation in_memory: batch_runner "in_memory_run_batch P feed_world_load"
  "\<lambda>(r, w). mem_feed_ready (fw_events w) \<and> 0 < bc_batch_size config \<and>
     bc_batch_size config \<le> u64_max - length (ms_global (fw_events w)) \<and>
     atomic_projection P \<and> runner_ok P initial (ms_global (fw_events w)) r"
  "\<lambda>(r, w). ms_global (fw_events w)" "\<lambda>(r, w). ir_checkpoint r" config
  for P :: "('p, 'e, 'id, 'pe) projection" and initial config
  by (rule in_memory_batch_runner)

section \<open>Properties\<close>


lemma feed_world_ready:
  assumes "memory_reachable (fw_events w)" and "\<not> ms_poisoned (fw_events w)"
    and "length (ms_global (fw_events w)) + n \<le> u64_max"
  shows "mem_feed_ready (fw_events w)" and "n \<le> u64_max - length (ms_global (fw_events w))"
  using assms memory_reachable_inv [OF assms(1)] by (simp_all add: mem_feed_ready_def)

text \<open>C25: a persisted projection never skips an event.  Whatever the projection, the SQLite engine
  and the clients' failures do in a batch, the checkpoint afterwards stands behind events that this
  batch applied one after the other, starting right after the old checkpoint: every event is
  either behind the new checkpoint and applied, or still to come (at-least-once delivery).  A batch
  that reports success has moved the checkpoint to the end of its page.\<close>

theorem persisted_batch_never_skips:
  assumes "memory_reachable (fw_events w)" and "\<not> ms_poisoned (fw_events w)"
    and "length (ms_global (fw_events w)) + n \<le> u64_max" and "0 < n"
    and "persisted_run_batch P feed_world_checkpoints keying at feed_world_load
        \<lparr>bc_batch_size = n\<rparr> (p, w) = (res, p', w')"
  defines "position \<equiv> \<lambda>w. sqlite_position (fw_checkpoints w) (checkpoint_key keying (pj_name P) at)"
  defines "rest \<equiv> after_cursor (position w) (ms_global (fw_events w))"
  shows "ms_global (fw_events w') = ms_global (fw_events w) \<and>
    (\<exists>k pk. k \<le> length rest \<and> k \<le> n \<and> consumed P p (take k rest) = Some pk \<and>
       after_cursor (position w') (ms_global (fw_events w)) = drop k rest) \<and>
    (\<forall>out. res = Ok out \<longrightarrow> bo_applied out = length (take n rest) \<and>
       position w' = (case last_event_sequence (take n rest) of
         None \<Rightarrow> position w | Some q \<Rightarrow> Some q))"
proof -
  note ready = feed_world_ready [OF assms(1-3)]
  show ?thesis
    using feed_world.persisted_batch [OF ready(1) assms(4) ready(2) assms(5)]
    unfolding feed_world.persisted_effect_def Let_def position_def rest_def
    by (elim conjE; intro conjI allI impI) (simp_all add: mk_batch_outcome_def)
qed

text \<open>C26: a persisted projection catches up.  A run returns, and if it reports success every
  event after the starting checkpoint was in one of its batches and the checkpoint stands at the
  end of the log.\<close>

theorem persisted_run_catches_up:
  fixes P :: "('p, 'e, 'id, 'pe) projection" and keying :: checkpoint_keying and at :: string
  assumes "memory_reachable (fw_events w)" and "\<not> ms_poisoned (fw_events w)"
    and "length (ms_global (fw_events w)) + DEFAULT_PROJECTION_BATCH_SIZE \<le> u64_max"
  defines "position \<equiv> \<lambda>w. sqlite_position (fw_checkpoints w) (checkpoint_key keying (pj_name P) at)"
  defines "log \<equiv> ms_global (fw_events w)"
  shows "\<exists>res p' w'. persisted_run P feed_world_checkpoints keying at feed_world_load (p, w) =
      Some (res, p', w') \<and> ms_global (fw_events w') = log \<and>
    (\<forall>m. res = Ok m \<longrightarrow> m = length (after_cursor (position w) log) \<and>
       after_cursor (position w') log = [])"
proof -
  note ready = feed_world_ready [OF assms(1-3)]
  have "0 < DEFAULT_PROJECTION_BATCH_SIZE" by (simp add: DEFAULT_PROJECTION_BATCH_SIZE_def)
  then show ?thesis
    using batch_runner.catch_up [OF feed_world.persisted_batch_runner
        [where n = DEFAULT_PROJECTION_BATCH_SIZE and P = P and keying = keying and at = at],
        where s = "(p, w)" and position = None and applied = 0] ready
    by (fastforce simp: persisted_run_def run_projection_catch_up_def batch_config_default_def
        position_def log_def)
qed

text \<open>A read model that counts, and refuses the payload 6.\<close>

definition demo_projection :: "(nat, nat, string, string) projection" where
  "demo_projection = \<lparr>pj_name = ''sum'',
     pj_apply = (\<lambda>e p. if env_payload e = 6 then (Err ''six'', p) else (Ok (), p + env_payload e)),
     pj_flush = default_flush\<rparr>"

definition demo_feed_world :: "(nat, string) feed_world" where
  "demo_feed_world = \<lparr>fw_events = demo_state, fw_checkpoints = \<lparr>sc_rows = Map.empty, sc_faults = []\<rparr>\<rparr>"

lemma demo_feed_world_ready:
  "memory_reachable (fw_events demo_feed_world)" "\<not> ms_poisoned (fw_events demo_feed_world)"
  "n \<le> 1000 \<Longrightarrow> length (ms_global (fw_events demo_feed_world)) + n \<le> u64_max"
  "DEFAULT_PROJECTION_BATCH_SIZE \<le> 1000"
  using demo_state_reachable
  by (simp_all add: demo_feed_world_def demo_defs memory_append_def memory_default_def
      new_event_new_def Let_def u64_max_def DEFAULT_PROJECTION_BATCH_SIZE_def)


theorem persisted_batch_never_skips_witness:
  "\<exists>res p' w'. persisted_run_batch demo_projection feed_world_checkpoints AggregateScoped ''counter''
      feed_world_load \<lparr>bc_batch_size = 2\<rparr> (0, demo_feed_world) =
      ((res :: (string, event_store_error, event_store_error) projection_runner_error + _), p', w') \<and>
     ms_global (fw_events w') = ms_global demo_state"
proof -
  obtain res p' w' where run: "persisted_run_batch demo_projection feed_world_checkpoints AggregateScoped
      ''counter'' feed_world_load \<lparr>bc_batch_size = 2\<rparr> (0, demo_feed_world) =
      ((res :: (string, event_store_error, event_store_error) projection_runner_error + _), p', w')"
    by (metis prod.exhaust)
  show ?thesis
    using persisted_batch_never_skips [OF demo_feed_world_ready(1,2) demo_feed_world_ready(3) _ run] run
    by (auto simp: demo_feed_world_def)
qed

theorem persisted_run_catches_up_witness:
  "\<exists>(res :: (string, event_store_error, event_store_error) projection_runner_error + _) p' w'.
     persisted_run demo_projection feed_world_checkpoints AggregateScoped ''counter''
       feed_world_load (0, demo_feed_world) = Some (res, p', w') \<and>
     ms_global (fw_events w') = ms_global demo_state"
  using persisted_run_catches_up [OF demo_feed_world_ready(1,2) demo_feed_world_ready(3)
      [OF demo_feed_world_ready(4)], where P = demo_projection and keying = AggregateScoped
      and at = "''counter''" and p = 0]
  by (auto simp: demo_feed_world_def)

end
