(* ===== verification/Async_Projection.thy ===== *)
theory Async_Projection
  imports Projection_Facts
begin

text \<open>
  The async projection runners of \<open>src/projection.rs\<close>, which the crate writes separately: the
  catch-up loops and the loops over the events of a batch stay inline.  An \<open>await\<close> is a sequential
  call on the state.  Each runner is translated separately and shown to be the sync one.
\<close>

section \<open>Persisted runners\<close>

text \<open>The loop of \<open>run\<close>: the same statements in each of the three async runners.\<close>

partial_function (option) async_catch_up_loop ::
  "(projection_batch_config \<Rightarrow> ('s, 'err + projection_batch_outcome) op) \<Rightarrow>
   projection_batch_config \<Rightarrow> nat \<Rightarrow> nat option \<Rightarrow> 's \<Rightarrow> (('err + nat) \<times> 's) option" where
  "async_catch_up_loop run_batch config applied position s =
     (case run_batch config s of
        (Inl e, s') \<Rightarrow> Some (Err e, s')
      | (Inr outcome, s') \<Rightarrow>
          let applied = applied + bo_applied outcome;
              (advanced, position) = batch_advanced outcome position
          in if \<not> advanced then Some (Ok applied, s')
             else async_catch_up_loop run_batch config applied position s')"

definition async_run ::
  "(projection_batch_config \<Rightarrow> ('s, 'err + projection_batch_outcome) op) \<Rightarrow> 's \<Rightarrow>
   (('err + nat) \<times> 's) option" where
  "async_run run_batch = async_catch_up_loop run_batch batch_config_default 0 None"

definition persist_projection_checkpoint_async ::
  "('p, 'e, 'id, 'pe) projection \<Rightarrow> ('w, 'ce) checkpoint_store \<Rightarrow> string \<Rightarrow> nat option \<Rightarrow>
   ('p \<times> 'w, ('pe, 'se, 'ce) projection_runner_error + unit) op" where
  "persist_projection_checkpoint_async P C key last_sequence = (\<lambda>(p, w).
     case last_sequence of
       Some sequence \<Rightarrow> (case pj_flush P p of
           (Inl e, p') \<Rightarrow> (Err (PProjection e), p', w)
         | (Inr _, p') \<Rightarrow> (case cs_save_checkpoint C key sequence w of
               (Inl e, w') \<Rightarrow> (Err (PCheckpoint e), p', w')
             | (Inr _, w') \<Rightarrow> (Ok (), p', w')))
     | None \<Rightarrow> (Ok (), p, w))"

definition run_persisted_projection_batch_async ::
  "('p, 'e, 'id, 'pe) projection \<Rightarrow> ('w, 'ce) checkpoint_store \<Rightarrow> string \<Rightarrow> ('e, 'id) event_stream \<Rightarrow>
   projection_batch_config \<Rightarrow>
   ('p \<times> 'w, ('pe, 'se, 'ce) projection_runner_error + projection_batch_outcome) op" where
  "run_persisted_projection_batch_async P C key events config = (\<lambda>(p, w).
     let ((applied, last_sequence, failure), p1) = apply_projection_events P events p;
         (flushed, p2, w2) = persist_projection_checkpoint_async P C key last_sequence (p1, w)
     in case finish_projection_batch (map_option PProjection failure) flushed of
          Inl e \<Rightarrow> (Err e, p2, w2)
        | Inr _ \<Rightarrow> (Ok (mk_batch_outcome applied last_sequence config), p2, w2))"

fun async_checkpoint_key :: "checkpoint_keying \<Rightarrow> string \<Rightarrow> string \<Rightarrow> string" where
  "async_checkpoint_key ProjectionName name scope = name"
| "async_checkpoint_key AggregateScoped name scope = aggregate_scoped_checkpoint_key name scope"

definition async_persisted_run_batch ::
  "('p, 'e, 'id, 'pe) projection \<Rightarrow> ('w, 'ce) checkpoint_store \<Rightarrow> checkpoint_keying \<Rightarrow> string \<Rightarrow>
   (nat option \<Rightarrow> nat \<Rightarrow> ('w, 'se + ('e, 'id) event_stream) op) \<Rightarrow> projection_batch_config \<Rightarrow>
   ('p \<times> 'w, ('pe, 'se, 'ce) projection_runner_error + projection_batch_outcome) op" where
  "async_persisted_run_batch P C keying aggregate_type load config = (\<lambda>(p, w).
     let name = pj_name P; key = async_checkpoint_key keying name aggregate_type
     in case cs_load_checkpoint C key w of
          (Inl e, w1) \<Rightarrow> (Err (PCheckpoint e), p, w1)
        | (Inr checkpoint, w1) \<Rightarrow> (case load checkpoint (bc_batch_size config) w1 of
              (Inl e, w2) \<Rightarrow> (Err (PStore e), p, w2)
            | (Inr events, w2) \<Rightarrow>
                run_persisted_projection_batch_async P C key events config (p, w2)))"

definition async_persisted_run where
  "async_persisted_run P C keying aggregate_type load =
     async_run (async_persisted_run_batch P C keying aggregate_type load)"

definition async_persisted_run_raw_batch where
  "async_persisted_run_raw_batch P C keying load config = (\<lambda>(p, w).
     let name = pj_name P; key = async_checkpoint_key keying name RAW_CHECKPOINT_SCOPE
     in case cs_load_checkpoint C key w of
          (Inl e, w1) \<Rightarrow> (Err (PCheckpoint e), p, w1)
        | (Inr checkpoint, w1) \<Rightarrow> (case load checkpoint (bc_batch_size config) w1 of
              (Inl e, w2) \<Rightarrow> (Err (PStore e), p, w2)
            | (Inr events, w2) \<Rightarrow>
                run_persisted_projection_batch_async P C key events config (p, w2)))"

section \<open>Projections that own their checkpoint\<close>

text \<open>The inline loop over the events of a batch; an error leaves it with \<open>?\<close>.\<close>

fun async_owned_loop ::
  "(('e, 'id) event_envelope \<Rightarrow> ('p, 'pe + unit) op) \<Rightarrow> ('e, 'id) event_stream \<Rightarrow> nat \<Rightarrow> nat option \<Rightarrow>
   ('p, 'pe + nat \<times> nat option) op" where
  "async_owned_loop apply_one [] applied last_sequence p = (Ok (applied, last_sequence), p)"
| "async_owned_loop apply_one (event # events) applied last_sequence p =
     (case apply_one event p of
        (Inl e, p') \<Rightarrow> (Err e, p')
      | (Inr _, p') \<Rightarrow> async_owned_loop apply_one events (applied + 1)
          (case env_sequence event of Some sequence \<Rightarrow> Some sequence | None \<Rightarrow> last_sequence) p')"

definition async_checkpointed_run_batch ::
  "('p, 'e, 'id, 'pe) checkpointed_projection \<Rightarrow>
   (nat option \<Rightarrow> nat \<Rightarrow> ('w, 'se + ('e, 'id) event_stream) op) \<Rightarrow> projection_batch_config \<Rightarrow>
   ('p \<times> 'w, ('pe, 'se, 'pe) projection_runner_error + projection_batch_outcome) op" where
  "async_checkpointed_run_batch P load config = (\<lambda>(p, w).
     case cp_load_checkpoint P p of
       (Inl e, p1) \<Rightarrow> (Err (PCheckpoint e), p1, w)
     | (Inr checkpoint, p1) \<Rightarrow> (case load checkpoint (bc_batch_size config) w of
           (Inl e, w1) \<Rightarrow> (Err (PStore e), p1, w1)
         | (Inr events, w1) \<Rightarrow>
             (case async_owned_loop (cp_apply_and_checkpoint P) events 0 None p1 of
                (Inl e, p2) \<Rightarrow> (Err (PProjection e), p2, w1)
              | (Inr (applied, last_sequence), p2) \<Rightarrow>
                  (Ok (mk_batch_outcome applied last_sequence config), p2, w1))))"

definition async_checkpointed_run where
  "async_checkpointed_run P load = async_run (async_checkpointed_run_batch P load)"

definition async_transactional_run_batch ::
  "('p, 'e, 'id, 'pe) checkpointed_projection \<Rightarrow>
   (nat option \<Rightarrow> nat \<Rightarrow> ('w, 'se + ('e, 'id) event_stream) op) \<Rightarrow> projection_batch_config \<Rightarrow>
   ('p \<times> 'w, ('pe, 'se, 'pe) projection_runner_error + projection_batch_outcome) op" where
  "async_transactional_run_batch P load config = (\<lambda>(p, w).
     case cp_load_checkpoint P p of
       (Inl e, p1) \<Rightarrow> (Err (PCheckpoint e), p1, w)
     | (Inr checkpoint, p1) \<Rightarrow> (case load checkpoint (bc_batch_size config) w of
           (Inl e, w1) \<Rightarrow> (Err (PStore e), p1, w1)
         | (Inr events, w1) \<Rightarrow>
             (case async_owned_loop (cp_apply_and_checkpoint P) events 0 None p1 of
                (Inl e, p2) \<Rightarrow> (Err (PProjection e), p2, w1)
              | (Inr (applied, last_sequence), p2) \<Rightarrow>
                  (Ok (mk_batch_outcome applied last_sequence config), p2, w1))))"

definition async_transactional_run where
  "async_transactional_run P load = async_run (async_transactional_run_batch P load)"

section \<open>The async code is the sync code\<close>

lemma async_catch_up_loop_Some:
  assumes "async_catch_up_loop B config a q s = Some r"
  shows "catch_up_loop B config a q s = Some r"
proof (rule async_catch_up_loop.raw_induct [OF _ assms], goal_cases)
  case (1 loop B config a q s r)
  then show ?case
    by (cases r; subst catch_up_loop.simps)
      (auto simp: Let_def split: prod.splits sum.splits if_splits)
qed

lemma catch_up_loop_Some:
  assumes "catch_up_loop B config a q s = Some r"
  shows "async_catch_up_loop B config a q s = Some r"
proof (rule catch_up_loop.raw_induct [OF _ assms], goal_cases)
  case (1 loop B config a q s r)
  then show ?case
    by (cases r; subst async_catch_up_loop.simps)
      (auto simp: Let_def split: prod.splits sum.splits if_splits)
qed

lemma async_run_eq: "async_run B = run_projection_catch_up B"
proof
  show "async_run B s = run_projection_catch_up B s" for s
    unfolding async_run_def run_projection_catch_up_def
    by (metis async_catch_up_loop_Some catch_up_loop_Some not_None_eq)
qed

lemma async_checkpoint_key_eq [simp]: "async_checkpoint_key keying name scope = checkpoint_key keying name scope"
  by (cases keying) simp_all

lemma persist_projection_checkpoint_async_eq:
  "persist_projection_checkpoint_async = persist_projection_checkpoint"
  by (auto simp: persist_projection_checkpoint_async_def persist_projection_checkpoint_def
      fun_eq_iff split: option.splits)

lemma run_persisted_projection_batch_async_eq:
  "run_persisted_projection_batch_async = run_persisted_projection_batch"
  unfolding run_persisted_projection_batch_async_def run_persisted_projection_batch_def
    persist_projection_checkpoint_async_eq
  by (auto simp: fun_eq_iff Let_def split: prod.splits sum.splits)

lemma async_owned_loop_eq:
  "async_owned_loop (cp_apply_and_checkpoint P) events a q p =
   (case apply_batch_and_checkpoint P events p of
      (Inl e, p') \<Rightarrow> (Err e, p')
    | (Inr _, p') \<Rightarrow> (Ok (a + length events,
        case find_last_sequence (rev events) of None \<Rightarrow> q | Some s \<Rightarrow> Some s), p'))"
  by (induction "cp_apply_and_checkpoint P" events a q p rule: async_owned_loop.induct)
    (auto simp: try_op_def find_last_sequence_append split: prod.splits sum.splits option.splits)

lemma transactional_batch_eq:
  "apply_batch_and_checkpoint_transactionally P = apply_batch_and_checkpoint P"
proof (intro ext)
  show "apply_batch_and_checkpoint_transactionally P events p = apply_batch_and_checkpoint P events p"
    for events p
    by (induction P events p rule: apply_batch_and_checkpoint.induct)
      (auto simp: try_op_def split: prod.splits sum.splits)
qed

lemma async_checkpointed_run_batch_eq:
  "async_checkpointed_run_batch P load config = checkpointed_run_batch P load config"
proof -
  have same: "(case x of None \<Rightarrow> None | Some s \<Rightarrow> Some s) = x" for x :: "nat option"
    by (cases x) auto
  show ?thesis
    by (auto simp: async_checkpointed_run_batch_def checkpointed_run_batch_def same
        run_owned_checkpoint_projection_batch_def async_owned_loop_eq projection_batch_stats_def
        fun_eq_iff split: prod.splits sum.splits)
qed

lemma async_transactional_run_batch_eq:
  "async_transactional_run_batch P load config = transactional_run_batch P load config"
  using async_checkpointed_run_batch_eq [of P load config]
  by (simp add: async_transactional_run_batch_def async_checkpointed_run_batch_def
      transactional_run_batch_def checkpointed_run_batch_def transactional_batch_eq)


end
