(* ===== verification/Process_Manager.thy ===== *)
theory Process_Manager
  imports Idempotency Event_Model
begin

text \<open>
  Process managers of \<open>src/process_manager.rs\<close> and the command buses of \<open>src/command.rs\<close> and
  \<open>src/async_api.rs\<close>.  A manager, a command bus and a dispatch checkpoint are application code:
  records of their functions on their own states \<open>'m\<close>, \<open>'b\<close> and \<open>'k\<close>, arguments of the
  runners.  A boxed checkpoint error is its message.
\<close>

section \<open>Managers, buses and checkpoints\<close>

record ('m, 'e, 'c, 'pe) process_manager =
  pm_name :: string
  pm_handle :: "'e \<Rightarrow> ('m, 'pe + 'c list) op"

definition default_handle_envelope ::
  "('m, 'e, 'c, 'pe) process_manager \<Rightarrow> ('e, 'id) event_envelope \<Rightarrow> ('m, 'pe + 'c list) op" where
  "default_handle_envelope P envelope = pm_handle P (env_payload envelope)"

record ('b, 'c, 'o, 'be) command_bus =
  cb_dispatch :: "'c \<Rightarrow> ('b, 'be + 'o) op"
  cb_dispatch_idempotent :: "idempotency_key \<Rightarrow> 'c \<Rightarrow> ('b, 'be + 'o) op"

text \<open>The default of \<open>IdempotentCommandBus\<close>, and the blanket \<open>AsyncIdempotentCommandBus\<close>.\<close>

definition default_dispatch_idempotent ::
  "('c \<Rightarrow> ('b, 'be + 'o) op) \<Rightarrow> idempotency_key \<Rightarrow> 'c \<Rightarrow> ('b, 'be + 'o) op" where
  "default_dispatch_idempotent dispatch idempotency_key command = dispatch command"

definition async_dispatch_idempotent ::
  "('c \<Rightarrow> ('b, 'be + 'o) op) \<Rightarrow> idempotency_key \<Rightarrow> 'c \<Rightarrow> ('b, 'be + 'o) op" where
  "async_dispatch_idempotent dispatch idempotency_key command = dispatch command"

record 'k dispatch_checkpoint =
  dc_load_dispatch_index :: "string \<Rightarrow> string \<Rightarrow> ('k, string + nat) op"
  dc_save_dispatch_index :: "string \<Rightarrow> string \<Rightarrow> nat \<Rightarrow> ('k, string + unit) op"
  dc_clear_dispatch_index :: "string \<Rightarrow> string \<Rightarrow> ('k, string + unit) op"

definition default_clear_dispatch_index :: "string \<Rightarrow> string \<Rightarrow> ('k, string + unit) op" where
  "default_clear_dispatch_index manager_name event_id = return_op (Ok ())"

definition unit_checkpoint :: "unit dispatch_checkpoint" where
  "unit_checkpoint = \<lparr>dc_load_dispatch_index = \<lambda>_ _. return_op (Ok 0),
     dc_save_dispatch_index = \<lambda>_ _ _. return_op (Ok ()),
     dc_clear_dispatch_index = default_clear_dispatch_index\<rparr>"

definition process_manager_command_idempotency_key :: "string \<Rightarrow> string \<Rightarrow> nat \<Rightarrow> idempotency_key" where
  "process_manager_command_idempotency_key manager_name event_id index =
     IdempotencyKey (manager_name @ '':'' @ event_id @ '':'' @ show_nat index)"

datatype ('pe, 'be) process_manager_runner_error =
    PMProcessManager 'pe
  | PMCommandBus 'be
  | PMCheckpoint nat string  \<comment> \<open>index, message\<close>

fun display_process_manager_runner_error ::
  "('pe \<Rightarrow> string) \<Rightarrow> ('be \<Rightarrow> string) \<Rightarrow> ('pe, 'be) process_manager_runner_error \<Rightarrow> string" where
  "display_process_manager_runner_error dp db (PMProcessManager error) = dp error"
| "display_process_manager_runner_error dp db (PMCommandBus error) = db error"
| "display_process_manager_runner_error dp db (PMCheckpoint index message) =
     ''checkpoint save failed after command '' @ show_nat index @ '': '' @ message"

record ('o, 'err) run_result =
  rr_dispatched :: "'o list"
  rr_failed_index :: "nat option"
  rr_error :: "'err option"

section \<open>Runners\<close>

fun dispatch_all :: "('c \<Rightarrow> ('b, 'be + 'o) op) \<Rightarrow> 'c list \<Rightarrow> 'o list \<Rightarrow>
   ('b, ('pe, 'be) process_manager_runner_error + 'o list) op" where
  "dispatch_all dispatch [] outputs b = (Ok outputs, b)"
| "dispatch_all dispatch (command # commands) outputs b = (case dispatch command b of
      (Inl error, b') \<Rightarrow> (Err (PMCommandBus error), b')
    | (Inr output, b') \<Rightarrow> dispatch_all dispatch commands (outputs @ [output]) b')"

definition process_manager_run ::
  "('m, 'e, 'c, 'pe) process_manager \<Rightarrow> ('b, 'c, 'o, 'be) command_bus \<Rightarrow> 'e \<Rightarrow>
   ('m \<times> 'b, ('pe, 'be) process_manager_runner_error + 'o list) op" where
  "process_manager_run P B event = (\<lambda>(m, b).
     case pm_handle P event m of
       (Inl error, m') \<Rightarrow> (Err (PMProcessManager error), m', b)
     | (Inr commands, m') \<Rightarrow>
         let (r, b') = dispatch_all (cb_dispatch B) commands [] b in (r, m', b'))"

text \<open>
  The dispatch loop of \<open>run_envelope_with_checkpoint\<close> over the numbered commands still to send;
  \<open>Inl\<close> is an early return.
\<close>

fun dispatch_loop ::
  "('b, 'c, 'o, 'be) command_bus \<Rightarrow> 'k dispatch_checkpoint \<Rightarrow> string \<Rightarrow> string \<Rightarrow>
   (nat \<times> 'c) list \<Rightarrow> 'o list \<Rightarrow>
   ('b \<times> 'k, ('o, ('pe, 'be) process_manager_runner_error) run_result + 'o list) op" where
  "dispatch_loop B C manager_name event_id [] dispatched (b, k) = (Inr dispatched, b, k)"
| "dispatch_loop B C manager_name event_id ((index, command) # rest) dispatched (b, k) =
     (let idempotency_key = process_manager_command_idempotency_key manager_name event_id index
      in case cb_dispatch_idempotent B idempotency_key command b of
           (Inr output, b') \<Rightarrow>
             (case dc_save_dispatch_index C manager_name event_id (index + 1) k of
                (Inl message, k') \<Rightarrow>
                  (Inl \<lparr>rr_dispatched = dispatched @ [output], rr_failed_index = None,
                        rr_error = Some (PMCheckpoint index message)\<rparr>, b', k')
              | (Inr _, k') \<Rightarrow>
                  dispatch_loop B C manager_name event_id rest (dispatched @ [output]) (b', k'))
         | (Inl error, b') \<Rightarrow>
             (Inl \<lparr>rr_dispatched = dispatched, rr_failed_index = Some index,
                   rr_error = Some (PMCommandBus error)\<rparr>, b', k))"

definition run_envelope_with_checkpoint ::
  "('m, 'e, 'c, 'pe) process_manager \<Rightarrow> ('b, 'c, 'o, 'be) command_bus \<Rightarrow> ('e, 'id) event_envelope \<Rightarrow>
   'k dispatch_checkpoint \<Rightarrow>
   ('m \<times> 'b \<times> 'k, ('o, ('pe, 'be) process_manager_runner_error) run_result) op" where
  "run_envelope_with_checkpoint P B envelope C = (\<lambda>(m, b, k).
     let event_id = event_id_as_str (env_event_id envelope);
         manager_name = pm_name P;
         (loaded, k1) = dc_load_dispatch_index C manager_name event_id k;
         start_index = (case loaded of Inl _ \<Rightarrow> 0 | Inr i \<Rightarrow> i)
     in case default_handle_envelope P envelope m of
          (Inl error, m1) \<Rightarrow> (\<lparr>rr_dispatched = [], rr_failed_index = None,
              rr_error = Some (PMProcessManager error)\<rparr>, m1, b, k1)
        | (Inr commands, m1) \<Rightarrow>
            (case dispatch_loop B C manager_name event_id
                (drop start_index (enumerate 0 commands)) [] (b, k1) of
               (Inl result, b2, k2) \<Rightarrow> (result, m1, b2, k2)
             | (Inr dispatched, b2, k2) \<Rightarrow>
                 (case dc_clear_dispatch_index C manager_name event_id k2 of
                    (Inl message, k3) \<Rightarrow> (\<lparr>rr_dispatched = dispatched, rr_failed_index = None,
                      rr_error = Some (PMCheckpoint (start_index - 1) message)\<rparr>, m1, b2, k3)
                  | (Inr _, k3) \<Rightarrow> (\<lparr>rr_dispatched = dispatched, rr_failed_index = None,
                      rr_error = None\<rparr>, m1, b2, k3))))"

definition run_envelope_strict ::
  "('m, 'e, 'c, 'pe) process_manager \<Rightarrow> ('b, 'c, 'o, 'be) command_bus \<Rightarrow> ('e, 'id) event_envelope \<Rightarrow>
   'k dispatch_checkpoint \<Rightarrow>
   ('m \<times> 'b \<times> 'k, ('pe, 'be) process_manager_runner_error + 'o list) op" where
  "run_envelope_strict P B envelope C s =
     (let (result, s') = run_envelope_with_checkpoint P B envelope C s
      in case rr_error result of
           None \<Rightarrow> (Ok (rr_dispatched result), s')
         | Some error \<Rightarrow> (Err error, s'))"

section \<open>The async runner\<close>

fun async_dispatch_all :: "('c \<Rightarrow> ('b, 'be + 'o) op) \<Rightarrow> 'c list \<Rightarrow> 'o list \<Rightarrow>
   ('b, ('pe, 'be) process_manager_runner_error + 'o list) op" where
  "async_dispatch_all dispatch [] outputs b = (Ok outputs, b)"
| "async_dispatch_all dispatch (command # commands) outputs b = (case dispatch command b of
      (Inl error, b') \<Rightarrow> (Err (PMCommandBus error), b')
    | (Inr output, b') \<Rightarrow> async_dispatch_all dispatch commands (outputs @ [output]) b')"

definition async_process_manager_run ::
  "('m, 'e, 'c, 'pe) process_manager \<Rightarrow> ('c \<Rightarrow> ('b, 'be + 'o) op) \<Rightarrow> 'e \<Rightarrow>
   ('m \<times> 'b, ('pe, 'be) process_manager_runner_error + 'o list) op" where
  "async_process_manager_run P dispatch event = (\<lambda>(m, b).
     case pm_handle P event m of
       (Inl error, m') \<Rightarrow> (Err (PMProcessManager error), m', b)
     | (Inr commands, m') \<Rightarrow>
         let (r, b') = async_dispatch_all dispatch commands [] b in (r, m', b'))"

fun async_dispatch_loop ::
  "('c \<Rightarrow> ('b, 'be + 'o) op) \<Rightarrow> 'k dispatch_checkpoint \<Rightarrow> string \<Rightarrow> string \<Rightarrow>
   (nat \<times> 'c) list \<Rightarrow> 'o list \<Rightarrow>
   ('b \<times> 'k, ('o, ('pe, 'be) process_manager_runner_error) run_result + 'o list) op" where
  "async_dispatch_loop dispatch C manager_name event_id [] dispatched (b, k) = (Inr dispatched, b, k)"
| "async_dispatch_loop dispatch C manager_name event_id ((index, command) # rest) dispatched (b, k) =
     (let idempotency_key = process_manager_command_idempotency_key manager_name event_id index
      in case async_dispatch_idempotent dispatch idempotency_key command b of
           (Inr output, b') \<Rightarrow>
             (case dc_save_dispatch_index C manager_name event_id (index + 1) k of
                (Inl message, k') \<Rightarrow>
                  (Inl \<lparr>rr_dispatched = dispatched @ [output], rr_failed_index = None,
                        rr_error = Some (PMCheckpoint index message)\<rparr>, b', k')
              | (Inr _, k') \<Rightarrow>
                  async_dispatch_loop dispatch C manager_name event_id rest (dispatched @ [output]) (b', k'))
         | (Inl error, b') \<Rightarrow>
             (Inl \<lparr>rr_dispatched = dispatched, rr_failed_index = Some index,
                   rr_error = Some (PMCommandBus error)\<rparr>, b', k))"

definition async_run_envelope_with_checkpoint ::
  "('m, 'e, 'c, 'pe) process_manager \<Rightarrow> ('c \<Rightarrow> ('b, 'be + 'o) op) \<Rightarrow> ('e, 'id) event_envelope \<Rightarrow>
   'k dispatch_checkpoint \<Rightarrow>
   ('m \<times> 'b \<times> 'k, ('o, ('pe, 'be) process_manager_runner_error) run_result) op" where
  "async_run_envelope_with_checkpoint P dispatch envelope C = (\<lambda>(m, b, k).
     let event_id = event_id_as_str (env_event_id envelope);
         manager_name = pm_name P;
         (loaded, k1) = dc_load_dispatch_index C manager_name event_id k;
         start_index = (case loaded of Inl _ \<Rightarrow> 0 | Inr i \<Rightarrow> i)
     in case default_handle_envelope P envelope m of
          (Inl error, m1) \<Rightarrow> (\<lparr>rr_dispatched = [], rr_failed_index = None,
              rr_error = Some (PMProcessManager error)\<rparr>, m1, b, k1)
        | (Inr commands, m1) \<Rightarrow>
            (case async_dispatch_loop dispatch C manager_name event_id
                (drop start_index (enumerate 0 commands)) [] (b, k1) of
               (Inl result, b2, k2) \<Rightarrow> (result, m1, b2, k2)
             | (Inr dispatched, b2, k2) \<Rightarrow>
                 (case dc_clear_dispatch_index C manager_name event_id k2 of
                    (Inl message, k3) \<Rightarrow> (\<lparr>rr_dispatched = dispatched, rr_failed_index = None,
                      rr_error = Some (PMCheckpoint (start_index - 1) message)\<rparr>, m1, b2, k3)
                  | (Inr _, k3) \<Rightarrow> (\<lparr>rr_dispatched = dispatched, rr_failed_index = None,
                      rr_error = None\<rparr>, m1, b2, k3))))"

definition async_run_envelope_strict ::
  "('m, 'e, 'c, 'pe) process_manager \<Rightarrow> ('c \<Rightarrow> ('b, 'be + 'o) op) \<Rightarrow> ('e, 'id) event_envelope \<Rightarrow>
   'k dispatch_checkpoint \<Rightarrow>
   ('m \<times> 'b \<times> 'k, ('pe, 'be) process_manager_runner_error + 'o list) op" where
  "async_run_envelope_strict P dispatch envelope C s =
     (let (result, s') = async_run_envelope_with_checkpoint P dispatch envelope C s
      in case rr_error result of
           None \<Rightarrow> (Ok (rr_dispatched result), s')
         | Some error \<Rightarrow> (Err error, s'))"

section \<open>Idempotency keys\<close>

lemma show_nat_no_colon [simp]: "CHR '':'' \<notin> set (show_nat n)"
  using radix_digits [of 10 "CHR '':''" n] by auto

text \<open>The idempotency keys of a process manager identify the command.  Event identifiers hold
  no colon, so two keys are equal only for the same manager, the same event and the same position
  in its command list, whatever the managers are called.\<close>

lemma process_manager_keys_distinct:
  "\<lbrakk>CHR '':'' \<notin> set e1; CHR '':'' \<notin> set e2\<rbrakk> \<Longrightarrow>
   process_manager_command_idempotency_key m1 e1 i1 = process_manager_command_idempotency_key m2 e2 i2 \<longleftrightarrow>
     m1 = m2 \<and> e1 = e2 \<and> i1 = i2"
  using append_sep_inj [of "m1 @ '':'' @ e1" "CHR '':''" "show_nat i1" "m2 @ '':'' @ e2" "show_nat i2"]
    append_sep_inj [of m1 "CHR '':''" e1 m2 e2]
  by (auto simp: process_manager_command_idempotency_key_def)

lemma process_manager_keys_distinct_witness:
  "process_manager_command_idempotency_key ''a:b'' ''c'' 1 \<noteq>
   process_manager_command_idempotency_key ''a'' ''c'' 1"
  using process_manager_keys_distinct [of "''c''" "''c''" "''a:b''" 1 "''a''" 1] by simp

section \<open>Resuming a partly dispatched event\<close>

text \<open>The checkpoint of the crate's tests, a map under a mutex.\<close>

type_synonym memory_checkpoint_state = "string \<times> string \<rightharpoonup> nat"

definition memory_checkpoint :: "memory_checkpoint_state dispatch_checkpoint" where
  "memory_checkpoint =
     \<lparr>dc_load_dispatch_index = \<lambda>m e k. (Ok (case k (m, e) of None \<Rightarrow> 0 | Some i \<Rightarrow> i), k),
      dc_save_dispatch_index = \<lambda>m e i k. (Ok (), k((m, e) \<mapsto> i)),
      dc_clear_dispatch_index = \<lambda>m e k. (Ok (), k((m, e) := None))\<rparr>"

text \<open>The specification: dispatch the commands from a position on, up to the first failure.\<close>

fun dispatch_from ::
  "(idempotency_key \<Rightarrow> 'c \<Rightarrow> ('b, 'be + 'o) op) \<Rightarrow> string \<Rightarrow> string \<Rightarrow> nat \<Rightarrow> 'c list \<Rightarrow>
   ('b, 'o list \<times> 'be option) op" where
  "dispatch_from f m e i [] b = (([], None), b)"
| "dispatch_from f m e i (c # cs) b =
     (case f (process_manager_command_idempotency_key m e i) c b of
        (Inl err, b') \<Rightarrow> (([], Some err), b')
      | (Inr out, b') \<Rightarrow>
          (let ((outs, failure), b'') = dispatch_from f m e (i + 1) cs b' in ((out # outs, failure), b'')))"

lemma dispatch_from_length:
  "dispatch_from f m e i cs b = ((outs, failure), b') \<Longrightarrow>
   (case failure of None \<Rightarrow> length outs = length cs | Some _ \<Rightarrow> length outs < length cs)"
proof (induction f m e i cs b arbitrary: outs b' rule: dispatch_from.induct)
  case (2 f m e i c cs b)
  obtain r b1 where r: "f (process_manager_command_idempotency_key m e i) c b = (r, b1)"
    by (meson surj_pair)
  show ?case
  proof (cases r)
    case (Inr out)
    obtain outs' failure' b2 where rec: "dispatch_from f m e (i + 1) cs b1 = ((outs', failure'), b2)"
      by (metis prod.exhaust)
    then have "outs = out # outs'" "failure' = failure" using 2(2) r Inr by simp_all
    then show ?thesis
      using 2(1) [OF r [symmetric] Inr, of outs' b2] rec by (auto split: option.splits)
  qed (use 2(2) r in auto)
qed simp

lemma dispatch_loop_memory:
  "dispatch_loop B memory_checkpoint m e (enumerate i cs) done (b, k) =
    (let ((outs, failure), b') = dispatch_from (cb_dispatch_idempotent B) m e i cs b;
         k' = (if outs = [] then k else k((m, e) \<mapsto> i + length outs))
     in (case failure of
           None \<Rightarrow> Inr (done @ outs)
         | Some err \<Rightarrow> Inl \<lparr>rr_dispatched = done @ outs, rr_failed_index = Some (i + length outs),
             rr_error = Some (PMCommandBus err)\<rparr>, b', k'))"
proof (induction cs arbitrary: i b k "done")
  case (Cons c cs)
  obtain r b1 where r: "cb_dispatch_idempotent B (process_manager_command_idempotency_key m e i) c b = (r, b1)"
    by (meson surj_pair)
  show ?case
  proof (cases r)
    case (Inl err)
    then show ?thesis by (simp add: r memory_checkpoint_def)
  next
    case (Inr out)
    obtain outs failure b2 where
      rec: "dispatch_from (cb_dispatch_idempotent B) m e (Suc i) cs b1 = ((outs, failure), b2)"
      by (metis prod.exhaust)
    have save: "dc_save_dispatch_index memory_checkpoint m e (Suc i) k = (Ok (), k((m, e) \<mapsto> Suc i))"
      by (simp add: memory_checkpoint_def)
    show ?thesis
      by (simp add: r Inr save rec Cons [of "Suc i" "done @ [out]" b1 "k((m, e) \<mapsto> Suc i)"]
          split: option.splits)
  qed
qed (simp add: fun_upd_idem)

lemma run_envelope_memory:
  assumes "default_handle_envelope P ev m = (Ok cs, m1)"
    and "dispatch_from (cb_dispatch_idempotent B) (pm_name P) (event_id_as_str (env_event_id ev)) start
        (drop start cs) b = ((outs, failure), b1)"
    and "start = (case k (pm_name P, event_id_as_str (env_event_id ev)) of None \<Rightarrow> 0 | Some i \<Rightarrow> i)"
  shows "run_envelope_with_checkpoint P B ev memory_checkpoint (m, b, k) =
    (case failure of
       None \<Rightarrow> (\<lparr>rr_dispatched = outs, rr_failed_index = None, rr_error = None\<rparr>, m1, b1,
         k((pm_name P, event_id_as_str (env_event_id ev)) := None))
     | Some err \<Rightarrow> (\<lparr>rr_dispatched = outs, rr_failed_index = Some (start + length outs),
         rr_error = Some (PMCommandBus err)\<rparr>, m1, b1,
         if outs = [] then k
         else k((pm_name P, event_id_as_str (env_event_id ev)) \<mapsto> start + length outs)))"
proof -
  let ?e = "event_id_as_str (env_event_id ev)"
  have load: "dc_load_dispatch_index memory_checkpoint (pm_name P) ?e k = (Ok start, k)"
    using assms(3) by (simp add: memory_checkpoint_def)
  have clear: "dc_clear_dispatch_index memory_checkpoint n e k' = (Ok (), k'((n, e) := None))" for n e k'
    by (simp add: memory_checkpoint_def)
  have "drop start (enumerate 0 cs) = enumerate start (drop start cs)"
    by (cases "start \<le> length cs") (simp_all add: enumerate_eq_zip drop_zip)
  then show ?thesis
    using assms(1,2) by (simp add: run_envelope_with_checkpoint_def load dispatch_loop_memory clear
        split: option.splits)
qed

text \<open>C28: a process manager resumes where it stopped.  When the bus fails at some command, the
  run reports that command, and running the same event again sends exactly that command and the
  ones after it: over the two runs every command of the event is sent successfully once, in
  order, each under its own key, and the failed one again under the same key.  After the success
  the checkpoint of the event is cleared, and no other event's is touched.\<close>

theorem process_manager_resumes:
  fixes P :: "('m, 'e, 'c, 'pe) process_manager" and B :: "('b, 'c, 'o, 'be) command_bus"
    and ev :: "('e, 'id) event_envelope"
  defines "here \<equiv> (pm_name P, event_id_as_str (env_event_id ev))"
  defines "send \<equiv> dispatch_from (cb_dispatch_idempotent B) (pm_name P) (event_id_as_str (env_event_id ev))"
  assumes "default_handle_envelope P ev m = (Ok cs, m1)" and "default_handle_envelope P ev m1 = (Ok cs, m2)"
    and "k here = None"
    and "run_envelope_with_checkpoint P B ev memory_checkpoint (m, b, k) = (first, m1', b1, k1)"
    and "rr_error first = Some (PMCommandBus err)"
    and "run_envelope_with_checkpoint P B ev memory_checkpoint (m1, b1, k1) = (second, m2', b2, k2)"
    and "rr_error second = None"
  shows "rr_failed_index first = Some (length (rr_dispatched first)) \<and>
    send 0 cs b = ((rr_dispatched first, Some err), b1) \<and>
    send (length (rr_dispatched first)) (drop (length (rr_dispatched first)) cs) b1 =
      ((rr_dispatched second, None), b2) \<and>
    length (rr_dispatched first) + length (rr_dispatched second) = length cs \<and>
    k2 = k"
proof -
  obtain outs failure u where s1: "send 0 cs b = ((outs, failure), u)" by (metis prod.exhaust)
  note run1 = run_envelope_memory [OF assms(3), of B 0 b outs failure u k, folded send_def here_def]
  have first: "failure = Some err" "rr_dispatched first = outs" "u = b1"
    "rr_failed_index first = Some (length outs)"
    "k1 = (if outs = [] then k else k(here \<mapsto> length outs))"
    using run1 s1 assms(5-7) by (auto split: option.splits)
  have start: "(case k1 here of None \<Rightarrow> 0 | Some i \<Rightarrow> i) = length outs"
    using first(5) assms(5) by simp
  obtain outs2 failure2 u2 where
    s2: "send (length outs) (drop (length outs) cs) b1 = ((outs2, failure2), u2)" by (metis prod.exhaust)
  note run2 = run_envelope_memory [where k = k1, OF assms(4) s2 [unfolded send_def]
      start [symmetric, unfolded here_def], folded here_def]
  have second: "failure2 = None" "rr_dispatched second = outs2" "u2 = b2" "k2 = k1(here := None)"
    using run2 assms(8,9) first(3) by (auto split: option.splits)
  have "length outs < length cs" "length outs2 = length cs - length outs"
    using dispatch_from_length [OF s1 [unfolded send_def]] dispatch_from_length [OF s2 [unfolded send_def]]
      first(1) second(1) by simp_all
  moreover have "k2 = k" using second(4) first(5) assms(5) by (auto simp: fun_eq_iff)
  ultimately show ?thesis using s1 s2 first second by simp
qed

text \<open>Two commands, of which the second fails the first time.\<close>

definition demo_manager :: "(unit, nat, string, string) process_manager" where
  "demo_manager = \<lparr>pm_name = ''two_step'', pm_handle = \<lambda>e m. (Ok [''first'', ''second''], m)\<rparr>"

definition demo_bus :: "(nat, string, string, string) command_bus" where
  "demo_bus = \<lparr>cb_dispatch = \<lambda>c n. (if c = ''second'' \<and> n < 2 then Err ''failed'' else Ok ''ok'', n + 1),
     cb_dispatch_idempotent = \<lambda>key c n. (if c = ''second'' \<and> n < 2 then Err ''failed'' else Ok ''ok'', n + 1)\<rparr>"

definition demo_envelope :: "(nat, string) event_envelope" where
  "demo_envelope = envelope_new (EventId ''evt-1'') ''agg-1'' (aggregate_type_from_static ''demo'') 1
     None (event_type_from_static ''started'') 1 0 metadata_new 0"

lemmas demo_manager_defs = demo_manager_def demo_bus_def demo_envelope_def envelope_new_def
  default_handle_envelope_def run_envelope_with_checkpoint_def memory_checkpoint_def

theorem process_manager_resumes_witness:
  "\<exists>first second m b k m' b' k'.
     run_envelope_with_checkpoint demo_manager demo_bus demo_envelope memory_checkpoint ((), 0, Map.empty) =
       (first, m, b, k) \<and> rr_dispatched first = [''ok''] \<and>
     run_envelope_with_checkpoint demo_manager demo_bus demo_envelope memory_checkpoint (m, b, k) =
       (second, m', b', k') \<and>
     rr_failed_index first = Some 1 \<and> length (rr_dispatched second) = 1 \<and> k' = Map.empty"
proof -
  let ?run = "run_envelope_with_checkpoint demo_manager demo_bus demo_envelope memory_checkpoint"
  let ?key = "(''two_step'', ''evt-1'')"
  have handle: "default_handle_envelope demo_manager demo_envelope () = (Ok [''first'', ''second''], ())"
    by (simp add: demo_manager_defs)
  have first: "?run ((), 0, Map.empty) = (\<lparr>rr_dispatched = [''ok''], rr_failed_index = Some 1,
      rr_error = Some (PMCommandBus ''failed'')\<rparr>, (), 2, [?key \<mapsto> 1])"
    by (simp add: demo_manager_defs numeral_2_eq_2)
  have second: "?run ((), 2, [?key \<mapsto> 1]) = (\<lparr>rr_dispatched = [''ok''], rr_failed_index = None,
      rr_error = None\<rparr>, (), 3, Map.empty)"
    by (simp add: demo_manager_defs)
  show ?thesis
    using process_manager_resumes [OF handle handle _ first _ second] first second by simp
qed

lemma async_dispatch_all_eq: "async_dispatch_all f cs outs b = dispatch_all f cs outs b"
  by (induction f cs outs b rule: dispatch_all.induct) (auto split: prod.splits sum.splits)

lemma async_dispatch_loop_eq:
  "async_dispatch_loop (cb_dispatch B) C =
   dispatch_loop (B\<lparr>cb_dispatch_idempotent := default_dispatch_idempotent (cb_dispatch B)\<rparr>) C"
proof (intro ext)
  fix n e cs outs s
  show "async_dispatch_loop (cb_dispatch B) C n e cs outs s =
    dispatch_loop (B\<lparr>cb_dispatch_idempotent := default_dispatch_idempotent (cb_dispatch B)\<rparr>) C n e cs outs s"
  proof (induction cs arbitrary: outs s)
    case Nil
    then show ?case by (cases s) simp
  next
    case (Cons c cs)
    then show ?case
      by (cases s; cases c) (simp add: async_dispatch_idempotent_def default_dispatch_idempotent_def
        Let_def split: prod.splits sum.splits)
  qed
qed

text \<open>C29: the async process manager runner drops the idempotency keys.  It is the sync runner over
  the bus whose \<open>dispatch_idempotent\<close> ignores its key, because the blanket implementation of the
  async trait leaves no bus a choice; apart from that the two runners are the same.\<close>

theorem async_process_manager_equivalence:
  "async_process_manager_run P (cb_dispatch B) = process_manager_run P B \<and>
   async_run_envelope_with_checkpoint P (cb_dispatch B) ev C =
     run_envelope_with_checkpoint P (B\<lparr>cb_dispatch_idempotent := default_dispatch_idempotent (cb_dispatch B)\<rparr>) ev C \<and>
   async_run_envelope_strict P (cb_dispatch B) ev C =
     run_envelope_strict P (B\<lparr>cb_dispatch_idempotent := default_dispatch_idempotent (cb_dispatch B)\<rparr>) ev C"
  unfolding async_process_manager_run_def process_manager_run_def async_dispatch_all_eq
    async_run_envelope_strict_def [abs_def] run_envelope_strict_def [abs_def]
    async_run_envelope_with_checkpoint_def run_envelope_with_checkpoint_def async_dispatch_loop_eq
  by (intro conjI refl)

end
