(* ===== verification/Upcast.thy ===== *)
theory Upcast
  imports Prelude "HOL-Library.Word" "HOL-Library.AList"
begin

text \<open>
  Event upcasting of \<open>src/upcast.rs\<close>: the registry of upcasters per event type and source version,
  and the chaining of upcasters at load time.  An upcaster is application code, the record of its
  versions and its conversion; a boxed error is its message.  A Rust \<open>HashMap\<close> is an association
  list with distinct keys.
\<close>

type_synonym bytes = "8 word list"

record upcaster =
  up_source_version :: nat
  up_target_version :: nat
  up_upcast :: "bytes \<Rightarrow> string + bytes"

text \<open>\<open>UpcastError\<close> and the type-erased \<open>upcast\<close>, which keeps the display of the error.\<close>

datatype upcast_error = UpcastError string

fun display_upcast_error :: "upcast_error \<Rightarrow> string" where
  "display_upcast_error (UpcastError s) = s"

definition erased_upcast :: "upcaster \<Rightarrow> bytes \<Rightarrow> upcast_error + bytes" where
  "erased_upcast u raw_payload = map_err UpcastError (up_upcast u raw_payload)"

record upcaster_registration_error =
  ure_event_type :: string
  ure_source_version :: nat

definition display_upcaster_registration_error :: "upcaster_registration_error \<Rightarrow> string" where
  "display_upcaster_registration_error e =
     ''upcaster for `'' @ ure_event_type e @ ''` at source version '' @ show_nat (ure_source_version e) @
     '' is already registered''"

type_synonym version_map = "(nat \<times> upcaster) list"
type_synonym upcaster_registry = "(string \<times> version_map) list"

definition upcaster_registry_new :: upcaster_registry where
  "upcaster_registry_new = []"

definition registry_is_empty :: "upcaster_registry \<Rightarrow> bool" where
  "registry_is_empty reg \<longleftrightarrow> reg = []"

definition has_upcasters :: "upcaster_registry \<Rightarrow> string \<Rightarrow> bool" where
  "has_upcasters reg event_type \<longleftrightarrow> map_of reg event_type \<noteq> None"

definition register :: "string \<Rightarrow> upcaster \<Rightarrow> upcaster_registry \<Rightarrow>
    (upcaster_registration_error + unit) \<times> upcaster_registry" where
  "register event_type u reg =
     (let source_version = up_source_version u;
          versions = (case map_of reg event_type of None \<Rightarrow> [] | Some vs \<Rightarrow> vs);
          reg1 = AList.update event_type versions reg
      in if map_of versions source_version \<noteq> None
         then (Err \<lparr>ure_event_type = event_type, ure_source_version = source_version\<rparr>, reg1)
         else (Ok (), AList.update event_type (AList.update source_version u versions) reg1))"

section \<open>The chain\<close>

definition non_advancing_error :: "string \<Rightarrow> nat \<Rightarrow> nat \<Rightarrow> upcast_error" where
  "non_advancing_error event_type current_version target_version = UpcastError
     (''upcaster for `'' @ event_type @ ''` maps version '' @ show_nat current_version @ '' to '' @
      show_nat target_version @ '', which does not advance the schema version; '' @
      ''refusing a non-terminating upcast chain'')"

definition no_path_error :: "string \<Rightarrow> nat \<Rightarrow> nat \<Rightarrow> upcast_error" where
  "no_path_error event_type current_version max_target = UpcastError
     (''no upcast path for `'' @ event_type @ ''` from stored version '' @ show_nat current_version @
      '' to registered version '' @ show_nat max_target)"

text \<open>The \<open>while let\<close> loop; each hop leaves fewer registered versions ahead.\<close>

function upcast_loop ::
  "string \<Rightarrow> version_map \<Rightarrow> nat \<Rightarrow> bytes \<Rightarrow> upcast_error + nat \<times> bytes" where
  "upcast_loop event_type versions current_version raw_payload =
     (case map_of versions current_version of
        None \<Rightarrow> Ok (current_version, raw_payload)
      | Some u \<Rightarrow>
          let target_version = up_target_version u
          in if target_version \<le> current_version
             then Err (non_advancing_error event_type current_version target_version)
             else case erased_upcast u raw_payload of
                 Inl e \<Rightarrow> Err e
               | Inr raw_payload' \<Rightarrow> upcast_loop event_type versions target_version raw_payload')"
  by pat_completeness auto
termination
proof (relation "measure (\<lambda>(_, versions, v, _). length (filter (\<lambda>k. v \<le> fst k) versions))", simp, clarsimp)
  fix versions :: version_map and v u
  assume u: "map_of versions v = Some u" and t: "\<not> up_target_version u \<le> v"
  have "filter (\<lambda>k. up_target_version u \<le> fst k) versions =
      filter (\<lambda>k. up_target_version u \<le> fst k) (filter (\<lambda>k. v \<le> fst k) versions)"
    using t by (auto intro: filter_cong)
  moreover have "(v, u) \<in> set (filter (\<lambda>k. v \<le> fst k) versions)"
    using map_of_SomeD [OF u] by simp
  ultimately show "length (filter (\<lambda>k. up_target_version u \<le> fst k) versions) <
      length (filter (\<lambda>k. v \<le> fst k) versions)"
    using t length_filter_less [of "(v, u)" "filter (\<lambda>k. v \<le> fst k) versions"
        "\<lambda>k. up_target_version u \<le> fst k"] by simp
qed

declare upcast_loop.simps [simp del]

definition upcast :: "upcaster_registry \<Rightarrow> string \<Rightarrow> nat \<Rightarrow> bytes \<Rightarrow> upcast_error + nat \<times> bytes" where
  "upcast reg event_type current_version raw_payload =
     (case map_of reg event_type of
        None \<Rightarrow> Ok (current_version, raw_payload)
      | Some versions \<Rightarrow>
          let targets = map (up_target_version \<circ> snd) versions;
              max_target = (if targets = [] then current_version else Max (set targets))
          in case upcast_loop event_type versions current_version raw_payload of
               Inl e \<Rightarrow> Err e
             | Inr (current, raw) \<Rightarrow>
                 if current < max_target then Err (no_path_error event_type current max_target)
                 else Ok (current, raw))"

definition prepare_payload :: "upcaster_registry \<Rightarrow> string \<Rightarrow> nat \<Rightarrow> bytes \<Rightarrow> upcast_error + nat \<times> bytes" where
  "prepare_payload reg event_type event_version payload_bytes =
     (if registry_is_empty reg \<or> \<not> has_upcasters reg event_type then Ok (event_version, payload_bytes)
      else upcast reg event_type event_version payload_bytes)"

section \<open>Facts\<close>

text \<open>One hop of the chain, and what the loop computes in terms of hops.\<close>

inductive hop :: "version_map \<Rightarrow> nat \<times> bytes \<Rightarrow> nat \<times> bytes \<Rightarrow> bool" for versions where
  hop: "\<lbrakk>map_of versions v = Some u; v < up_target_version u; up_upcast u p = Inr p'\<rbrakk> \<Longrightarrow>
    hop versions (v, p) (up_target_version u, p')"

inductive_cases hopE: "hop versions (v, p) s"

lemma hop_increases: "hop versions s s' \<Longrightarrow> fst s < fst s'"
  by (auto elim: hop.cases)

lemma hops_increase: "(hop versions)\<^sup>*\<^sup>* s s' \<Longrightarrow> fst s \<le> fst s'"
  by (induction rule: rtranclp_induct) (auto dest: hop_increases)

lemma upcast_loop_Ok_hops:
  "upcast_loop et versions v p = Ok (v', p') \<Longrightarrow>
   (hop versions)\<^sup>*\<^sup>* (v, p) (v', p') \<and> map_of versions v' = None"
proof (induction et versions v p rule: upcast_loop.induct)
  case (1 et versions v p)
  show ?case
  proof (cases "map_of versions v")
    case None
    then show ?thesis using 1(2) by (simp add: upcast_loop.simps)
  next
    case (Some u)
    then obtain q where q: "v < up_target_version u" "up_upcast u p = Inr q"
      "upcast_loop et versions (up_target_version u) q = Ok (v', p')"
      using 1(2) by (subst (asm) upcast_loop.simps)
        (auto simp: Let_def erased_upcast_def result_simps split: if_splits sum.splits)
    moreover have "(hop versions)\<^sup>*\<^sup>* (up_target_version u, q) (v', p') \<and> map_of versions v' = None"
      using 1(1) [OF Some refl] q by (simp add: erased_upcast_def)
    moreover have "hop versions (v, p) (up_target_version u, q)" by (rule hop [OF Some q(1,2)])
    ultimately show ?thesis by (auto intro: converse_rtranclp_into_rtranclp)
  qed
qed

lemma upcast_loop_hop:
  "hop versions (v, p) (v', p') \<Longrightarrow> upcast_loop et versions v p = upcast_loop et versions v' p'"
  by (erule hopE, subst upcast_loop.simps) (simp add: erased_upcast_def)

lemma upcast_loop_hops:
  "(hop versions)\<^sup>*\<^sup>* s s' \<Longrightarrow> upcast_loop et versions (fst s) (snd s) = upcast_loop et versions (fst s') (snd s')"
  by (induction rule: rtranclp_induct) (auto dest!: upcast_loop_hop)

lemma upcast_loop_iff:
  "upcast_loop et versions v p = Ok (v', p') \<longleftrightarrow>
   (hop versions)\<^sup>*\<^sup>* (v, p) (v', p') \<and> map_of versions v' = None"
  using upcast_loop_Ok_hops upcast_loop_hops [of versions "(v, p)" "(v', p')" et]
  by (auto simp: upcast_loop.simps [of et versions v' p'])

lemma upcast_iff:
  "map_of reg et = Some versions \<Longrightarrow>
   upcast reg et v p = Ok (v', p') \<longleftrightarrow> (hop versions)\<^sup>*\<^sup>* (v, p) (v', p') \<and>
     map_of versions v' = None \<and> (\<forall>u\<in>snd ` set versions. up_target_version u \<le> v')"
proof -
  assume reg: "map_of reg et = Some versions"
  let ?targets = "map (up_target_version \<circ> snd) versions"
  let ?max = "if ?targets = [] then v else Max (set ?targets)"
  have "upcast reg et v p = Ok (v', p') \<longleftrightarrow> upcast_loop et versions v p = Ok (v', p') \<and> \<not> v' < ?max"
    by (cases "upcast_loop et versions v p") (auto simp: upcast_def reg Let_def split: if_splits)
  moreover have "\<not> v' < ?max \<longleftrightarrow> (\<forall>u\<in>snd ` set versions. up_target_version u \<le> v')"
    if "(hop versions)\<^sup>*\<^sup>* (v, p) (v', p')"
    using hops_increase [OF that] by (cases "versions = []") (auto simp: not_less)
  ultimately show ?thesis by (auto simp: upcast_loop_iff)
qed

text \<open>C30: upcasting is the chain of registered conversions.  It always returns; it succeeds exactly
  when hops that each raise the version lead from the stored version to one for which no upcaster
  is registered and beyond which none leads, and then the payload is the one the hops compute.
  The result needs no further upcasting, and the shortcut of \<open>prepare_payload\<close> changes nothing.\<close>

theorem upcast_is_chain:
  "(upcast reg et v p = Ok (v', p') \<longleftrightarrow>
     (case map_of reg et of
        None \<Rightarrow> v' = v \<and> p' = p
      | Some versions \<Rightarrow> (hop versions)\<^sup>*\<^sup>* (v, p) (v', p') \<and> map_of versions v' = None \<and>
          (\<forall>u\<in>snd ` set versions. up_target_version u \<le> v'))) \<and>
   (upcast reg et v p = Ok (v', p') \<longrightarrow> v \<le> v' \<and> upcast reg et v' p' = Ok (v', p')) \<and>
   prepare_payload reg et v p = upcast reg et v p"
proof (cases "map_of reg et")
  case None
  then show ?thesis
    by (auto simp: upcast_def prepare_payload_def has_upcasters_def)
next
  case (Some versions)
  then have "\<not> registry_is_empty reg" "has_upcasters reg et"
    by (auto simp: registry_is_empty_def has_upcasters_def)
  then show ?thesis
    using Some hops_increase [of versions "(v, p)" "(v', p')"]
    by (simp add: upcast_iff prepare_payload_def)
qed

definition demo_step :: "nat \<Rightarrow> nat \<Rightarrow> upcaster" where
  "demo_step from to = \<lparr>up_source_version = from, up_target_version = to,
     up_upcast = \<lambda>p. Ok (p @ [of_nat to])\<rparr>"

definition demo_registry :: upcaster_registry where
  "demo_registry = snd (register ''evt'' (demo_step 2 3) (snd (register ''evt'' (demo_step 1 2)
     upcaster_registry_new)))"

theorem upcast_is_chain_witness:
  "upcast demo_registry ''evt'' 3 [0, 2, 3] = Ok (3, [0, 2, 3])"
proof -
  have "upcast demo_registry ''evt'' 1 [0] = Ok (3, [0, 2, 3])"
    by (simp add: demo_registry_def register_def demo_step_def upcaster_registry_new_def upcast_def
        upcast_loop.simps erased_upcast_def)
  then show ?thesis
    using upcast_is_chain [of demo_registry "''evt''" 1 "[0]" 3 "[0, 2, 3]"] by blast
qed

fun register_all :: "(string \<times> upcaster) list \<Rightarrow> upcaster_registry" where
  "register_all [] = upcaster_registry_new"
| "register_all ((et, u) # rs) = snd (register et u (register_all rs))"

definition versions_ok :: "version_map \<Rightarrow> bool" where
  "versions_ok versions \<longleftrightarrow> distinct (map fst versions) \<and> (\<forall>(v, u)\<in>set versions. up_source_version u = v)"

definition registry_ok :: "upcaster_registry \<Rightarrow> bool" where
  "registry_ok reg \<longleftrightarrow> distinct (map fst reg) \<and> (\<forall>(et, versions)\<in>set reg. versions_ok versions)"

lemma update_same: "map_of al k = Some v \<Longrightarrow> AList.update k v al = al"
  by (induction al) (auto split: if_splits)

lemma set_update_subset: "set (AList.update k v al) \<subseteq> insert (k, v) (set al)"
  by (induction al) auto

lemma register_ok: "registry_ok reg \<Longrightarrow> registry_ok (snd (register et u reg))"
proof -
  assume reg: "registry_ok reg"
  let ?versions = "case map_of reg et of None \<Rightarrow> [] | Some vs \<Rightarrow> vs"
  have "versions_ok ?versions"
    using reg by (auto simp: registry_ok_def versions_ok_def split: option.splits dest!: map_of_SomeD)
  moreover have "versions_ok (AList.update (up_source_version u) u ?versions)"
    using \<open>versions_ok ?versions\<close> set_update_subset [of "up_source_version u" u ?versions]
    by (fastforce simp: versions_ok_def distinct_update)
  ultimately show ?thesis
    using reg set_update_subset [of et] by (fastforce simp: register_def registry_ok_def Let_def distinct_update)
qed

lemma register_all_ok: "registry_ok (register_all rs)"
  by (induction rs rule: register_all.induct)
    (simp add: registry_ok_def upcaster_registry_new_def, simp add: register_ok)

text \<open>An event type has at most one upcaster per source version.  In every registry built by
  registrations each upcaster is filed under its own source version and no version twice; a second
  registration for the same version is refused and leaves the upcasters as they were.\<close>

lemma registry_unique:
  "map_of (register_all rs) et = Some versions \<Longrightarrow>
   distinct (map fst versions) \<and> (\<forall>(v, u)\<in>set versions. up_source_version u = v) \<and>
   (up_source_version u \<in> fst ` set versions \<longrightarrow>
      register et u (register_all rs) =
        (Err \<lparr>ure_event_type = et, ure_source_version = up_source_version u\<rparr>, register_all rs))"
  using register_all_ok [of rs]
  by (auto simp: registry_ok_def versions_ok_def register_def update_same map_of_eq_None_iff
      dest!: map_of_SomeD)

lemma registry_unique_witness:
  "register ''evt'' (demo_step 1 9) (register_all [(''evt'', demo_step 1 2)]) =
     (Err \<lparr>ure_event_type = ''evt'', ure_source_version = 1\<rparr>, register_all [(''evt'', demo_step 1 2)])"
proof -
  have "map_of (register_all [(''evt'', demo_step 1 2)]) ''evt'' = Some [(1, demo_step 1 2)]"
    by (simp add: register_def upcaster_registry_new_def demo_step_def)
  from registry_unique [OF this, of "demo_step 1 9"] show ?thesis by (simp add: demo_step_def)
qed

end
