(* ===== verification/Connection_Pool.thy ===== *)
theory Connection_Pool
  imports Timing Store_Errors "HOL-Library.Multiset"
begin

text \<open>
  The connection pool of \<open>src/pool.rs\<close>.  The code under the mutex is a function on the guarded
  state: taking a connection (\<open>acquire_section\<close>), going on after a wake-up (\<open>wake_section\<close>), the end
  of a connect attempt, and giving a connection back.  The pool with its threads is a step relation
  that interleaves these sections; a waiting thread may wake at any time (notified, timed out or
  spuriously), as the condition variable allows.
\<close>

section \<open>Configuration\<close>

definition POOL_DEFAULT_MIN_SIZE :: nat where "POOL_DEFAULT_MIN_SIZE = 2"
definition POOL_DEFAULT_MAX_SIZE :: nat where "POOL_DEFAULT_MAX_SIZE = 8"
definition OVERRIDE_MIN_SIZE :: nat where "OVERRIDE_MIN_SIZE = 1"
definition OVERRIDE_MAX_SIZE :: nat where "OVERRIDE_MAX_SIZE = 128"
definition DEFAULT_ACQUIRE_TIMEOUT :: duration where "DEFAULT_ACQUIRE_TIMEOUT = from_secs 30"
definition DEFAULT_CONNECT_TIMEOUT :: duration where "DEFAULT_CONNECT_TIMEOUT = from_secs 10"
definition DEFAULT_MAX_IDLE_AGE :: duration where "DEFAULT_MAX_IDLE_AGE = from_secs (30 * 60)"

definition clamp :: "nat \<Rightarrow> nat \<Rightarrow> nat \<Rightarrow> nat" where
  "clamp x low high = (if x < low then low else if x > high then high else x)"

text \<open>The environment variable as parsed (\<open>None\<close> when absent or no number), and the parallelism.\<close>

definition resolve_pool_size :: "nat option \<Rightarrow> nat option \<Rightarrow> nat option \<Rightarrow> nat" where
  "resolve_pool_size explicit env_size available_parallelism =
     (let requested = (case explicit of Some n \<Rightarrow> Some n | None \<Rightarrow> env_size)
      in case requested of
           Some n \<Rightarrow> clamp n OVERRIDE_MIN_SIZE OVERRIDE_MAX_SIZE
         | None \<Rightarrow> clamp (case available_parallelism of Some n \<Rightarrow> n | None \<Rightarrow> POOL_DEFAULT_MIN_SIZE)
             POOL_DEFAULT_MIN_SIZE POOL_DEFAULT_MAX_SIZE)"

definition MYSQL_TRANSPORT_ERRNOS :: "string list" where
  "MYSQL_TRANSPORT_ERRNOS = [''1053'', ''1152'', ''1159'', ''1160'', ''1161'', ''2002'', ''2003'',
     ''2006'', ''2013'', ''2055'']"

definition is_transport_code :: "string \<Rightarrow> bool" where
  "is_transport_code code \<longleftrightarrow> starts_with code ''08'' \<or>
     code \<in> {''57P01'', ''57P02'', ''57P03''} \<or> code \<in> set MYSQL_TRANSPORT_ERRNOS"

fun is_transport_error :: "event_store_error \<Rightarrow> bool" where
  "is_transport_error (Backend message (Some code) source) = is_transport_code code"
| "is_transport_error (Backend message None source) = True"
| "is_transport_error _ = False"

section \<open>The guarded state\<close>

record 'c idle_entry =
  ie_connection :: 'c
  ie_idle_since :: nat

record 'c pool_state =
  pl_idle :: "'c idle_entry list"
  pl_leased :: nat
  pl_handoffs :: "'c list"
  pl_waiters :: nat

record pool_shared =
  ps_max_size :: nat
  ps_acquire_timeout :: duration
  ps_connect_timeout :: duration
  ps_max_idle_age :: "duration option"
  ps_can_connect :: bool  \<comment> \<open>\<open>connect.is_some()\<close>\<close>
  ps_validates :: bool  \<comment> \<open>\<open>validate.is_some()\<close>\<close>

definition pool_build ::
  "'c option \<Rightarrow> nat \<Rightarrow> bool \<Rightarrow> bool \<Rightarrow> duration option \<Rightarrow> nat \<Rightarrow> pool_shared \<times> 'c pool_state" where
  "pool_build seed max_size connect validate max_idle_age now =
     (\<lparr>ps_max_size = max_size, ps_acquire_timeout = DEFAULT_ACQUIRE_TIMEOUT,
       ps_connect_timeout = DEFAULT_CONNECT_TIMEOUT, ps_max_idle_age = max_idle_age,
       ps_can_connect = connect, ps_validates = validate\<rparr>,
      \<lparr>pl_idle = (case seed of None \<Rightarrow> [] | Some c \<Rightarrow> [\<lparr>ie_connection = c, ie_idle_since = now\<rparr>]),
       pl_leased = 0, pl_handoffs = [], pl_waiters = 0\<rparr>)"

definition pool_single :: "'c \<Rightarrow> nat \<Rightarrow> pool_shared \<times> 'c pool_state" where
  "pool_single connection now = pool_build (Some connection) 1 False False None now"

definition pool_pooled :: "nat \<Rightarrow> nat \<Rightarrow> pool_shared \<times> 'c pool_state" where
  "pool_pooled max_size now = pool_build None max_size True False (Some DEFAULT_MAX_IDLE_AGE) now"

definition pool_pooled_validated :: "nat \<Rightarrow> 'c option \<Rightarrow> nat \<Rightarrow> pool_shared \<times> 'c pool_state" where
  "pool_pooled_validated max_size seed now =
     pool_build seed max_size True True (Some DEFAULT_MAX_IDLE_AGE) now"

text \<open>\<open>now\<close> is the reading of the clock, \<open>valid\<close> the answer of the application's check.\<close>

definition idle_connection_is_usable ::
  "pool_shared \<Rightarrow> nat \<Rightarrow> ('c \<Rightarrow> bool) \<Rightarrow> 'c idle_entry \<Rightarrow> bool" where
  "idle_connection_is_usable sh now valid entry =
     (if (case ps_max_idle_age sh of None \<Rightarrow> False | Some age \<Rightarrow> now - ie_idle_since entry > age) then False
      else if ps_validates sh then valid (ie_connection entry) else True)"

text \<open>\<open>while let Some(entry) = state.idle.pop()\<close>: the vector as a list with its last element first.\<close>

fun pop_usable ::
  "pool_shared \<Rightarrow> nat \<Rightarrow> ('c \<Rightarrow> bool) \<Rightarrow> 'c idle_entry list \<Rightarrow> 'c option \<times> 'c idle_entry list" where
  "pop_usable sh now valid [] = (None, [])"
| "pop_usable sh now valid (entry # rest) =
     (if idle_connection_is_usable sh now valid entry then (Some (ie_connection entry), rest)
      else pop_usable sh now valid rest)"

datatype 'c acquire_outcome = Leased 'c | StartConnect | AcquireFailed event_store_error | StartWait

text \<open>The loop body of \<open>acquire\<close> up to the point where it returns or gives up the lock.\<close>

definition acquire_section ::
  "pool_shared \<Rightarrow> (duration \<Rightarrow> string) \<Rightarrow> nat \<Rightarrow> nat \<Rightarrow> ('c \<Rightarrow> bool) \<Rightarrow>
   ('c pool_state, 'c acquire_outcome) op" where
  "acquire_section sh show_duration deadline now valid st =
     (case pop_usable sh now valid (pl_idle st) of
        (Some connection, rest) \<Rightarrow>
          (Leased connection, st\<lparr>pl_idle := rest, pl_leased := pl_leased st + 1\<rparr>)
      | (None, rest) \<Rightarrow>
          let st = st\<lparr>pl_idle := rest\<rparr>
          in if pl_leased st < ps_max_size sh then
               (if \<not> ps_can_connect sh then
                  (AcquireFailed (error_backend
                     ''no pooled connection is available and no reconnect factory is configured''), st)
                else (StartConnect, st\<lparr>pl_leased := pl_leased st + 1\<rparr>))
             else if deadline \<le> now then
               (AcquireFailed (error_connection
                  (''no pooled connection became available within '' @ show_duration (ps_acquire_timeout sh) @
                   '' ('' @ show_nat (pl_leased st) @ '' of '' @ show_nat (ps_max_size sh) @
                   '' connections leased)'')), st)
             else (StartWait, st\<lparr>pl_waiters := pl_waiters st + 1\<rparr>))"

definition wake_section ::
  "pool_shared \<Rightarrow> (duration \<Rightarrow> string) \<Rightarrow> nat \<Rightarrow> nat \<Rightarrow> ('c \<Rightarrow> bool) \<Rightarrow>
   ('c pool_state, 'c acquire_outcome) op" where
  "wake_section sh show_duration deadline now valid st =
     (let st = st\<lparr>pl_waiters := pl_waiters st - 1\<rparr>
      in case pl_handoffs st of
           connection # rest \<Rightarrow> (Leased connection, st\<lparr>pl_handoffs := rest\<rparr>)
         | [] \<Rightarrow> acquire_section sh show_duration deadline now valid st)"

text \<open>A failed connect drops the pending slot.\<close>

definition pending_slot_drop :: "'c pool_state \<Rightarrow> 'c pool_state" where
  "pending_slot_drop st = st\<lparr>pl_leased := pl_leased st - 1\<rparr>"

definition give_back :: "'c option \<Rightarrow> nat \<Rightarrow> 'c pool_state \<Rightarrow> 'c pool_state" where
  "give_back connection now st = (case connection of
      Some c \<Rightarrow>
        if pl_waiters st > 0 then st\<lparr>pl_handoffs := pl_handoffs st @ [c]\<rparr>
        else st\<lparr>pl_leased := pl_leased st - 1,
               pl_idle := \<lparr>ie_connection = c, ie_idle_since = now\<rparr> # pl_idle st\<rparr>
    | None \<Rightarrow> st\<lparr>pl_leased := pl_leased st - 1\<rparr>)"

section \<open>Threads\<close>

datatype 'c pool_thread = Outside | Waiting nat | Connecting | Holding 'c  \<comment> \<open>deadline, connection\<close>

fun after_acquire :: "nat \<Rightarrow> 'c acquire_outcome \<Rightarrow> 'c pool_thread" where
  "after_acquire deadline (Leased c) = Holding c"
| "after_acquire deadline StartConnect = Connecting"
| "after_acquire deadline (AcquireFailed e) = Outside"
| "after_acquire deadline StartWait = Waiting deadline"

type_synonym 'c pool = "'c pool_state \<times> 'c pool_thread list"

text \<open>All connections the pool knows of, wherever they are.\<close>

fun held :: "'c pool_thread \<Rightarrow> 'c list" where
  "held (Holding c) = [c]"
| "held _ = []"

definition pool_connections :: "'c pool \<Rightarrow> 'c list" where
  "pool_connections pool = map ie_connection (pl_idle (fst pool)) @ pl_handoffs (fst pool) @
     concat (map held (snd pool))"

inductive pool_step :: "pool_shared \<Rightarrow> (duration \<Rightarrow> string) \<Rightarrow> 'c pool \<Rightarrow> 'c pool \<Rightarrow> bool"
  for sh show_duration where
  Acquire: "\<lbrakk>i < length ts; ts ! i = Outside;
     acquire_section sh show_duration deadline now valid st = (out, st')\<rbrakk> \<Longrightarrow>
     pool_step sh show_duration (st, ts) (st', ts[i := after_acquire deadline out])"
| Wake: "\<lbrakk>i < length ts; ts ! i = Waiting deadline;
     wake_section sh show_duration deadline now valid st = (out, st')\<rbrakk> \<Longrightarrow>
     pool_step sh show_duration (st, ts) (st', ts[i := after_acquire deadline out])"
| Connected: "\<lbrakk>i < length ts; ts ! i = Connecting; c \<notin> set (pool_connections (st, ts))\<rbrakk> \<Longrightarrow>
     pool_step sh show_duration (st, ts) (st, ts[i := Holding c])"
| ConnectFailed: "\<lbrakk>i < length ts; ts ! i = Connecting\<rbrakk> \<Longrightarrow>
     pool_step sh show_duration (st, ts) (pending_slot_drop st, ts[i := Outside])"
| Release: "\<lbrakk>i < length ts; ts ! i = Holding c\<rbrakk> \<Longrightarrow>
     pool_step sh show_duration (st, ts)
       (give_back (if broken then None else Some c) now st, ts[i := Outside])"

definition pool_reachable ::
  "pool_shared \<Rightarrow> (duration \<Rightarrow> string) \<Rightarrow> 'c pool_state \<Rightarrow> 'c pool \<Rightarrow> bool" where
  "pool_reachable sh show_duration st0 pool \<longleftrightarrow>
     (\<exists>n. (pool_step sh show_duration)\<^sup>*\<^sup>* (st0, replicate n Outside) pool)"

section \<open>The invariant\<close>

definition is_waiting :: "'c pool_thread \<Rightarrow> bool" where
  "is_waiting t \<longleftrightarrow> (\<exists>d. t = Waiting d)"

definition is_busy :: "'c pool_thread \<Rightarrow> bool" where
  "is_busy t \<longleftrightarrow> t = Connecting \<or> (\<exists>c. t = Holding c)"

definition number :: "('a \<Rightarrow> bool) \<Rightarrow> 'a list \<Rightarrow> nat" where
  "number Q ts = length (filter Q ts)"

lemma number_update:
  "i < length ts \<Longrightarrow> number Q (ts[i := t]) + of_bool (Q (ts ! i)) = number Q ts + of_bool (Q t)"
proof -
  assume i: "i < length ts"
  have "number Q ts = number Q (take i ts @ ts ! i # drop (Suc i) ts)"
    using id_take_nth_drop [OF i] by simp
  then show ?thesis using upd_conv_take_nth_drop [OF i, of t] by (simp add: number_def)
qed

definition pool_inv :: "pool_shared \<Rightarrow> 'c pool \<Rightarrow> bool" where
  "pool_inv sh pool \<longleftrightarrow> (case pool of (st, ts) \<Rightarrow>
     pl_leased st = number is_busy ts + length (pl_handoffs st) \<and>
     pl_waiters st = number is_waiting ts \<and>
     length (pl_idle st) + pl_leased st \<le> ps_max_size sh)"

lemma is_busy_simps [simp]:
  "\<not> is_busy Outside" "\<not> is_busy (Waiting d)" "is_busy Connecting" "is_busy (Holding c)"
  "\<not> is_waiting Outside" "is_waiting (Waiting d)" "\<not> is_waiting Connecting" "\<not> is_waiting (Holding c)"
  by (auto simp: is_busy_def is_waiting_def)

lemma pop_usable_length:
  "pop_usable sh now valid idle = (r, rest) \<Longrightarrow>
   length rest \<le> length idle \<and> (r \<noteq> None \<longrightarrow> length rest < length idle) \<and> (r = None \<longrightarrow> rest = [])"
  by (induction sh now valid idle arbitrary: r rest rule: pop_usable.induct)
    (fastforce split: if_splits)+

lemma acquire_section_counts:
  assumes "acquire_section sh show_duration deadline now valid st = (out, st')"
    and "length (pl_idle st) + pl_leased st \<le> ps_max_size sh"
  shows "pl_leased st' = pl_leased st + of_bool (is_busy (after_acquire deadline out)) \<and>
    pl_waiters st' = pl_waiters st + of_bool (is_waiting (after_acquire deadline out)) \<and>
    pl_handoffs st' = pl_handoffs st \<and> length (pl_idle st') + pl_leased st' \<le> ps_max_size sh"
proof -
  obtain r rest where pop: "pop_usable sh now valid (pl_idle st) = (r, rest)" by (meson surj_pair)
  then show ?thesis
    using assms pop_usable_length [OF pop]
    by (cases r) (auto simp: acquire_section_def Let_def split: if_splits)
qed

lemma pool_step_inv: "pool_step sh sd p p' \<Longrightarrow> pool_inv sh p \<Longrightarrow> pool_inv sh p'"
proof (induction rule: pool_step.induct)
  case (Acquire i ts deadline now valid st out st')
  then have "length (pl_idle st) + pl_leased st \<le> ps_max_size sh" by (simp add: pool_inv_def)
  note counts = acquire_section_counts [OF Acquire(3) this]
  show ?case
    using counts number_update [OF Acquire(1), of is_busy "after_acquire deadline out"]
      number_update [OF Acquire(1), of is_waiting "after_acquire deadline out"] Acquire(2,4)
    by (auto simp: pool_inv_def)
next
  case (Wake i ts deadline now valid st out st')
  note busy = number_update [OF Wake(1), of is_busy "after_acquire deadline out", unfolded Wake(2)]
  note waiting = number_update [OF Wake(1), of is_waiting "after_acquire deadline out", unfolded Wake(2)]
  let ?st = "st\<lparr>pl_waiters := pl_waiters st - 1\<rparr>"
  have waiter: "0 < number is_waiting ts"
    using Wake(2) nth_mem [OF Wake(1)] by (auto simp: number_def filter_empty_conv intro!: bexI)
  show ?case
  proof (cases "pl_handoffs st")
    case Nil
    then have run: "acquire_section sh sd deadline now valid ?st = (out, st')"
      using Wake(3) by (simp add: wake_section_def)
    have "length (pl_idle ?st) + pl_leased ?st \<le> ps_max_size sh" using Wake(4) by (simp add: pool_inv_def)
    from acquire_section_counts [OF run this] show ?thesis
      using busy waiting waiter Wake(4) Nil by (auto simp: pool_inv_def)
  next
    case (Cons c rest)
    then have "out = Leased c" "st' = ?st\<lparr>pl_handoffs := rest\<rparr>"
      using Wake(3) by (simp_all add: wake_section_def)
    then show ?thesis using busy waiting waiter Wake(4) Cons by (auto simp: pool_inv_def)
  qed
next
  case (Connected i ts c st)
  then show ?case
    using number_update [OF Connected(1), of is_busy "Holding c"]
      number_update [OF Connected(1), of is_waiting "Holding c"] by (auto simp: pool_inv_def)
next
  case (ConnectFailed i ts st)
  then show ?case
    using number_update [OF ConnectFailed(1), of is_busy Outside]
      number_update [OF ConnectFailed(1), of is_waiting Outside]
    by (auto simp: pool_inv_def pending_slot_drop_def)
next
  case (Release i ts c st broken now)
  then show ?case
    using number_update [OF Release(1), of is_busy Outside]
      number_update [OF Release(1), of is_waiting Outside]
    by (auto simp: pool_inv_def give_back_def)
qed

lemma pool_start_inv:
  "pl_leased st = 0 \<Longrightarrow> pl_handoffs st = [] \<Longrightarrow> pl_waiters st = 0 \<Longrightarrow>
   length (pl_idle st) \<le> ps_max_size sh \<Longrightarrow> pool_inv sh (st, replicate n Outside)"
  by (simp add: pool_inv_def number_def filter_empty_conv)

text \<open>A connection is in one place only.\<close>

lemma concat_held_update:
  "i < length ts \<Longrightarrow> mset (concat (map held (ts[i := t]))) + mset (held (ts ! i)) =
   mset (concat (map held ts)) + mset (held t)"
proof -
  assume i: "i < length ts"
  have "concat (map held ts) = concat (map held (take i ts @ ts ! i # drop (Suc i) ts))"
    using id_take_nth_drop [OF i] by simp
  then show ?thesis using upd_conv_take_nth_drop [OF i, of t] by simp
qed

lemma pop_usable_mset:
  "pop_usable sh now valid idle = (r, rest) \<Longrightarrow>
   mset (map ie_connection rest) + mset (case r of None \<Rightarrow> [] | Some c \<Rightarrow> [c]) \<subseteq># mset (map ie_connection idle)"
  by (induction sh now valid idle arbitrary: r rest rule: pop_usable.induct)
    (fastforce split: if_splits option.splits simp: subset_mset.le_iff_add)+

lemma distinct_subset: "mset xs \<subseteq># mset ys \<Longrightarrow> distinct ys \<Longrightarrow> distinct xs"
  by (metis distinct_append ex_mset mset_append mset_eq_imp_distinct_iff subset_mset.le_iff_add)

lemma held_after_acquire:
  "mset (held (after_acquire deadline out)) = (case out of Leased c \<Rightarrow> {#c#} | _ \<Rightarrow> {#})"
  by (cases out) simp_all

lemma acquire_section_mset:
  "acquire_section sh show_duration deadline now valid st = (out, st') \<Longrightarrow>
   mset (map ie_connection (pl_idle st')) + mset (held (after_acquire deadline out)) \<subseteq>#
     mset (map ie_connection (pl_idle st)) \<and> pl_handoffs st' = pl_handoffs st"
proof -
  assume run: "acquire_section sh show_duration deadline now valid st = (out, st')"
  obtain r rest where pop: "pop_usable sh now valid (pl_idle st) = (r, rest)" by (meson surj_pair)
  from pop_usable_mset [OF this] show ?thesis
    using run pop by (cases r) (auto simp: acquire_section_def Let_def split: if_splits)
qed

lemma pool_step_distinct:
  "pool_step sh sd p p' \<Longrightarrow> distinct (pool_connections p) \<Longrightarrow> distinct (pool_connections p')"
proof (induction rule: pool_step.induct)
  case (Acquire i ts deadline now valid st out st')
  have "mset (pool_connections (st', ts[i := after_acquire deadline out])) \<subseteq># mset (pool_connections (st, ts))"
    using acquire_section_mset [OF Acquire(3)]
      concat_held_update [OF Acquire(1), of "after_acquire deadline out"] Acquire(2)
    by (auto simp: pool_connections_def subset_mset.le_iff_add ac_simps)
  then show ?case using Acquire(4) by (rule distinct_subset)
next
  case (Wake i ts deadline now valid st out st')
  have "mset (pool_connections (st', ts[i := after_acquire deadline out])) \<subseteq># mset (pool_connections (st, ts))"
  proof (cases "pl_handoffs st")
    case Nil
    then show ?thesis
      using acquire_section_mset [of sh sd deadline now valid "st\<lparr>pl_waiters := pl_waiters st - 1\<rparr>" out st']
        concat_held_update [OF Wake(1), of "after_acquire deadline out"] Wake(2,3)
      by (auto simp: pool_connections_def wake_section_def subset_mset.le_iff_add ac_simps)
  next
    case (Cons c rest)
    then have "out = Leased c" "st' = st\<lparr>pl_waiters := pl_waiters st - 1, pl_handoffs := rest\<rparr>"
      using Wake(3) by (simp_all add: wake_section_def)
    then show ?thesis
      using concat_held_update [OF Wake(1), of "Holding c"] Wake(2) Cons
      by (simp add: pool_connections_def)
  qed
  then show ?case using Wake(4) by (rule distinct_subset)
next
  case (Connected i ts c st)
  have "mset (pool_connections (st, ts[i := Holding c])) = mset (c # pool_connections (st, ts))"
    using concat_held_update [OF Connected(1), of "Holding c"] Connected(2)
    by (simp add: pool_connections_def)
  then show ?case using Connected(3,4) by (metis distinct.simps(2) mset_eq_imp_distinct_iff)
next
  case (ConnectFailed i ts st)
  have "mset (pool_connections (pending_slot_drop st, ts[i := Outside])) = mset (pool_connections (st, ts))"
    using concat_held_update [OF ConnectFailed(1), of Outside] ConnectFailed(2)
    by (simp add: pool_connections_def pending_slot_drop_def)
  then show ?case using ConnectFailed(3) by (metis mset_eq_imp_distinct_iff)
next
  case (Release i ts c st broken now)
  have "mset (concat (map held (ts[i := Outside]))) + {#c#} = mset (concat (map held ts))"
    using concat_held_update [OF Release(1), of Outside] Release(2) by simp
  then have "mset (concat (map held (ts[i := Outside]))) \<subseteq># mset (concat (map held ts))"
    and "mset (concat (map held ts)) = {#c#} + mset (concat (map held (ts[i := Outside])))"
    by (simp_all flip: \<open>mset (concat (map held (ts[i := Outside]))) + {#c#} = mset (concat (map held ts))\<close>)
  then have "mset (pool_connections (give_back (if broken then None else Some c) now st, ts[i := Outside]))
      \<subseteq># mset (pool_connections (st, ts))"
    by (auto simp: pool_connections_def give_back_def subset_mset.le_iff_add ac_simps)
  then show ?case using Release(3) by (rule distinct_subset)
qed

lemma pool_steps_inv:
  "(pool_step sh sd)\<^sup>*\<^sup>* p p' \<Longrightarrow> pool_inv sh p \<Longrightarrow> distinct (pool_connections p) \<Longrightarrow>
   pool_inv sh p' \<and> distinct (pool_connections p')"
  by (induction rule: rtranclp_induct) (auto intro: pool_step_inv pool_step_distinct)

section \<open>Properties\<close>

text \<open>C31: the pool stays within its size and lends each connection once.  Starting from any pool the
  crate builds (size at least 1), with any number of threads and however their critical sections,
  connect attempts, releases, time-outs and spurious wake-ups interleave: the lease counter is the
  number of held, connecting and handed-over connections, idle and leased connections together
  never exceed the maximal size, and no connection is in two places.\<close>

theorem pool_safe:
  assumes "(sh, st0) = pool_build seed max_size connect validate max_idle_age now" and "1 \<le> max_size"
    and "pool_reachable sh show_duration st0 (st, ts)"
  shows "pl_leased st = number is_busy ts + length (pl_handoffs st) \<and>
    pl_waiters st = number is_waiting ts \<and>
    length (pl_idle st) + pl_leased st \<le> max_size \<and>
    distinct (pool_connections (st, ts))"
proof -
  obtain n where steps: "(pool_step sh show_duration)\<^sup>*\<^sup>* (st0, replicate n Outside) (st, ts)"
    using assms(3) by (auto simp: pool_reachable_def)
  have size: "ps_max_size sh = max_size" using assms(1) by (simp add: pool_build_def)
  have "pool_inv sh (st0, replicate n Outside)"
    using assms(1,2) by (intro pool_start_inv) (simp_all add: pool_build_def split: option.splits)
  moreover have "distinct (pool_connections (st0, replicate n Outside))"
    using assms(1) by (simp add: pool_build_def pool_connections_def split: option.splits)
  ultimately have "pool_inv sh (st, ts) \<and> distinct (pool_connections (st, ts))"
    using pool_steps_inv [OF steps] by blast
  then show ?thesis using size by (simp add: pool_inv_def)
qed

definition demo_shared :: "pool_shared" where
  "demo_shared = fst (pool_pooled 2 0 :: _ \<times> nat pool_state)"

definition demo_state_of :: "nat \<Rightarrow> nat list \<Rightarrow> nat \<Rightarrow> nat pool_state" where
  "demo_state_of leased handoffs waiters =
     \<lparr>pl_idle = [], pl_leased = leased, pl_handoffs = handoffs, pl_waiters = waiters\<rparr>"

lemmas demo_pool_defs = demo_shared_def demo_state_of_def pool_pooled_def pool_build_def
  acquire_section_def wake_section_def give_back_def pool_connections_def

lemma demo_acquire_connect:
  "pool_step demo_shared sd (demo_state_of 0 [] 0, [Outside, Outside, Outside])
     (demo_state_of 1 [] 0, [Connecting, Outside, Outside])"
  "pool_step demo_shared sd (demo_state_of 1 [] 0, [Holding 1, Outside, Outside])
     (demo_state_of 2 [] 0, [Holding 1, Connecting, Outside])"
  using pool_step.Acquire [of 0 "[Outside, Outside, Outside]" demo_shared sd 30 0 "\<lambda>_. True"
      "demo_state_of 0 [] 0" StartConnect "demo_state_of 1 [] 0"]
    pool_step.Acquire [of 1 "[Holding 1, Outside, Outside]" demo_shared sd 30 0 "\<lambda>_. True"
      "demo_state_of 1 [] 0" StartConnect "demo_state_of 2 [] 0"]
  by (simp_all add: demo_pool_defs)

lemma demo_connected:
  "pool_step demo_shared sd (demo_state_of 1 [] 0, [Connecting, Outside, Outside])
     (demo_state_of 1 [] 0, [Holding 1, Outside, Outside])"
  "pool_step demo_shared sd (demo_state_of 2 [] 0, [Holding 1, Connecting, Outside])
     (demo_state_of 2 [] 0, [Holding 1, Holding 2, Outside])"
  using pool_step.Connected [of 0 "[Connecting, Outside, Outside]" 1 "demo_state_of 1 [] 0" demo_shared sd]
    pool_step.Connected [of 1 "[Holding 1, Connecting, Outside]" 2 "demo_state_of 2 [] 0" demo_shared sd]
  by (simp_all add: demo_pool_defs)

lemma demo_handoffs:
  "pool_step demo_shared sd (demo_state_of 2 [] 0, [Holding 1, Holding 2, Outside])
     (demo_state_of 2 [] 1, [Holding 1, Holding 2, Waiting 30])"
  "pool_step demo_shared sd (demo_state_of 2 [] 1, [Holding 1, Holding 2, Waiting 30])
     (demo_state_of 2 [1] 1, [Outside, Holding 2, Waiting 30])"
  "pool_step demo_shared sd (demo_state_of 2 [1] 1, [Outside, Holding 2, Waiting 30])
     (demo_state_of 2 [1, 2] 1, [Outside, Outside, Waiting 30])"
  "pool_step demo_shared sd (demo_state_of 2 [1, 2] 1, [Outside, Outside, Waiting 30])
     (demo_state_of 2 [2] 0, [Outside, Outside, Holding 1])"
  using pool_step.Acquire [of 2 "[Holding 1, Holding 2, Outside]" demo_shared sd 30 0 "\<lambda>_. True"
      "demo_state_of 2 [] 0" StartWait "demo_state_of 2 [] 1"]
    pool_step.Release [of 0 "[Holding 1, Holding 2, Waiting 30]" 1 demo_shared sd "demo_state_of 2 [] 1" False 0]
    pool_step.Release [of 1 "[Outside, Holding 2, Waiting 30]" 2 demo_shared sd "demo_state_of 2 [1] 1" False 0]
    pool_step.Wake [of 2 "[Outside, Outside, Waiting 30]" 30 demo_shared sd 0 "\<lambda>_. True"
      "demo_state_of 2 [1, 2] 1" "Leased 1" "demo_state_of 2 [2] 0"]
  by (simp_all add: demo_pool_defs)

lemmas demo_steps = demo_acquire_connect demo_connected demo_handoffs

lemma demo_stranded_reachable:
  "pool_reachable demo_shared sd (demo_state_of 0 [] 0) (demo_state_of 2 [2] 0, [Outside, Outside, Holding 1])"
proof -
  have "(pool_step demo_shared sd)\<^sup>*\<^sup>* (demo_state_of 0 [] 0, [Outside, Outside, Outside])
      (demo_state_of 2 [2] 0, [Outside, Outside, Holding 1])"
    using demo_steps by (meson rtranclp.rtrancl_into_rtrancl rtranclp.rtrancl_refl)
  moreover have "[Outside, Outside, Outside] = replicate 3 (Outside :: nat pool_thread)"
    by (simp add: numeral_3_eq_3)
  ultimately show ?thesis unfolding pool_reachable_def by metis
qed

text \<open>C32: a connection can be stranded.  A pool of two connections reaches a state where a
  connection lies in the hand-off queue, no thread waits for it, and a thread that asks for one
  before its deadline is made to wait although a connection is free: two releases hand over to
  the same waiter before it wakes, and \<open>acquire\<close> looks into the queue only after a wait.\<close>

theorem pool_handoff_stranded:
  "\<exists>sh st0 st ts (c :: nat). (sh, st0) = pool_pooled 2 0 \<and> pool_reachable sh show_duration st0 (st, ts) \<and>
     c \<in> set (pl_handoffs st) \<and> number is_waiting ts = 0 \<and>
     fst (acquire_section sh show_duration 30 0 valid st) = StartWait"
proof -
  have start: "(demo_shared, demo_state_of 0 [] 0) = pool_pooled 2 0"
    by (simp add: demo_pool_defs)
  show ?thesis
    by (intro exI [of _ demo_shared] exI [of _ "demo_state_of 0 [] 0"] exI [of _ "demo_state_of 2 [2] 0"]
        exI [of _ "[Outside, Outside, Holding 1]"] exI [of _ 2] conjI)
      (rule start, rule demo_stranded_reachable, simp_all add: demo_pool_defs number_def)
qed

theorem pool_safe_witness:
  "pl_leased (demo_state_of 2 [2] 0) = number is_busy [Outside, Outside, Holding (1::nat)] + length [2::nat]"
proof -
  have "(demo_shared, demo_state_of 0 [] 0) = pool_build None 2 True False (Some DEFAULT_MAX_IDLE_AGE) 0"
    by (simp add: demo_pool_defs)
  from pool_safe [OF this _ demo_stranded_reachable] show ?thesis by (simp add: demo_state_of_def)
qed

section \<open>Retries\<close>

text \<open>
  \<open>read\<close> and \<open>write\<close>: \<open>acquire\<close> and the drop of a lease (with its broken flag) act on the state that
  holds the pool, the operation is the caller's.
\<close>

definition pool_read ::
  "bool \<Rightarrow> ('w, event_store_error + 'c) op \<Rightarrow> ('c \<Rightarrow> bool \<Rightarrow> 'w \<Rightarrow> 'w) \<Rightarrow>
   ('c \<Rightarrow> ('w, event_store_error + 'a) op) \<Rightarrow> ('w, event_store_error + 'a) op" where
  "pool_read can_connect acquire drop_lease operation =
     try_op acquire (\<lambda>lease w. case operation lease w of
       (Inr a, w1) \<Rightarrow> (Ok a, drop_lease lease False w1)
     | (Inl error, w1) \<Rightarrow>
         if \<not> is_transport_error error then (Err error, drop_lease lease False w1)
         else let w2 = drop_lease lease True w1
              in if \<not> can_connect then (Err error, w2)
                 else try_op acquire (\<lambda>fresh w3. case operation fresh w3 of
                   (Inl retry_error, w4) \<Rightarrow>
                     (Err retry_error, drop_lease fresh (is_transport_error retry_error) w4)
                 | (Inr a, w4) \<Rightarrow> (Ok a, drop_lease fresh False w4)) w2)"

definition pool_write ::
  "bool \<Rightarrow> ('w, event_store_error + 'c) op \<Rightarrow> ('c \<Rightarrow> bool \<Rightarrow> 'w \<Rightarrow> 'w) \<Rightarrow>
   ('c \<Rightarrow> ('w, event_store_error + 'a) op) \<Rightarrow> ('w, event_store_error + 'a) op" where
  "pool_write can_connect acquire drop_lease operation =
     try_op acquire (\<lambda>lease w.
       let (first, w1) = operation lease w
       in case first of
            Inr a \<Rightarrow> (Ok a, drop_lease lease False w1)
          | Inl error \<Rightarrow>
              if \<not> is_transport_error error then (Err error, drop_lease lease False w1)
              else let w2 = drop_lease lease True w1
                   in if \<not> can_connect then (Err error, w2)
                      else try_op acquire (\<lambda>fresh w3.
                        let (r, w4) = operation fresh w3
                        in (r, drop_lease fresh (case r of Inl e \<Rightarrow> is_transport_error e | Inr _ \<Rightarrow> False) w4)) w2)"

text \<open>The same calls with a log.\<close>

datatype 'c pool_call = CallAcquired 'c | CallOperation 'c "event_store_error option" | CallDropped 'c bool

definition logged_acquire where
  "logged_acquire acquire = (\<lambda>(w, log). case acquire w of
     (Inl e, w') \<Rightarrow> (Err e, w', log) | (Inr c, w') \<Rightarrow> (Ok c, w', log @ [CallAcquired c]))"
definition logged_drop where
  "logged_drop drop_lease c broken = (\<lambda>(w, log). (drop_lease c broken w, log @ [CallDropped c broken]))"
definition logged_operation where
  "logged_operation operation c = (\<lambda>(w, log). case operation c w of
     (Inl e, w') \<Rightarrow> (Err e, w', log @ [CallOperation c (Some e)])
   | (Inr a, w') \<Rightarrow> (Ok a, w', log @ [CallOperation c None]))"

lemmas logged_defs = logged_acquire_def logged_drop_def logged_operation_def

text \<open>One use of a lease: acquired, used once, given back, broken exactly after a transport error.\<close>

definition lease_use :: "'c \<Rightarrow> event_store_error option \<Rightarrow> 'c pool_call list" where
  "lease_use c failure = [CallAcquired c, CallOperation c failure,
     CallDropped c (case failure of None \<Rightarrow> False | Some e \<Rightarrow> is_transport_error e)]"

text \<open>\<open>read\<close> and \<open>write\<close> run an operation at most twice.  The second time happens only after a
  transport error, on a fresh lease and only if the pool can reconnect; any other error is
  returned at once.  Every lease is given back exactly once, marked broken exactly when its
  operation failed with a transport error; and the two functions are the same.\<close>

lemma pool_retry_discipline:
  "pool_read cc (logged_acquire acquire) (logged_drop drop_lease) (logged_operation operation) (w, []) = (r, w', log) \<Longrightarrow>
   pool_write cc acquire drop_lease operation = pool_read cc acquire drop_lease operation \<and>
   ((\<exists>e. log = [] \<and> r = Err e) \<or>
    (\<exists>c a. log = lease_use c None \<and> r = Ok a) \<or>
    (\<exists>c e. log = lease_use c (Some e) \<and> r = Err e \<and> (is_transport_error e \<longrightarrow> \<not> cc)) \<or>
    (\<exists>c e. is_transport_error e \<and> cc \<and>
       ((\<exists>e'. log = lease_use c (Some e) \<and> r = Err e') \<or>
        (\<exists>fresh a. log = lease_use c (Some e) @ lease_use fresh None \<and> r = Ok a) \<or>
        (\<exists>fresh e'. log = lease_use c (Some e) @ lease_use fresh (Some e') \<and> r = Err e'))))"
proof -
  have same: "pool_write cc acquire drop_lease operation = pool_read cc acquire drop_lease operation"
    unfolding pool_write_def pool_read_def
    by (rule arg_cong [where f = "try_op acquire"])
      (auto simp: fun_eq_iff Let_def try_op_def split: prod.splits sum.splits)
  show "pool_read cc (logged_acquire acquire) (logged_drop drop_lease) (logged_operation operation) (w, []) =
    (r, w', log) \<Longrightarrow> ?thesis"
    unfolding same
    by (auto simp: pool_read_def try_op_def logged_defs lease_use_def Let_def
        split: prod.splits sum.splits if_splits)
qed

lemma pool_retry_discipline_witness:
  "\<exists>r log. pool_read True (logged_acquire (\<lambda>n. (Ok n, n + 1))) (logged_drop (\<lambda>c b w. w))
      (logged_operation (\<lambda>c w. (if c = 0 then Err (error_backend ''gone'') else Ok c, w))) (0 :: nat, []) =
      (r, 2, log) \<and> r = Ok 1 \<and>
     log = lease_use 0 (Some (error_backend ''gone'')) @ lease_use 1 None"
proof -
  let ?run = "pool_read True (logged_acquire (\<lambda>n. (Ok n, n + 1))) (logged_drop (\<lambda>c b w. w))
      (logged_operation (\<lambda>c w. (if c = 0 then Err (error_backend ''gone'') else Ok c, w))) (0 :: nat, [])"
  have run: "?run = (Ok 1, 2, lease_use 0 (Some (error_backend ''gone'')) @ lease_use 1 None)"
    by (simp add: pool_read_def try_op_def logged_defs lease_use_def error_backend_def)
  from pool_retry_discipline [OF run] show ?thesis using run by blast
qed

end
