(* ===== verification/Json_Value.thy ===== *)
theory Json_Value
  imports Prelude
begin

text \<open>
  What the storage adapters use of JSON values and of integer parsing.  \<open>json\<close> has the constructors
  of \<open>serde_json::Value\<close> (a number is a \<open>u64\<close>, a negative \<open>i64\<close>, or a float kept as its text;
  an object has each key once).  The renderer and the parser of \<open>serde_json\<close> are not part of the
  repository: they are the fields of a \<open>codec\<close>, and \<open>codec_laws\<close> names what the code relies on.
  \<open>parse_u64\<close> and \<open>parse_i64\<close> are \<open>str::parse\<close> of the standard library with its error texts.
\<close>

section \<open>Values\<close>

datatype number = PosInt nat | NegInt int | Float string

datatype json =
    JNull
  | JBool bool
  | JNumber number
  | JString string
  | JArray "json list"
  | JObject "(string \<times> json) list"

fun as_object :: "json \<Rightarrow> (string \<times> json) list option" where
  "as_object (JObject fields) = Some fields"
| "as_object _ = None"

fun as_str :: "json \<Rightarrow> string option" where
  "as_str (JString s) = Some s"
| "as_str _ = None"

fun as_u64_value :: "json \<Rightarrow> nat option" where
  "as_u64_value (JNumber (PosInt n)) = Some n"
| "as_u64_value _ = None"

fun as_i64_value :: "json \<Rightarrow> int option" where
  "as_i64_value (JNumber (PosInt n)) = i64_try_from_u64 n"
| "as_i64_value (JNumber (NegInt z)) = Some z"
| "as_i64_value _ = None"

fun is_null :: "json \<Rightarrow> bool" where
  "is_null JNull = True"
| "is_null _ = False"

text \<open>\<open>Value::get\<close> of a key: the field of an object, nothing of any other value.\<close>

fun json_get :: "json \<Rightarrow> string \<Rightarrow> json option" where
  "json_get (JObject fields) key = map_of fields key"
| "json_get _ key = None"

definition json_nat :: "nat \<Rightarrow> json" where
  "json_nat n = JNumber (PosInt n)"

definition json_int :: "int \<Rightarrow> json" where
  "json_int z = JNumber (if 0 \<le> z then PosInt (nat z) else NegInt z)"

lemma as_value_simps [simp]:
  "as_u64_value (json_nat n) = Some n" "as_str (json_nat n) = None"
  "as_i64_value (json_nat n) = i64_try_from_u64 n"
  "as_str (json_int z) = None"
  by (simp_all add: json_nat_def json_int_def)

section \<open>Integer parsing\<close>

definition is_dec :: "char \<Rightarrow> bool" where
  "is_dec c \<longleftrightarrow> (48::nat) \<le> of_char c \<and> of_char c \<le> (57::nat)"

definition dec_val :: "char \<Rightarrow> nat" where
  "dec_val c = of_char c - 48"

definition empty_int_error :: string where
  "empty_int_error = ''cannot parse integer from empty string''"
definition invalid_digit_error :: string where
  "invalid_digit_error = ''invalid digit found in string''"
definition pos_overflow_error :: string where
  "pos_overflow_error = ''number too large to fit in target type''"
definition neg_overflow_error :: string where
  "neg_overflow_error = ''number too small to fit in target type''"

text \<open>The digits from the left; a value above \<open>limit\<close> ends the loop with \<open>overflow\<close>.\<close>

fun parse_digits :: "string \<Rightarrow> nat \<Rightarrow> nat \<Rightarrow> string \<Rightarrow> string + nat" where
  "parse_digits overflow limit acc [] = Ok acc"
| "parse_digits overflow limit acc (c # cs) =
     (if \<not> is_dec c then Err invalid_digit_error
      else if acc * 10 + dec_val c > limit then Err overflow
      else parse_digits overflow limit (acc * 10 + dec_val c) cs)"

definition parse_unsigned :: "nat \<Rightarrow> string \<Rightarrow> string + nat" where
  "parse_unsigned limit s =
     (case s of
        [] \<Rightarrow> Err empty_int_error
      | c # cs \<Rightarrow>
          if c = CHR ''+'' \<and> cs \<noteq> [] then parse_digits pos_overflow_error limit 0 cs
          else parse_digits pos_overflow_error limit 0 s)"

definition u32_max :: nat where "u32_max = 2 ^ 32 - 1"

abbreviation parse_u64 :: "string \<Rightarrow> string + nat" where "parse_u64 \<equiv> parse_unsigned u64_max"
abbreviation parse_u32 :: "string \<Rightarrow> string + nat" where "parse_u32 \<equiv> parse_unsigned u32_max"

definition parse_i64 :: "string \<Rightarrow> string + int" where
  "parse_i64 s =
     (case s of
        [] \<Rightarrow> Err empty_int_error
      | c # cs \<Rightarrow>
          if c = CHR ''-'' \<and> cs \<noteq> []
            then map_ok (\<lambda>n. - int n) (parse_digits neg_overflow_error (i64_max + 1) 0 cs)
          else if c = CHR ''+'' \<and> cs \<noteq> []
            then map_ok int (parse_digits pos_overflow_error i64_max 0 cs)
          else map_ok int (parse_digits pos_overflow_error i64_max 0 s))"

text \<open>A rendered integer is read back; the rendering of a negative one has its sign.\<close>

lemma is_dec_digit_char [simp]: "d < 10 \<Longrightarrow> is_dec (digit_char d)"
  by (auto simp: is_dec_def digit_char_def)

lemma dec_val_digit_char [simp]: "d < 10 \<Longrightarrow> dec_val (digit_char d) = d"
  by (auto simp: dec_val_def digit_char_def)

lemma parse_digits_append:
  "parse_digits ov limit acc (xs @ ys) =
     and_then (parse_digits ov limit acc xs) (\<lambda>a. parse_digits ov limit a ys)"
  by (induction xs arbitrary: acc) auto

lemma parse_digits_show_nat: "n \<le> limit \<Longrightarrow> parse_digits ov limit 0 (show_nat n) = Ok n"
proof (induction n rule: less_induct)
  case (less n)
  show ?case
  proof (cases "n < 10")
    case True
    then show ?thesis using less.prems by (subst radix.simps) simp
  next
    case False
    then have "parse_digits ov limit 0 (show_nat (n div 10)) = Ok (n div 10)"
      using less.prems by (intro less.IH) auto
    moreover have "n div 10 * 10 + n mod 10 = n" by simp
    ultimately show ?thesis using False less.prems
      by (subst radix.simps) (simp add: parse_digits_append)
  qed
qed

lemma show_nat_all_dec: "c \<in> set (show_nat n) \<Longrightarrow> is_dec c"
proof (induction n rule: less_induct)
  case (less n)
  show ?case
  proof (cases "n < 10")
    case False
    then have "c \<in> set (show_nat (n div 10)) \<or> c = digit_char (n mod 10)"
      using less.prems by (subst (asm) radix.simps) auto
    then show ?thesis using less.IH [of "n div 10"] False by auto
  qed (use less.prems in \<open>auto simp: radix.simps [of 10 n]\<close>)
qed

lemma not_dec [simp]: "\<not> is_dec CHR ''+''" "\<not> is_dec CHR ''-''" "\<not> is_dec (CHR 0x27)"
  "\<not> is_dec CHR ''$''"
  by (auto simp: is_dec_def)

lemma parse_unsigned_show_nat: "n \<le> limit \<Longrightarrow> parse_unsigned limit (show_nat n) = Ok n"
proof (cases "show_nat n")
  case (Cons c cs)
  assume "n \<le> limit"
  moreover have "c \<noteq> CHR ''+''" using show_nat_all_dec [of c n] Cons by auto
  ultimately show ?thesis using parse_digits_show_nat [of n limit] Cons
    by (simp add: parse_unsigned_def)
qed simp

lemma parse_i64_show_nat: "n \<le> i64_max \<Longrightarrow> parse_i64 (show_nat n) = Ok (int n)"
proof (cases "show_nat n")
  case (Cons c cs)
  assume n: "n \<le> i64_max"
  have "is_dec c" using show_nat_all_dec [of c n] Cons by simp
  then have "c \<noteq> CHR ''-''" "c \<noteq> CHR ''+''" by auto
  then show ?thesis using parse_digits_show_nat [OF n] Cons by (simp add: parse_i64_def)
qed simp

lemma parse_digits_le: "parse_digits ov limit acc s = Ok n \<Longrightarrow> acc \<le> limit \<Longrightarrow> n \<le> limit"
  by (induction s arbitrary: acc) (auto split: if_splits)

lemma parse_unsigned_le: "parse_unsigned limit s = Ok n \<Longrightarrow> n \<le> limit"
  by (auto simp: parse_unsigned_def simp del: parse_digits.simps
      split: list.splits if_splits dest: parse_digits_le [where acc = 0])

section \<open>Serialisation\<close>

text \<open>
  How \<open>serde_json\<close> treats one type: \<open>to_value\<close>, \<open>to_string\<close>, \<open>from_str\<close>, \<open>from_value\<close>, and the
  rendering of a value itself; an error is its display text.
\<close>

record 'a codec =
  cd_to_value :: "'a \<Rightarrow> string + json"
  cd_to_string :: "'a \<Rightarrow> string + string"
  cd_from_str :: "string \<Rightarrow> string + 'a"
  cd_from_value :: "json \<Rightarrow> string + 'a"
  cd_render :: "json \<Rightarrow> string + string"

text \<open>
  Serialising and reading back gives the value, through a JSON value or through its text, and the
  text of a value is the rendering of its JSON value.
\<close>

definition codec_laws :: "'a codec \<Rightarrow> bool" where
  "codec_laws C \<longleftrightarrow>
     (\<forall>a v. cd_to_value C a = Ok v \<longrightarrow> cd_from_value C v = Ok a) \<and>
     (\<forall>a v. cd_to_value C a = Ok v \<longrightarrow> cd_to_string C a = cd_render C v) \<and>
     (\<forall>v t. cd_render C v = Ok t \<longrightarrow> cd_from_str C t = cd_from_value C v)"

lemma codec_lawsD:
  assumes "codec_laws C"
  shows "cd_to_value C a = Ok v \<Longrightarrow> cd_from_value C v = Ok a"
    and "cd_to_value C a = Ok v \<Longrightarrow> cd_to_string C a = cd_render C v"
    and "cd_render C v = Ok t \<Longrightarrow> cd_from_str C t = cd_from_value C v"
  using assms by (auto simp: codec_laws_def)

end
