(* ===== verification/Sql_Common.thy ===== *)
theory Sql_Common
  imports Json_Value Store_Errors Event_Store
begin

text \<open>
  \<open>src/sql_common.rs\<close>: what every SQL and Redis store shares.  Table names are validated before
  they are spliced into a statement, driver messages are classified, the expected revision is
  checked, timestamps and identifiers are converted to what a column holds and back.  Serialisation
  is a \<open>codec\<close>.
\<close>

section \<open>Table names\<close>

definition is_ascii_alphabetic :: "char \<Rightarrow> bool" where
  "is_ascii_alphabetic c \<longleftrightarrow> (65::nat) \<le> of_char c \<and> of_char c \<le> (90::nat)
     \<or> (97::nat) \<le> of_char c \<and> of_char c \<le> (122::nat)"

definition is_ascii_alphanumeric :: "char \<Rightarrow> bool" where
  "is_ascii_alphanumeric c \<longleftrightarrow> is_ascii_alphabetic c \<or> is_dec c"

definition invalid_table_message :: "string \<Rightarrow> string" where
  "invalid_table_message table_name = ''invalid SQL event table name `'' @ table_name @ ''`''"

definition validate_table_name :: "string \<Rightarrow> event_store_error + unit" where
  "validate_table_name table_name =
     (case table_name of
        [] \<Rightarrow> Err (error_backend ''SQL event table name cannot be empty'')
      | first # chars \<Rightarrow>
          if \<not> (first = CHR ''_'' \<or> is_ascii_alphabetic first)
            then Err (error_backend (invalid_table_message table_name))
          else if list_all (\<lambda>ch. ch = CHR ''_'' \<or> is_ascii_alphanumeric ch) chars then Ok ()
          else Err (error_backend (invalid_table_message table_name)))"

section \<open>Driver messages\<close>

definition is_stream_revision_unique_violation_message :: "string \<Rightarrow> bool" where
  "is_stream_revision_unique_violation_message message =
     (let lower = to_ascii_lowercase message
      in if contains lower ''event_id'' then False
         else contains lower ''revision'' \<and>
           (contains lower ''aggregate_id'' \<or> contains lower ''aggregate_type''))"

definition is_mysql_stream_revision_unique_violation_message :: "string \<Rightarrow> bool" where
  "is_mysql_stream_revision_unique_violation_message message =
     (let lower = to_ascii_lowercase message
      in if contains lower ''event_id'' then False
         else contains lower ''revision'' \<or> contains lower ''aggregate_type'' \<or>
           contains lower ''aggregate_id'')"

fun map_stream_unique_violation :: "expected_revision \<Rightarrow> nat \<Rightarrow> event_store_error" where
  "map_stream_unique_violation NoStream current_revision = Concurrency StreamAlreadyExists"
| "map_stream_unique_violation expected current_revision =
     Concurrency (WrongExpectedRevision expected current_revision)"

definition stale_snapshot_revision_error :: "nat \<Rightarrow> nat \<Rightarrow> event_store_error" where
  "stale_snapshot_revision_error offered current =
     Concurrency (StaleSnapshotRevision offered current)"

section \<open>Expected revision\<close>

fun check_expected_revision :: "expected_revision \<Rightarrow> nat \<Rightarrow> event_store_error + unit" where
  "check_expected_revision Any actual = Ok ()"
| "check_expected_revision NoStream actual =
     (if actual = 0 then Ok () else Err (Concurrency StreamAlreadyExists))"
| "check_expected_revision (Exact expected) actual =
     (if expected = actual then Ok ()
      else Err (Concurrency (WrongExpectedRevision (Exact expected) actual)))"

lemma check_expected_revision_contract:
  "check_expected_revision expected actual =
     (if expectation_met expected actual then Ok ()
      else Err (Concurrency (expectation_error expected actual)))"
  by (cases expected) auto

text \<open>What a unique violation is reported as is what the check would have reported.\<close>

lemma map_stream_unique_violation_contract:
  "expected \<noteq> Any \<Longrightarrow>
   map_stream_unique_violation expected actual = Concurrency (expectation_error expected actual)"
  by (cases expected) auto

section \<open>Timestamps\<close>

text \<open>
  \<open>duration_since\<close> reports how far the time lies before the epoch: \<open>earlier\<close> is the text of that
  error.
\<close>

definition system_time_to_millis ::
  "(int \<Rightarrow> string) \<Rightarrow> system_time \<Rightarrow> event_store_error + int" where
  "system_time_to_millis earlier recorded_at =
     (if recorded_at < 0
      then Err (serialization_with_source
        (''recorded_at is before UNIX_EPOCH: '' @ earlier recorded_at) (earlier recorded_at))
      else case i64_try_from_u64 (nat recorded_at div 1000000) of
          None \<Rightarrow> Err (error_serialization ''recorded_at timestamp exceeds i64 millis'')
        | Some millis \<Rightarrow> Ok millis)"

definition millis_to_system_time :: "int \<Rightarrow> event_store_error + system_time" where
  "millis_to_system_time millis =
     (case u64_try_from_i64 millis of
        None \<Rightarrow> Err (error_deserialization ''recorded_at_ms cannot be negative'')
      | Some n \<Rightarrow> Ok (int (n * 1000000)))"

lemma system_time_roundtrip:
  assumes "system_time_to_millis earlier t = Ok m"
  shows "millis_to_system_time m = Ok (t - t mod 1000000) \<and> 0 \<le> m \<and> m \<le> int i64_max"
proof -
  from assms have t: "0 \<le> t" and m: "i64_try_from_u64 (nat t div 1000000) = Some m"
    by (auto simp: system_time_to_millis_def split: if_splits option.splits)
  then have "m = t div 1000000" and "m \<le> int i64_max"
    by (auto simp: i64_try_from_u64_def nat_div_distrib zdiv_int split: if_splits)
  moreover have "u64_try_from_i64 m = Some (nat t div 1000000)" using m by (rule u64_i64_roundtrip)
  moreover have "int (nat t div 1000000 * 1000000) = t - t mod 1000000"
    using t by (simp add: zdiv_int minus_mod_eq_div_mult)
  ultimately show ?thesis using t
    by (auto simp: millis_to_system_time_def pos_imp_zdiv_nonneg_iff)
qed

section \<open>Identifiers\<close>

definition serialize_id :: "'id codec \<Rightarrow> 'id \<Rightarrow> event_store_error + string" where
  "serialize_id C i =
     (case cd_to_value C i of
        Inl error \<Rightarrow> Err (serialization_with_source (''aggregate_id: '' @ error) error)
      | Inr (JString value) \<Rightarrow> Ok value
      | Inr other \<Rightarrow> map_err (\<lambda>error. serialization_with_source (''aggregate_id: '' @ error) error)
          (cd_render C other))"

definition aggregate_id_lookup_keys :: "'id codec \<Rightarrow> 'id \<Rightarrow> event_store_error + string list" where
  "aggregate_id_lookup_keys C i =
     and_then (serialize_id C i) (\<lambda>current.
       Ok (current # (case cd_to_string C i of
           Inr legacy \<Rightarrow> if legacy \<noteq> current then [legacy] else []
         | Inl _ \<Rightarrow> [])))"

fun max_revision_fold :: "(string \<Rightarrow> ('w, 'e + nat) op) \<Rightarrow> string list \<Rightarrow> nat \<Rightarrow> ('w, 'e + nat) op" where
  "max_revision_fold read [] m = return_op (Ok m)"
| "max_revision_fold read (key # keys) m =
     try_op (read key) (\<lambda>revision. max_revision_fold read keys (max m revision))"

definition max_revision_for_lookup_keys ::
  "string list \<Rightarrow> (string \<Rightarrow> ('w, 'e + nat) op) \<Rightarrow> ('w, 'e + nat) op" where
  "max_revision_for_lookup_keys keys read = max_revision_fold read keys 0"

definition deserialize_id :: "'id codec \<Rightarrow> string \<Rightarrow> event_store_error + 'id" where
  "deserialize_id C value =
     (case cd_from_str C value of
        Inr i \<Rightarrow> Ok i
      | Inl first \<Rightarrow>
          (case cd_render C (JString value) of
             Inl error \<Rightarrow> Err (deserialization_with_source (''aggregate_id: '' @ error) error)
           | Inr quoted \<Rightarrow>
               map_err (\<lambda>error. deserialization_with_source
                   (''aggregate_id: '' @ error @ '' (also tried legacy quoted form after '' @ first @ '')'')
                   error)
                 (cd_from_str C quoted)))"

section \<open>Payload and metadata\<close>

definition serialize_payload :: "'e codec \<Rightarrow> 'e \<Rightarrow> event_store_error + json" where
  "serialize_payload C event =
     map_err (\<lambda>error. serialization_with_source (''event payload: '' @ error) error)
       (cd_to_value C event)"

definition deserialize_payload ::
  "'e codec \<Rightarrow> string \<Rightarrow> string \<Rightarrow> json \<Rightarrow> event_store_error + 'e" where
  "deserialize_payload C event_id event_type value =
     map_err (\<lambda>error. deserialization_with_source
         (''event_id `'' @ event_id @ ''` event_type `'' @ event_type @ ''` payload: '' @ error) error)
       (cd_from_value C value)"

definition serialize_metadata :: "metadata codec \<Rightarrow> metadata \<Rightarrow> event_store_error + json" where
  "serialize_metadata C metadata =
     map_err (\<lambda>error. serialization_with_source (''metadata: '' @ error) error)
       (cd_to_value C metadata)"

definition deserialize_metadata :: "metadata codec \<Rightarrow> string \<Rightarrow> json \<Rightarrow> event_store_error + metadata" where
  "deserialize_metadata C event_id value =
     map_err (\<lambda>error. deserialization_with_source
         (''event_id `'' @ event_id @ ''` metadata: '' @ error) error)
       (cd_from_value C value)"

lemma payload_roundtrip:
  "codec_laws C \<Longrightarrow> serialize_payload C e = Ok v \<Longrightarrow> deserialize_payload C i t v = Ok e"
  by (auto simp: serialize_payload_def deserialize_payload_def result_simps dest: codec_lawsD)

lemma metadata_roundtrip:
  "codec_laws C \<Longrightarrow> serialize_metadata C m = Ok v \<Longrightarrow> deserialize_metadata C i v = Ok m"
  by (auto simp: serialize_metadata_def deserialize_metadata_def result_simps dest: codec_lawsD)

section \<open>Identifiers read back\<close>

text \<open>
  A codec for string identifiers, with quotes around the text and a backslash before a quote or a
  backslash of it: the concrete instance of the witnesses.
\<close>

definition quote_mark :: char where "quote_mark = CHR 0x22"
definition backslash :: char where "backslash = CHR 0x5C"

fun escape_text :: "string \<Rightarrow> string" where
  "escape_text [] = [quote_mark]"
| "escape_text (c # cs) =
     (if c = quote_mark \<or> c = backslash then backslash # c # escape_text cs else c # escape_text cs)"

fun unescape_text :: "string \<Rightarrow> string option" where
  "unescape_text [] = None"
| "unescape_text [c] = (if c = quote_mark then Some [] else None)"
| "unescape_text (c # d # cs) =
     (if c = backslash then map_option (Cons d) (unescape_text cs)
      else if c = quote_mark then None
      else map_option (Cons c) (unescape_text (d # cs)))"

lemma escape_text_nonempty [simp]: "escape_text s \<noteq> []"
  by (induction s) auto

lemma quote_mark_backslash [simp]: "quote_mark \<noteq> backslash"
  by (simp add: quote_mark_def backslash_def)

lemma unescape_escape: "unescape_text (escape_text s) = Some s"
proof (induction s)
  case (Cons c cs)
  obtain d ds where "escape_text cs = d # ds" by (cases "escape_text cs") auto
  then show ?case using Cons by auto
qed simp

definition string_codec :: "string codec" where
  "string_codec = \<lparr>cd_to_value = (\<lambda>s. Ok (JString s)), cd_to_string = (\<lambda>s. Ok (quote_mark # escape_text s)),
     cd_from_str = (\<lambda>t. case t of
         [] \<Rightarrow> Err ''EOF while parsing a value''
       | c # cs \<Rightarrow> if c \<noteq> quote_mark then Err ''expected value''
           else ok_or ''invalid string'' (unescape_text cs)),
     cd_from_value = (\<lambda>v. ok_or ''invalid type'' (as_str v)),
     cd_render = (\<lambda>v. ok_or ''not a string'' (map_option (\<lambda>s. quote_mark # escape_text s) (as_str v)))\<rparr>"

lemma as_str_Some: "as_str v = Some s \<longleftrightarrow> v = JString s"
  by (cases v) auto

lemma string_codec_laws: "codec_laws string_codec"
  by (auto simp: codec_laws_def string_codec_def result_simps as_str_Some unescape_escape)

text \<open>C38: an identifier written to a column is read back as itself, whatever shape its JSON value
  has, provided the text of a string identifier is not itself a JSON text the identifier type reads:
  serialisers that obey their laws make \<open>deserialize_id\<close> the inverse of \<open>serialize_id\<close>, through the
  quoted fall-back for plain strings and directly for every other value.\<close>

theorem id_column_roundtrip:
  assumes "codec_laws C" and "serialize_id C i = Ok text"
    and "\<And>s. cd_to_value C i = Ok (JString s) \<Longrightarrow>
      (\<exists>e. cd_from_str C s = Err e) \<and> (\<exists>q. cd_render C (JString s) = Ok q)"
  shows "deserialize_id C text = Ok i"
proof -
  obtain v where v: "cd_to_value C i = Ok v"
    using assms(2) by (cases "cd_to_value C i") (auto simp: serialize_id_def)
  have again: "cd_render C v = Ok t \<Longrightarrow> cd_from_str C t = Ok i" for t
    using codec_lawsD(1,3) [OF assms(1)] v by metis
  show ?thesis
  proof (cases "\<exists>s. v = JString s")
    case True
    then obtain s where s: "v = JString s" by blast
    with assms(2) v have "text = s" by (simp add: serialize_id_def)
    moreover obtain e q where "cd_from_str C s = Err e" "cd_render C (JString s) = Ok q"
      using assms(3) v s by blast
    ultimately show ?thesis using again s by (simp add: deserialize_id_def)
  next
    case False
    with assms(2) v have "cd_render C v = Ok text"
      by (cases v) (auto simp: serialize_id_def result_simps)
    then show ?thesis using again by (simp add: deserialize_id_def)
  qed
qed

theorem id_column_roundtrip_witness: "deserialize_id string_codec ''acct-1'' = Ok ''acct-1''"
  by (rule id_column_roundtrip [OF string_codec_laws])
     (auto simp: serialize_id_def string_codec_def quote_mark_def backslash_def)

text \<open>C39: the lookup keys of string identifiers overlap.  The legacy key of an identifier \<open>s\<close> is its
  quoted text \<open>q\<close>; that text is the current key of the identifier \<open>q\<close>, which is then read back as
  \<open>s\<close>.  A stream of the identifier \<open>q\<close> is one that a load of \<open>s\<close> looks into.\<close>

theorem quoted_id_aliases:
  fixes C :: "string codec"
  assumes "codec_laws C" and "\<And>s. cd_to_value C s = Ok (JString s)"
    and "cd_render C (JString s) = Ok q" and "q \<noteq> s"
  shows "aggregate_id_lookup_keys C s = Ok [s, q] \<and> serialize_id C q = Ok q \<and>
    (\<exists>keys. aggregate_id_lookup_keys C q = Ok (q # keys)) \<and> deserialize_id C q = Ok s"
proof -
  have "cd_to_string C s = Ok q" using codec_lawsD(2) [OF assms(1,2)] assms(3) by simp
  moreover have "cd_from_str C q = Ok s"
    using codec_lawsD(1) [OF assms(1,2)] codec_lawsD(3) [OF assms(1,3)] by metis
  ultimately show ?thesis using assms(2,4)
    by (simp add: aggregate_id_lookup_keys_def serialize_id_def deserialize_id_def)
qed

theorem quoted_id_aliases_witness:
  "serialize_id string_codec (quote_mark # escape_text ''a'') = Ok (quote_mark # escape_text ''a'') \<and>
   deserialize_id string_codec (quote_mark # escape_text ''a'') = Ok ''a''"
proof -
  have "aggregate_id_lookup_keys string_codec ''a'' = Ok [''a'', quote_mark # escape_text ''a''] \<and>
      serialize_id string_codec (quote_mark # escape_text ''a'') = Ok (quote_mark # escape_text ''a'') \<and>
      (\<exists>keys. aggregate_id_lookup_keys string_codec (quote_mark # escape_text ''a'') =
        Ok ((quote_mark # escape_text ''a'') # keys)) \<and>
      deserialize_id string_codec (quote_mark # escape_text ''a'') = Ok ''a''"
    by (rule quoted_id_aliases [OF string_codec_laws]) (simp_all add: string_codec_def quote_mark_def backslash_def)
  then show ?thesis by blast
qed

end
