(* ===== verification/Append_Atomic.thy ===== *)
theory Append_Atomic
  imports Sql_Common
begin

text \<open>
  \<open>src/adapters/append_atomic.rs\<close>: the single-statement append of the serverless adapters.  First the
  text and the parameters of the PostgreSQL and the SQLite statement, the parsing of what a database
  returns and the classification of an outcome, then the three entry points over a query executor.
  The last part reads the two statements as SQL does, over a table of rows, and relates them to the
  expected-revision check.
\<close>

section \<open>Rows and outcomes\<close>

definition GUARD_ANY :: nat where "GUARD_ANY = 0"
definition GUARD_NOSTREAM :: nat where "GUARD_NOSTREAM = 1"
definition GUARD_EXACT :: nat where "GUARD_EXACT = 2"

record append_event_row =
  ar_event_id :: string
  ar_event_type :: string
  ar_event_version :: nat
  ar_payload :: json
  ar_metadata :: json
  ar_recorded_at_ms :: int

record append_committed_row =
  ac_event_id :: string
  ac_revision :: nat
  ac_sequence :: nat

datatype append_atomic_result =
    Committed "append_committed_row list"
  | Conflict concurrency_error

definition validate_events_table_name :: "string \<Rightarrow> string + unit" where
  "validate_events_table_name table_name =
     (case table_name of
        [] \<Rightarrow> Err ''SQL event table name cannot be empty''
      | first # chars \<Rightarrow>
          if \<not> (first = CHR ''_'' \<or> is_ascii_alphabetic first)
            then Err (invalid_table_message table_name)
          else if list_all (\<lambda>ch. ch = CHR ''_'' \<or> is_ascii_alphanumeric ch) chars then Ok ()
          else Err (invalid_table_message table_name))"

fun guard_mode :: "expected_revision \<Rightarrow> nat \<times> nat" where
  "guard_mode Any = (GUARD_ANY, 0)"
| "guard_mode NoStream = (GUARD_NOSTREAM, 0)"
| "guard_mode (Exact revision) = (GUARD_EXACT, revision)"

section \<open>Statements\<close>

definition postgres_append_sql :: "string \<Rightarrow> string" where
  "postgres_append_sql table =
     ''WITH stream AS ( SELECT COALESCE(MAX(revision), 0)::bigint AS current_rev FROM '' @ table @
     '' WHERE aggregate_type = $1 AND aggregate_id = $2 ), '' @
     ''guard AS ( SELECT current_rev FROM stream WHERE $3 = 0 '' @
     ''OR ($3 = 1 AND current_rev = 0) OR ($3 = 2 AND current_rev = $4) ) '' @
     ''INSERT INTO '' @ table @ '' ( event_id, aggregate_id, aggregate_type, revision, event_type, '' @
     ''event_version, payload, metadata, recorded_at_ms ) '' @
     ''SELECT u.event_id, $2, $1, g.current_rev + u.row_offset, u.event_type, u.event_version, '' @
     ''u.payload, u.metadata, u.recorded_at_ms FROM guard g '' @
     ''CROSS JOIN UNNEST( $5::text[], $6::bigint[], $7::text[], $8::int[], $9::jsonb[], '' @
     ''$10::jsonb[], $11::bigint[] ) AS u( event_id, row_offset, event_type, event_version, '' @
     ''payload, metadata, recorded_at_ms ) RETURNING event_id, revision, sequence''"

definition enumerate_from_1 :: "'a list \<Rightarrow> (nat \<times> 'a) list" where
  "enumerate_from_1 rows = zip [1..<length rows + 1] rows"

definition build_postgres_append_statement ::
  "string \<Rightarrow> string \<Rightarrow> string \<Rightarrow> expected_revision \<Rightarrow> append_event_row list \<Rightarrow>
   string + string \<times> json list" where
  "build_postgres_append_statement table aggregate_type aggregate_id expected rows =
     and_then (validate_events_table_name table) (\<lambda>_.
       if rows = [] then Err ''append requires at least one event row''
       else let (mode, expected_revision) = guard_mode expected;
                event_ids = map (\<lambda>row. JString (ar_event_id row)) rows;
                row_offsets = map (\<lambda>(offset, row). json_nat offset) (enumerate_from_1 rows);
                event_types = map (\<lambda>row. JString (ar_event_type row)) rows;
                event_versions = map (\<lambda>row. json_nat (ar_event_version row)) rows;
                payloads = map ar_payload rows;
                metadata_values = map ar_metadata rows;
                recorded_at_values = map (\<lambda>row. json_int (ar_recorded_at_ms row)) rows
            in Ok (postgres_append_sql table,
                 [JString aggregate_type, JString aggregate_id, json_nat mode,
                  json_nat expected_revision, JArray event_ids, JArray row_offsets,
                  JArray event_types, JArray event_versions, JArray payloads,
                  JArray metadata_values, JArray recorded_at_values]))"

text \<open>One group of seven placeholders for each row, separated by commas.\<close>

fun values_sql :: "nat \<Rightarrow> string" where
  "values_sql 0 = []"
| "values_sql (Suc 0) = ''(?,?,?,?,?,?,?)''"
| "values_sql (Suc n) = values_sql n @ '', (?,?,?,?,?,?,?)''"

definition sqlite_append_sql :: "string \<Rightarrow> nat \<Rightarrow> string" where
  "sqlite_append_sql table n =
     ''WITH stream AS ( SELECT COALESCE(MAX(revision), 0) AS current_rev FROM '' @ table @
     '' WHERE aggregate_type = ? AND aggregate_id = ? ), '' @
     ''guard AS ( SELECT current_rev FROM stream WHERE ? = 0 '' @
     ''OR (? = 1 AND current_rev = 0) OR (? = 2 AND current_rev = ?) ) '' @
     ''INSERT INTO '' @ table @ '' ( event_id, aggregate_id, aggregate_type, revision, event_type, '' @
     ''event_version, payload, metadata, recorded_at_ms ) '' @
     ''SELECT u.event_id, ?, ?, g.current_rev + u.row_offset, u.event_type, u.event_version, '' @
     ''u.payload, u.metadata, u.recorded_at_ms FROM guard g '' @
     ''CROSS JOIN (VALUES '' @ values_sql n @ '') AS u( event_id, event_type, event_version, '' @
     ''payload, metadata, recorded_at_ms, row_offset ) RETURNING event_id, sequence, revision''"

definition sqlite_row_params :: "nat \<times> append_event_row \<Rightarrow> json list" where
  "sqlite_row_params = (\<lambda>(offset, row).
     [JString (ar_event_id row), JString (ar_event_type row), json_nat (ar_event_version row),
      ar_payload row, ar_metadata row, json_int (ar_recorded_at_ms row), json_nat offset])"

definition build_sqlite_append_statement ::
  "string \<Rightarrow> string \<Rightarrow> string \<Rightarrow> expected_revision \<Rightarrow> append_event_row list \<Rightarrow>
   string + string \<times> json list" where
  "build_sqlite_append_statement table aggregate_type aggregate_id expected rows =
     and_then (validate_events_table_name table) (\<lambda>_.
       if rows = [] then Err ''append requires at least one event row''
       else let (mode, expected_revision) = guard_mode expected
            in Ok (sqlite_append_sql table (length rows),
                 [JString aggregate_type, JString aggregate_id, json_nat mode,
                  json_nat GUARD_NOSTREAM, json_nat GUARD_EXACT, json_nat expected_revision,
                  JString aggregate_id, JString aggregate_type] @
                 concat (map sqlite_row_params (enumerate_from_1 rows))))"

definition current_revision_query_postgres :: "string \<Rightarrow> string" where
  "current_revision_query_postgres table =
     ''SELECT COALESCE(MAX(revision), 0) AS max_rev FROM '' @ table @
     '' WHERE aggregate_type = $1 AND aggregate_id = $2''"

definition current_revision_query_sqlite :: "string \<Rightarrow> string" where
  "current_revision_query_sqlite table =
     ''SELECT COALESCE(MAX(revision), 0) AS max_rev FROM '' @ table @
     '' WHERE aggregate_type = ? AND aggregate_id = ?''"

section \<open>Answers\<close>

definition parse_u64_field :: "(string \<times> json) list \<Rightarrow> string \<Rightarrow> string + nat" where
  "parse_u64_field obj key =
     (case map_of obj key of
        None \<Rightarrow> Err (''missing `'' @ key @ ''` in append row'')
      | Some value \<Rightarrow>
          (case as_u64_value value of
             Some number \<Rightarrow> Ok number
           | None \<Rightarrow>
               (case as_i64_value value of
                  Some number \<Rightarrow>
                    ok_or (''negative `'' @ key @ ''` in append row'') (u64_try_from_i64 number)
                | None \<Rightarrow>
                    (case as_str value of
                       Some t \<Rightarrow>
                         map_err (\<lambda>error. ''invalid `'' @ key @ ''` `'' @ t @ ''`: '' @ error) (parse_u64 t)
                     | None \<Rightarrow> Err (''unsupported `'' @ key @ ''` type in append row'')))))"

definition parse_committed_row :: "json \<Rightarrow> string + append_committed_row" where
  "parse_committed_row row =
     and_then (ok_or ''append row is not a JSON object'' (as_object row)) (\<lambda>obj.
     and_then (ok_or ''missing `event_id` in append row''
         (Option.bind (map_of obj ''event_id'') as_str)) (\<lambda>event_id.
     and_then (parse_u64_field obj ''revision'') (\<lambda>revision.
     and_then (parse_u64_field obj ''sequence'') (\<lambda>sequence.
       Ok \<lparr>ac_event_id = event_id, ac_revision = revision, ac_sequence = sequence\<rparr>))))"

definition parse_committed_rows :: "json list \<Rightarrow> string + append_committed_row list" where
  "parse_committed_rows rows = collect_results parse_committed_row rows"

definition parse_revision_value :: "json \<Rightarrow> string + nat" where
  "parse_revision_value value =
     (case as_u64_value value of
        Some number \<Rightarrow> Ok number
      | None \<Rightarrow>
          (case as_i64_value value of
             Some number \<Rightarrow> ok_or ''revision probe returned negative value'' (u64_try_from_i64 number)
           | None \<Rightarrow>
               (case as_str value of
                  Some t \<Rightarrow>
                    map_err (\<lambda>error. ''invalid revision probe `'' @ t @ ''`: '' @ error) (parse_u64 t)
                | None \<Rightarrow> Err ''unsupported revision probe value'')))"

definition parse_current_revision :: "json list \<Rightarrow> string + nat" where
  "parse_current_revision rows =
     (case rows of
        [] \<Rightarrow> Err ''revision probe returned no rows''
      | row # _ \<Rightarrow>
          (case json_get row ''max_rev'' of
             None \<Rightarrow> Err ''revision probe returned no rows''
           | Some value \<Rightarrow> parse_revision_value value))"

fun conflict_for_revision :: "expected_revision \<Rightarrow> nat \<Rightarrow> append_atomic_result" where
  "conflict_for_revision NoStream actual = Conflict StreamAlreadyExists"
| "conflict_for_revision expected actual = Conflict (WrongExpectedRevision expected actual)"

definition is_revision_unique_violation :: "string \<Rightarrow> bool" where
  "is_revision_unique_violation message =
     (let lower = to_ascii_lowercase message
      in (contains lower ''unique'' \<or> contains lower ''23505'' \<or> contains lower ''duplicate'') \<and>
         (contains lower ''revision'' \<or> contains lower ''aggregate''))"

definition resolve_append_outcome ::
  "expected_revision \<Rightarrow> json list \<Rightarrow> nat \<Rightarrow> string option \<Rightarrow> string + append_atomic_result" where
  "resolve_append_outcome expected rows actual_revision transport_error =
     (case transport_error of
        Some error \<Rightarrow>
          if is_revision_unique_violation error
          then Ok (conflict_for_revision expected actual_revision) else Err error
      | None \<Rightarrow>
          if rows = [] then Ok (conflict_for_revision expected actual_revision)
          else and_then (parse_committed_rows rows) (\<lambda>committed. Ok (Committed committed)))"

section \<open>Entry points\<close>

text \<open>
  A query executor (\<open>execute_neon_query\<close> and its siblings, with their URL and credential) takes the
  statement and its parameters.
\<close>

type_synonym 'w executor = "string \<Rightarrow> json list \<Rightarrow> ('w, string + json list) op"

definition read_current_revision_neon ::
  "'w executor \<Rightarrow> string \<Rightarrow> string \<Rightarrow> string \<Rightarrow> ('w, string + nat) op" where
  "read_current_revision_neon execute_neon_query table aggregate_type aggregate_id =
     try_op (execute_neon_query (current_revision_query_postgres table)
         [JString aggregate_type, JString aggregate_id])
       (\<lambda>rows. return_op (parse_current_revision rows))"

definition append_atomic_neon ::
  "'w executor \<Rightarrow> string \<Rightarrow> string \<Rightarrow> string \<Rightarrow> expected_revision \<Rightarrow> append_event_row list \<Rightarrow>
   ('w, string + append_atomic_result) op" where
  "append_atomic_neon execute_neon_query table aggregate_type aggregate_id expected rows =
     (if rows = [] then return_op (Ok (Committed []))
      else try_op (return_op (build_postgres_append_statement table aggregate_type aggregate_id expected rows))
        (\<lambda>(sql, params) w. case execute_neon_query sql params w of
            (Inl error, w1) \<Rightarrow>
              if is_revision_unique_violation error
              then try_op (read_current_revision_neon execute_neon_query table aggregate_type aggregate_id)
                     (\<lambda>actual. return_op (Ok (conflict_for_revision expected actual))) w1
              else (Err error, w1)
          | (Inr inserted, w1) \<Rightarrow>
              if inserted \<noteq> [] then (map_ok Committed (parse_committed_rows inserted), w1)
              else try_op (read_current_revision_neon execute_neon_query table aggregate_type aggregate_id)
                     (\<lambda>actual. return_op (Ok (conflict_for_revision expected actual))) w1))"

definition read_current_revision_libsql ::
  "'w executor \<Rightarrow> string \<Rightarrow> string \<Rightarrow> string \<Rightarrow> ('w, string + nat) op" where
  "read_current_revision_libsql execute_libsql_query table aggregate_type aggregate_id =
     try_op (execute_libsql_query (current_revision_query_sqlite table)
         [JString aggregate_type, JString aggregate_id])
       (\<lambda>rows. return_op (parse_current_revision rows))"

definition append_atomic_libsql ::
  "'w executor \<Rightarrow> string \<Rightarrow> string \<Rightarrow> string \<Rightarrow> expected_revision \<Rightarrow> append_event_row list \<Rightarrow>
   ('w, string + append_atomic_result) op" where
  "append_atomic_libsql execute_libsql_query table aggregate_type aggregate_id expected rows =
     (if rows = [] then return_op (Ok (Committed []))
      else try_op (return_op (build_sqlite_append_statement table aggregate_type aggregate_id expected rows))
        (\<lambda>(sql, params) w. case execute_libsql_query sql params w of
            (Inl error, w1) \<Rightarrow>
              if is_revision_unique_violation error
              then try_op (read_current_revision_libsql execute_libsql_query table aggregate_type aggregate_id)
                     (\<lambda>actual. return_op (Ok (conflict_for_revision expected actual))) w1
              else (Err error, w1)
          | (Inr inserted, w1) \<Rightarrow>
              if inserted \<noteq> [] then (map_ok Committed (parse_committed_rows inserted), w1)
              else try_op (read_current_revision_libsql execute_libsql_query table aggregate_type aggregate_id)
                     (\<lambda>actual. return_op (Ok (conflict_for_revision expected actual))) w1))"

definition read_current_revision_supabase ::
  "'w executor \<Rightarrow> string \<Rightarrow> string \<Rightarrow> string \<Rightarrow> ('w, string + nat) op" where
  "read_current_revision_supabase execute_supabase_query table aggregate_type aggregate_id =
     try_op (execute_supabase_query (current_revision_query_postgres table)
         [JString aggregate_type, JString aggregate_id])
       (\<lambda>rows. return_op (parse_current_revision rows))"

definition append_atomic_supabase ::
  "'w executor \<Rightarrow> string \<Rightarrow> string \<Rightarrow> string \<Rightarrow> expected_revision \<Rightarrow> append_event_row list \<Rightarrow>
   ('w, string + append_atomic_result) op" where
  "append_atomic_supabase execute_supabase_query table aggregate_type aggregate_id expected rows =
     (if rows = [] then return_op (Ok (Committed []))
      else try_op (return_op (build_postgres_append_statement table aggregate_type aggregate_id expected rows))
        (\<lambda>(sql, params) w. case execute_supabase_query sql params w of
            (Inl error, w1) \<Rightarrow>
              if is_revision_unique_violation error
              then try_op (read_current_revision_supabase execute_supabase_query table aggregate_type aggregate_id)
                     (\<lambda>actual. return_op (Ok (conflict_for_revision expected actual))) w1
              else (Err error, w1)
          | (Inr inserted, w1) \<Rightarrow>
              if inserted \<noteq> [] then (map_ok Committed (parse_committed_rows inserted), w1)
              else try_op (read_current_revision_supabase execute_supabase_query table aggregate_type aggregate_id)
                     (\<lambda>actual. return_op (Ok (conflict_for_revision expected actual))) w1))"

end
