(* ===== verification/Append_Semantics.thy ===== *)
theory Append_Semantics
  imports Append_Atomic
begin

text \<open>
  What the two append statements of \<open>Append_Atomic\<close> do to an events table.  A table is its rows in
  insertion order and the next value of its sequence.  The clauses of the statements are read as SQL
  reads them: \<open>stream\<close> is the greatest revision of the stream, \<open>guard\<close> the WHERE clause over the
  bound parameters, \<open>UNNEST\<close> and \<open>VALUES\<close> the rows to insert, and a unique constraint that would be
  violated fails the whole statement.
\<close>

section \<open>Tables\<close>

record sql_row =
  sr_event_id :: string
  sr_aggregate_id :: string
  sr_aggregate_type :: string
  sr_revision :: nat
  sr_sequence :: nat
  sr_event_type :: string
  sr_event_version :: nat
  sr_payload :: json
  sr_metadata :: json
  sr_recorded_at_ms :: int

record sql_table =
  tb_rows :: "sql_row list"
  tb_next_sequence :: nat

definition stream_rows :: "string \<Rightarrow> string \<Rightarrow> sql_table \<Rightarrow> sql_row list" where
  "stream_rows aggregate_type aggregate_id t =
     filter (\<lambda>r. sr_aggregate_type r = aggregate_type \<and> sr_aggregate_id r = aggregate_id) (tb_rows t)"

text \<open>\<open>COALESCE(MAX(revision), 0)\<close>.\<close>

definition current_rev :: "string \<Rightarrow> string \<Rightarrow> sql_table \<Rightarrow> nat" where
  "current_rev aggregate_type aggregate_id t =
     foldr max (map sr_revision (stream_rows aggregate_type aggregate_id t)) 0"

text \<open>Parameters as the columns they are bound to.\<close>

fun cell_nat :: "json \<Rightarrow> nat" where
  "cell_nat (JNumber (PosInt n)) = n"
| "cell_nat _ = 0"

fun cell_int :: "json \<Rightarrow> int" where
  "cell_int (JNumber (PosInt n)) = int n"
| "cell_int (JNumber (NegInt z)) = z"
| "cell_int _ = 0"

fun cell_text :: "json \<Rightarrow> string" where
  "cell_text (JString s) = s"
| "cell_text _ = []"

fun cell_array :: "json \<Rightarrow> json list" where
  "cell_array (JArray vs) = vs"
| "cell_array _ = []"

lemma cell_simps [simp]:
  "cell_nat (json_nat n) = n" "cell_int (json_int z) = z" "cell_int (json_nat n) = int n"
  by (auto simp: json_nat_def json_int_def)

text \<open>
  The rows of an INSERT in order, each with the next sequence, unless an event identifier or a
  revision of the stream is already taken; \<open>duplicate\<close> is the driver's text of that failure.
\<close>

fun number_rows :: "nat \<Rightarrow> sql_row list \<Rightarrow> sql_row list" where
  "number_rows s [] = []"
| "number_rows s (r # rs) = r\<lparr>sr_sequence := s\<rparr> # number_rows (s + 1) rs"

definition revision_key :: "sql_row \<Rightarrow> string \<times> string \<times> nat" where
  "revision_key r = (sr_aggregate_type r, sr_aggregate_id r, sr_revision r)"

definition insert_rows ::
  "string \<Rightarrow> sql_row list \<Rightarrow> (sql_table, string + sql_row list) op" where
  "insert_rows duplicate new t =
     (let rows = number_rows (tb_next_sequence t) new;
          all = tb_rows t @ rows
      in if distinct (map sr_event_id all) \<and> distinct (map revision_key all)
         then (Ok rows, t\<lparr>tb_rows := all, tb_next_sequence := tb_next_sequence t + length new\<rparr>)
         else (Err duplicate, t))"

section \<open>The PostgreSQL statement\<close>

definition postgres_guard :: "json list \<Rightarrow> nat \<Rightarrow> bool" where
  "postgres_guard params current \<longleftrightarrow>
     cell_nat (params ! 2) = 0 \<or> (cell_nat (params ! 2) = 1 \<and> current = 0) \<or>
     (cell_nat (params ! 2) = 2 \<and> current = cell_nat (params ! 3))"

definition postgres_unnest :: "json list \<Rightarrow> nat \<Rightarrow> sql_row list" where
  "postgres_unnest params current =
     map (\<lambda>i. \<lparr>sr_event_id = cell_text (cell_array (params ! 4) ! i),
        sr_aggregate_id = cell_text (params ! 1), sr_aggregate_type = cell_text (params ! 0),
        sr_revision = current + cell_nat (cell_array (params ! 5) ! i), sr_sequence = 0,
        sr_event_type = cell_text (cell_array (params ! 6) ! i),
        sr_event_version = cell_nat (cell_array (params ! 7) ! i),
        sr_payload = cell_array (params ! 8) ! i, sr_metadata = cell_array (params ! 9) ! i,
        sr_recorded_at_ms = cell_int (cell_array (params ! 10) ! i)\<rparr>)
       [0..<length (cell_array (params ! 4))]"

definition run_postgres_append ::
  "string \<Rightarrow> json list \<Rightarrow> (sql_table, string + sql_row list) op" where
  "run_postgres_append duplicate params t =
     (let current = current_rev (cell_text (params ! 0)) (cell_text (params ! 1)) t
      in insert_rows duplicate
           (if postgres_guard params current then postgres_unnest params current else []) t)"

section \<open>The SQLite statement\<close>

text \<open>The placeholders in the order of the text: two in \<open>stream\<close>, four in \<open>guard\<close>, two in the
  SELECT list, then seven for each row.\<close>

definition sqlite_guard :: "json list \<Rightarrow> nat \<Rightarrow> bool" where
  "sqlite_guard params current \<longleftrightarrow>
     cell_nat (params ! 2) = 0 \<or> (cell_nat (params ! 3) = 1 \<and> current = 0) \<or>
     (cell_nat (params ! 4) = 2 \<and> current = cell_nat (params ! 5))"

fun sqlite_values :: "string \<Rightarrow> string \<Rightarrow> nat \<Rightarrow> json list \<Rightarrow> sql_row list" where
  "sqlite_values aggregate_id aggregate_type current
     (event_id # event_type # event_version # payload # metadata # recorded_at_ms # row_offset # rest) =
     \<lparr>sr_event_id = cell_text event_id, sr_aggregate_id = aggregate_id,
      sr_aggregate_type = aggregate_type, sr_revision = current + cell_nat row_offset,
      sr_sequence = 0, sr_event_type = cell_text event_type,
      sr_event_version = cell_nat event_version, sr_payload = payload, sr_metadata = metadata,
      sr_recorded_at_ms = cell_int recorded_at_ms\<rparr> #
     sqlite_values aggregate_id aggregate_type current rest"
| "sqlite_values aggregate_id aggregate_type current _ = []"

definition run_sqlite_append ::
  "string \<Rightarrow> json list \<Rightarrow> (sql_table, string + sql_row list) op" where
  "run_sqlite_append duplicate params t =
     (let current = current_rev (cell_text (params ! 0)) (cell_text (params ! 1)) t
      in insert_rows duplicate
           (if sqlite_guard params current
            then sqlite_values (cell_text (params ! 6)) (cell_text (params ! 7)) current (drop 8 params)
            else []) t)"

section \<open>Executors over a table\<close>

text \<open>
  \<open>cell\<close> is how the driver returns a 64-bit column: as a JSON number or as decimal text.  The
  RETURNING clause names the columns of the answer.
\<close>

definition returning_row :: "(nat \<Rightarrow> json) \<Rightarrow> sql_row \<Rightarrow> json" where
  "returning_row cell r = JObject [(''event_id'', JString (sr_event_id r)),
     (''revision'', cell (sr_revision r)), (''sequence'', cell (sr_sequence r))]"

definition table_executor ::
  "(string \<Rightarrow> json list \<Rightarrow> bool) \<Rightarrow> (json list \<Rightarrow> (sql_table, string + sql_row list) op) \<Rightarrow> string \<Rightarrow>
   (nat \<Rightarrow> json) \<Rightarrow> sql_table executor" where
  "table_executor is_append run_append query cell sql params t =
     (if sql = query
      then (Ok [JObject [(''max_rev'', cell (current_rev (cell_text (params ! 0)) (cell_text (params ! 1)) t))]], t)
      else if is_append sql params
      then (case run_append params t of (r, t') \<Rightarrow> (map_ok (map (returning_row cell)) r, t'))
      else (Err ''syntax error'', t))"

definition postgres_executor :: "string \<Rightarrow> string \<Rightarrow> (nat \<Rightarrow> json) \<Rightarrow> sql_table executor" where
  "postgres_executor table duplicate cell =
     table_executor (\<lambda>sql params. sql = postgres_append_sql table) (run_postgres_append duplicate)
       (current_revision_query_postgres table) cell"

definition sqlite_executor :: "string \<Rightarrow> string \<Rightarrow> (nat \<Rightarrow> json) \<Rightarrow> sql_table executor" where
  "sqlite_executor table duplicate cell =
     table_executor (\<lambda>sql params. sql = sqlite_append_sql table ((length params - 8) div 7))
       (run_sqlite_append duplicate)
       (current_revision_query_sqlite table) cell"

definition integer_cell :: "(nat \<Rightarrow> json) \<Rightarrow> bool" where
  "integer_cell cell \<longleftrightarrow> (\<forall>n. cell n = json_nat n \<or> cell n = JString (show_nat n))"

section \<open>The rows an append writes\<close>

definition new_row :: "string \<Rightarrow> string \<Rightarrow> nat \<Rightarrow> nat \<times> append_event_row \<Rightarrow> sql_row" where
  "new_row aggregate_type aggregate_id current = (\<lambda>(offset, row).
     \<lparr>sr_event_id = ar_event_id row, sr_aggregate_id = aggregate_id,
      sr_aggregate_type = aggregate_type, sr_revision = current + offset, sr_sequence = 0,
      sr_event_type = ar_event_type row, sr_event_version = ar_event_version row,
      sr_payload = ar_payload row, sr_metadata = ar_metadata row,
      sr_recorded_at_ms = ar_recorded_at_ms row\<rparr>)"

definition new_rows ::
  "string \<Rightarrow> string \<Rightarrow> append_event_row list \<Rightarrow> sql_table \<Rightarrow> sql_row list" where
  "new_rows aggregate_type aggregate_id rows t =
     number_rows (tb_next_sequence t)
       (map (new_row aggregate_type aggregate_id (current_rev aggregate_type aggregate_id t))
          (enumerate_from_1 rows))"

definition committed_row :: "sql_row \<Rightarrow> append_committed_row" where
  "committed_row r = \<lparr>ac_event_id = sr_event_id r, ac_revision = sr_revision r,
     ac_sequence = sr_sequence r\<rparr>"

definition after_append ::
  "string \<Rightarrow> string \<Rightarrow> append_event_row list \<Rightarrow> sql_table \<Rightarrow> sql_table" where
  "after_append aggregate_type aggregate_id rows t =
     t\<lparr>tb_rows := tb_rows t @ new_rows aggregate_type aggregate_id rows t,
       tb_next_sequence := tb_next_sequence t + length rows\<rparr>"

text \<open>The state an append is stated for: no row's event identifier is taken, the table holds its
  constraints, and no 64-bit column overflows.\<close>

definition append_possible ::
  "string \<Rightarrow> string \<Rightarrow> append_event_row list \<Rightarrow> sql_table \<Rightarrow> bool" where
  "append_possible aggregate_type aggregate_id rows t \<longleftrightarrow>
     distinct (map sr_event_id (tb_rows t) @ map ar_event_id rows) \<and>
     distinct (map revision_key (tb_rows t)) \<and>
     current_rev aggregate_type aggregate_id t + length rows \<le> u64_max \<and>
     tb_next_sequence t + length rows \<le> u64_max"

lemma number_rows_map:
  "(\<And>r s. f (r\<lparr>sr_sequence := s\<rparr>) = f r) \<Longrightarrow> map f (number_rows s rs) = map f rs"
  by (induction rs arbitrary: s) auto

lemma number_rows_length [simp]: "length (number_rows s rs) = length rs"
  by (induction rs arbitrary: s) auto

lemma number_rows_sequence:
  "r \<in> set (number_rows s rs) \<Longrightarrow> s \<le> sr_sequence r \<and> sr_sequence r < s + length rs"
  by (induction rs arbitrary: s) force+

lemma enumerate_from_1_simps [simp]:
  "length (enumerate_from_1 rows) = length rows"
  "map fst (enumerate_from_1 rows) = [1..<length rows + 1]"
  "map snd (enumerate_from_1 rows) = rows"
  by (simp_all add: enumerate_from_1_def del: upt_Suc)

lemma enumerate_from_1_nth:
  "i < length rows \<Longrightarrow> enumerate_from_1 rows ! i = (Suc i, rows ! i)"
  by (simp add: enumerate_from_1_def del: upt_Suc)

lemma enumerate_from_1_map: "map f (enumerate_from_1 rows) = map (\<lambda>i. f (Suc i, rows ! i)) [0..<length rows]"
  by (rule nth_equalityI) (simp_all add: enumerate_from_1_nth)

lemma current_rev_bound:
  "r \<in> set (tb_rows t) \<Longrightarrow> sr_aggregate_type r = at \<Longrightarrow> sr_aggregate_id r = ai \<Longrightarrow>
   sr_revision r \<le> current_rev at ai t"
proof -
  have "x \<in> set xs \<Longrightarrow> x \<le> foldr max xs (0::nat)" for x xs by (induction xs) auto
  then show "r \<in> set (tb_rows t) \<Longrightarrow> sr_aggregate_type r = at \<Longrightarrow> sr_aggregate_id r = ai \<Longrightarrow>
      sr_revision r \<le> current_rev at ai t"
    by (simp add: current_rev_def stream_rows_def)
qed

lemma insert_new_rows:
  assumes "append_possible at ai rows t"
  shows "insert_rows duplicate
      (map (new_row at ai (current_rev at ai t)) (enumerate_from_1 rows)) t =
    (Ok (new_rows at ai rows t), after_append at ai rows t)"
proof -
  let ?new = "map (new_row at ai (current_rev at ai t)) (enumerate_from_1 rows)"
  let ?rows = "number_rows (tb_next_sequence t) ?new"
  have ids: "map sr_event_id ?rows = map ar_event_id rows"
    by (subst number_rows_map)
       (auto simp: new_row_def enumerate_from_1_nth intro!: nth_equalityI)
  have keys: "map revision_key ?rows = map (\<lambda>i. (at, ai, current_rev at ai t + Suc i)) [0..<length rows]"
    by (subst number_rows_map) (simp_all add: new_row_def revision_key_def enumerate_from_1_map)
  have "(at, ai, current_rev at ai t + Suc i) \<noteq> revision_key r" if "r \<in> set (tb_rows t)" for r i
    using current_rev_bound [OF that, of at ai] by (auto simp: revision_key_def)
  then have "distinct (map revision_key (tb_rows t @ ?rows))"
    using assms unfolding map_append keys
    by (auto simp: append_possible_def distinct_map inj_on_def)
  moreover have "distinct (map sr_event_id (tb_rows t @ ?rows))"
    using assms unfolding map_append ids by (simp add: append_possible_def)
  ultimately show ?thesis by (simp add: insert_rows_def new_rows_def after_append_def Let_def)
qed

lemma insert_no_rows: "append_possible at ai rows t \<Longrightarrow> insert_rows duplicate [] t = (Ok [], t)"
  by (simp add: insert_rows_def append_possible_def)

lemma new_rows_nonempty [simp]: "new_rows at ai rows t = [] \<longleftrightarrow> rows = []"
  by (metis enumerate_from_1_simps(1) length_0_conv length_map new_rows_def number_rows_length)

lemma new_rows_bounds:
  assumes "append_possible at ai rows t" and "r \<in> set (new_rows at ai rows t)"
  shows "sr_revision r \<le> u64_max \<and> sr_sequence r \<le> u64_max"
proof -
  have "sr_sequence r < tb_next_sequence t + length rows"
    using number_rows_sequence [OF assms(2) [unfolded new_rows_def]] by simp
  moreover have "sr_revision r \<in> set (map sr_revision (new_rows at ai rows t))" using assms(2) by simp
  then have "sr_revision r \<le> current_rev at ai t + length rows"
    unfolding new_rows_def by (subst (asm) number_rows_map) (auto simp: new_row_def enumerate_from_1_map)
  ultimately show ?thesis using assms(1) by (auto simp: append_possible_def)
qed

lemma cell_cases:
  assumes "integer_cell cell" "n \<le> u64_max"
  shows "map_of obj key = Some (cell n) \<Longrightarrow> parse_u64_field obj key = Ok n"
    and "parse_revision_value (cell n) = Ok n"
  using assms(1) [unfolded integer_cell_def, rule_format, of n] parse_unsigned_show_nat [OF assms(2)]
  by (auto simp: parse_u64_field_def parse_revision_value_def)

lemma parse_returning_rows:
  assumes "integer_cell cell" and "\<And>r. r \<in> set rs \<Longrightarrow> sr_revision r \<le> u64_max \<and> sr_sequence r \<le> u64_max"
  shows "parse_committed_rows (map (returning_row cell) rs) = Ok (map committed_row rs)"
proof -
  have "parse_committed_row (returning_row cell r) = Ok (committed_row r)" if "r \<in> set rs" for r
    using assms(2) [OF that]
      cell_cases(1) [OF assms(1), of "sr_revision r" "the (as_object (returning_row cell r))" "''revision''"]
      cell_cases(1) [OF assms(1), of "sr_sequence r" "the (as_object (returning_row cell r))" "''sequence''"]
    by (simp add: parse_committed_row_def returning_row_def committed_row_def)
  then have "collect_results (\<lambda>r. parse_committed_row (returning_row cell r)) rs = Ok (map committed_row rs)"
    by (intro collect_results_total) auto
  moreover have "collect_results f (map g xs) = collect_results (\<lambda>x. f (g x)) xs" for f :: "json \<Rightarrow> string + append_committed_row" and g :: "sql_row \<Rightarrow> json" and xs
    by (induction xs) auto
  ultimately show ?thesis by (simp add: parse_committed_rows_def)
qed

section \<open>The two statements on a table\<close>

lemma postgres_guard_expectation:
  assumes "build_postgres_append_statement table at ai expected rows = Ok (sql, params)"
  shows "postgres_guard params current = expectation_met expected current"
  using assms
  by (cases expected) (auto simp: build_postgres_append_statement_def postgres_guard_def result_simps
      GUARD_ANY_def GUARD_NOSTREAM_def GUARD_EXACT_def Let_def split: if_splits)

lemma run_postgres_append_eq:
  assumes "build_postgres_append_statement table at ai expected rows = Ok (sql, params)"
  shows "sql = postgres_append_sql table \<and>
    run_postgres_append duplicate params t =
      insert_rows duplicate (if expectation_met expected (current_rev at ai t)
        then map (new_row at ai (current_rev at ai t)) (enumerate_from_1 rows) else []) t"
proof -
  from assms have params: "sql = postgres_append_sql table \<and>
     (\<exists>mode er. params = [JString at, JString ai, json_nat mode, json_nat er,
        JArray (map (\<lambda>row. JString (ar_event_id row)) rows),
        JArray (map (\<lambda>(offset, row). json_nat offset) (enumerate_from_1 rows)),
        JArray (map (\<lambda>row. JString (ar_event_type row)) rows),
        JArray (map (\<lambda>row. json_nat (ar_event_version row)) rows), JArray (map ar_payload rows),
        JArray (map ar_metadata rows), JArray (map (\<lambda>row. json_int (ar_recorded_at_ms row)) rows)])"
    by (auto simp: build_postgres_append_statement_def result_simps Let_def split: if_splits prod.splits)
  then have "postgres_unnest params current = map (new_row at ai current) (enumerate_from_1 rows)" for current
    by (auto simp: postgres_unnest_def new_row_def enumerate_from_1_nth intro!: nth_equalityI)
  with params show ?thesis
    by (auto simp: run_postgres_append_def postgres_guard_expectation [OF assms])
qed

definition sqlite_expectation_met :: "expected_revision \<Rightarrow> nat \<Rightarrow> bool" where
  "sqlite_expectation_met expected current \<longleftrightarrow> current = 0 \<or> expectation_met expected current"

lemma sqlite_values_params:
  "sqlite_values ai at current (concat (map sqlite_row_params rs)) = map (new_row at ai current) rs"
  by (induction rs) (auto simp: sqlite_row_params_def new_row_def)

lemma sqlite_params_length: "length (concat (map sqlite_row_params rs)) = 7 * length rs"
  by (induction rs) (auto simp: sqlite_row_params_def)

lemma run_sqlite_append_eq:
  assumes "build_sqlite_append_statement table at ai expected rows = Ok (sql, params)"
  shows "sql = sqlite_append_sql table ((length params - 8) div 7) \<and>
    run_sqlite_append duplicate params t =
      insert_rows duplicate (if sqlite_expectation_met expected (current_rev at ai t)
        then map (new_row at ai (current_rev at ai t)) (enumerate_from_1 rows) else []) t"
proof -
  from assms obtain mode er where mode: "guard_mode expected = (mode, er)"
    and sql: "sql = sqlite_append_sql table (length rows)"
    and params: "params = [JString at, JString ai, json_nat mode, json_nat GUARD_NOSTREAM,
      json_nat GUARD_EXACT, json_nat er, JString ai, JString at] @
      concat (map sqlite_row_params (enumerate_from_1 rows))"
    by (auto simp: build_sqlite_append_statement_def result_simps split: if_splits prod.splits)
  have "sqlite_guard params current = sqlite_expectation_met expected current" for current
    using mode by (cases expected) (auto simp: params sqlite_guard_def sqlite_expectation_met_def
        GUARD_ANY_def GUARD_NOSTREAM_def GUARD_EXACT_def)
  moreover have "cell_text (params ! 0) = at" "cell_text (params ! 1) = ai" "cell_text (params ! 6) = ai"
    "cell_text (params ! 7) = at" "drop 8 params = concat (map sqlite_row_params (enumerate_from_1 rows))"
    by (simp_all add: params)
  moreover have "(length params - 8) div 7 = length rows" by (simp add: params sqlite_params_length)
  ultimately show ?thesis by (simp add: run_sqlite_append_def sqlite_values_params sql Let_def)
qed

section \<open>The append over a backend\<close>

text \<open>The body the three entry points share.\<close>

definition append_atomic_with where
  "append_atomic_with execute build query table aggregate_type aggregate_id expected rows =
     (if rows = [] then return_op (Ok (Committed []))
      else try_op (return_op (build table aggregate_type aggregate_id expected rows))
        (\<lambda>(sql, params) w.
          let probe = try_op (try_op (execute (query table) [JString aggregate_type, JString aggregate_id])
                (\<lambda>rows. return_op (parse_current_revision rows)))
              (\<lambda>actual. return_op (Ok (conflict_for_revision expected actual)))
          in case execute sql params w of
            (Inl error, w1) \<Rightarrow> if is_revision_unique_violation error then probe w1 else (Err error, w1)
          | (Inr inserted, w1) \<Rightarrow>
              if inserted \<noteq> [] then (map_ok Committed (parse_committed_rows inserted), w1)
              else probe w1))"

lemma append_atomic_entry_points:
  "append_atomic_neon execute = append_atomic_with execute build_postgres_append_statement current_revision_query_postgres"
  "append_atomic_supabase execute = append_atomic_with execute build_postgres_append_statement current_revision_query_postgres"
  "append_atomic_libsql execute = append_atomic_with execute build_sqlite_append_statement current_revision_query_sqlite"
  unfolding fun_eq_iff append_atomic_with_def append_atomic_neon_def append_atomic_supabase_def
    append_atomic_libsql_def read_current_revision_neon_def read_current_revision_supabase_def
    read_current_revision_libsql_def Let_def
  by (intro allI refl)+

definition append_outcome where
  "append_outcome met expected at ai rows t =
     (if met expected (current_rev at ai t)
      then (Ok (Committed (map committed_row (new_rows at ai rows t))), after_append at ai rows t)
      else (Ok (Conflict (expectation_error expected (current_rev at ai t))), t))"

text \<open>
  The contract between an entry point and its database: the append statement inserts the new rows
  when its guard admits the current revision, and the probe returns that revision.
\<close>

locale append_backend =
  fixes execute :: "sql_table executor"
    and build :: "string \<Rightarrow> string \<Rightarrow> string \<Rightarrow> expected_revision \<Rightarrow> append_event_row list \<Rightarrow>
      string + string \<times> json list"
    and query :: "string \<Rightarrow> string" and met :: "expected_revision \<Rightarrow> nat \<Rightarrow> bool"
    and cell :: "nat \<Rightarrow> json" and table :: string
  assumes cells: "integer_cell cell"
    and build_Ok: "rows \<noteq> [] \<Longrightarrow> \<exists>sql params. build table at ai expected rows = Ok (sql, params)"
    and append_runs: "build table at ai expected rows = Ok (sql, params) \<Longrightarrow>
      append_possible at ai rows t \<Longrightarrow>
      execute sql params t =
        (if met expected (current_rev at ai t)
         then (Ok (map (returning_row cell) (new_rows at ai rows t)), after_append at ai rows t)
         else (Ok [], t))"
    and query_runs: "execute (query table) [JString at, JString ai] t =
      (Ok [JObject [(''max_rev'', cell (current_rev at ai t))]], t)"
    and met_Any: "met Any current"
begin

lemma append_outcome:
  assumes "rows \<noteq> []" and possible: "append_possible at ai rows t"
  shows "append_atomic_with execute build query table at ai expected rows t =
    append_outcome met expected at ai rows t"
proof -
  obtain sql params where built: "build table at ai expected rows = Ok (sql, params)"
    using build_Ok [OF assms(1)] by blast
  have parsed: "parse_committed_rows (map (returning_row cell) (new_rows at ai rows t)) =
      Ok (map committed_row (new_rows at ai rows t))"
    using new_rows_bounds [OF possible] by (rule parse_returning_rows [OF cells])
  have "current_rev at ai t \<le> u64_max" using possible by (simp add: append_possible_def)
  note probe = cell_cases(2) [OF cells this]
  show ?thesis
  proof (cases "met expected (current_rev at ai t)")
    case True
    then show ?thesis using assms(1) parsed append_runs [OF built possible]
      by (simp add: append_atomic_with_def append_outcome_def built try_op_def return_op_def)
  next
    case False
    then have "conflict_for_revision expected n = Conflict (expectation_error expected n)" for n
      using met_Any by (cases expected) auto
    with False show ?thesis using assms(1) append_runs [OF built possible]
      by (simp add: append_atomic_with_def append_outcome_def built try_op_def return_op_def
          query_runs parse_current_revision_def probe Let_def)
  qed
qed

end

lemma validated_build:
  assumes "validate_events_table_name table = Ok ()" and "rows \<noteq> []"
  shows "\<exists>sql params. build_postgres_append_statement table at ai expected rows = Ok (sql, params)"
    and "\<exists>sql params. build_sqlite_append_statement table at ai expected rows = Ok (sql, params)"
  using assms by (auto simp: build_postgres_append_statement_def build_sqlite_append_statement_def
      Let_def split: prod.splits)

lemma append_not_query:
  "postgres_append_sql table \<noteq> current_revision_query_postgres table"
  "sqlite_append_sql table n \<noteq> current_revision_query_sqlite table"
  by (simp_all add: postgres_append_sql_def current_revision_query_postgres_def sqlite_append_sql_def
      current_revision_query_sqlite_def)

lemma postgres_backend:
  assumes "validate_events_table_name table = Ok ()" and "integer_cell cell"
  shows "append_backend (postgres_executor table duplicate cell) build_postgres_append_statement
    current_revision_query_postgres expectation_met cell table"
proof
  fix rows at ai expected sql params t
  assume built: "build_postgres_append_statement table at ai expected rows = Ok (sql, params)"
    and possible: "append_possible at ai rows t"
  show "postgres_executor table duplicate cell sql params t =
      (if expectation_met expected (current_rev at ai t)
       then (Ok (map (returning_row cell) (new_rows at ai rows t)), after_append at ai rows t)
       else (Ok [], t))"
    using run_postgres_append_eq [OF built, of duplicate t] insert_new_rows [OF possible, of duplicate]
      insert_no_rows [OF possible, of duplicate] append_not_query(1) [of table]
    by (simp add: postgres_executor_def table_executor_def)
qed (use assms validated_build in \<open>auto simp: postgres_executor_def table_executor_def\<close>)

lemma sqlite_backend:
  assumes "validate_events_table_name table = Ok ()" and "integer_cell cell"
  shows "append_backend (sqlite_executor table duplicate cell) build_sqlite_append_statement
    current_revision_query_sqlite sqlite_expectation_met cell table"
proof
  fix rows at ai expected sql params t
  assume built: "build_sqlite_append_statement table at ai expected rows = Ok (sql, params)"
    and possible: "append_possible at ai rows t"
  show "sqlite_executor table duplicate cell sql params t =
      (if sqlite_expectation_met expected (current_rev at ai t)
       then (Ok (map (returning_row cell) (new_rows at ai rows t)), after_append at ai rows t)
       else (Ok [], t))"
    using run_sqlite_append_eq [OF built, of duplicate t] insert_new_rows [OF possible, of duplicate]
      insert_no_rows [OF possible, of duplicate] append_not_query(2) [of table]
    by (simp add: sqlite_executor_def table_executor_def)
qed (use assms validated_build in
  \<open>auto simp: sqlite_executor_def table_executor_def sqlite_expectation_met_def\<close>)

text \<open>The two contracts on the default table name.\<close>

lemma integer_cell_json_nat: "integer_cell json_nat"
  by (simp add: integer_cell_def)

lemma events_table_valid: "validate_events_table_name ''events'' = Ok ()"
  by (simp add: validate_events_table_name_def is_ascii_alphabetic_def is_ascii_alphanumeric_def)

interpretation pg_events: append_backend "postgres_executor ''events'' duplicate json_nat"
  build_postgres_append_statement current_revision_query_postgres expectation_met json_nat "''events''"
  by (rule postgres_backend [OF events_table_valid integer_cell_json_nat])

interpretation sq_events: append_backend "sqlite_executor ''events'' duplicate json_nat"
  build_sqlite_append_statement current_revision_query_sqlite sqlite_expectation_met json_nat "''events''"
  by (rule sqlite_backend [OF events_table_valid integer_cell_json_nat])

text \<open>C33: the PostgreSQL append (over Neon or Supabase) is the expected-revision check and the append
  in one: it commits exactly the given rows, in order, at the revisions after the stream's current
  one and the next sequences, precisely when the expectation holds of the current revision; otherwise
  the table is unchanged and the conflict names what the check would have reported.\<close>

theorem postgres_append_refines:
  assumes "validate_events_table_name table = Ok ()" and "integer_cell cell" and "rows \<noteq> []"
    and "append_possible at ai rows t"
  shows "append_atomic_neon (postgres_executor table duplicate cell) table at ai expected rows t =
      (case check_expected_revision expected (current_rev at ai t) of
         Inr _ \<Rightarrow> (Ok (Committed (map committed_row (new_rows at ai rows t))), after_append at ai rows t)
       | Inl _ \<Rightarrow> (Ok (Conflict (expectation_error expected (current_rev at ai t))), t)) \<and>
    append_atomic_supabase (postgres_executor table duplicate cell) table at ai expected rows t =
      append_atomic_neon (postgres_executor table duplicate cell) table at ai expected rows t"
  using append_backend.append_outcome [OF postgres_backend [OF assms(1,2)] assms(3,4)]
  by (simp add: append_atomic_entry_points append_outcome_def check_expected_revision_contract)

definition demo_append_row :: append_event_row where
  "demo_append_row = \<lparr>ar_event_id = ''evt-1'', ar_event_type = ''Opened'', ar_event_version = 1,
     ar_payload = JNull, ar_metadata = JNull, ar_recorded_at_ms = 5\<rparr>"

definition empty_table :: sql_table where
  "empty_table = \<lparr>tb_rows = [], tb_next_sequence = 1\<rparr>"

lemma demo_append_possible: "append_possible ''account'' ''a'' [demo_append_row] empty_table"
  by (simp add: append_possible_def empty_table_def current_rev_def stream_rows_def u64_max_def)

theorem postgres_append_refines_witness:
  "append_atomic_neon (postgres_executor ''events'' [] json_nat) ''events'' ''account'' ''a'' (Exact 3)
     [demo_append_row] empty_table = (Ok (Conflict (WrongExpectedRevision (Exact 3) 0)), empty_table)"
  using postgres_append_refines [OF events_table_valid integer_cell_json_nat _ demo_append_possible,
      of "[]" "Exact 3"]
  by (simp add: empty_table_def current_rev_def stream_rows_def)



end
