(* ===== verification/Sql_Text.thy ===== *)
theory Sql_Text
  imports Json_Value "HOL-Library.Word"
begin

text \<open>
  \<open>src/adapters/sql_text.rs\<close>: JSON values as PostgreSQL literals, the splicing of parameters into a
  statement for databases reached without bound parameters, and the base-64 encoder of the HTTP
  adapters.  \<open>render\<close> is \<open>serde_json::to_string\<close>; \<open>show_number\<close> is the text of a JSON number.
\<close>

unbundle bit_operations_syntax

section \<open>Literals\<close>

definition apostrophe :: char where "apostrophe = CHR 0x27"
definition reverse_solidus :: char where "reverse_solidus = CHR 0x5C"

text \<open>\<open>s.replace(c, "cc")\<close>.\<close>

fun double_char :: "char \<Rightarrow> string \<Rightarrow> string" where
  "double_char d [] = []"
| "double_char d (c # cs) = (if c = d then d # d # double_char d cs else c # double_char d cs)"

definition quoted :: "string \<Rightarrow> string" where
  "quoted s = apostrophe # double_char apostrophe (double_char reverse_solidus s) @ [apostrophe]"

fun format_pg_value ::
  "(number \<Rightarrow> string) \<Rightarrow> (json \<Rightarrow> string + string) \<Rightarrow> json \<Rightarrow> string + string" where
  "format_pg_value show_number render JNull = Ok ''NULL''"
| "format_pg_value show_number render (JBool b) = Ok (if b then ''true'' else ''false'')"
| "format_pg_value show_number render (JNumber n) = Ok (show_number n)"
| "format_pg_value show_number render (JString s) = Ok (quoted s)"
| "format_pg_value show_number render (JArray vs) = map_ok quoted (render (JArray vs))"
| "format_pg_value show_number render (JObject fs) = map_ok quoted (render (JObject fs))"

section \<open>Interpolation\<close>

definition usize_max :: nat where "usize_max = 2 ^ 64 - 1"

definition out_of_bounds_error :: "nat \<Rightarrow> nat \<Rightarrow> string" where
  "out_of_bounds_error idx len = ''Parameter index $'' @ show_nat idx @ '' out of bounds (params len: '' @
     show_nat len @ '')''"

text \<open>The scan from the left; a dollar sign takes the digits that follow it.\<close>

function interpolate_loop ::
  "(json \<Rightarrow> string + string) \<Rightarrow> json list \<Rightarrow> string \<Rightarrow> string \<Rightarrow> string + string" where
  "interpolate_loop format_value params final_sql [] = Ok final_sql"
| "interpolate_loop format_value params final_sql (c # chars) =
     (if c = CHR ''$''
      then let digits = takeWhile is_dec chars; chars' = dropWhile is_dec chars
           in if digits = [] then interpolate_loop format_value params (final_sql @ ''$'') chars'
              else (case parse_unsigned usize_max digits of
                  Inl e \<Rightarrow> Err e
                | Inr idx \<Rightarrow>
                    if idx = 0 \<or> idx > length params
                    then Err (out_of_bounds_error idx (length params))
                    else (case format_value (params ! (idx - 1)) of
                        Inl e \<Rightarrow> Err e
                      | Inr formatted \<Rightarrow>
                          interpolate_loop format_value params (final_sql @ formatted) chars'))
      else interpolate_loop format_value params (final_sql @ [c]) chars)"
  by pat_completeness auto
termination
  by (relation "measure (\<lambda>(_, _, _, s). length s)") (auto simp: le_imp_less_Suc length_dropWhile_le)

definition interpolate_query ::
  "(number \<Rightarrow> string) \<Rightarrow> (json \<Rightarrow> string + string) \<Rightarrow> string \<Rightarrow> json list \<Rightarrow> string + string" where
  "interpolate_query show_number render sql params =
     interpolate_loop (format_pg_value show_number render) params [] sql"

section \<open>Base 64\<close>

definition CHARSET :: string where
  "CHARSET = ''ABCDEFGHIJKLMNOPQRSTUVWXYZabcdefghijklmnopqrstuvwxyz0123456789+/''"

text \<open>\<open>usize\<close> arithmetic on \<open>nat\<close>: the shifts and masks stay far below \<open>2 ^ 64\<close>.\<close>

definition encode_triple :: "nat \<Rightarrow> nat \<Rightarrow> nat \<Rightarrow> nat \<Rightarrow> string" where
  "encode_triple b0 b1 b2 available =
     (let triple = (push_bit 16 b0 OR push_bit 8 b1) OR b2
      in [CHARSET ! (drop_bit 18 triple AND 63), CHARSET ! (drop_bit 12 triple AND 63),
          if 1 < available then CHARSET ! (drop_bit 6 triple AND 63) else CHR ''='',
          if 2 < available then CHARSET ! (triple AND 63) else CHR ''=''])"

fun base64_encode :: "8 word list \<Rightarrow> string" where
  "base64_encode [] = []"
| "base64_encode [a] = encode_triple (unat a) 0 0 1"
| "base64_encode [a, b] = encode_triple (unat a) (unat b) 0 2"
| "base64_encode (a # b # c # rest) = encode_triple (unat a) (unat b) (unat c) 3 @ base64_encode rest"

section \<open>A literal lexes as one token\<close>

text \<open>
  PostgreSQL with \<open>standard_conforming_strings\<close> reads a string constant up to the first apostrophe
  that is not doubled: the content, and what follows the constant.
\<close>

fun lex_constant :: "string \<Rightarrow> (string \<times> string) option" where
  "lex_constant [] = None"
| "lex_constant [c] = (if c = apostrophe then Some ([], []) else None)"
| "lex_constant (c # d # rest) =
     (if c = apostrophe
      then if d = apostrophe then map_option (map_prod (Cons apostrophe) id) (lex_constant rest)
           else Some ([], d # rest)
      else map_option (map_prod (Cons c) id) (lex_constant (d # rest)))"

lemma lex_constant_quoted:
  "(rest = [] \<or> hd rest \<noteq> apostrophe) \<Longrightarrow>
   lex_constant (double_char apostrophe s @ apostrophe # rest) = Some (s, rest)"
proof (induction s)
  case Nil
  then show ?case by (cases rest) auto
next
  case (Cons c cs)
  then have IH: "lex_constant (double_char apostrophe cs @ apostrophe # rest) = Some (cs, rest)" by simp
  show ?case
  proof (cases "c = apostrophe")
    case False
    obtain d ds where "double_char apostrophe cs @ apostrophe # rest = d # ds"
      by (cases "double_char apostrophe cs") auto
    then show ?thesis using IH False by simp
  qed (use IH in simp)
qed



section \<open>Base 64 decodes\<close>

definition sextet :: "char \<Rightarrow> nat" where
  "sextet c = length (takeWhile (\<lambda>d. d \<noteq> c) CHARSET)"

text \<open>Decoding as RFC 4648 has it.\<close>

fun base64_decode :: "string \<Rightarrow> 8 word list" where
  "base64_decode (a # b # c # d # rest) =
     (let t = (if d = CHR ''='' then 0 else sextet d) + 64 * (if c = CHR ''='' then 0 else sextet c) +
            4096 * sextet b + 262144 * sextet a
      in if c = CHR ''='' then [word_of_nat (t div 65536)]
         else if d = CHR ''='' then [word_of_nat (t div 65536), word_of_nat (t div 256)]
         else [word_of_nat (t div 65536), word_of_nat (t div 256), word_of_nat t] @ base64_decode rest)"
| "base64_decode _ = []"

lemma CHARSET_length: "length CHARSET = 64"
  by (simp add: CHARSET_def)

lemma CHARSET_index: "i < 64 \<Longrightarrow> sextet (CHARSET ! i) = i \<and> CHARSET ! i \<noteq> CHR ''=''"
proof -
  have "\<forall>i\<in>set [0..<64]. sextet (CHARSET ! i) = i \<and> CHARSET ! i \<noteq> CHR ''=''" by code_simp
  then show "i < 64 \<Longrightarrow> sextet (CHARSET ! i) = i \<and> CHARSET ! i \<noteq> CHR ''=''" by simp
qed

lemma or_shifted:
  assumes "(y::nat) < 2 ^ n"
  shows "push_bit n x OR y = 2 ^ n * x + y"
proof -
  have low: "bit y k \<Longrightarrow> k < n" for k
    using assms by (metis bit_take_bit_iff take_bit_nat_eq_self)
  have "push_bit n x AND y = 0"
    by (rule bit_eqI) (auto simp: bit_and_iff bit_push_bit_iff dest: low)
  then show ?thesis by (simp add: disjunctive_add_eq_or [symmetric] push_bit_eq_mult mult.commute)
qed

lemma triple_value:
  assumes "b0 < 256" "b1 < 256" "b2 < (256::nat)"
  shows "(push_bit 16 b0 OR push_bit 8 b1) OR b2 = 65536 * b0 + 256 * b1 + b2"
proof -
  have "push_bit 8 b1 < 2 ^ 16" using assms by (simp add: push_bit_eq_mult)
  from or_shifted [OF this] have "push_bit 16 b0 OR push_bit 8 b1 = push_bit 8 (256 * b0 + b1)"
    by (simp add: push_bit_eq_mult)
  moreover have "b2 < 2 ^ 8" using assms by simp
  ultimately show ?thesis using or_shifted [of b2 8 "256 * b0 + b1"] by simp
qed

lemma and_63: "x AND 63 = x mod (64::nat)"
proof -
  have "x AND mask 6 = x mod 2 ^ 6" by (simp add: take_bit_eq_mask [symmetric] take_bit_eq_mod)
  then show ?thesis by (simp add: mask_eq_exp_minus_1)
qed

lemma encode_triple_value:
  assumes "b0 < 256" "b1 < 256" "b2 < 256"
  defines "t \<equiv> 65536 * b0 + 256 * b1 + b2"
  shows "encode_triple b0 b1 b2 n = [CHARSET ! (t div 262144 mod 64), CHARSET ! (t div 4096 mod 64),
    if 1 < n then CHARSET ! (t div 64 mod 64) else CHR ''='',
    if 2 < n then CHARSET ! (t mod 64) else CHR ''='']"
  by (simp add: encode_triple_def triple_value [OF assms(1-3)] and_63 drop_bit_eq_div t_def Let_def)

lemma sextets_assoc:
  "a + 64 * b + 4096 * c + 262144 * (d::nat) = a + 64 * (b + 64 * (c + 64 * d))"
  by simp

lemma sextets_sum:
  assumes "(t::nat) < 16777216"
  shows "t mod 64 + 64 * (t div 64 mod 64) + 4096 * (t div 4096 mod 64) + 262144 * (t div 262144 mod 64) = t"
proof -
  define u where "u = t div 64"
  define v where "v = u div 64"
  define w where "w = v div 64"
  have "t div 4096 = v" "t div 262144 = w"
    by (simp_all add: u_def v_def w_def div_mult2_eq [symmetric])
  moreover have "t = t mod 64 + 64 * u" "u = u mod 64 + 64 * v" "v = v mod 64 + 64 * w"
    by (simp_all add: u_def v_def w_def)
  moreover have "w < 64"
    using assms by (simp add: u_def v_def w_def div_mult2_eq [symmetric] less_mult_imp_div_less)
  then have "w mod 64 = w" by simp
  moreover have "t div 64 = u" by (simp add: u_def)
  ultimately show ?thesis by (metis (no_types) sextets_assoc)
qed

lemma byte_bound: "unat (a :: 8 word) < 256"
  using unsigned_less [of a] by simp

lemma word_of_nat_bytes: "(word_of_nat (256 * x + unat b) :: 8 word) = b"
proof -
  have "unat (word_of_nat n :: 8 word) = n mod 256" for n
    by (simp only: unsigned_of_nat of_nat_id take_bit_eq_mod) simp
  then show ?thesis using byte_bound [of b] by (metis mod_less mod_mult_self4 unsigned_word_eqI)
qed

lemma decode_sextets:
  assumes "p < 64" "q < 64" "r < 64" "s < 64" "t = s + 64 * r + 4096 * q + 262144 * p"
  shows "base64_decode ([CHARSET ! p, CHARSET ! q, CHARSET ! r, CHARSET ! s] @ rest) =
      [word_of_nat (t div 65536), word_of_nat (t div 256), word_of_nat t] @ base64_decode rest"
    and "s = 0 \<Longrightarrow> base64_decode [CHARSET ! p, CHARSET ! q, CHARSET ! r, CHR ''=''] =
      [word_of_nat (t div 65536), word_of_nat (t div 256)]"
    and "s = 0 \<Longrightarrow> r = 0 \<Longrightarrow> base64_decode [CHARSET ! p, CHARSET ! q, CHR ''='', CHR ''=''] =
      [word_of_nat (t div 65536)]"
  unfolding assms(5)
  by (simp_all add: CHARSET_index assms(1-4) Let_def del: of_nat_add of_nat_mult of_nat_numeral)

lemma decode_group:
  assumes "t < 16777216"
  shows "base64_decode ([CHARSET ! (t div 262144 mod 64), CHARSET ! (t div 4096 mod 64),
      CHARSET ! (t div 64 mod 64), CHARSET ! (t mod 64)] @ rest) =
      [word_of_nat (t div 65536), word_of_nat (t div 256), word_of_nat t] @ base64_decode rest"
    and "t mod 64 = 0 \<Longrightarrow> base64_decode [CHARSET ! (t div 262144 mod 64), CHARSET ! (t div 4096 mod 64),
      CHARSET ! (t div 64 mod 64), CHR ''=''] = [word_of_nat (t div 65536), word_of_nat (t div 256)]"
    and "t mod 64 = 0 \<Longrightarrow> t div 64 mod 64 = 0 \<Longrightarrow>
      base64_decode [CHARSET ! (t div 262144 mod 64), CHARSET ! (t div 4096 mod 64),
      CHR ''='', CHR ''=''] = [word_of_nat (t div 65536)]"
  by (rule decode_sextets [OF _ _ _ _ sextets_sum [OF assms, symmetric]]; simp)+

lemma encode_decode:
  fixes a b c :: "8 word"
  shows "base64_decode (encode_triple (unat a) (unat b) (unat c) 3 @ rest) = [a, b, c] @ base64_decode rest"
    and "base64_decode (encode_triple (unat a) (unat b) 0 2) = [a, b]"
    and "base64_decode (encode_triple (unat a) 0 0 1) = [a]"
proof -
  note bounds = byte_bound [of a] byte_bound [of b] byte_bound [of c]
  have hi: "word_of_nat ((65536 * unat a + 256 * x + y) div 65536) = a" if "x < 256" "y < 256" for x y
  proof -
    have "(65536 * unat a + 256 * x + y) div 65536 = unat a" using that by (intro div_nat_eqI) auto
    then show ?thesis by simp
  qed
  have mid: "(word_of_nat ((65536 * unat a + 256 * unat b + y) div 256) :: 8 word) = b" if "y < 256" for y
  proof -
    have "(65536 * unat a + 256 * unat b + y) div 256 = 256 * unat a + unat b"
      using that by (intro div_nat_eqI) auto
    then show ?thesis by (simp only: word_of_nat_bytes)
  qed
  have lo: "(word_of_nat (65536 * unat a + 256 * unat b + unat c) :: 8 word) = c"
  proof -
    have "65536 * unat a + 256 * unat b + unat c = 256 * (256 * unat a + unat b) + unat c" by simp
    then show ?thesis by (simp only: word_of_nat_bytes)
  qed
  show "base64_decode (encode_triple (unat a) (unat b) (unat c) 3 @ rest) = [a, b, c] @ base64_decode rest"
    using decode_group(1) [of "65536 * unat a + 256 * unat b + unat c" rest] bounds hi mid lo
    by (simp add: encode_triple_value)
  show "base64_decode (encode_triple (unat a) (unat b) 0 2) = [a, b]"
    using decode_group(2) [of "65536 * unat a + 256 * unat b + 0"] bounds hi [of "unat b" 0] mid [of 0]
    by (simp add: encode_triple_value mod_add_left_eq)
  show "base64_decode (encode_triple (unat a) 0 0 1) = [a]"
    using decode_group(3) [of "65536 * unat a + 256 * 0 + 0"] bounds hi [of 0 0]
    by (simp add: encode_triple_value)
qed

text \<open>Base-64 text decodes to the bytes it was made of, and its length is four characters for every
  three bytes or part of three.\<close>

lemma base64_roundtrip:
  "base64_decode (base64_encode bytes) = bytes \<and>
   length (base64_encode bytes) = 4 * ((length bytes + 2) div 3)"
proof (induction bytes rule: base64_encode.induct)
  case (4 a b c rest)
  have "(5 + length rest) div 3 = (length rest + 2) div 3 + 1" by presburger
  with 4 show ?case by (simp add: encode_decode(1) [unfolded append_Cons append_Nil]) (simp add: encode_triple_def Let_def)
qed (simp_all add: encode_decode encode_decode(3) [unfolded One_nat_def], simp_all add: encode_triple_def Let_def)

section \<open>Parameters are substituted once\<close>

text \<open>A statement as the texts between its placeholders.\<close>

fun template :: "(string \<times> nat) list \<Rightarrow> string \<Rightarrow> string" where
  "template [] tail = tail"
| "template ((t, k) # segments) tail = t @ CHR ''$'' # show_nat k @ template segments tail"

fun filled :: "(nat \<Rightarrow> string) \<Rightarrow> (string \<times> nat) list \<Rightarrow> string \<Rightarrow> string" where
  "filled v [] tail = tail"
| "filled v ((t, k) # segments) tail = t @ v k @ filled v segments tail"

text \<open>No text holds a dollar sign, and no text after a placeholder continues its digits.\<close>

definition starts_digit :: "string \<Rightarrow> bool" where
  "starts_digit s \<longleftrightarrow> s \<noteq> [] \<and> is_dec (hd s)"

fun template_ok :: "(string \<times> nat) list \<Rightarrow> string \<Rightarrow> bool" where
  "template_ok [] tail \<longleftrightarrow> CHR ''$'' \<notin> set tail"
| "template_ok ((t, k) # segments) tail \<longleftrightarrow> CHR ''$'' \<notin> set t \<and>
     \<not> starts_digit (template segments tail) \<and> template_ok segments tail"

lemma interpolate_plain:
  "CHR ''$'' \<notin> set t \<Longrightarrow>
   interpolate_loop fv params acc (t @ rest) = interpolate_loop fv params (acc @ t) rest"
  by (induction t arbitrary: acc) auto

lemma takeWhile_show_nat:
  assumes "\<not> starts_digit rest"
  shows "takeWhile is_dec (show_nat k @ rest) = show_nat k"
    and "dropWhile is_dec (show_nat k @ rest) = rest"
proof -
  have all: "\<forall>c\<in>set (show_nat k). is_dec c" using show_nat_all_dec by blast
  moreover have "takeWhile is_dec rest = []" "dropWhile is_dec rest = rest"
    using assms by (cases rest; simp add: starts_digit_def)+
  ultimately show "takeWhile is_dec (show_nat k @ rest) = show_nat k"
    "dropWhile is_dec (show_nat k @ rest) = rest"
    by (simp_all add: takeWhile_append dropWhile_append)
qed

lemma interpolate_parameter:
  assumes "\<not> starts_digit rest" and "1 \<le> k" "k \<le> length params" "length params \<le> usize_max"
    and "fv (params ! (k - 1)) = Ok formatted"
  shows "interpolate_loop fv params acc (CHR ''$'' # show_nat k @ rest) =
    interpolate_loop fv params (acc @ formatted) rest"
  using assms parse_unsigned_show_nat [of k usize_max]
  by (simp add: takeWhile_show_nat [OF assms(1)] Let_def)

text \<open>Interpolation replaces each placeholder by the literal of its parameter, exactly once and
  left to right, and leaves all other text alone: a literal that itself contains \<open>$1\<close> is not looked
  at again.\<close>

lemma interpolation_substitutes:
  assumes "template_ok segments tail" and "length params \<le> usize_max"
    and "\<forall>(t, k)\<in>set segments. 1 \<le> k \<and> k \<le> length params \<and>
      format_pg_value show_number render (params ! (k - 1)) = Ok (v k)"
  shows "interpolate_query show_number render (template segments tail) params = Ok (filled v segments tail)"
proof -
  have "interpolate_loop (format_pg_value show_number render) params acc (template segments tail) =
      Ok (acc @ filled v segments tail)" for acc
    using assms(1,3)
  proof (induction segments arbitrary: acc)
    case Nil
    then show ?case using interpolate_plain [of tail _ params acc "[]"] by simp
  next
    case (Cons s segments)
    then show ?case
      by (cases s) (auto simp: interpolate_plain interpolate_parameter [OF _ _ _ assms(2)]
          simp del: interpolate_loop.simps)
  qed
  then show ?thesis by (simp add: interpolate_query_def)
qed

lemma interpolation_substitutes_witness:
  "interpolate_query (\<lambda>_. []) (\<lambda>_. Err []) (template [(''a = '', 1), ('' AND b = '', 2)] [])
     [JString ''$2'', JBool True] = Ok (filled (\<lambda>k. if k = 1 then quoted ''$2'' else ''true'')
       [(''a = '', 1), ('' AND b = '', 2)] [])"
  by (rule interpolation_substitutes) (simp_all add: starts_digit_def is_dec_def usize_max_def)

end
