(* ===== verification/Row_Codec.thy ===== *)
theory Row_Codec
  imports Sql_Common
begin

text \<open>
  \<open>row_to_envelope\<close> of \<open>src/adapters/mod.rs\<close>: a row that a serverless database returned as a JSON
  object, decoded field by field into an envelope.  \<open>checked_add\<close> is the addition of milliseconds to
  the epoch, which fails where the platform's clock type ends.
\<close>

section \<open>Decoding a row\<close>

definition str_field :: "(string \<times> json) list \<Rightarrow> string \<Rightarrow> string + string" where
  "str_field obj key = ok_or (''Missing or invalid '' @ key) (Option.bind (map_of obj key) as_str)"

definition field :: "(string \<times> json) list \<Rightarrow> string \<Rightarrow> string + json" where
  "field obj key = ok_or (''Missing '' @ key) (map_of obj key)"

definition aggregate_id_text :: "'id codec \<Rightarrow> (string \<times> json) list \<Rightarrow> string + string" where
  "aggregate_id_text I obj = ok_or ''Missing or invalid aggregate_id''
     (Option.bind (map_of obj ''aggregate_id'') (\<lambda>v.
        case as_str v of Some s \<Rightarrow> Some s
        | None \<Rightarrow> (case cd_render I v of Inr s \<Rightarrow> Some s | Inl _ \<Rightarrow> None)))"

definition row_revision :: "json \<Rightarrow> string + nat" where
  "row_revision v = (case as_str v of
      Some s \<Rightarrow> parse_u64 s
    | None \<Rightarrow> ok_or ''Invalid revision type'' (as_u64_value v))"

definition row_sequence :: "json option \<Rightarrow> nat option" where
  "row_sequence sequence_val = (case sequence_val of
      Some v \<Rightarrow>
        if is_null v then None
        else (case as_str v of
            Some s \<Rightarrow> (case parse_u64 s of Inr n \<Rightarrow> Some n | Inl _ \<Rightarrow> None)
          | None \<Rightarrow> as_u64_value v)
    | None \<Rightarrow> None)"

text \<open>\<open>as u32\<close> keeps the low 32 bits.\<close>

definition row_event_version :: "json \<Rightarrow> string + nat" where
  "row_event_version v = (case as_str v of
      Some s \<Rightarrow> parse_u32 s
    | None \<Rightarrow> map_ok (\<lambda>n. n mod 2 ^ 32) (ok_or ''Invalid event_version type'' (as_u64_value v)))"

definition row_document :: "'a codec \<Rightarrow> string \<Rightarrow> json \<Rightarrow> string + 'a" where
  "row_document C name v = (case v of
      JString s \<Rightarrow> map_err (\<lambda>e. name @ '' string deserialize: '' @ e) (cd_from_str C s)
    | other \<Rightarrow> map_err (\<lambda>e. name @ '' value deserialize: '' @ e) (cd_from_value C other))"

definition row_recorded_at_ms :: "json \<Rightarrow> string + int" where
  "row_recorded_at_ms v = (case as_str v of
      Some s \<Rightarrow> parse_i64 s
    | None \<Rightarrow> ok_or ''Invalid recorded_at_ms type'' (as_i64_value v))"

definition row_aggregate_id :: "'id codec \<Rightarrow> string \<Rightarrow> string + 'id" where
  "row_aggregate_id I s = (case cd_from_str I s of
      Inr i \<Rightarrow> Ok i
    | Inl _ \<Rightarrow> map_err (\<lambda>e. ''aggregate_id deserialization failure: '' @ e) (cd_from_value I (JString s)))"

definition row_to_envelope ::
  "'e codec \<Rightarrow> metadata codec \<Rightarrow> 'id codec \<Rightarrow> (nat \<Rightarrow> system_time option) \<Rightarrow> json \<Rightarrow>
   string + ('e, 'id) event_envelope" where
  "row_to_envelope E M I checked_add row =
     and_then (ok_or ''Row is not a JSON object'' (as_object row)) (\<lambda>obj.
     and_then (str_field obj ''event_id'') (\<lambda>event_id_str.
     and_then (aggregate_id_text I obj) (\<lambda>aggregate_id_str.
     and_then (str_field obj ''aggregate_type'') (\<lambda>aggregate_type.
     and_then (field obj ''revision'') (\<lambda>revision_val.
     and_then (row_revision revision_val) (\<lambda>revision.
     let sequence = row_sequence (map_of obj ''sequence'') in
     and_then (str_field obj ''event_type'') (\<lambda>event_type.
     and_then (field obj ''event_version'') (\<lambda>event_version_val.
     and_then (row_event_version event_version_val) (\<lambda>event_version.
     and_then (field obj ''payload'') (\<lambda>payload_val.
     and_then (row_document E ''payload'' payload_val) (\<lambda>payload.
     and_then (field obj ''metadata'') (\<lambda>metadata_val.
     and_then (row_document M ''metadata'' metadata_val) (\<lambda>metadata.
     and_then (field obj ''recorded_at_ms'') (\<lambda>recorded_at_ms_val.
     and_then (row_recorded_at_ms recorded_at_ms_val) (\<lambda>recorded_at_ms.
     and_then (ok_or ''recorded_at_ms cannot be negative'' (u64_try_from_i64 recorded_at_ms)) (\<lambda>millis.
     and_then (ok_or ''recorded_at_ms overflows the system clock'' (checked_add millis)) (\<lambda>recorded_at.
     and_then (row_aggregate_id I aggregate_id_str) (\<lambda>aggregate_id.
       Ok (envelope_new (event_id_from_string event_id_str) aggregate_id (aggregate_type_new aggregate_type)
             revision sequence (event_type_new event_type) event_version payload metadata recorded_at)
     ))))))))))))))))))"

section \<open>What a driver may return\<close>

text \<open>An integer column as a JSON number or as decimal text; a document column as a JSON value or as
  its text.\<close>

definition integer_json :: "nat \<Rightarrow> json \<Rightarrow> bool" where
  "integer_json n v \<longleftrightarrow> v = json_nat n \<or> v = JString (show_nat n)"

definition document_json :: "'a codec \<Rightarrow> 'a \<Rightarrow> json \<Rightarrow> bool" where
  "document_json C a v \<longleftrightarrow> (\<exists>w. cd_to_value C a = Ok w \<and>
     ((\<forall>s. w \<noteq> JString s) \<and> v = w \<or> (\<exists>t. cd_render C w = Ok t \<and> v = JString t)))"

lemma integer_json_parse:
  assumes "integer_json n v"
  shows "n \<le> u64_max \<Longrightarrow> row_revision v = Ok n" and "n \<le> u64_max \<Longrightarrow> row_sequence (Some v) = Some n"
    and "n \<le> u32_max \<Longrightarrow> row_event_version v = Ok n"
  using assms parse_unsigned_show_nat [of n u64_max] parse_unsigned_show_nat [of n u32_max]
  by (auto simp: integer_json_def row_revision_def row_sequence_def row_event_version_def json_nat_def
      u32_max_def)

lemma integer_json_millis:
  "integer_json n v \<Longrightarrow> n \<le> i64_max \<Longrightarrow> row_recorded_at_ms v = Ok (int n)"
  by (auto simp: integer_json_def row_recorded_at_ms_def parse_i64_show_nat i64_try_from_u64_def)

lemma document_json_decode: "codec_laws C \<Longrightarrow> document_json C a v \<Longrightarrow> row_document C name v = Ok a"
  using codec_lawsD [of C]
  by (fastforce simp: document_json_def row_document_def split: json.splits)

text \<open>C37: a row that holds the columns of an envelope decodes to that envelope, for every way a driver may
  return them: integers as numbers or as decimal text, payload and metadata as JSON or as its text,
  the sequence present or null, in any order of the columns and among any others.\<close>

theorem row_roundtrip:
  assumes laws: "codec_laws E" "codec_laws M"
    and columns: "map_of obj ''event_id'' = Some (JString (event_id_as_str (env_event_id env)))"
      "map_of obj ''aggregate_id'' = Some (JString s)" "row_aggregate_id I s = Ok (env_aggregate_id env)"
      "map_of obj ''aggregate_type'' = Some (JString (aggregate_type_as_str (env_aggregate_type env)))"
      "map_of obj ''revision'' = Some rv" "integer_json (env_revision env) rv" "env_revision env \<le> u64_max"
      "map_of obj ''sequence'' = (case env_sequence env of None \<Rightarrow> Some JNull | Some q \<Rightarrow> Some sv)"
      "\<And>q. env_sequence env = Some q \<Longrightarrow> integer_json q sv \<and> q \<le> u64_max"
      "map_of obj ''event_type'' = Some (JString (event_type_as_str (env_event_type env)))"
      "map_of obj ''event_version'' = Some vv" "integer_json (env_event_version env) vv"
      "env_event_version env \<le> u32_max"
      "map_of obj ''payload'' = Some pv" "document_json E (env_payload env) pv"
      "map_of obj ''metadata'' = Some mv" "document_json M (env_metadata env) mv"
      "map_of obj ''recorded_at_ms'' = Some tv" "integer_json ms tv" "ms \<le> i64_max"
      "checked_add ms = Some (env_recorded_at env)"
  shows "row_to_envelope E M I checked_add (JObject obj) = Ok env"
proof -
  have sequence: "row_sequence (map_of obj ''sequence'') = env_sequence env"
    using columns(8,9) integer_json_parse(2) by (cases "env_sequence env") (auto simp: row_sequence_def)
  have "row_to_envelope E M I checked_add (JObject obj) =
      Ok (envelope_new (env_event_id env) (env_aggregate_id env) (env_aggregate_type env) (env_revision env)
        (env_sequence env) (env_event_type env) (env_event_version env) (env_payload env)
        (env_metadata env) (env_recorded_at env))"
    using columns sequence integer_json_parse(1) [OF columns(6)] integer_json_parse(3) [OF columns(12)]
      integer_json_millis [OF columns(19,20)] document_json_decode [OF laws(1) columns(15)]
      document_json_decode [OF laws(2) columns(17)]
    by (cases "env_event_id env"; cases "env_aggregate_type env"; cases "env_event_type env")
       (simp add: row_to_envelope_def str_field_def field_def aggregate_id_text_def u64_try_from_i64_def
         event_id_from_string_def aggregate_type_new_def event_type_new_def)
  then show ?thesis by (simp add: envelope_new_def)
qed

text \<open>A metadata codec that knows the empty metadata, and a row of an account.\<close>

definition empty_metadata_codec :: "metadata codec" where
  "empty_metadata_codec = \<lparr>cd_to_value = (\<lambda>m. if m = metadata_new then Ok (JObject []) else Err ''unsupported''),
     cd_to_string = (\<lambda>m. if m = metadata_new then Ok ''{}'' else Err ''unsupported''),
     cd_from_str = (\<lambda>t. Ok metadata_new), cd_from_value = (\<lambda>v. Ok metadata_new),
     cd_render = (\<lambda>v. if v = JObject [] then Ok ''{}'' else Err ''unsupported'')\<rparr>"

theorem row_roundtrip_witness:
  "row_to_envelope string_codec empty_metadata_codec string_codec (\<lambda>n. Some (int n * 1000000))
     (JObject [(''event_id'', JString ''e1''), (''aggregate_id'', JString ''a''),
        (''aggregate_type'', JString ''account''), (''revision'', JString ''12''), (''sequence'', json_nat 40),
        (''event_type'', JString ''Opened''), (''event_version'', json_nat 1),
        (''payload'', JString (quote_mark # escape_text ''x'')), (''metadata'', JObject []),
        (''recorded_at_ms'', json_nat 5)]) =
   Ok (envelope_new (EventId ''e1'') ''a'' (AggregateType ''account'') 12 (Some 40) (EventType ''Opened'') 1
     ''x'' metadata_new 5000000)"
  (is "row_to_envelope _ _ _ ?add (JObject ?obj) = Ok ?env")
proof -
  have show12: "show_nat 12 = ''12''" by code_simp
  have meta: "codec_laws empty_metadata_codec"
    by (auto simp: codec_laws_def empty_metadata_codec_def split: if_splits)
  show ?thesis
    by (rule row_roundtrip [OF string_codec_laws meta, where s = "''a''" and rv = "JString ''12''" and
          sv = "json_nat 40" and vv = "json_nat 1" and pv = "JString (quote_mark # escape_text ''x'')" and
          mv = "JObject []" and tv = "json_nat 5" and ms = 5])
       (simp_all add: integer_json_def document_json_def show12 u64_max_def u32_max_def i64_max_def
         row_aggregate_id_def string_codec_def empty_metadata_codec_def quote_mark_def)
qed

end
