(* ===== verification/Json_File.thy ===== *)
theory Json_File
  imports Sql_Common Checkpoints
begin

text \<open>
  \<open>src/adapters/json_file.rs\<close>: the event store and the checkpoint store that keep their data in one
  file each, with the lock that serialises the operations of a process.  A file is its content, or
  absent; its text is the list of its bytes.  Every system call takes the next outcome from
  \<open>jf_outcomes\<close>: it succeeds, fails without effect, or (a write) leaves a first part of the data
  behind, as a crash or a full disk does.  Parsing and rendering of JSON text is a \<open>file_codec\<close>.
\<close>

section \<open>The file\<close>

datatype io_outcome = IoOk | IoFail string | IoTorn string nat

record json_file =
  jf_content :: "string option"
  jf_registry_poisoned :: bool
  jf_poisoned :: bool
  jf_outcomes :: "io_outcome list"
  jf_ticks :: nat

text \<open>The identifiers and clock readings the environment hands out, by tick.\<close>

type_synonym source = "nat \<Rightarrow> event_id \<times> system_time"

definition next_outcome :: "(json_file, io_outcome) op" where
  "next_outcome f = (case jf_outcomes f of
      [] \<Rightarrow> (IoOk, f)
    | outcome # outcomes \<Rightarrow> (outcome, f\<lparr>jf_outcomes := outcomes\<rparr>))"

text \<open>A system call without effect on the content; its error becomes a backend error.\<close>

definition io_step :: "(json_file, event_store_error + unit) op" where
  "io_step f = (case next_outcome f of
      (IoOk, f') \<Rightarrow> (Ok (), f')
    | (IoFail e, f') \<Rightarrow> (Err (error_backend e), f')
    | (IoTorn e n, f') \<Rightarrow> (Err (error_backend e), f'))"

text \<open>\<open>get_file_lock(path)?\<close> and \<open>lock.lock()\<close>: the registry of locks, the system calls of
  \<open>canonical_lock_path\<close>, and the lock of the file.\<close>

definition take_file_lock :: "(json_file, event_store_error + unit) op" where
  "take_file_lock =
     (\<lambda>f. if jf_registry_poisoned f then (Err Poisoned, f)
        else try_op io_step (\<lambda>_ f. if jf_poisoned f then (Err Poisoned, f) else (Ok (), f)) f)"

definition read_to_string :: "(json_file, event_store_error + string) op" where
  "read_to_string = try_op io_step (\<lambda>_ f. (Ok (case jf_content f of None \<Rightarrow> [] | Some c \<Rightarrow> c), f))"

text \<open>\<open>write_atomic\<close>: the parent directory and a clock reading for the temporary name, then create,
  write and flush the temporary file and rename it.  The target changes at the rename only.\<close>

definition write_atomic :: "string \<Rightarrow> (json_file, event_store_error + unit) op" where
  "write_atomic content =
     try_op io_step (\<lambda>_.
     try_op io_step (\<lambda>_ f. (Ok (), f\<lparr>jf_content := Some content, jf_ticks := jf_ticks f + 1\<rparr>)))"

text \<open>\<open>open\<close> with \<open>append(true)\<close>, \<open>write_all\<close>, \<open>sync_all\<close>.\<close>

definition append_to_file :: "string \<Rightarrow> (json_file, event_store_error + unit) op" where
  "append_to_file buffer =
     try_op io_step (\<lambda>_.
     try_op (\<lambda>f. let (outcome, f') = next_outcome f;
                    old = (case jf_content f' of None \<Rightarrow> [] | Some c \<Rightarrow> c)
                in case outcome of
                  IoOk \<Rightarrow> (Ok (), f'\<lparr>jf_content := Some (old @ buffer)\<rparr>)
                | IoFail e \<Rightarrow> (Err (error_backend e), f')
                | IoTorn e n \<Rightarrow> (Err (error_backend e), f'\<lparr>jf_content := Some (old @ take n buffer)\<rparr>)) (\<lambda>_.
     io_step))"

section \<open>Lines\<close>

definition newline :: char where "newline = CHR 0x0A"
definition carriage_return :: char where "carriage_return = CHR 0x0D"

definition is_blank_char :: "char \<Rightarrow> bool" where
  "is_blank_char c \<longleftrightarrow> c = CHR '' '' \<or> ((9::nat) \<le> of_char c \<and> of_char c \<le> (13::nat))"

definition strip_cr :: "string \<Rightarrow> string" where
  "strip_cr l = (if l \<noteq> [] \<and> last l = carriage_return then butlast l else l)"

text \<open>\<open>str::lines\<close>: a line ends at a newline, a carriage return before it is dropped, and the empty
  text after the last newline is not a line.\<close>

function text_lines :: "string \<Rightarrow> string list" where
  "text_lines s =
     (if s = [] then []
      else let l = takeWhile (\<lambda>c. c \<noteq> newline) s; rest = dropWhile (\<lambda>c. c \<noteq> newline) s
           in if rest = [] then [l] else strip_cr l # text_lines (tl rest))"
  by pat_completeness auto
termination
proof (relation "measure length", simp)
  fix s :: string and l rest
  assume "s \<noteq> []" "rest = dropWhile (\<lambda>c. c \<noteq> newline) s" "rest \<noteq> []"
  then show "(tl rest, s) \<in> measure length"
    using length_dropWhile_le [of "\<lambda>c. c \<noteq> newline" s] by (cases s) (auto simp: le_imp_less_Suc)
qed

declare text_lines.simps [simp del]

definition trim_start :: "string \<Rightarrow> string" where
  "trim_start s = dropWhile is_blank_char s"

definition is_legacy_text :: "string \<Rightarrow> bool" where
  "is_legacy_text content \<longleftrightarrow> (case trim_start content of [] \<Rightarrow> False | c # _ \<Rightarrow> c = CHR ''['')"

section \<open>JSON text\<close>

record ('e, 'id) file_codec =
  fc_parse :: "string \<Rightarrow> string + json"
  fc_parse_array :: "string \<Rightarrow> string + json list"
  fc_render :: "json \<Rightarrow> string + string"
  fc_envelope :: "('e, 'id) event_envelope codec"
  fc_id :: "'id codec"

fun parse_lines_loop :: "('e, 'id) file_codec \<Rightarrow> string list \<Rightarrow> json list \<Rightarrow> event_store_error + json list" where
  "parse_lines_loop C [] values = Ok values"
| "parse_lines_loop C (line # lines) values =
     (case fc_parse C line of
        Inr value \<Rightarrow> parse_lines_loop C lines (values @ [value])
      | Inl error \<Rightarrow>
          if lines = [] then Ok values
          else Err (error_deserialization (''invalid JSON line: '' @ error)))"

definition parse_json_lines :: "('e, 'id) file_codec \<Rightarrow> string \<Rightarrow> event_store_error + json list" where
  "parse_json_lines C content =
     parse_lines_loop C (filter (\<lambda>line. \<not> list_all is_blank_char line) (text_lines content)) []"

definition read_event_values ::
  "('e, 'id) file_codec \<Rightarrow> (json_file, event_store_error + json list) op" where
  "read_event_values C f =
     (if jf_content f = None then (Ok [], f)
      else try_op read_to_string (\<lambda>content. return_op
        (if is_legacy_text content then map_err error_deserialization (fc_parse_array C content)
         else parse_json_lines C content)) f)"

definition file_is_legacy_array :: "(json_file, event_store_error + bool) op" where
  "file_is_legacy_array f =
     (if jf_content f = None then (Ok False, f)
      else try_op read_to_string (\<lambda>content. return_op (Ok (is_legacy_text content))) f)"

fun json_lines_from_values :: "('e, 'id) file_codec \<Rightarrow> json list \<Rightarrow> event_store_error + string" where
  "json_lines_from_values C [] = Ok []"
| "json_lines_from_values C (value # values) =
     and_then (map_err error_serialization (fc_render C value)) (\<lambda>line.
       map_ok (\<lambda>lines. line @ newline # lines) (json_lines_from_values C values))"

definition append_event_lines ::
  "('e, 'id) file_codec \<Rightarrow> json list \<Rightarrow> string list \<Rightarrow> (json_file, event_store_error + unit) op" where
  "append_event_lines C existing new_lines =
     try_op io_step (\<lambda>_.
     try_op file_is_legacy_array (\<lambda>legacy f.
       if legacy \<or> jf_content f = None
       then try_op (return_op (map_err error_serialization (collect_results (fc_parse C) new_lines))) (\<lambda>new.
            try_op (return_op (json_lines_from_values C (existing @ new))) (\<lambda>content.
              write_atomic content)) f
       else append_to_file (concat (map (\<lambda>line. line @ [newline]) new_lines)) f))"

section \<open>The event store\<close>

definition value_of_type :: "string \<Rightarrow> json \<Rightarrow> bool" where
  "value_of_type at val \<longleftrightarrow> Option.bind (json_get val ''aggregate_type'') as_str = Some at"

definition value_id :: "('e, 'id) file_codec \<Rightarrow> json \<Rightarrow> event_store_error + 'id" where
  "value_id C val =
     and_then (ok_or (error_deserialization ''missing aggregate_id'') (json_get val ''aggregate_id'')) (\<lambda>id_val.
       map_err (\<lambda>e. error_deserialization (''failed to deserialize aggregate_id: '' @ e))
         (cd_from_value (fc_id C) id_val))"

definition value_envelope ::
  "('e, 'id) file_codec \<Rightarrow> json \<Rightarrow> event_store_error + ('e, 'id) event_envelope" where
  "value_envelope C val =
     map_err (\<lambda>e. error_deserialization (''failed to deserialize event envelope: '' @ e))
       (cd_from_value (fc_envelope C) val)"

fun load_loop ::
  "('e, 'id) file_codec \<Rightarrow> string \<Rightarrow> 'id \<Rightarrow> json list \<Rightarrow> ('e, 'id) event_stream \<Rightarrow>
   event_store_error + ('e, 'id) event_stream" where
  "load_loop C at aggregate_id [] envelopes = Ok envelopes"
| "load_loop C at aggregate_id (val # vals) envelopes =
     (if value_of_type at val
      then and_then (value_id C val) (\<lambda>i.
        if i = aggregate_id
        then and_then (value_envelope C val) (\<lambda>envelope.
          load_loop C at aggregate_id vals (envelopes @ [envelope]))
        else load_loop C at aggregate_id vals envelopes)
      else load_loop C at aggregate_id vals envelopes)"

definition json_load ::
  "('e, 'id) file_codec \<Rightarrow> string \<Rightarrow> 'id \<Rightarrow> (json_file, event_store_error + ('e, 'id) event_stream) op" where
  "json_load C at aggregate_id =
     try_op take_file_lock (\<lambda>_.
     try_op (read_event_values C) (\<lambda>values.
     try_op (return_op (load_loop C at aggregate_id values [])) (\<lambda>envelopes.
       return_op (Ok (sort_key env_revision envelopes)))))"

text \<open>The scan before an append: the stream's revision and the greatest sequence of the file.\<close>

fun scan_loop ::
  "('e, 'id) file_codec \<Rightarrow> string \<Rightarrow> 'id \<Rightarrow> json list \<Rightarrow> nat \<Rightarrow> nat \<Rightarrow> event_store_error + nat \<times> nat" where
  "scan_loop C at aggregate_id [] current_revision max_sequence = Ok (current_revision, max_sequence)"
| "scan_loop C at aggregate_id (val # vals) current_revision max_sequence =
     (let max_sequence' = (case Option.bind (json_get val ''sequence'') as_u64_value of
            Some seq \<Rightarrow> if seq > max_sequence then seq else max_sequence
          | None \<Rightarrow> max_sequence)
      in if value_of_type at val
         then and_then (value_id C val) (\<lambda>i.
           if i = aggregate_id
           then and_then (ok_or (error_deserialization ''missing revision'') (json_get val ''revision'')) (\<lambda>rev_val.
                and_then (ok_or (error_deserialization ''revision is not a valid u64'') (as_u64_value rev_val)) (\<lambda>rev.
                  scan_loop C at aggregate_id vals
                    (if rev > current_revision then rev else current_revision) max_sequence'))
           else scan_loop C at aggregate_id vals current_revision max_sequence')
         else scan_loop C at aggregate_id vals current_revision max_sequence')"

fun json_check_expected :: "expected_revision \<Rightarrow> nat \<Rightarrow> event_store_error + unit" where
  "json_check_expected Any current_revision = Ok ()"
| "json_check_expected NoStream current_revision =
     (if current_revision = 0 then Ok () else Err (Concurrency StreamAlreadyExists))"
| "json_check_expected (Exact expected) current_revision =
     (if expected = current_revision then Ok ()
      else Err (Concurrency (WrongExpectedRevision (Exact expected) current_revision)))"

text \<open>\<open>now\<close> was read before the loop; each event takes a fresh identifier.\<close>

fun build_loop ::
  "('e, 'id) file_codec \<Rightarrow> string \<Rightarrow> source \<Rightarrow> 'id \<Rightarrow> nat \<Rightarrow> nat \<Rightarrow> system_time \<Rightarrow> nat \<Rightarrow> 'e new_event list \<Rightarrow>
   (json_file, event_store_error + ('e, 'id) event_stream \<times> string list) op" where
  "build_loop C at src aggregate_id current_revision max_sequence now i [] = return_op (Ok ([], []))"
| "build_loop C at src aggregate_id current_revision max_sequence now i (event # events) = (\<lambda>f.
     let revision = current_revision + i + 1;
         sequence = max_sequence + i + 1;
         event_id = fst (src (jf_ticks f));
         envelope = envelope_new event_id aggregate_id (aggregate_type_new at) revision (Some sequence)
           (ne_event_type event) (ne_event_version event) (ne_payload event) (ne_metadata event) now
     in try_op (return_op (map_err error_serialization (cd_to_string (fc_envelope C) envelope))) (\<lambda>line.
        try_op (build_loop C at src aggregate_id current_revision max_sequence now (i + 1) events)
          (\<lambda>(envelopes, new_lines). return_op (Ok (envelope # envelopes, line # new_lines))))
        (f\<lparr>jf_ticks := jf_ticks f + 1\<rparr>))"

definition json_append ::
  "('e, 'id) file_codec \<Rightarrow> string \<Rightarrow> source \<Rightarrow> 'id \<Rightarrow> expected_revision \<Rightarrow> 'e new_event list \<Rightarrow>
   (json_file, event_store_error + ('e, 'id) event_stream) op" where
  "json_append C at src aggregate_id expected_revision events =
     try_op take_file_lock (\<lambda>_.
     try_op (read_event_values C) (\<lambda>all_values.
     try_op (return_op (scan_loop C at aggregate_id all_values 0 0)) (\<lambda>(current_revision, max_sequence).
     try_op (return_op (json_check_expected expected_revision current_revision)) (\<lambda>_.
       if events = [] then return_op (Ok [])
       else (\<lambda>f. let now = snd (src (jf_ticks f)) in
         try_op (build_loop C at src aggregate_id current_revision max_sequence now 0 events)
           (\<lambda>(envelopes, new_lines).
           try_op (append_event_lines C all_values new_lines) (\<lambda>_.
             return_op (Ok envelopes)))
           (f\<lparr>jf_ticks := jf_ticks f + 1\<rparr>))))))"

text \<open>The bounded window of the global feed: selected and sorted by sequence, then deserialised.\<close>

definition select_after :: "string \<Rightarrow> nat \<Rightarrow> json list \<Rightarrow> (nat \<times> json) list" where
  "select_after at seq_num values =
     filter (\<lambda>(sequence, value). sequence > seq_num)
       (map (\<lambda>value. (case Option.bind (json_get value ''sequence'') as_u64_value of
            Some s \<Rightarrow> s | None \<Rightarrow> 0, value)) (filter (value_of_type at) values))"

definition load_global_range ::
  "('e, 'id) file_codec \<Rightarrow> string \<Rightarrow> nat option \<Rightarrow> nat option \<Rightarrow>
   (json_file, event_store_error + ('e, 'id) event_stream) op" where
  "load_global_range C at sequence limit =
     try_op take_file_lock (\<lambda>_.
     try_op (read_event_values C) (\<lambda>values.
       let selected = sort_key fst (select_after at (case sequence of None \<Rightarrow> 0 | Some s \<Rightarrow> s) values);
           window = (case limit of None \<Rightarrow> selected | Some n \<Rightarrow> take n selected)
       in return_op (collect_results (\<lambda>(_, value). value_envelope C value) window)))"

definition json_event_store ::
  "('e, 'id) file_codec \<Rightarrow> string \<Rightarrow> source \<Rightarrow> (json_file, 'id, 'e, event_store_error) event_store" where
  "json_event_store C at src = \<lparr>es_load = json_load C at,
     es_load_after_revision = default_load_after_revision (json_load C at),
     es_append = json_append C at src,
     es_load_global_after_limited = (\<lambda>sequence limit. load_global_range C at sequence (Some limit))\<rparr>"

text \<open>The raw feed serves the events of every aggregate type.\<close>

fun raw_loop ::
  "(json \<Rightarrow> string + ('r, 'i) event_envelope) \<Rightarrow> nat \<Rightarrow> json list \<Rightarrow> ('r, 'i) event_stream \<Rightarrow>
   event_store_error + ('r, 'i) event_stream" where
  "raw_loop from_value checkpoint [] envelopes = Ok envelopes"
| "raw_loop from_value checkpoint (val # vals) envelopes =
     and_then (map_err (\<lambda>e. error_deserialization (''failed to deserialize event envelope: '' @ e))
         (from_value val)) (\<lambda>envelope.
       raw_loop from_value checkpoint vals
         (if (case env_sequence envelope of None \<Rightarrow> 0 | Some s \<Rightarrow> s) > checkpoint
          then envelopes @ [envelope] else envelopes))"

definition json_load_raw_global_after_limited ::
  "(json \<Rightarrow> string + ('r, 'i) event_envelope) \<Rightarrow> ('e, 'id) file_codec \<Rightarrow> nat option \<Rightarrow> nat \<Rightarrow>
   (json_file, event_store_error + ('r, 'i) event_stream) op" where
  "json_load_raw_global_after_limited from_value C sequence limit =
     try_op take_file_lock (\<lambda>_.
     try_op (read_event_values C) (\<lambda>values.
     try_op (return_op (raw_loop from_value (case sequence of None \<Rightarrow> 0 | Some s \<Rightarrow> s) values [])) (\<lambda>envelopes.
       return_op (Ok (take limit (sort_key (\<lambda>e. case env_sequence e of None \<Rightarrow> 0 | Some s \<Rightarrow> s + 1) envelopes))))))"

section \<open>The checkpoint store\<close>

text \<open>The file holds one JSON object; \<open>parse_map\<close> and \<open>render_map\<close> are \<open>from_str\<close> and \<open>to_string\<close> at
  the type of a hash map from names to sequences.\<close>

record map_codec =
  mc_parse :: "string \<Rightarrow> string + (string \<rightharpoonup> nat)"
  mc_render :: "(string \<rightharpoonup> nat) \<Rightarrow> string + string"

definition json_load_checkpoint ::
  "map_codec \<Rightarrow> string \<Rightarrow> (json_file, event_store_error + nat option) op" where
  "json_load_checkpoint M projection_name =
     try_op take_file_lock (\<lambda>_ f.
       if jf_content f = None then (Ok None, f)
       else try_op read_to_string (\<lambda>content.
            try_op (return_op (map_err error_deserialization (mc_parse M content))) (\<lambda>m.
              return_op (Ok (m projection_name)))) f)"

definition json_save_checkpoint ::
  "map_codec \<Rightarrow> string \<Rightarrow> nat \<Rightarrow> (json_file, event_store_error + unit) op" where
  "json_save_checkpoint M projection_name sequence =
     try_op take_file_lock (\<lambda>_.
     try_op (\<lambda>f. if jf_content f \<noteq> None then read_to_string f else (Ok ''{}'', f)) (\<lambda>content.
     try_op (return_op (map_err error_deserialization (mc_parse M content))) (\<lambda>m.
     try_op (return_op (map_err error_serialization (mc_render M (m(projection_name \<mapsto>
         (case m projection_name of None \<Rightarrow> sequence | Some existing \<Rightarrow> max existing sequence)))))) (\<lambda>new_content.
       write_atomic new_content))))"

definition json_reset_checkpoint ::
  "map_codec \<Rightarrow> string \<Rightarrow> (json_file, event_store_error + unit) op" where
  "json_reset_checkpoint M projection_name =
     try_op take_file_lock (\<lambda>_ f.
       if jf_content f = None then (Ok (), f)
       else try_op read_to_string (\<lambda>content.
            try_op (return_op (map_err error_deserialization (mc_parse M content))) (\<lambda>m.
            try_op (return_op (map_err error_serialization (mc_render M (m(projection_name := None))))) (\<lambda>new_content.
              write_atomic new_content))) f)"

definition json_checkpoint_store :: "map_codec \<Rightarrow> (json_file, event_store_error) checkpoint_store" where
  "json_checkpoint_store M = \<lparr>cs_load_checkpoint = json_load_checkpoint M,
     cs_save_checkpoint = json_save_checkpoint M, cs_reset_checkpoint = json_reset_checkpoint M\<rparr>"

end
