(* ===== verification/Json_File_Facts.thy ===== *)
theory Json_File_Facts
  imports Json_File
begin

text \<open>
  What the JSON file store keeps: the laws asked of the JSON text functions, the values a file holds,
  the invariant, and the contract of the event store over files whose system calls may fail.
\<close>

section \<open>JSON text\<close>

definition line_text :: "string \<Rightarrow> bool" where
  "line_text t \<longleftrightarrow> (\<exists>cs. t = CHR ''{'' # cs) \<and> newline \<notin> set t \<and> carriage_return \<notin> set t"

definition is_object :: "json \<Rightarrow> bool" where
  "is_object v \<longleftrightarrow> as_object v \<noteq> None"

text \<open>The derived serialisation of an envelope: an object with its fields.\<close>

definition stores_envelope ::
  "('e, 'id) file_codec \<Rightarrow> json \<Rightarrow> ('e, 'id) event_envelope \<Rightarrow> bool" where
  "stores_envelope C v env \<longleftrightarrow> is_object v \<and> cd_from_value (fc_envelope C) v = Ok env \<and>
     json_get v ''aggregate_type'' = Some (JString (aggregate_type_as_str (env_aggregate_type env))) \<and>
     (\<exists>i. json_get v ''aggregate_id'' = Some i \<and> cd_from_value (fc_id C) i = Ok (env_aggregate_id env)) \<and>
     json_get v ''revision'' = Some (json_nat (env_revision env)) \<and>
     Option.bind (json_get v ''sequence'') as_u64_value = env_sequence env"

text \<open>
  What the code relies on in \<open>serde_json\<close>: the text of an object is one line that starts with a
  brace and is parsed back as that object, and the text of an envelope is the text of its object.
\<close>

definition file_codec_laws :: "('e, 'id) file_codec \<Rightarrow> bool" where
  "file_codec_laws C \<longleftrightarrow>
     (\<forall>v t. is_object v \<longrightarrow> fc_render C v = Ok t \<longrightarrow> fc_parse C t = Ok v \<and> line_text t) \<and>
     (\<forall>env t. cd_to_string (fc_envelope C) env = Ok t \<longrightarrow>
        (\<exists>v. stores_envelope C v env \<and> fc_render C v = Ok t))"

section \<open>Lines\<close>

lemma text_lines_Nil [simp]: "text_lines [] = []"
  by (simp add: text_lines.simps)

lemma text_lines_line:
  "newline \<notin> set l \<Longrightarrow> text_lines (l @ newline # rest) = strip_cr l # text_lines rest"
proof -
  assume "newline \<notin> set l"
  then have "takeWhile (\<lambda>c. c \<noteq> newline) (l @ newline # rest) = l"
    "dropWhile (\<lambda>c. c \<noteq> newline) (l @ newline # rest) = newline # rest"
    by (auto simp: takeWhile_tail dropWhile_append3)
  then show ?thesis by (subst text_lines.simps) (simp add: Let_def)
qed

lemma text_lines_append:
  "s = [] \<or> last s = newline \<Longrightarrow> text_lines (s @ rest) = text_lines s @ text_lines rest"
proof (induction s rule: length_induct)
  case (1 s)
  show ?case
  proof (cases "s = []")
    case False
    then have "newline \<in> set s" using "1.prems" last_in_set by metis
    then obtain l s' where s: "s = l @ newline # s'" "newline \<notin> set l" by (meson split_list_first)
    then have "s' = [] \<or> last s' = newline" using "1.prems" by (cases s') auto
    then have "text_lines (s' @ rest) = text_lines s' @ text_lines rest"
      using "1.IH" s by auto
    then show ?thesis using s text_lines_line [of l "s' @ rest"] text_lines_line [of l s'] by simp
  qed simp
qed

definition as_lines :: "string list \<Rightarrow> string" where
  "as_lines ls = concat (map (\<lambda>line. line @ [newline]) ls)"

lemma as_lines_simps [simp]: "as_lines [] = []" "as_lines (l # ls) = l @ newline # as_lines ls"
  by (simp_all add: as_lines_def)

lemma as_lines_ends: "ls \<noteq> [] \<Longrightarrow> as_lines ls \<noteq> [] \<and> last (as_lines ls) = newline"
proof (induction ls)
  case (Cons l ls)
  then show ?case by (cases "ls = []") auto
qed simp

lemma strip_line_text: "line_text t \<Longrightarrow> strip_cr t = t"
  using last_in_set by (fastforce simp: line_text_def strip_cr_def)

lemma text_lines_as_lines: "\<forall>l\<in>set ls. line_text l \<Longrightarrow> text_lines (as_lines ls) = ls"
  by (induction ls) (auto simp: text_lines_line line_text_def strip_line_text [unfolded line_text_def])

lemma line_text_not_blank: "line_text t \<Longrightarrow> \<not> list_all is_blank_char t"
  by (auto simp: line_text_def is_blank_char_def)

definition filled_lines :: "string \<Rightarrow> string list" where
  "filled_lines s = filter (\<lambda>line. \<not> list_all is_blank_char line) (text_lines s)"

lemma filled_lines_append:
  "c = [] \<or> last c = newline \<Longrightarrow> \<forall>l\<in>set ls. line_text l \<Longrightarrow>
   filled_lines (c @ as_lines ls) = filled_lines c @ ls"
  by (simp add: filled_lines_def text_lines_append text_lines_as_lines line_text_not_blank filter_id_conv)

lemma legacy_append:
  assumes "\<not> is_legacy_text c" and "\<forall>l\<in>set ls. line_text l"
  shows "\<not> is_legacy_text (c @ as_lines ls)"
proof (cases "\<forall>x\<in>set c. is_blank_char x")
  case True
  then have "trim_start (c @ as_lines ls) = trim_start (as_lines ls)"
    by (simp add: trim_start_def dropWhile_append2)
  moreover have "ls = [] \<or> (\<exists>cs. as_lines ls = CHR ''{'' # cs)"
    using assms(2) by (cases ls) (auto simp: line_text_def)
  ultimately show ?thesis by (auto simp: is_legacy_text_def trim_start_def is_blank_char_def)
next
  case False
  then have "trim_start (c @ as_lines ls) = trim_start c @ as_lines ls" "trim_start c \<noteq> []"
    by (auto simp: trim_start_def dropWhile_append1 dropWhile_eq_Nil_conv)
  then show ?thesis using assms(1) by (cases "trim_start c") (auto simp: is_legacy_text_def)
qed

lemma parse_lines_loop_Ok:
  "list_all2 (\<lambda>l v. fc_parse C l = Ok v) ls vs \<Longrightarrow> parse_lines_loop C ls acc = Ok (acc @ vs)"
  by (induction ls vs arbitrary: acc rule: list_all2_induct) auto

lemma json_lines_from_values_Ok:
  assumes "file_codec_laws C" and "\<forall>v\<in>set vs. is_object v" and "json_lines_from_values C vs = Ok content"
  shows "\<exists>ls. content = as_lines ls \<and> (\<forall>l\<in>set ls. line_text l) \<and>
    list_all2 (\<lambda>l v. fc_parse C l = Ok v) ls vs"
  using assms(2,3)
proof (induction vs arbitrary: content)
  case (Cons v vs)
  then obtain l rest where l: "fc_render C v = Ok l" and rest: "json_lines_from_values C vs = Ok rest"
    and content: "content = l @ newline # rest" by (auto simp: result_simps)
  from Cons.IH [OF _ rest] Cons.prems(1) obtain ls where "rest = as_lines ls"
    "\<forall>l\<in>set ls. line_text l" "list_all2 (\<lambda>l v. fc_parse C l = Ok v) ls vs" by auto
  moreover have "fc_parse C l = Ok v \<and> line_text l"
    using assms(1) l Cons.prems(1) by (auto simp: file_codec_laws_def)
  ultimately show ?case using content by (intro exI [of _ "l # ls"]) simp
qed simp

section \<open>The values of a file\<close>

definition content_holds :: "('e, 'id) file_codec \<Rightarrow> string option \<Rightarrow> json list \<Rightarrow> bool" where
  "content_holds C content vs \<longleftrightarrow> (\<forall>v\<in>set vs. is_object v) \<and>
     (case content of
        None \<Rightarrow> vs = []
      | Some c \<Rightarrow>
          if is_legacy_text c then fc_parse_array C c = Ok vs
          else (c = [] \<or> last c = newline) \<and> list_all2 (\<lambda>l v. fc_parse C l = Ok v) (filled_lines c) vs)"

lemma content_holds_append:
  assumes "content_holds C (Some c) vs" and "\<not> is_legacy_text c"
    and "\<forall>l\<in>set ls. line_text l" and "list_all2 (\<lambda>l v. fc_parse C l = Ok v) ls new"
    and "\<forall>v\<in>set new. is_object v"
  shows "content_holds C (Some (c @ as_lines ls)) (vs @ new)"
  using assms legacy_append [OF assms(2,3)] as_lines_ends [of ls] filled_lines_append [OF _ assms(3), of c]
  by (cases "ls = []") (auto simp: content_holds_def list_all2_appendI)

lemma content_holds_lines:
  assumes "file_codec_laws C" and "\<forall>v\<in>set vs. is_object v" and "json_lines_from_values C vs = Ok content"
  shows "content_holds C (Some content) vs"
proof -
  obtain ls where ls: "content = as_lines ls" "\<forall>l\<in>set ls. line_text l"
    "list_all2 (\<lambda>l v. fc_parse C l = Ok v) ls vs"
    using json_lines_from_values_Ok [OF assms] by blast
  have "content_holds C (Some []) []" "\<not> is_legacy_text []"
    by (simp_all add: content_holds_def filled_lines_def is_legacy_text_def trim_start_def)
  from content_holds_append [OF this ls(2,3) assms(2)] show ?thesis by (simp add: ls(1))
qed

section \<open>System calls\<close>

text \<open>No write of the outcomes to come is torn.\<close>

definition untorn :: "json_file \<Rightarrow> bool" where
  "untorn f \<longleftrightarrow> (\<forall>e n. IoTorn e n \<notin> set (jf_outcomes f))"

text \<open>A call that leaves the content alone; without faults it does nothing else either.\<close>

definition reads :: "json_file \<Rightarrow> json_file \<Rightarrow> bool" where
  "reads f f' \<longleftrightarrow> jf_content f' = jf_content f \<and> (untorn f \<longrightarrow> untorn f') \<and>
     (jf_outcomes f = [] \<longrightarrow> jf_outcomes f' = [])"

lemma reads_refl [simp, intro]: "reads f f"
  by (simp add: reads_def)

lemma reads_trans: "reads f g \<Longrightarrow> reads g h \<Longrightarrow> reads f h"
  by (simp add: reads_def)

lemma reads_ticks [simp]: "reads f (g\<lparr>jf_ticks := n\<rparr>) = reads f g"
  by (simp add: reads_def untorn_def)

lemma next_outcome_reads: "next_outcome f = (r, f') \<Longrightarrow> reads f f'"
  by (auto simp: next_outcome_def reads_def untorn_def split: list.splits)

lemma io_step_reads: "io_step f = (r, f') \<Longrightarrow> reads f f'"
  by (auto simp: io_step_def split: prod.splits io_outcome.splits dest: next_outcome_reads)

lemma io_step_calm: "jf_outcomes f = [] \<Longrightarrow> io_step f = (Ok (), f)"
  by (simp add: io_step_def next_outcome_def)

lemma try_op_reads:
  assumes "try_op g k f = (r, f')" and "\<And>a f1. g f = (a, f1) \<Longrightarrow> reads f f1"
    and "\<And>a f1. g f = (Inr a, f1) \<Longrightarrow> k a f1 = (r, f') \<Longrightarrow> reads f1 f'"
  shows "reads f f'"
  using assms by (auto simp: try_op_def split: prod.splits sum.splits intro: reads_trans)

lemma take_file_lock_reads: "take_file_lock f = (r, f') \<Longrightarrow> reads f f'"
  unfolding take_file_lock_def
  by (auto split: if_splits elim!: try_op_reads dest: io_step_reads)

lemma take_file_lock_calm:
  "jf_outcomes f = [] \<Longrightarrow> \<not> jf_poisoned f \<Longrightarrow> \<not> jf_registry_poisoned f \<Longrightarrow> take_file_lock f = (Ok (), f)"
  by (simp add: take_file_lock_def try_op_def io_step_calm)

lemma read_to_string_reads: "read_to_string f = (r, f') \<Longrightarrow>
   reads f f' \<and> (\<forall>c. r = Inr c \<longrightarrow> c = (case jf_content f of None \<Rightarrow> [] | Some c \<Rightarrow> c))"
  by (auto simp: read_to_string_def try_op_def reads_def split: prod.splits sum.splits dest!: io_step_reads)

lemma read_to_string_calm:
  "jf_outcomes f = [] \<Longrightarrow> read_to_string f = (Ok (case jf_content f of None \<Rightarrow> [] | Some c \<Rightarrow> c), f)"
  by (simp add: read_to_string_def try_op_def io_step_calm)

lemma parse_content:
  assumes "content_holds C (Some c) vs"
  shows "(if is_legacy_text c then map_err error_deserialization (fc_parse_array C c)
    else parse_json_lines C c) = Ok vs"
  using assms by (auto simp: content_holds_def parse_json_lines_def filled_lines_def
      parse_lines_loop_Ok [of _ _ _ "[]", simplified])

lemma read_event_values_reads:
  assumes "read_event_values C f = (r, f')" and "content_holds C (jf_content f) vs"
  shows "reads f f' \<and> (\<forall>es. r = Inr es \<longrightarrow> es = vs)"
proof (cases "jf_content f")
  case None
  then show ?thesis using assms by (auto simp: read_event_values_def content_holds_def)
next
  case (Some c)
  with assms have run: "try_op read_to_string (\<lambda>content. return_op
      (if is_legacy_text content then map_err error_deserialization (fc_parse_array C content)
       else parse_json_lines C content)) f = (r, f')" by (simp add: read_event_values_def)
  obtain q f1 where q: "read_to_string f = (q, f1)" by (meson surj_pair)
  from read_to_string_reads [OF this] Some have "reads f f1" "\<forall>t. q = Inr t \<longrightarrow> t = c" by auto
  then show ?thesis using run q parse_content [OF assms(2) [unfolded Some]]
    by (cases q) (auto simp: try_op_def return_op_def)
qed

lemma read_event_values_calm:
  "jf_outcomes f = [] \<Longrightarrow> content_holds C (jf_content f) vs \<Longrightarrow> read_event_values C f = (Ok vs, f)"
  using parse_content [of C "the (jf_content f)" vs]
  by (cases "jf_content f")
     (auto simp: read_event_values_def content_holds_def try_op_def read_to_string_calm return_op_def)

section \<open>Streams\<close>

definition envelope_of :: "('e, 'id) file_codec \<Rightarrow> json \<Rightarrow> ('e, 'id) event_envelope" where
  "envelope_of C v = (case cd_from_value (fc_envelope C) v of Inr env \<Rightarrow> env | Inl _ \<Rightarrow> undefined)"

definition typed :: "('e, 'id) file_codec \<Rightarrow> string \<Rightarrow> json list \<Rightarrow> ('e, 'id) event_stream" where
  "typed C at vs = map (envelope_of C) (filter (value_of_type at) vs)"

definition file_stream ::
  "('e, 'id) file_codec \<Rightarrow> string \<Rightarrow> json list \<Rightarrow> 'id \<Rightarrow> ('e, 'id) event_stream" where
  "file_stream C at vs i = filter (\<lambda>e. env_aggregate_id e = i) (typed C at vs)"

definition values_ok :: "('e, 'id) file_codec \<Rightarrow> string \<Rightarrow> json list \<Rightarrow> bool" where
  "values_ok C at vs \<longleftrightarrow> (\<forall>v\<in>set vs. value_of_type at v \<longrightarrow> (\<exists>env. stores_envelope C v env)) \<and>
     (\<forall>i. contiguous_from 0 (file_stream C at vs i))"

lemma stores_envelope_facts:
  assumes "stores_envelope C v env"
  shows "value_id C v = Ok (env_aggregate_id env)" "value_envelope C v = Ok env" "envelope_of C v = env"
    and "Option.bind (json_get v ''revision'') as_u64_value = Some (env_revision env)"
    and "value_of_type at v \<longleftrightarrow> at = aggregate_type_as_str (env_aggregate_type env)"
  using assms by (auto simp: stores_envelope_def value_id_def value_envelope_def envelope_of_def value_of_type_def)

lemma typed_append [simp]: "typed C at (vs @ ws) = typed C at vs @ typed C at ws"
  by (simp add: typed_def)

lemma file_stream_append: "file_stream C at (vs @ ws) i = file_stream C at vs i @ file_stream C at ws i"
  by (simp add: file_stream_def)

lemma load_loop_Ok:
  "\<forall>v\<in>set vs. value_of_type at v \<longrightarrow> (\<exists>env. stores_envelope C v env) \<Longrightarrow>
   load_loop C at i vs acc = Ok (acc @ file_stream C at vs i)"
proof (induction vs arbitrary: acc)
  case (Cons v vs)
  show ?case
  proof (cases "value_of_type at v")
    case True
    then obtain env where "stores_envelope C v env" using Cons.prems by auto
    note facts = stores_envelope_facts [OF this]
    show ?thesis using Cons True facts by (simp add: file_stream_def typed_def)
  qed (use Cons in \<open>simp add: file_stream_def typed_def\<close>)
qed (simp add: file_stream_def typed_def)

lemma scan_loop_Ok:
  "\<forall>v\<in>set vs. value_of_type at v \<longrightarrow> (\<exists>env. stores_envelope C v env) \<Longrightarrow>
   \<exists>ms'. scan_loop C at i vs cr ms = Ok (foldl max cr (map env_revision (file_stream C at vs i)), ms')"
proof (induction vs arbitrary: cr ms)
  case (Cons v vs)
  show ?case
  proof (cases "value_of_type at v")
    case True
    then obtain env where env: "stores_envelope C v env" using Cons.prems by auto
    note facts = stores_envelope_facts [OF this]
    have "json_get v ''revision'' = Some (json_nat (env_revision env))"
      using env by (simp add: stores_envelope_def)
    then show ?thesis using Cons True facts
      by (auto simp: file_stream_def typed_def Let_def max_def not_less)
  qed (use Cons in \<open>simp add: file_stream_def typed_def Let_def\<close>)
qed (simp add: file_stream_def typed_def)

lemma contiguous_max: "contiguous_from r es \<Longrightarrow> foldl max r (map env_revision es) = r + length es"
  by (induction es arbitrary: r) (auto simp: max_def)

lemma contiguous_sorted:
  assumes "contiguous_from r es"
  shows "sort_key env_revision es = es"
proof -
  have "sorted (map env_revision es)"
    using assms by (simp only: contiguous_from_revisions sorted_upt)
  then show ?thesis by (rule sort_key_id_if_sorted)
qed

section \<open>The operations\<close>

definition file_ok :: "('e, 'id) file_codec \<Rightarrow> string \<Rightarrow> json_file \<Rightarrow> json list \<Rightarrow> bool" where
  "file_ok C at f vs \<longleftrightarrow> content_holds C (jf_content f) vs \<and> values_ok C at vs"

lemma json_load_result:
  assumes "json_load C at i f = (r, f')" and "file_ok C at f vs"
  shows "reads f f' \<and> (\<forall>es. r = Inr es \<longrightarrow> es = file_stream C at vs i)"
proof -
  have loop: "load_loop C at i vs [] = Ok (file_stream C at vs i)"
    and sorted: "sort_key env_revision (file_stream C at vs i) = file_stream C at vs i"
    using assms(2) load_loop_Ok [of vs at C i "[]"]
    by (auto simp: file_ok_def values_ok_def intro: contiguous_sorted)
  obtain q f1 where lock: "take_file_lock f = (q, f1)" by (meson surj_pair)
  obtain p f2 where read: "read_event_values C f1 = (p, f2)" by (meson surj_pair)
  have 1: "reads f f1" using take_file_lock_reads [OF lock] .
  then have "content_holds C (jf_content f1) vs" using assms(2) by (simp add: file_ok_def reads_def)
  note 2 = read_event_values_reads [OF read this]
  show ?thesis
  proof (cases q)
    case (Inr u)
    then show ?thesis using assms(1) lock read 1 2 loop sorted
      by (cases p) (auto simp: json_load_def try_op_def return_op_def intro: reads_trans)
  qed (use assms(1) lock 1 in \<open>auto simp: json_load_def try_op_def\<close>)
qed

lemma json_load_calm:
  assumes "file_ok C at f vs" and "jf_outcomes f = []" "\<not> jf_poisoned f" "\<not> jf_registry_poisoned f"
  shows "json_load C at i f = (Ok (file_stream C at vs i), f)"
proof -
  have "load_loop C at i vs [] = Ok (file_stream C at vs i)"
    "sort_key env_revision (file_stream C at vs i) = file_stream C at vs i"
    using assms(1) load_loop_Ok [of vs at C i "[]"]
    by (auto simp: file_ok_def values_ok_def intro: contiguous_sorted)
  moreover have "read_event_values C f = (Ok vs, f)"
    using assms(1,2) by (intro read_event_values_calm) (simp_all add: file_ok_def)
  ultimately show ?thesis using assms(2-)
    by (simp add: json_load_def try_op_def return_op_def take_file_lock_calm)
qed

text \<open>The envelopes an append builds.\<close>

definition new_envelope where
  "new_envelope at src i cr ms now t k event = envelope_new (fst (src (t + k))) i (aggregate_type_new at)
     (cr + k + 1) (Some (ms + k + 1)) (ne_event_type event) (ne_event_version event) (ne_payload event)
     (ne_metadata event) now"

lemma build_loop_result:
  assumes "build_loop C at src i cr ms now n events f = (r, f')"
  shows "reads f f' \<and> (\<forall>envelopes new_lines. r = Inr (envelopes, new_lines) \<longrightarrow>
    length envelopes = length events \<and>
    contiguous_from (cr + n) envelopes \<and> map env_payload envelopes = map ne_payload events \<and>
    (\<forall>e\<in>set envelopes. env_aggregate_id e = i \<and> env_aggregate_type e = aggregate_type_new at) \<and>
    list_all2 (\<lambda>e l. cd_to_string (fc_envelope C) e = Ok l) envelopes new_lines)"
  using assms
proof (induction events arbitrary: n f r f')
  case Nil
  then show ?case by (auto simp: return_op_def)
next
  case (Cons event events)
  let ?env = "new_envelope at src i cr ms now (jf_ticks f) 0 event\<lparr>env_revision := cr + n + 1,
    env_sequence := Some (ms + n + 1)\<rparr>"
  let ?f = "f\<lparr>jf_ticks := jf_ticks f + 1\<rparr>"
  have env: "?env = envelope_new (fst (src (jf_ticks f))) i (aggregate_type_new at) (cr + n + 1)
      (Some (ms + n + 1)) (ne_event_type event) (ne_event_version event) (ne_payload event)
      (ne_metadata event) now" by (simp add: new_envelope_def envelope_new_def)
  obtain q f1 where rec: "build_loop C at src i cr ms now (n + 1) events ?f = (q, f1)" by (meson surj_pair)
  note IH = Cons.IH [OF rec]
  have reads: "reads f f1" using IH by (auto simp: reads_def untorn_def)
  have run: "try_op (return_op (map_err error_serialization (cd_to_string (fc_envelope C) ?env))) (\<lambda>line.
      try_op (build_loop C at src i cr ms now (n + 1) events)
        (\<lambda>(envelopes, new_lines). return_op (Ok (?env # envelopes, line # new_lines)))) ?f = (r, f')"
    using Cons.prems unfolding env by (simp add: Let_def)
  show ?case
  proof (cases "cd_to_string (fc_envelope C) ?env")
    case (Inl e)
    then show ?thesis using run by (auto simp: try_op_def return_op_def)
  next
    case (Inr line)
    then show ?thesis using run rec reads IH unfolding env
      by (cases q) (auto simp: try_op_def return_op_def aggregate_type_new_def)
  qed
qed

lemma stored_lines:
  assumes "file_codec_laws C" and "list_all2 (\<lambda>e l. cd_to_string (fc_envelope C) e = Ok l) envs ls"
  shows "\<exists>new. list_all2 (\<lambda>v e. stores_envelope C v e) new envs \<and> (\<forall>v\<in>set new. is_object v) \<and>
    list_all2 (\<lambda>l v. fc_parse C l = Ok v) ls new \<and> (\<forall>l\<in>set ls. line_text l)"
  using assms(2)
proof (induction envs ls rule: list_all2_induct)
  case (Cons e envs l ls)
  obtain v where v: "stores_envelope C v e" "fc_render C v = Ok l"
    using assms(1) Cons(1) unfolding file_codec_laws_def by blast
  then have "fc_parse C l = Ok v" "line_text l" "is_object v"
    using assms(1) by (auto simp: file_codec_laws_def stores_envelope_def)
  moreover obtain new where "list_all2 (\<lambda>v e. stores_envelope C v e) new envs" "\<forall>v\<in>set new. is_object v"
    "list_all2 (\<lambda>l v. fc_parse C l = Ok v) ls new" "\<forall>l\<in>set ls. line_text l" using Cons by blast
  ultimately show ?case using v by (intro exI [of _ "v # new"]) simp
qed simp

lemma file_is_legacy_array_reads:
  assumes "file_is_legacy_array f = (b, f')"
  shows "reads f f' \<and> (\<forall>l. b = Inr l \<longrightarrow> l = (case jf_content f of None \<Rightarrow> False | Some c \<Rightarrow> is_legacy_text c))"
proof (cases "jf_content f")
  case (Some c)
  obtain q f1 where q: "read_to_string f = (q, f1)" by (meson surj_pair)
  from read_to_string_reads [OF q] Some have "reads f f1" "\<forall>t. q = Inr t \<longrightarrow> t = c" by auto
  with assms q Some show ?thesis
    by (cases q) (auto simp: file_is_legacy_array_def try_op_def return_op_def)
qed (use assms in \<open>auto simp: file_is_legacy_array_def\<close>)

text \<open>What an append leaves in the file: the old values, or the old values and the new ones.\<close>

lemma write_atomic_result:
  "write_atomic content f = (r, f') \<Longrightarrow>
   (untorn f \<longrightarrow> untorn f') \<and> (jf_outcomes f = [] \<longrightarrow> jf_outcomes f' = []) \<and>
   (jf_content f' = jf_content f \<and> r \<noteq> Inr () \<or> jf_content f' = Some content \<and> r = Inr ())"
  by (auto simp: write_atomic_def try_op_def reads_def untorn_def
      split: prod.splits sum.splits dest!: io_step_reads)

lemma append_to_file_result:
  assumes "append_to_file buffer f = (r, f')" and "untorn f" and "jf_content f = Some c"
  shows "untorn f' \<and> (jf_outcomes f = [] \<longrightarrow> r = Inr () \<and> jf_outcomes f' = []) \<and>
   (jf_content f' = Some c \<and> r \<noteq> Inr () \<or> jf_content f' = Some (c @ buffer))"
proof -
  obtain q f1 where q: "io_step f = (q, f1)" by (meson surj_pair)
  have f1: "untorn f1" "jf_content f1 = Some c" "jf_outcomes f = [] \<longrightarrow> q = Inr () \<and> jf_outcomes f1 = []"
    using io_step_reads [OF q] io_step_calm [of f] q assms(2,3) by (auto simp: reads_def)
  obtain out f2 where out: "next_outcome f1 = (out, f2)" by (meson surj_pair)
  have f2: "untorn f2" "jf_content f2 = Some c" "jf_outcomes f1 = [] \<longrightarrow> out = IoOk \<and> jf_outcomes f2 = []"
    "\<And>e n. out \<noteq> IoTorn e n"
    using out f1(1,2) by (auto simp: next_outcome_def untorn_def split: list.splits)
  let ?f3 = "f2\<lparr>jf_content := Some (c @ buffer)\<rparr>"
  obtain s f4 where s: "io_step ?f3 = (s, f4)" by (meson surj_pair)
  have f4: "untorn f4" "jf_content f4 = Some (c @ buffer)" "jf_outcomes f2 = [] \<longrightarrow> s = Inr () \<and> jf_outcomes f4 = []"
    using io_step_reads [OF s] io_step_calm [of ?f3] s f2(1) by (auto simp: reads_def untorn_def)
  show ?thesis using assms(1) q out s f1 f2 f4
    by (cases q; cases out) (auto simp: append_to_file_def try_op_def)
qed

lemma collect_parsed:
  "list_all2 (\<lambda>l v. fc_parse C l = Ok v) ls new \<Longrightarrow> collect_results (fc_parse C) ls = Ok new"
  by (simp add: collect_results_Ok)

lemma append_event_lines_result:
  assumes "file_codec_laws C" and run: "append_event_lines C vs ls f = (r, f')" and "untorn f"
    and holds: "content_holds C (jf_content f) vs"
    and new: "list_all2 (\<lambda>l v. fc_parse C l = Ok v) ls new" "\<forall>v\<in>set new. is_object v" "\<forall>l\<in>set ls. line_text l"
  shows "untorn f' \<and> (content_holds C (jf_content f') vs \<and> r \<noteq> Inr () \<or>
    content_holds C (jf_content f') (vs @ new)) \<and>
    (jf_outcomes f = [] \<longrightarrow> jf_outcomes f' = [] \<and> (r \<noteq> Inr () \<longrightarrow> jf_content f' = jf_content f))"
proof -
  obtain q f1 where q: "io_step f = (q, f1)" by (meson surj_pair)
  obtain b f2 where b: "file_is_legacy_array f1 = (b, f2)" by (meson surj_pair)
  have f1: "reads f f1" using io_step_reads [OF q] .
  have f2: "reads f1 f2" "\<And>l. b = Inr l \<Longrightarrow> l = (case jf_content f of None \<Rightarrow> False | Some c \<Rightarrow> is_legacy_text c)"
    using file_is_legacy_array_reads [OF b] f1 by (auto simp: reads_def)
  have f: "untorn f1" "untorn f2" "jf_content f2 = jf_content f" "jf_content f1 = jf_content f"
    "jf_outcomes f = [] \<longrightarrow> jf_outcomes f1 = [] \<and> jf_outcomes f2 = []"
    using f1 f2(1) assms(3) by (auto simp: reads_def)
  have objects: "\<forall>v\<in>set (vs @ new). is_object v" using holds new(2) by (auto simp: content_holds_def)
  show ?thesis
  proof (cases "q \<noteq> Inr () \<or> (\<exists>e. b = Inl e)")
    case True
    then obtain e where "(r, f') = (Inl e, f1) \<or> (r, f') = (Inl e, f2)"
      using run q b by (cases q; cases b) (auto simp: append_event_lines_def try_op_def)
    then show ?thesis using f holds by auto
  next
    case False
    then obtain l where l: "q = Inr ()" "b = Inr l" by (cases b) auto
    then have run2: "(if l \<or> jf_content f2 = None
       then try_op (return_op (map_err error_serialization (collect_results (fc_parse C) ls))) (\<lambda>new.
            try_op (return_op (json_lines_from_values C (vs @ new))) (\<lambda>content. write_atomic content)) f2
       else append_to_file (as_lines ls) f2) = (r, f')"
      using run q b unfolding append_event_lines_def as_lines_def by (simp add: try_op_run split del: if_split)
    show ?thesis
    proof (cases "l \<or> jf_content f2 = None")
      case True
      then have run3: "try_op (return_op (json_lines_from_values C (vs @ new))) write_atomic f2 = (r, f')"
        using run2 collect_parsed [OF new(1)] by (simp add: try_op_def return_op_def)
      show ?thesis
      proof (cases "json_lines_from_values C (vs @ new)")
        case (Inr content)
        then have "write_atomic content f2 = (r, f')" using run3 by (simp add: try_op_def return_op_def)
        from write_atomic_result [OF this] show ?thesis
          using f holds content_holds_lines [OF assms(1) objects Inr] by auto
      qed (use run3 f holds in \<open>auto simp: try_op_def return_op_def\<close>)
    next
      case False
      then obtain c where c: "jf_content f = Some c" "\<not> is_legacy_text c" using f(3) f2(2) l by auto
      have "append_to_file (as_lines ls) f2 = (r, f')" using run2 False by simp
      from append_to_file_result [OF this f(2)] c f(3,5) show ?thesis
        using holds content_holds_append [OF _ c(2) new(3,1,2)] by auto
    qed
  qed
qed

lemma json_check_expected_contract:
  "json_check_expected expected actual = check_expected_revision expected actual"
  by (cases expected) auto

text \<open>The events of an append, stored after the values of the file.\<close>

definition appends where
  "appends C at i vs new envs \<longleftrightarrow> list_all2 (stores_envelope C) new envs \<and>
     contiguous_from (length (file_stream C at vs i)) envs \<and>
     (\<forall>e\<in>set envs. env_aggregate_id e = i \<and> env_aggregate_type e = aggregate_type_new at)"

lemma appends_stream:
  assumes "appends C at i vs new envs"
  shows "file_stream C at (vs @ new) j = file_stream C at vs j @ (if j = i then envs else [])"
proof -
  have "list_all2 (stores_envelope C) new envs \<Longrightarrow>
      \<forall>e\<in>set envs. env_aggregate_id e = i \<and> env_aggregate_type e = aggregate_type_new at \<Longrightarrow>
      file_stream C at new j = (if j = i then envs else [])"
  proof (induction new envs rule: list_all2_induct)
    case (Cons v new e envs)
    then show ?case using stores_envelope_facts(3,5) [OF Cons(1)]
      by (auto simp: file_stream_def typed_def aggregate_type_new_def)
  qed (simp add: file_stream_def typed_def)
  then show ?thesis using assms by (simp add: appends_def file_stream_append)
qed

lemma appends_values_ok:
  assumes "appends C at i vs new envs" and "values_ok C at vs"
  shows "values_ok C at (vs @ new)"
proof -
  have "\<exists>env. stores_envelope C v env" if "v \<in> set new" for v
    using assms(1) that by (auto simp: appends_def list_all2_conv_all_nth in_set_conv_nth)
  moreover have "contiguous_from 0 (file_stream C at (vs @ new) j)" for j
    using assms appends_stream [OF assms(1), of j]
    by (auto simp: values_ok_def appends_def contiguous_from_append)
  ultimately show ?thesis using assms(2) by (auto simp: values_ok_def)
qed

lemma json_append_result:
  assumes laws: "file_codec_laws C" and run: "json_append C at src i x evs f = (r, f')"
    and ok: "file_ok C at f vs" and "untorn f"
  shows "untorn f' \<and>
    (jf_content f' = jf_content f \<and> (\<forall>cs. r = Inr cs \<longrightarrow> cs = [] \<and> evs = [] \<and>
        expectation_met x (length (file_stream C at vs i))) \<or>
     (\<exists>new envs. content_holds C (jf_content f') (vs @ new) \<and> appends C at i vs new envs \<and>
        (\<forall>cs. r = Inr cs \<longrightarrow> cs = envs \<and> map env_payload cs = map ne_payload evs \<and>
          expectation_met x (length (file_stream C at vs i))))) \<and>
    (jf_outcomes f = [] \<longrightarrow> jf_outcomes f' = [] \<and> (\<forall>e. r = Inl e \<longrightarrow> jf_content f' = jf_content f))"
proof -
  obtain q f1 where lock: "take_file_lock f = (q, f1)" by (meson surj_pair)
  obtain p f2 where read: "read_event_values C f1 = (p, f2)" by (meson surj_pair)
  have 1: "reads f f1" using take_file_lock_reads [OF lock] .
  then have "content_holds C (jf_content f1) vs" using ok by (simp add: file_ok_def reads_def)
  note 2 = read_event_values_reads [OF read this]
  have 12: "reads f f2" using 1 2 by (auto intro: reads_trans)
  have early: ?thesis if "reads f f'" "\<And>cs. r \<noteq> Inr cs"
    using that assms(4) by (auto simp: reads_def)
  obtain ms where scan: "scan_loop C at i vs 0 0 = Ok (length (file_stream C at vs i), ms)"
    using scan_loop_Ok [of vs at C i 0 0] ok contiguous_max [of 0 "file_stream C at vs i"]
    by (auto simp: file_ok_def values_ok_def)
  let ?cr = "length (file_stream C at vs i)"
  show ?thesis
  proof (cases "q = Inr () \<and> p = Inr vs \<and> expectation_met x ?cr")
    case False
    then have "reads f f' \<and> (\<exists>e. r = Inl e)"
      using run lock read 1 2 12 scan
      by (cases q; cases p) (auto simp: json_append_def try_op_run try_op_def return_op_def
          json_check_expected_contract check_expected_revision_contract)
    then show ?thesis using early by auto
  next
    case True
    then have run2: "(if evs = [] then return_op (Ok [])
       else (\<lambda>f. let now = snd (src (jf_ticks f)) in
         try_op (build_loop C at src i ?cr ms now 0 evs)
           (\<lambda>(envelopes, new_lines). try_op (append_event_lines C vs new_lines) (\<lambda>_. return_op (Ok envelopes)))
           (f\<lparr>jf_ticks := jf_ticks f + 1\<rparr>))) f2 = (r, f')"
      using run lock read scan unfolding json_append_def
      by (simp add: try_op_run return_op_def json_check_expected_contract check_expected_revision_contract
          split del: if_split)
    show ?thesis
    proof (cases "evs = []")
      case Nil: True
      then show ?thesis using run2 12 assms(4) True by (auto simp: return_op_def reads_def)
    next
      case False
      let ?f = "f2\<lparr>jf_ticks := jf_ticks f2 + 1\<rparr>" and ?now = "snd (src (jf_ticks f2))"
      obtain b f3 where build: "build_loop C at src i ?cr ms ?now 0 evs ?f = (b, f3)" by (meson surj_pair)
      note built = build_loop_result [OF build]
      have 3: "reads f f3" using 12 built by (auto simp: reads_def untorn_def)
      have run3: "try_op (build_loop C at src i ?cr ms ?now 0 evs)
          (\<lambda>(envelopes, new_lines). try_op (append_event_lines C vs new_lines) (\<lambda>_. return_op (Ok envelopes))) ?f = (r, f')"
        using run2 False by (simp add: Let_def)
      show ?thesis
      proof (cases b)
        case (Inl e)
        then have "r = Inl e" "f' = f3" using run3 build by (auto simp: try_op_run)
        then show ?thesis using 3 by (intro early) simp_all
      next
        case (Inr el)
        obtain envs ls where el: "el = (envs, ls)" by (cases el)
        have envs: "contiguous_from ?cr envs" "map env_payload envs = map ne_payload evs"
          "\<forall>e\<in>set envs. env_aggregate_id e = i \<and> env_aggregate_type e = aggregate_type_new at"
          "list_all2 (\<lambda>e l. cd_to_string (fc_envelope C) e = Ok l) envs ls"
          using built Inr el by auto
        obtain new where new: "list_all2 (stores_envelope C) new envs" "\<forall>v\<in>set new. is_object v"
          "list_all2 (\<lambda>l v. fc_parse C l = Ok v) ls new" "\<forall>l\<in>set ls. line_text l"
          using stored_lines [OF laws envs(4)] by auto
        obtain s f4 where written: "append_event_lines C vs ls f3 = (s, f4)" by (meson surj_pair)
        have "untorn f3" "content_holds C (jf_content f3) vs" using 3 assms(4) ok
          by (auto simp: reads_def file_ok_def)
        note result = append_event_lines_result [OF laws written this new(3,2,4)]
        have "appends C at i vs new envs" using new(1) envs(1,3) by (simp add: appends_def)
        have final: "f' = f4" "r = (case s of Inl e \<Rightarrow> Inl e | Inr _ \<Rightarrow> Inr envs)"
          using run3 build written Inr el by (auto simp: try_op_run try_op_def return_op_def split: sum.splits)
        have "appends C at i vs [] []" by (simp add: appends_def)
        with result \<open>appends C at i vs new envs\<close> obtain new' envs' where
          "content_holds C (jf_content f4) (vs @ new')" "appends C at i vs new' envs'"
          "s = Inr () \<longrightarrow> envs' = envs" by (metis append_Nil2)
        then have "\<exists>new envs. content_holds C (jf_content f') (vs @ new) \<and> appends C at i vs new envs \<and>
            (\<forall>cs. r = Inr cs \<longrightarrow> cs = envs \<and> map env_payload cs = map ne_payload evs \<and>
              expectation_met x (length (file_stream C at vs i)))"
          using final True envs(2) by (intro exI [of _ new'] exI [of _ envs']) (cases s; simp)
        moreover have "jf_outcomes f = [] \<longrightarrow> jf_outcomes f' = [] \<and> (\<forall>e. r = Inl e \<longrightarrow> jf_content f' = jf_content f)"
          using result 3 final by (cases s) (auto simp: reads_def)
        ultimately show ?thesis using result final by blast
      qed
    qed
  qed
qed

section \<open>The contract\<close>

definition content_values :: "('e, 'id) file_codec \<Rightarrow> string option \<Rightarrow> json list" where
  "content_values C content = (case content of
      None \<Rightarrow> []
    | Some c \<Rightarrow>
        (case (if is_legacy_text c then map_err error_deserialization (fc_parse_array C c)
               else parse_json_lines C c) of Inr vs \<Rightarrow> vs | Inl _ \<Rightarrow> []))"

lemma content_values_holds: "content_holds C content vs \<Longrightarrow> content_values C content = vs"
  using parse_content [of C "the content" vs]
  by (cases content) (auto simp: content_values_def content_holds_def)

definition json_stream :: "('e, 'id) file_codec \<Rightarrow> string \<Rightarrow> json_file \<Rightarrow> 'id \<Rightarrow> ('e, 'id) event_stream" where
  "json_stream C at f i = file_stream C at (content_values C (jf_content f)) i"

definition json_inv :: "('e, 'id) file_codec \<Rightarrow> string \<Rightarrow> json_file \<Rightarrow> bool" where
  "json_inv C at f \<longleftrightarrow> untorn f \<and> (\<exists>vs. file_ok C at f vs)"

lemma json_stream_holds: "content_holds C (jf_content f) vs \<Longrightarrow> json_stream C at f = file_stream C at vs"
  by (simp add: json_stream_def content_values_holds fun_eq_iff)

lemma json_inv_reads: "reads f f' \<Longrightarrow> json_inv C at f \<Longrightarrow> json_inv C at f' \<and> json_stream C at f' = json_stream C at f"
  by (auto simp: json_inv_def file_ok_def reads_def json_stream_def fun_eq_iff)

lemma json_load_step:
  assumes "json_load C at i f = (r, f')" and "json_inv C at f"
  shows "reads f f' \<and> (\<forall>es. r = Inr es \<longrightarrow> es = json_stream C at f i)"
  using assms json_load_result [OF assms(1)] json_stream_holds
  by (fastforce simp: json_inv_def file_ok_def)

lemma json_load_after_step:
  assumes "default_load_after_revision (json_load C at) i k f = (r, f')" and "json_inv C at f"
  shows "reads f f' \<and> (\<forall>es. r = Inr es \<longrightarrow> es = filter (\<lambda>e. env_revision e > k) (json_stream C at f i))"
proof -
  obtain q f1 where q: "json_load C at i f = (q, f1)" by (meson surj_pair)
  from json_load_step [OF this assms(2)] assms(1) q show ?thesis
    by (cases q) (auto simp: default_load_after_revision_def)
qed

lemma json_append_step:
  assumes "file_codec_laws C" and "json_append C at src i x evs f = (r, f')" and "json_inv C at f"
  shows "json_inv C at f' \<and> (\<exists>envs. json_stream C at f' = (json_stream C at f)(i := json_stream C at f i @ envs) \<and>
      (\<forall>cs. r = Inr cs \<longrightarrow> cs = envs \<and> map env_payload cs = map ne_payload evs \<and>
        expectation_met x (length (json_stream C at f i)))) \<and>
    (jf_outcomes f = [] \<longrightarrow> jf_outcomes f' = [] \<and> (\<forall>e. r = Inl e \<longrightarrow> json_stream C at f' = json_stream C at f))"
proof -
  obtain vs where vs: "file_ok C at f vs" "untorn f" using assms(3) by (auto simp: json_inv_def)
  then have strm: "json_stream C at f = file_stream C at vs" by (simp add: file_ok_def json_stream_holds)
  note result = json_append_result [OF assms(1,2) vs]
  then consider "jf_content f' = jf_content f" "\<forall>cs. r = Inr cs \<longrightarrow> cs = [] \<and> evs = [] \<and>
        expectation_met x (length (file_stream C at vs i))"
    | new envs where "content_holds C (jf_content f') (vs @ new)" "appends C at i vs new envs"
      "\<forall>cs. r = Inr cs \<longrightarrow> cs = envs \<and> map env_payload cs = map ne_payload evs \<and>
        expectation_met x (length (file_stream C at vs i))" by blast
  then show ?thesis
  proof cases
    case 1
    then have same: "json_stream C at f' = json_stream C at f" by (simp add: json_stream_def fun_eq_iff)
    show ?thesis
    proof (intro conjI exI [of _ "[]"])
      show "json_inv C at f'" using 1 result vs by (auto simp: json_inv_def file_ok_def)
      show "json_stream C at f' = (json_stream C at f)(i := json_stream C at f i @ [])" by (simp add: same)
      show "\<forall>cs. r = Inr cs \<longrightarrow> cs = [] \<and> map env_payload cs = map ne_payload evs \<and>
        expectation_met x (length (json_stream C at f i))" using 1(2) strm by simp
      show "jf_outcomes f = [] \<longrightarrow> jf_outcomes f' = [] \<and> (\<forall>e. r = Inl e \<longrightarrow> json_stream C at f' = json_stream C at f)"
        using result same by blast
    qed
  next
    case 2
    show ?thesis
    proof (intro conjI exI [of _ envs])
      show "json_inv C at f'" using 2(1) result appends_values_ok [OF 2(2)] vs
        by (auto simp: json_inv_def file_ok_def)
      show "json_stream C at f' = (json_stream C at f)(i := json_stream C at f i @ envs)"
        unfolding strm json_stream_holds [OF 2(1)] by (auto simp: fun_eq_iff appends_stream [OF 2(2)])
      show "\<forall>cs. r = Inr cs \<longrightarrow> cs = envs \<and> map env_payload cs = map ne_payload evs \<and>
        expectation_met x (length (json_stream C at f i))" using 2(3) strm by simp
      have "jf_content f' = jf_content f \<Longrightarrow> json_stream C at f' = json_stream C at f"
        by (simp add: json_stream_def fun_eq_iff)
      then show "jf_outcomes f = [] \<longrightarrow> jf_outcomes f' = [] \<and> (\<forall>e. r = Inl e \<longrightarrow> json_stream C at f' = json_stream C at f)"
        using result by blast
    qed
  qed
qed

text \<open>The file store meets the event store contract under every system call that fails without
  tearing a write; with no failing call it is a quiet store.\<close>

lemma json_file_contract:
  assumes "file_codec_laws C"
  shows "event_store_contract (json_event_store C at src) (json_inv C at) (json_stream C at)"
proof (unfold_locales, goal_cases)
  case (1 f i)
  then show ?case using json_stream_holds by (fastforce simp: json_inv_def file_ok_def values_ok_def)
next
  case (2 f i r f')
  then show ?case using json_load_step [of C at i f r f'] json_inv_reads [of f f' C at]
    by (auto simp: json_event_store_def)
next
  case (3 f i k r f')
  then show ?case using json_load_after_step [of C at i k f r f'] json_inv_reads [of f f' C at]
    by (auto simp: json_event_store_def)
next
  case (4 f i x evs r f')
  then show ?case using json_append_step [OF assms, of at src i x evs f r f']
    by (fastforce simp: json_event_store_def)
qed

lemma calm_json_file_contract:
  assumes "file_codec_laws C"
  shows "quiet_event_store (json_event_store C at src) (\<lambda>f. json_inv C at f \<and> jf_outcomes f = []) (json_stream C at)"
proof -
  have load: "reads f f'" if "json_inv C at f" "es_load (json_event_store C at src) i f = (r, f')" for f i r f'
    using json_load_step [of C at i f r f'] that by (simp add: json_event_store_def)
  have load_after: "reads f f'" if "json_inv C at f"
    "es_load_after_revision (json_event_store C at src) i k f = (r, f')" for f i k r f'
    using json_load_after_step [of C at i k f r f'] that by (simp add: json_event_store_def)
  have append: "json_append C at src i x evs f = (r, f')" if
    "es_append (json_event_store C at src) i x evs f = (r, f')" for f i x evs r f'
    using that by (simp add: json_event_store_def)
  note contract = json_file_contract [OF assms, of at src]
  show ?thesis
  proof (unfold_locales, goal_cases)
    case (1 f i)
    then show ?case using event_store_contract.contiguous [OF contract] by blast
  next
    case (2 f i r f')
    then have "json_inv C at f" "jf_outcomes f' = []" using load [of f i r f'] by (auto simp: reads_def)
    with event_store_contract.load_step [OF contract this(1) 2(2)] show ?case by simp
  next
    case (3 f i k r f')
    then have "json_inv C at f" "jf_outcomes f' = []" using load_after [of f i k r f'] by (auto simp: reads_def)
    with event_store_contract.load_after_step [OF contract this(1) 3(2)] show ?case by simp
  next
    case (4 f i x evs r f')
    then have "json_inv C at f" "jf_outcomes f' = []"
      using json_append_step [OF assms append [OF 4(2)]] by auto
    with event_store_contract.append_step [OF contract this(1) 4(2)] show ?case by simp
  next
    case (5 f i r f')
    then show ?case using load json_inv_reads by blast
  next
    case (6 f i k r f')
    then show ?case using load_after json_inv_reads by blast
  next
    case (7 f i x evs cs f')
    then show ?case using json_append_step [OF assms append [OF 7(2)]] by auto
  next
    case (8 f i x evs e f')
    then show ?case using json_append_step [OF assms append [OF 8(2)]] by auto
  qed
qed

end
