(* ===== verification/Json_File_Properties.thy ===== *)
theory Json_File_Properties
  imports Json_File_Facts
begin

text \<open>
  The properties of the JSON file stores, on a small concrete codec where a witness is needed: what
  an append commits is what later loads return, an append after a torn line is lost, and checkpoints
  never move back.
\<close>

section \<open>A concrete codec\<close>

text \<open>Numbers between braces: identifier, revision, sequence and payload.\<close>

fun split_on :: "char \<Rightarrow> string \<Rightarrow> string list" where
  "split_on d [] = [[]]"
| "split_on d (c # cs) =
     (if c = d then [] # split_on d cs
      else (case split_on d cs of [] \<Rightarrow> [[c]] | s # ss \<Rightarrow> (c # s) # ss))"

lemma split_on_text: "d \<notin> set s \<Longrightarrow> split_on d (s @ d # rest) = s # split_on d rest"
  by (induction s) auto

lemma split_on_last: "d \<notin> set s \<Longrightarrow> split_on d s = [s]"
  by (induction s) auto

definition demo_value :: "nat \<Rightarrow> nat \<Rightarrow> nat \<Rightarrow> nat \<Rightarrow> json" where
  "demo_value i r s p = JObject [(''aggregate_type'', JString ''t''), (''aggregate_id'', json_nat i),
     (''revision'', json_nat r), (''sequence'', json_nat s), (''payload'', json_nat p)]"

definition demo_text :: "nat \<Rightarrow> nat \<Rightarrow> nat \<Rightarrow> nat \<Rightarrow> string" where
  "demo_text i r s p = ''{'' @ show_nat i @ '';'' @ show_nat r @ '';'' @ show_nat s @ '';'' @ show_nat p @ ''}''"

definition demo_parse :: "string \<Rightarrow> string + json" where
  "demo_parse t =
     (if t = [] \<or> hd t \<noteq> CHR ''{'' \<or> last t \<noteq> CHR ''}'' then Err ''expected value''
      else case split_on CHR '';'' (butlast (tl t)) of
        [a, b, c, d] \<Rightarrow>
          and_then (parse_u64 a) (\<lambda>i. and_then (parse_u64 b) (\<lambda>r. and_then (parse_u64 c) (\<lambda>s.
            map_ok (demo_value i r s) (parse_u64 d))))
      | _ \<Rightarrow> Err ''invalid type'')"

definition field_nat :: "json \<Rightarrow> string \<Rightarrow> nat" where
  "field_nat v key = (case Option.bind (json_get v key) as_u64_value of Some n \<Rightarrow> n | None \<Rightarrow> 0)"

definition demo_render :: "json \<Rightarrow> string + string" where
  "demo_render v =
     (let i = field_nat v ''aggregate_id''; r = field_nat v ''revision''; s = field_nat v ''sequence'';
          p = field_nat v ''payload''
      in if v = demo_value i r s p \<and> i \<le> u64_max \<and> r \<le> u64_max \<and> s \<le> u64_max \<and> p \<le> u64_max
         then Ok (demo_text i r s p) else Err ''unsupported'')"

definition demo_env :: "nat \<Rightarrow> nat \<Rightarrow> nat \<Rightarrow> nat \<Rightarrow> (nat, nat) event_envelope" where
  "demo_env i r s p = envelope_new (EventId ''e'') i (AggregateType ''t'') r (Some s) (EventType ''x'') 1 p
     metadata_new 0"

definition demo_env_codec :: "(nat, nat) event_envelope codec" where
  "demo_env_codec =
     (let to_value = (\<lambda>env. case env_sequence env of
            None \<Rightarrow> Err ''unsupported''
          | Some s \<Rightarrow> if env = demo_env (env_aggregate_id env) (env_revision env) s (env_payload env)
              then Ok (demo_value (env_aggregate_id env) (env_revision env) s (env_payload env))
              else Err ''unsupported'');
          from_value = (\<lambda>v. Ok (demo_env (field_nat v ''aggregate_id'') (field_nat v ''revision'')
            (field_nat v ''sequence'') (field_nat v ''payload'')))
      in \<lparr>cd_to_value = to_value, cd_to_string = (\<lambda>env. and_then (to_value env) demo_render),
          cd_from_str = (\<lambda>t. and_then (demo_parse t) from_value), cd_from_value = from_value,
          cd_render = demo_render\<rparr>)"

definition demo_id_codec :: "nat codec" where
  "demo_id_codec = \<lparr>cd_to_value = (\<lambda>n. Ok (json_nat n)), cd_to_string = (\<lambda>n. Ok (show_nat n)),
     cd_from_str = parse_u64, cd_from_value = (\<lambda>v. ok_or ''invalid type'' (as_u64_value v)),
     cd_render = (\<lambda>v. map_ok show_nat (ok_or ''unsupported'' (as_u64_value v)))\<rparr>"

definition demo_codec :: "(nat, nat) file_codec" where
  "demo_codec = \<lparr>fc_parse = demo_parse, fc_parse_array = (\<lambda>_. Err ''unsupported''), fc_render = demo_render,
     fc_envelope = demo_env_codec, fc_id = demo_id_codec\<rparr>"

lemma semicolon_not_shown: "\<not> is_dec CHR '';''" "\<not> is_dec CHR ''{''" "\<not> is_dec CHR ''}''"
  "\<not> is_dec newline" "\<not> is_dec carriage_return"
  by (simp_all add: is_dec_def newline_def carriage_return_def)

lemma demo_text_parse:
  assumes "i \<le> u64_max" "r \<le> u64_max" "s \<le> u64_max" "p \<le> u64_max"
  shows "demo_parse (demo_text i r s p) = Ok (demo_value i r s p)"
proof -
  have no: "CHR '';'' \<notin> set (show_nat n)" for n using show_nat_all_dec semicolon_not_shown by blast
  have "butlast (tl (demo_text i r s p)) =
      show_nat i @ CHR '';'' # show_nat r @ CHR '';'' # show_nat s @ CHR '';'' # show_nat p"
    by (simp add: demo_text_def butlast_append)
  then have "split_on CHR '';'' (butlast (tl (demo_text i r s p))) = [show_nat i, show_nat r, show_nat s, show_nat p]"
    by (simp add: split_on_text split_on_last no)
  moreover have "demo_text i r s p \<noteq> []" "hd (demo_text i r s p) = CHR ''{''" "last (demo_text i r s p) = CHR ''}''"
    by (simp_all add: demo_text_def)
  ultimately show ?thesis by (simp add: demo_parse_def parse_unsigned_show_nat assms)
qed

lemma demo_text_line: "line_text (demo_text i r s p)"
proof -
  have "newline \<notin> set (show_nat n)" "carriage_return \<notin> set (show_nat n)" for n
    using show_nat_all_dec semicolon_not_shown by blast+
  then show ?thesis by (auto simp: line_text_def demo_text_def newline_def carriage_return_def)
qed

lemma demo_value_fields [simp]:
  "field_nat (demo_value i r s p) ''aggregate_id'' = i" "field_nat (demo_value i r s p) ''revision'' = r"
  "field_nat (demo_value i r s p) ''sequence'' = s" "field_nat (demo_value i r s p) ''payload'' = p"
  by (simp_all add: field_nat_def demo_value_def)

lemma demo_codec_laws: "file_codec_laws demo_codec"
proof -
  have "demo_parse t = Ok v \<and> line_text t" if "demo_render v = Ok t" for v t
  proof -
    from that obtain i r s p where "v = demo_value i r s p" "t = demo_text i r s p"
      "i \<le> u64_max" "r \<le> u64_max" "s \<le> u64_max" "p \<le> u64_max"
      by (auto simp: demo_render_def Let_def split: if_splits)
    then show ?thesis using demo_text_parse demo_text_line by simp
  qed
  moreover have "\<exists>v. stores_envelope demo_codec v env \<and> demo_render v = Ok t"
    if "cd_to_string demo_env_codec env = Ok t" for env t
  proof -
    from that obtain i r s p where env: "env = demo_env i r s p" and t: "demo_render (demo_value i r s p) = Ok t"
      by (auto simp: demo_env_codec_def Let_def result_simps split: option.splits if_splits)
    have "stores_envelope demo_codec (demo_value i r s p) env"
      by (simp add: env stores_envelope_def is_object_def demo_codec_def demo_env_codec_def Let_def
          demo_id_codec_def) (simp add: demo_value_def demo_env_def)
    with t show ?thesis by blast
  qed
  ultimately show ?thesis by (simp add: file_codec_laws_def) (simp add: demo_codec_def)
qed

section \<open>Runs without failing calls\<close>

definition calm :: "json_file \<Rightarrow> bool" where
  "calm f \<longleftrightarrow> jf_outcomes f = [] \<and> \<not> jf_poisoned f \<and> \<not> jf_registry_poisoned f"

lemma calm_ticks [simp]: "calm (f\<lparr>jf_ticks := n\<rparr>) = calm f" "calm (f\<lparr>jf_content := c\<rparr>) = calm f"
  by (simp_all add: calm_def)

lemma calm_load:
  assumes "calm f" and "read_event_values C f = (Ok vs, f)" and "values_ok C at vs"
  shows "json_load C at i f = (Ok (file_stream C at vs i), f)"
proof -
  have "load_loop C at i vs [] = Ok (file_stream C at vs i)"
    "sort_key env_revision (file_stream C at vs i) = file_stream C at vs i"
    using assms(3) load_loop_Ok [of vs at C i "[]"]
    by (auto simp: values_ok_def intro: contiguous_sorted)
  then show ?thesis using assms(1,2)
    by (simp add: json_load_def try_op_def return_op_def take_file_lock_calm calm_def)
qed

lemma calm_append:
  assumes "calm f" and "read_event_values C f = (Ok vs, f)" and "values_ok C at vs" and "evs \<noteq> []"
  obtains ms where "json_append C at src i x evs f =
    (if expectation_met x (length (file_stream C at vs i))
     then try_op (build_loop C at src i (length (file_stream C at vs i)) ms (snd (src (jf_ticks f))) 0 evs)
       (\<lambda>(envelopes, new_lines). try_op (append_event_lines C vs new_lines) (\<lambda>_. return_op (Ok envelopes)))
       (f\<lparr>jf_ticks := jf_ticks f + 1\<rparr>)
     else (Err (Concurrency (expectation_error x (length (file_stream C at vs i)))), f))"
    and "scan_loop C at i vs 0 0 = Ok (length (file_stream C at vs i), ms)"
proof -
  obtain ms where scan: "scan_loop C at i vs 0 0 = Ok (length (file_stream C at vs i), ms)"
    using scan_loop_Ok [of vs at C i 0 0] assms(3) contiguous_max [of 0 "file_stream C at vs i"]
    by (auto simp: values_ok_def)
  show thesis
  proof (rule that [OF _ scan])
    show "json_append C at src i x evs f =
      (if expectation_met x (length (file_stream C at vs i))
       then try_op (build_loop C at src i (length (file_stream C at vs i)) ms (snd (src (jf_ticks f))) 0 evs)
         (\<lambda>(envelopes, new_lines). try_op (append_event_lines C vs new_lines) (\<lambda>_. return_op (Ok envelopes)))
         (f\<lparr>jf_ticks := jf_ticks f + 1\<rparr>)
       else (Err (Concurrency (expectation_error x (length (file_stream C at vs i)))), f))"
      using take_file_lock_calm [of f] assms(1,2,4) scan unfolding json_append_def calm_def
      by (simp add: try_op_def return_op_def json_check_expected_contract check_expected_revision_contract Let_def)
  qed
qed

lemma calm_append_lines:
  assumes "calm f" and "jf_content f = Some c" and "\<not> is_legacy_text c"
  shows "append_event_lines C vs ls f = (Ok (), f\<lparr>jf_content := Some (c @ as_lines ls)\<rparr>)"
  using assms by (simp add: append_event_lines_def calm_def try_op_def io_step_calm file_is_legacy_array_def
      read_to_string_calm return_op_def append_to_file_def next_outcome_def as_lines_def)

lemma calm_create_file:
  assumes "calm f" and "jf_content f = None" and "list_all2 (\<lambda>l v. fc_parse C l = Ok v) ls new"
    and "json_lines_from_values C (vs @ new) = Ok content"
  shows "append_event_lines C vs ls f = (Ok (), f\<lparr>jf_content := Some content, jf_ticks := jf_ticks f + 1\<rparr>)"
  using assms collect_parsed [OF assms(3)]
  by (simp add: append_event_lines_def calm_def try_op_def io_step_calm file_is_legacy_array_def
      return_op_def write_atomic_def)

section \<open>Appends\<close>


definition demo_file :: "string option \<Rightarrow> nat \<Rightarrow> json_file" where
  "demo_file content n = \<lparr>jf_content = content, jf_registry_poisoned = False, jf_poisoned = False,
     jf_outcomes = [], jf_ticks = n\<rparr>"

definition demo_event :: "nat \<Rightarrow> nat new_event" where
  "demo_event p = \<lparr>ne_payload = p, ne_event_type = EventType ''x'', ne_event_version = 1, ne_metadata = metadata_new\<rparr>"

definition demo_source :: source where
  "demo_source = (\<lambda>_. (EventId ''e'', 0))"

lemma demo_file_simps [simp]:
  "calm (demo_file c n)" "jf_content (demo_file c n) = c" "jf_ticks (demo_file c n) = n"
  "demo_file c n\<lparr>jf_ticks := m\<rparr> = demo_file c m" "demo_file c n\<lparr>jf_content := d\<rparr> = demo_file d n"
  "untorn (demo_file c n)"
  by (simp_all add: demo_file_def calm_def untorn_def)

lemma demo_values_ok: "values_ok demo_codec ''t'' []"
  by (simp add: values_ok_def file_stream_def typed_def)

lemma demo_file_inv: "json_inv demo_codec ''t'' (demo_file None 0)"
  using demo_values_ok by (auto simp: json_inv_def file_ok_def content_holds_def intro!: exI [of _ "[]"])

lemma demo_build:
  assumes "r \<le> 100" "s \<le> 100"
  shows "build_loop demo_codec ''t'' demo_source 7 r s 0 0 [demo_event 5] f =
   (Ok ([demo_env 7 (r + 1) (s + 1) 5], [demo_text 7 (r + 1) (s + 1) 5]), f\<lparr>jf_ticks := jf_ticks f + 1\<rparr>)"
proof -
  have env: "envelope_new (fst (demo_source n)) 7 (aggregate_type_new ''t'') (r + 0 + 1) (Some (s + 0 + 1))
      (ne_event_type (demo_event 5)) (ne_event_version (demo_event 5)) (ne_payload (demo_event 5))
      (ne_metadata (demo_event 5)) 0 = demo_env 7 (r + 1) (s + 1) 5" for n
    by (simp add: demo_source_def demo_event_def demo_env_def aggregate_type_new_def)
  have "cd_to_string (fc_envelope demo_codec) (demo_env 7 (r + 1) (s + 1) 5) = Ok (demo_text 7 (r + 1) (s + 1) 5)"
  proof -
    have "env_sequence (demo_env 7 (r + 1) (s + 1) 5) = Some (s + 1)"
      "env_aggregate_id (demo_env 7 (r + 1) (s + 1) 5) = 7" "env_revision (demo_env 7 (r + 1) (s + 1) 5) = r + 1"
      "env_payload (demo_env 7 (r + 1) (s + 1) 5) = 5" by (simp_all add: demo_env_def)
    then show ?thesis using assms
      by (simp add: demo_codec_def demo_env_codec_def Let_def demo_render_def u64_max_def)
  qed
  then show ?thesis unfolding build_loop.simps Let_def env by (simp add: try_op_def return_op_def)
qed

lemma demo_append:
  "json_append demo_codec ''t'' demo_source 7 NoStream [demo_event 5] (demo_file None 0) =
   (Ok [demo_env 7 1 1 5], demo_file (Some (demo_text 7 1 1 5 @ [newline])) 3)"
proof -
  have parse: "list_all2 (\<lambda>l v. fc_parse demo_codec l = Ok v) [demo_text 7 1 1 5] [demo_value 7 1 1 5]"
    by (simp add: demo_codec_def demo_text_parse u64_max_def)
  have lines: "json_lines_from_values demo_codec ([] @ [demo_value 7 1 1 5]) = Ok (demo_text 7 1 1 5 @ [newline])"
    by (simp add: demo_codec_def demo_render_def u64_max_def)
  have read: "read_event_values demo_codec (demo_file None 0) = (Ok [], demo_file None 0)"
    by (simp add: read_event_values_def)
  have [simp]: "file_stream demo_codec ''t'' [] 7 = []" by (simp add: file_stream_def typed_def)
  obtain ms where run: "json_append demo_codec ''t'' demo_source 7 NoStream [demo_event 5] (demo_file None 0) =
    try_op (build_loop demo_codec ''t'' demo_source 7 0 ms (snd (demo_source 0)) 0 [demo_event 5])
       (\<lambda>(envelopes, new_lines). try_op (append_event_lines demo_codec [] new_lines) (\<lambda>_. return_op (Ok envelopes)))
       (demo_file None 1)" and "scan_loop demo_codec ''t'' 7 [] 0 0 = Ok (0, ms)"
    by (rule calm_append [of "demo_file None 0" demo_codec "[]" "''t''" "[demo_event 5]" demo_source 7 NoStream])
       (use read demo_values_ok in auto)
  then have "ms = 0" by simp
  moreover have "snd (demo_source 0) = 0" by (simp add: demo_source_def)
  ultimately have "json_append demo_codec ''t'' demo_source 7 NoStream [demo_event 5] (demo_file None 0) =
      try_op (append_event_lines demo_codec [] [demo_text 7 1 1 5]) (\<lambda>_. return_op (Ok [demo_env 7 1 1 5])) (demo_file None 2)"
    using demo_build [of 0 0 "demo_file None 1"] unfolding run by (simp add: try_op_run numeral_2_eq_2)
  also have "\<dots> = (Ok [demo_env 7 1 1 5], demo_file (Some (demo_text 7 1 1 5 @ [newline])) 3)"
    using calm_create_file [OF _ _ parse lines, of "demo_file None 2"] by (simp add: try_op_run return_op_def)
  finally show ?thesis .
qed


section \<open>A torn line\<close>

text \<open>The bytes a crash left at the end of the file: a line that does not parse, alone or with a line
  written after it.\<close>

definition torn_text :: "('e, 'id) file_codec \<Rightarrow> string \<Rightarrow> bool" where
  "torn_text C t \<longleftrightarrow> line_text t \<and> (\<exists>e. fc_parse C t = Err e) \<and>
     (\<forall>l. line_text l \<longrightarrow> (\<exists>e. fc_parse C (t @ l) = Err e))"

lemma parse_lines_loop_torn:
  "list_all2 (\<lambda>l v. fc_parse C l = Ok v) ls vs \<Longrightarrow> fc_parse C t = Err e \<Longrightarrow>
   parse_lines_loop C (ls @ [t]) acc = Ok (acc @ vs)"
  by (induction ls vs arbitrary: acc rule: list_all2_induct) auto

lemma torn_read:
  assumes "content_holds C (Some c) vs" and "\<not> is_legacy_text c" and "line_text t"
    and "fc_parse C t = Err e" and "jf_outcomes f = []" and "jf_content f = Some (c @ t) \<or> jf_content f = Some (c @ t @ [newline])"
  shows "read_event_values C f = (Ok vs, f) \<and> \<not> is_legacy_text (the (jf_content f))"
proof -
  have ends: "c = [] \<or> last c = newline" and lines: "list_all2 (\<lambda>l v. fc_parse C l = Ok v) (filled_lines c) vs"
    using assms(1,2) by (auto simp: content_holds_def)
  have nl: "newline \<notin> set t" "t \<noteq> []" using assms(3) by (auto simp: line_text_def)
  have single: "text_lines (c @ t @ [newline]) = text_lines c @ [t]" "text_lines (c @ t) = text_lines c @ [t]"
  proof -
    show "text_lines (c @ t @ [newline]) = text_lines c @ [t]"
      using text_lines_append [OF ends] text_lines_line [OF nl(1), of "[]"] strip_line_text [OF assms(3)] by simp
    have "takeWhile (\<lambda>c. c \<noteq> newline) t = t" "dropWhile (\<lambda>c. c \<noteq> newline) t = []"
      using nl(1) by (auto simp: takeWhile_eq_all_conv dropWhile_eq_Nil_conv)
    then have "text_lines t = [t]" using nl(2) by (subst text_lines.simps) (simp add: Let_def)
    then show "text_lines (c @ t) = text_lines c @ [t]" using text_lines_append [OF ends] by simp
  qed
  have legacy: "\<not> is_legacy_text (c @ t @ rest)" for rest
  proof (cases "\<forall>x\<in>set c. is_blank_char x")
    case True
    then have "trim_start (c @ t @ rest) = trim_start (t @ rest)"
      by (simp add: trim_start_def dropWhile_append2)
    moreover obtain cs where "t = CHR ''{'' # cs" using assms(3) by (auto simp: line_text_def)
    ultimately show ?thesis by (simp add: is_legacy_text_def trim_start_def is_blank_char_def)
  next
    case False
    then have "trim_start (c @ t @ rest) = trim_start c @ t @ rest" "trim_start c \<noteq> []"
      by (auto simp: trim_start_def dropWhile_append1 dropWhile_eq_Nil_conv)
    then show ?thesis using assms(2) by (cases "trim_start c") (auto simp: is_legacy_text_def)
  qed
  have "parse_json_lines C (c @ t) = Ok vs" "parse_json_lines C (c @ t @ [newline]) = Ok vs"
    using parse_lines_loop_torn [OF lines assms(4), of "[]"] line_text_not_blank [OF assms(3)]
    by (simp_all add: parse_json_lines_def single filled_lines_def)
  moreover have "\<not> is_legacy_text (c @ t)" "\<not> is_legacy_text (c @ t @ [newline])"
    using legacy [of "[]"] legacy [of "[newline]"] by simp_all
  ultimately obtain d where d: "jf_content f = Some d" "parse_json_lines C d = Ok vs" "\<not> is_legacy_text d"
    using assms(6) by blast
  then show ?thesis
    by (simp add: read_event_values_def try_op_run(1) [where f = read_to_string] read_to_string_calm assms(5) return_op_def)
qed


lemma demo_torn: "torn_text demo_codec ''{1''"
proof -
  have "\<exists>e. demo_parse (''{1'' @ l) = Err e" if line: "line_text l" for l
  proof -
    obtain cs where l: "l = CHR ''{'' # cs" using line by (auto simp: line_text_def)
    have "\<exists>s ss. split_on CHR '';'' (butlast (CHR ''1'' # CHR ''{'' # cs)) = (CHR ''1'' # s) # ss \<and> (s \<noteq> [] \<longrightarrow> hd s = CHR ''{'') \<and> (cs = [] \<or> s \<noteq> [])"
      by (cases cs) (auto split: list.splits)
    then obtain s ss where split: "split_on CHR '';'' (butlast (CHR ''1'' # CHR ''{'' # cs)) = (CHR ''1'' # s) # ss"
      "s \<noteq> [] \<longrightarrow> hd s = CHR ''{''" "cs = [] \<or> s \<noteq> []" by blast
    have "\<exists>e. parse_u64 (CHR ''1'' # s) = Err e" if "s \<noteq> []"
      using that split(2) semicolon_not_shown(2)
      by (cases s) (auto simp: parse_unsigned_def is_dec_def)
    then show ?thesis using split(1,3) unfolding l
      by (cases cs) (auto simp: demo_parse_def split: list.splits)
  qed
  moreover have "\<exists>e. demo_parse ''{1'' = Err e" by (simp add: demo_parse_def)
  ultimately show ?thesis
    by (simp add: torn_text_def line_text_def newline_def carriage_return_def) (simp add: demo_codec_def)
qed


section \<open>Checkpoints\<close>

definition map_codec_laws :: "map_codec \<Rightarrow> bool" where
  "map_codec_laws M \<longleftrightarrow> mc_parse M ''{}'' = Ok Map.empty \<and>
     (\<forall>m t. mc_render M m = Ok t \<longrightarrow> mc_parse M t = Ok m)"

definition json_position :: "map_codec \<Rightarrow> json_file \<Rightarrow> string \<Rightarrow> nat option" where
  "json_position M f = (case jf_content f of
      None \<Rightarrow> Map.empty
    | Some c \<Rightarrow> (case mc_parse M c of Inr m \<Rightarrow> m | Inl _ \<Rightarrow> Map.empty))"

lemma json_position_reads: "reads f f' \<Longrightarrow> json_position M f' = json_position M f"
  by (simp add: reads_def json_position_def)

text \<open>The part of every checkpoint operation that parses what is there and writes what follows.\<close>

definition rewrite_map ::
  "map_codec \<Rightarrow> ((string \<rightharpoonup> nat) \<Rightarrow> (string \<rightharpoonup> nat)) \<Rightarrow> string \<Rightarrow> (json_file, event_store_error + unit) op" where
  "rewrite_map M g content =
     try_op (return_op (map_err error_deserialization (mc_parse M content))) (\<lambda>m.
     try_op (return_op (map_err error_serialization (mc_render M (g m)))) write_atomic)"

lemma rewrite_map_result:
  assumes "map_codec_laws M" and "rewrite_map M g content f = (r, f')"
  shows "(\<exists>e. r = Inl e) \<and> jf_content f' = jf_content f \<or>
    (\<exists>m. r = Inr () \<and> mc_parse M content = Ok m \<and> json_position M f' = g m)"
proof (cases "mc_parse M content")
  case (Inr m)
  show ?thesis
  proof (cases "mc_render M (g m)")
    case rendered: (Inr t)
    then have "write_atomic t f = (r, f')"
      using assms(2) Inr by (simp add: rewrite_map_def try_op_def return_op_def)
    from write_atomic_result [OF this] assms(1) rendered Inr show ?thesis
      by (cases r) (auto simp: json_position_def map_codec_laws_def)
  qed (use assms(2) Inr in \<open>auto simp: rewrite_map_def try_op_def return_op_def\<close>)
qed (use assms(2) in \<open>auto simp: rewrite_map_def try_op_def return_op_def\<close>)

lemma json_save_checkpoint_rewrites:
  "json_save_checkpoint M key s = try_op take_file_lock (\<lambda>_.
     try_op (\<lambda>f. if jf_content f \<noteq> None then read_to_string f else (Ok ''{}'', f))
       (rewrite_map M (\<lambda>m. m(key := raise_checkpoint s (m key)))))"
  by (auto simp: json_save_checkpoint_def rewrite_map_def raise_checkpoint_def fun_eq_iff max.commute
      intro!: arg_cong2 [where f = "try_op take_file_lock"] arg_cong [where f = "\<lambda>k. try_op _ k _"]
      split: option.splits)

lemma json_reset_checkpoint_rewrites:
  "json_reset_checkpoint M key = try_op take_file_lock (\<lambda>_ f.
     if jf_content f = None then (Ok (), f)
     else try_op read_to_string (rewrite_map M (\<lambda>m. m(key := None))) f)"
  unfolding json_reset_checkpoint_def rewrite_map_def by (rule refl)

text \<open>The content an operation starts from, and what it finds in it.\<close>

lemma read_position:
  assumes "map_codec_laws M" and "read_to_string f = (r, f')" and "jf_content f \<noteq> None"
  shows "reads f f' \<and> (\<forall>c m. r = Inr c \<longrightarrow> mc_parse M c = Ok m \<longrightarrow> json_position M f = m)"
  using read_to_string_reads [OF assms(2)] assms(3) by (auto simp: json_position_def)

lemma json_save_result:
  assumes "map_codec_laws M" and "json_save_checkpoint M key s f = (r, f')"
  shows "(\<exists>e. r = Inl e) \<and> json_position M f' = json_position M f \<or>
    r = Inr () \<and> json_position M f' = (json_position M f)(key := raise_checkpoint s (json_position M f key))"
proof -
  let ?g = "\<lambda>m. m(key := raise_checkpoint s (m key))"
  let ?content = "\<lambda>f. if jf_content f \<noteq> None then read_to_string f else (Ok ''{}'', f)"
  obtain q f1 where lock: "take_file_lock f = (q, f1)" by (meson surj_pair)
  have f1: "json_position M f1 = json_position M f" using take_file_lock_reads [OF lock] by (rule json_position_reads)
  obtain p f2 where content: "?content f1 = (p, f2)" by (meson surj_pair)
  have f2: "reads f1 f2" "\<And>c m. p = Inr c \<Longrightarrow> mc_parse M c = Ok m \<Longrightarrow> json_position M f1 = m"
    using content read_position [OF assms(1), of f1 p f2] assms(1)
    by (auto simp: json_position_def map_codec_laws_def split: if_splits)
  show ?thesis
  proof (cases q)
    case (Inr u)
    then have run: "try_op ?content (rewrite_map M ?g) f1 = (r, f')"
      using assms(2) lock by (simp add: json_save_checkpoint_rewrites try_op_run(1) [where f = take_file_lock])
    show ?thesis
    proof (cases p)
      case (Inr c)
      then have "rewrite_map M ?g c f2 = (r, f')" using run content by (simp add: try_op_def)
      from rewrite_map_result [OF assms(1) this] show ?thesis
        using f1 f2(2) [OF Inr] json_position_reads [OF f2(1), of M] by (auto simp: json_position_def)
    qed (use run content f1 json_position_reads [OF f2(1)] in \<open>auto simp: try_op_def\<close>)
  qed (use assms(2) lock f1 in \<open>auto simp: json_save_checkpoint_rewrites try_op_def\<close>)
qed

lemma json_reset_result:
  assumes "map_codec_laws M" and "json_reset_checkpoint M key f = (r, f')"
  shows "(\<exists>e. r = Inl e) \<and> json_position M f' = json_position M f \<or>
    r = Inr () \<and> json_position M f' = (json_position M f)(key := None)"
proof -
  let ?g = "\<lambda>m. m(key := None)"
  obtain q f1 where lock: "take_file_lock f = (q, f1)" by (meson surj_pair)
  have f1: "json_position M f1 = json_position M f" using take_file_lock_reads [OF lock] by (rule json_position_reads)
  show ?thesis
  proof (cases "q = Inr () \<and> jf_content f1 \<noteq> None")
    case True
    then have run: "try_op read_to_string (rewrite_map M ?g) f1 = (r, f')"
      using assms(2) lock by (auto simp: json_reset_checkpoint_rewrites try_op_run(1) [where f = take_file_lock])
    obtain p f2 where content: "read_to_string f1 = (p, f2)" by (meson surj_pair)
    note f2 = read_position [OF assms(1) content]
    show ?thesis
    proof (cases p)
      case (Inr c)
      then have "rewrite_map M ?g c f2 = (r, f')" using run content by (simp add: try_op_def)
      from rewrite_map_result [OF assms(1) this] show ?thesis
        using f1 f2 True Inr json_position_reads [of f1 f2 M] by (auto simp: json_position_def)
    qed (use run content f1 f2 True json_position_reads [of f1 f2 M] in \<open>auto simp: try_op_def\<close>)
  next
    case False
    then have "(\<exists>e. r = Inl e) \<and> f' = f1 \<or> r = Inr () \<and> f' = f1 \<and> jf_content f1 = None"
      using assms(2) lock by (cases q) (auto simp: json_reset_checkpoint_rewrites try_op_def)
    then show ?thesis using f1 by (auto simp: json_position_def fun_eq_iff)
  qed
qed

lemma json_load_checkpoint_result:
  assumes "json_load_checkpoint M key f = (r, f')"
  shows "json_position M f' = json_position M f \<and> (\<forall>c. r = Inr c \<longrightarrow> c = json_position M f key)"
proof -
  obtain q f1 where lock: "take_file_lock f = (q, f1)" by (meson surj_pair)
  have f1: "json_position M f1 = json_position M f" using take_file_lock_reads [OF lock] by (rule json_position_reads)
  obtain p f2 where content: "read_to_string f1 = (p, f2)" by (meson surj_pair)
  note f2 = read_to_string_reads [OF content]
  have run: "(r, f') = (case q of Inl e \<Rightarrow> (Inl e, f1) | Inr _ \<Rightarrow>
      if jf_content f1 = None then (Ok None, f1)
      else case p of Inl e \<Rightarrow> (Inl e, f2) | Inr c \<Rightarrow>
        (case mc_parse M c of Inl e \<Rightarrow> (Inl (error_deserialization e), f2) | Inr m \<Rightarrow> (Ok (m key), f2)))"
    using assms lock content by (auto simp: json_load_checkpoint_def try_op_def return_op_def split: sum.splits)
  show ?thesis using run f1 f2 json_position_reads [of f1 f2 M]
    by (auto simp: json_position_def split: sum.splits if_splits option.splits)
qed

lemma json_checkpoints:
  assumes "map_codec_laws M"
  shows "checkpoint_contract (json_checkpoint_store M) (json_position M)"
  using json_load_checkpoint_result [of M] json_save_result [OF assms] json_reset_result [OF assms]
  by unfold_locales (fastforce simp: json_checkpoint_store_def)+

text \<open>Checkpoints in a JSON file never move back.  Whatever the system calls answer and whatever the
  file holds, after a save under any key every checkpoint that was there is there and is no smaller,
  and a save that reports success has raised its own checkpoint to at least its sequence.\<close>

lemma json_checkpoints_monotone:
  assumes "map_codec_laws M" and "json_save_checkpoint M key s f = (r, f')"
  shows "(\<forall>k c. json_position M f k = Some c \<longrightarrow> (\<exists>c'. json_position M f' k = Some c' \<and> c \<le> c')) \<and>
    (r = Ok () \<longrightarrow> (\<exists>c'. json_position M f' key = Some c' \<and> s \<le> c'))"
  using json_save_result [OF assms] by (auto simp: raise_checkpoint_def split: option.splits)

text \<open>A codec for maps that give a value to the name \<open>p\<close> only.\<close>

definition demo_map_codec :: map_codec where
  "demo_map_codec = \<lparr>mc_parse = (\<lambda>t. if t = ''{}'' then Ok Map.empty else map_ok (\<lambda>n. [''p'' \<mapsto> n]) (parse_u64 t)),
     mc_render = (\<lambda>m. case m ''p'' of
         Some n \<Rightarrow> if m = [''p'' \<mapsto> n] \<and> n \<le> u64_max then Ok (show_nat n) else Err ''unsupported''
       | None \<Rightarrow> Err ''unsupported'')\<rparr>"

lemma demo_map_codec_laws: "map_codec_laws demo_map_codec"
proof -
  have "show_nat n \<noteq> ''{}''" for n
    using show_nat_all_dec [of "CHR ''{''" n] semicolon_not_shown(2) by auto
  then show ?thesis
    by (auto simp: map_codec_laws_def demo_map_codec_def parse_unsigned_show_nat split: option.splits if_splits)
qed

lemma json_checkpoints_monotone_witness:
  "\<exists>f'. json_save_checkpoint demo_map_codec ''p'' 3 (demo_file (Some (show_nat 7)) 0) = (Ok (), f') \<and>
     (\<exists>c'. json_position demo_map_codec f' ''p'' = Some c' \<and> 7 \<le> c')"
proof -
  let ?f = "demo_file (Some (show_nat 7)) 0"
  have parse: "mc_parse demo_map_codec (show_nat 7) = Ok [''p'' \<mapsto> 7]"
    using demo_map_codec_laws by (simp add: map_codec_laws_def demo_map_codec_def u64_max_def)
  have "mc_render demo_map_codec ([''p'' \<mapsto> 7](''p'' \<mapsto> 7)) = Ok (show_nat 7)"
    by (simp add: demo_map_codec_def u64_max_def)
  with parse have "\<exists>f'. json_save_checkpoint demo_map_codec ''p'' 3 ?f = (Ok (), f')"
    by (simp add: json_save_checkpoint_def try_op_def take_file_lock_calm read_to_string_calm return_op_def
        write_atomic_def io_step_calm demo_file_def)
  then obtain f' where run: "json_save_checkpoint demo_map_codec ''p'' 3 ?f = (Ok (), f')" by blast
  have "json_position demo_map_codec ?f ''p'' = Some 7" by (simp add: json_position_def parse)
  with json_checkpoints_monotone [OF demo_map_codec_laws run] run show ?thesis by blast
qed

end
