(* ===== verification/Sqlite_Driver.thy ===== *)
theory Sqlite_Driver
  imports Sql_Common Upcast Idempotency "HOL-Library.AList"
begin

text \<open>
  What \<open>src/sqlite.rs\<close> uses of its driver: the errors it inspects and how it maps them, and a
  connection to a database with an events table and an idempotency table.  Every statement, and the
  begin and the commit of a transaction, takes the next outcome from \<open>sw_faults\<close>: it runs, or fails
  with a driver error and without effect.  \<open>display\<close> is the driver's text of an error.
\<close>

section \<open>Driver errors\<close>

datatype sqlite_error_code = DatabaseBusy | DatabaseLocked | ConstraintViolation | OtherCode

text \<open>A failure has its primary code, its extended code and a message; the source of a conversion
  failure is a store error or something else.\<close>

datatype rusqlite_error =
    SqliteFailure sqlite_error_code nat "string option"
  | FromSqlConversionFailure "event_store_error option"
  | OtherDriverError string

definition SQLITE_CONSTRAINT_PRIMARYKEY :: nat where "SQLITE_CONSTRAINT_PRIMARYKEY = 1555"
definition SQLITE_CONSTRAINT_UNIQUE :: nat where "SQLITE_CONSTRAINT_UNIQUE = 2067"

fun is_sqlite_contention :: "rusqlite_error \<Rightarrow> bool" where
  "is_sqlite_contention (SqliteFailure code extended_code message) =
     (if code = DatabaseBusy \<or> code = DatabaseLocked then True
      else case message of
          None \<Rightarrow> False
        | Some msg \<Rightarrow>
            let lower = to_ascii_lowercase msg
            in contains lower ''database is locked'' \<or> contains lower ''database table is locked'')"
| "is_sqlite_contention _ = False"

fun map_sqlite_error :: "(rusqlite_error \<Rightarrow> string) \<Rightarrow> rusqlite_error \<Rightarrow> event_store_error" where
  "map_sqlite_error display (FromSqlConversionFailure (Some store_error)) = store_error"
| "map_sqlite_error display (SqliteFailure code extended_code message) =
     with_code (backend_with_source (display (SqliteFailure code extended_code message))
         (display (SqliteFailure code extended_code message)))
       (show_nat extended_code)"
| "map_sqlite_error display error = backend_with_source (display error) (display error)"

fun map_sqlite_row_collect_error :: "(rusqlite_error \<Rightarrow> string) \<Rightarrow> rusqlite_error \<Rightarrow> event_store_error" where
  "map_sqlite_row_collect_error display (FromSqlConversionFailure (Some store_error)) = store_error"
| "map_sqlite_row_collect_error display error = map_sqlite_error display error"

definition unwrap_or :: "'a \<Rightarrow> 'e + 'a \<Rightarrow> 'a" where
  "unwrap_or fallback r = (case r of Inl _ \<Rightarrow> fallback | Inr a \<Rightarrow> a)"

definition map_sqlite_contention_error ::
  "(rusqlite_error \<Rightarrow> string) \<Rightarrow> expected_revision option \<Rightarrow> ('w, event_store_error + nat) op \<Rightarrow>
   rusqlite_error \<Rightarrow> ('w, event_store_error) op" where
  "map_sqlite_contention_error display expected reread_revision error w =
     (case (is_sqlite_contention error, expected) of
        (True, Some expected) \<Rightarrow>
          (case reread_revision w of
             (actual, w1) \<Rightarrow> (map_stream_unique_violation expected (unwrap_or 0 actual), w1))
      | _ \<Rightarrow> (map_sqlite_error display error, w))"

fun is_sqlite_stream_revision_unique_violation :: "string option \<Rightarrow> bool" where
  "is_sqlite_stream_revision_unique_violation None = False"
| "is_sqlite_stream_revision_unique_violation (Some message) =
     is_stream_revision_unique_violation_message message"

fun is_revision_conflict :: "rusqlite_error \<Rightarrow> bool" where
  "is_revision_conflict (SqliteFailure code extended_code message) \<longleftrightarrow>
     code = ConstraintViolation \<and>
     (extended_code = SQLITE_CONSTRAINT_UNIQUE \<or> extended_code = SQLITE_CONSTRAINT_PRIMARYKEY) \<and>
     is_sqlite_stream_revision_unique_violation message"
| "is_revision_conflict _ \<longleftrightarrow> False"

definition map_sqlite_insert_error ::
  "(rusqlite_error \<Rightarrow> string) \<Rightarrow> expected_revision \<Rightarrow> nat \<Rightarrow> ('w, event_store_error + nat) op \<Rightarrow>
   rusqlite_error \<Rightarrow> ('w, event_store_error) op" where
  "map_sqlite_insert_error display expected stale_actual reread_revision error w =
     (if is_revision_conflict error \<or> is_sqlite_contention error
      then (case reread_revision w of
          (r, w1) \<Rightarrow> (map_stream_unique_violation expected (unwrap_or stale_actual r), w1))
      else (map_sqlite_error display error, w))"

section \<open>The database\<close>

text \<open>A row of the events table, with the columns at their SQL types.\<close>

record stored_sqlite_event_row =
  se_event_id :: string
  se_aggregate_id :: string
  se_aggregate_type :: string
  se_revision :: int
  se_sequence :: int
  se_event_type :: string
  se_event_version :: int
  se_payload :: string
  se_metadata :: string
  se_recorded_at_ms :: int

record key_row =
  kr_state :: string
  kr_value :: "string option"
  kr_updated_at_ms :: int
  kr_owner :: "string option"
  kr_expires_at_ms :: "int option"

record snapshot_row =
  nr_revision :: int
  nr_state :: string
  nr_metadata :: string
  nr_recorded_at_ms :: int

text \<open>The events in the order of their insertion, the next value of the sequence, the idempotency rows
  by their key, and the snapshots by aggregate type and identifier.\<close>

record sqlite_db =
  db_events :: "stored_sqlite_event_row list"
  db_next_sequence :: int
  db_keys :: "(string \<times> key_row) list"
  db_snapshots :: "((string \<times> string) \<times> snapshot_row) list"

record sqlite_world =
  sw_db :: sqlite_db
  sw_faults :: "rusqlite_error option list"
  sw_clock :: clock
  sw_ticks :: nat

definition sql_step ::
  "(sqlite_db \<Rightarrow> (rusqlite_error + 'a) \<times> sqlite_db) \<Rightarrow> (sqlite_world, rusqlite_error + 'a) op" where
  "sql_step f w = (case sw_faults w of
      Some e # faults \<Rightarrow> (Err e, w\<lparr>sw_faults := faults\<rparr>)
    | None # faults \<Rightarrow> (case f (sw_db w) of (r, db) \<Rightarrow> (r, w\<lparr>sw_faults := faults, sw_db := db\<rparr>))
    | [] \<Rightarrow> (case f (sw_db w) of (r, db) \<Rightarrow> (r, w\<lparr>sw_db := db\<rparr>)))"

text \<open>Preparing a statement, beginning and committing have no effect of their own.\<close>

abbreviation engine_call :: "(sqlite_world, rusqlite_error + unit) op" where
  "engine_call \<equiv> sql_step (\<lambda>db. (Ok (), db))"

text \<open>
  The body of a transaction.  A body that returns early drops the transaction, which rolls back; its
  last step is the commit.
\<close>

definition in_transaction :: "(sqlite_world, 'e + 'a) op \<Rightarrow> (sqlite_world, 'e + 'a) op" where
  "in_transaction body w = (case body w of
      (Inl e, w1) \<Rightarrow> (Err e, w1\<lparr>sw_db := sw_db w\<rparr>)
    | (Inr a, w1) \<Rightarrow> (Ok a, w1))"

section \<open>Statements\<close>

text \<open>\<open>SELECT COALESCE(MAX(revision), 0)\<close> of a stream.\<close>

definition db_stream :: "string \<Rightarrow> string \<Rightarrow> sqlite_db \<Rightarrow> stored_sqlite_event_row list" where
  "db_stream aggregate_type aggregate_id db =
     filter (\<lambda>r. se_aggregate_type r = aggregate_type \<and> se_aggregate_id r = aggregate_id) (db_events db)"

definition max_revision :: "stored_sqlite_event_row list \<Rightarrow> int" where
  "max_revision rows = (if rows = [] then 0 else Max (set (map se_revision rows)))"

text \<open>
  An INSERT of rows into the events table: the sequence is assigned, and the unique constraints of
  the table fail the whole statement.  The messages name the columns of the violated constraint.
\<close>

fun sequenced :: "int \<Rightarrow> stored_sqlite_event_row list \<Rightarrow> stored_sqlite_event_row list" where
  "sequenced s [] = []"
| "sequenced s (r # rs) = r\<lparr>se_sequence := s\<rparr> # sequenced (s + 1) rs"

definition stream_key :: "stored_sqlite_event_row \<Rightarrow> string \<times> string \<times> int" where
  "stream_key r = (se_aggregate_type r, se_aggregate_id r, se_revision r)"

definition unique_failed :: "string \<Rightarrow> rusqlite_error" where
  "unique_failed columns = SqliteFailure ConstraintViolation SQLITE_CONSTRAINT_UNIQUE
     (Some (''UNIQUE constraint failed: '' @ columns))"

definition insert_event_rows ::
  "string \<Rightarrow> stored_sqlite_event_row list \<Rightarrow> sqlite_db \<Rightarrow> (rusqlite_error + unit) \<times> sqlite_db" where
  "insert_event_rows table new db =
     (let rows = db_events db @ sequenced (db_next_sequence db) new
      in if db_next_sequence db + int (length new) - 1 > int i64_max
           then (Err (SqliteFailure OtherCode 13 (Some ''database or disk is full'')), db)
         else if \<not> distinct (map se_event_id rows)
           then (Err (unique_failed (table @ ''.event_id'')), db)
         else if \<not> distinct (map stream_key rows)
           then (Err (unique_failed (table @ ''.aggregate_type, '' @ table @ ''.aggregate_id, '' @
               table @ ''.revision'')), db)
         else (Ok (), db\<lparr>db_events := rows,
               db_next_sequence := db_next_sequence db + int (length new)\<rparr>))"

text \<open>
  Statements over a table with a primary key, with the number of rows they change: an INSERT that
  ignores a key that is there, an UPDATE of one key's row where a condition holds of it, and a DELETE.
\<close>

definition insert_or_ignore :: "'k \<Rightarrow> 'r \<Rightarrow> ('k \<times> 'r) list \<Rightarrow> nat \<times> ('k \<times> 'r) list" where
  "insert_or_ignore key row rows =
     (case map_of rows key of None \<Rightarrow> (1, AList.update key row rows) | Some _ \<Rightarrow> (0, rows))"

definition update_key :: "'k \<Rightarrow> ('r \<Rightarrow> bool) \<Rightarrow> ('r \<Rightarrow> 'r) \<Rightarrow> ('k \<times> 'r) list \<Rightarrow> nat \<times> ('k \<times> 'r) list" where
  "update_key key cond f rows =
     (case map_of rows key of
        None \<Rightarrow> (0, rows)
      | Some r \<Rightarrow> if cond r then (1, AList.update key (f r) rows) else (0, rows))"

definition delete_where :: "('k \<times> 'r \<Rightarrow> bool) \<Rightarrow> ('k \<times> 'r) list \<Rightarrow> nat \<times> ('k \<times> 'r) list" where
  "delete_where cond rows = (length (filter cond rows), filter (\<lambda>kr. \<not> cond kr) rows)"

definition on_keys ::
  "((string \<times> key_row) list \<Rightarrow> nat \<times> (string \<times> key_row) list) \<Rightarrow> sqlite_db \<Rightarrow> (rusqlite_error + nat) \<times> sqlite_db" where
  "on_keys f db = (case f (db_keys db) of (n, rows) \<Rightarrow> (Ok n, db\<lparr>db_keys := rows\<rparr>))"

text \<open>\<open>last_insert_rowid()\<close>, a call without a statement.\<close>

definition last_insert_rowid :: "(sqlite_world, int) op" where
  "last_insert_rowid w = (db_next_sequence (sw_db w) - 1, w)"

end
