(* ===== verification/Sqlite_Store.thy ===== *)
theory Sqlite_Store
  imports Sqlite_Driver Repository
begin

text \<open>
  \<open>SqliteEventStore\<close> of \<open>src/sqlite.rs\<close>: loading and appending over the aggregate identifier's lookup
  keys, the global and the raw feed, and the append that records its result under an idempotency key
  in the same transaction.  The store record holds the fields of the Rust struct and what the code
  takes from its surroundings: the codecs, the identifiers and clock readings of new events, and the
  driver's error texts.
\<close>

section \<open>The store\<close>

record ('e, 'id) sql_codecs =
  cx_event :: "'e codec"
  cx_metadata :: "metadata codec"
  cx_id :: "'id codec"
  cx_committed :: "('e, 'id) event_stream codec"
  cx_parse :: "string \<Rightarrow> string + json"
  cx_print :: "json \<Rightarrow> string"

record ('e, 'id) sqlite_event_store =
  sl_aggregate_type :: string
  sl_table_name :: string
  sl_idempotency_table :: string
  sl_upcasters :: upcaster_registry
  sl_codecs :: "('e, 'id) sql_codecs"
  sl_source :: "nat \<Rightarrow> event_id \<times> system_time"
  sl_earlier :: "int \<Rightarrow> string"
  sl_display :: "rusqlite_error \<Rightarrow> string"

text \<open>\<open>configure_sqlite_connection\<close>: the busy timeout and two pragmas.\<close>

definition configure_sqlite_connection ::
  "(rusqlite_error \<Rightarrow> string) \<Rightarrow> (sqlite_world, event_store_error + unit) op" where
  "configure_sqlite_connection display =
     try_op (op_map_err (map_sqlite_error display) engine_call) (\<lambda>_.
     try_op (op_map_err (map_sqlite_error display) engine_call) (\<lambda>_.
     try_op (op_map_err (map_sqlite_error display) engine_call) (\<lambda>_.
       return_op (Ok ()))))"

definition sqlite_with_table_names ::
  "('e, 'id) sqlite_event_store \<Rightarrow> string \<Rightarrow> string \<Rightarrow>
   (sqlite_world, event_store_error + ('e, 'id) sqlite_event_store) op" where
  "sqlite_with_table_names st table_name idempotency_table =
     try_op (return_op (validate_table_name table_name)) (\<lambda>_.
     try_op (return_op (validate_table_name idempotency_table)) (\<lambda>_.
     try_op (configure_sqlite_connection (sl_display st)) (\<lambda>_.
       return_op (Ok (st\<lparr>sl_table_name := table_name, sl_idempotency_table := idempotency_table,
         sl_upcasters := upcaster_registry_new\<rparr>)))))"

definition sqlite_with_table_name ::
  "('e, 'id) sqlite_event_store \<Rightarrow> string \<Rightarrow>
   (sqlite_world, event_store_error + ('e, 'id) sqlite_event_store) op" where
  "sqlite_with_table_name st table_name = sqlite_with_table_names st table_name ''idempotency_keys''"

definition sqlite_new ::
  "('e, 'id) sqlite_event_store \<Rightarrow> (sqlite_world, event_store_error + ('e, 'id) sqlite_event_store) op" where
  "sqlite_new st = sqlite_with_table_name st ''events''"

definition sqlite_register_upcaster ::
  "string \<Rightarrow> upcaster \<Rightarrow> ('e, 'id) sqlite_event_store \<Rightarrow>
   (upcaster_registration_error + unit) \<times> ('e, 'id) sqlite_event_store" where
  "sqlite_register_upcaster event_type u st =
     (case register event_type u (sl_upcasters st) of (r, reg) \<Rightarrow> (r, st\<lparr>sl_upcasters := reg\<rparr>))"

section \<open>Reading rows\<close>

text \<open>Preparing the statement, running it, and collecting its rows, each with its own failure.\<close>

definition query_stored_event_rows ::
  "(rusqlite_error \<Rightarrow> string) \<Rightarrow> (sqlite_db \<Rightarrow> stored_sqlite_event_row list) \<Rightarrow>
   (sqlite_world, event_store_error + stored_sqlite_event_row list) op" where
  "query_stored_event_rows display query =
     try_op (op_map_err (map_sqlite_error display) engine_call) (\<lambda>_.
     try_op (op_map_err (map_sqlite_error display) engine_call) (\<lambda>_.
       op_map_err (map_sqlite_row_collect_error display) (sql_step (\<lambda>db. (Ok (query db), db)))))"

definition current_revision_locked ::
  "('e, 'id) sqlite_event_store \<Rightarrow> string \<Rightarrow> (sqlite_world, event_store_error + nat) op" where
  "current_revision_locked st aggregate_id =
     try_op (op_map_err (map_sqlite_error (sl_display st)) engine_call) (\<lambda>_.
     try_op (op_map_err (map_sqlite_error (sl_display st))
         (sql_step (\<lambda>db. (Ok (max_revision (db_stream (sl_aggregate_type st) aggregate_id db)), db)))) (\<lambda>revision.
       return_op (ok_or (error_deserialization ''stored revision cannot be negative'')
         (u64_try_from_i64 revision))))"

definition to_bytes :: "string \<Rightarrow> bytes" where
  "to_bytes s = map (\<lambda>c. word_of_nat (of_char c)) s"

definition from_bytes :: "bytes \<Rightarrow> string" where
  "from_bytes bs = map (\<lambda>b. char_of (unat b)) bs"

text \<open>\<open>u32::try_from\<close> of an \<open>i64\<close>.\<close>

definition u32_try_from_i64 :: "int \<Rightarrow> nat option" where
  "u32_try_from_i64 z = (if 0 \<le> z \<and> z \<le> int u32_max then Some (nat z) else None)"

definition raw_envelope_from_stored_row ::
  "('e, 'id) sqlite_event_store \<Rightarrow> stored_sqlite_event_row \<Rightarrow>
   event_store_error + (json, string) event_envelope" where
  "raw_envelope_from_stored_row st row =
     and_then (ok_or (error_deserialization ''stored revision cannot be negative'')
         (u64_try_from_i64 (se_revision row))) (\<lambda>revision.
     and_then (ok_or (error_deserialization ''SQLite sequence cannot be negative'')
         (u64_try_from_i64 (se_sequence row))) (\<lambda>sequence.
     and_then (ok_or (error_deserialization ''event_version exceeds u32'')
         (u32_try_from_i64 (se_event_version row))) (\<lambda>event_version.
     and_then (map_err (\<lambda>err. error_deserialization (display_upcast_error err))
         (prepare_payload (sl_upcasters st) (se_event_type row) event_version (to_bytes (se_payload row))))
       (\<lambda>(event_version, upcasted_bytes).
     and_then (map_err (\<lambda>error. error_deserialization (''payload JSON: '' @ error))
         (cx_parse (sl_codecs st) (from_bytes upcasted_bytes))) (\<lambda>payload.
     and_then (map_err (\<lambda>error. error_deserialization (''metadata JSON: '' @ error))
         (cx_parse (sl_codecs st) (se_metadata row))) (\<lambda>metadata_value.
     and_then (deserialize_metadata (cx_metadata (sl_codecs st)) (se_event_id row) metadata_value) (\<lambda>metadata.
     and_then (millis_to_system_time (se_recorded_at_ms row)) (\<lambda>recorded_at.
       Ok (envelope_new (event_id_from_string (se_event_id row)) (se_aggregate_id row)
         (aggregate_type_new (se_aggregate_type row)) revision (Some sequence)
         (event_type_new (se_event_type row)) event_version payload metadata recorded_at)))))))))"

definition envelope_from_stored_row ::
  "('e, 'id) sqlite_event_store \<Rightarrow> stored_sqlite_event_row \<Rightarrow>
   event_store_error + ('e, 'id) event_envelope" where
  "envelope_from_stored_row st row =
     and_then (ok_or (error_deserialization ''stored revision cannot be negative'')
         (u64_try_from_i64 (se_revision row))) (\<lambda>revision.
     and_then (ok_or (error_deserialization ''SQLite sequence cannot be negative'')
         (u64_try_from_i64 (se_sequence row))) (\<lambda>sequence.
     and_then (ok_or (error_deserialization ''event_version exceeds u32'')
         (u32_try_from_i64 (se_event_version row))) (\<lambda>event_version.
     and_then (deserialize_id (cx_id (sl_codecs st)) (se_aggregate_id row)) (\<lambda>aggregate_id.
     and_then (map_err (\<lambda>err. error_deserialization (display_upcast_error err))
         (prepare_payload (sl_upcasters st) (se_event_type row) event_version (to_bytes (se_payload row))))
       (\<lambda>(event_version, upcasted_bytes).
     and_then (map_err (\<lambda>error. error_deserialization (''payload JSON: '' @ error))
         (cx_parse (sl_codecs st) (from_bytes upcasted_bytes))) (\<lambda>payload_value.
     and_then (deserialize_payload (cx_event (sl_codecs st)) (se_event_id row) (se_event_type row) payload_value)
       (\<lambda>payload.
     and_then (map_err (\<lambda>error. error_deserialization (''metadata JSON: '' @ error))
         (cx_parse (sl_codecs st) (se_metadata row))) (\<lambda>metadata_value.
     and_then (deserialize_metadata (cx_metadata (sl_codecs st)) (se_event_id row) metadata_value) (\<lambda>metadata.
     and_then (millis_to_system_time (se_recorded_at_ms row)) (\<lambda>recorded_at.
       Ok (envelope_new (event_id_from_string (se_event_id row)) aggregate_id
         (aggregate_type_new (se_aggregate_type row)) revision (Some sequence)
         (event_type_new (se_event_type row)) event_version payload metadata recorded_at)))))))))))"

section \<open>Loading\<close>

text \<open>The loop over the lookup keys stops at the first key that has rows.\<close>

fun first_stored_rows ::
  "(string \<Rightarrow> (sqlite_world, event_store_error + stored_sqlite_event_row list) op) \<Rightarrow> string list \<Rightarrow>
   (sqlite_world, event_store_error + stored_sqlite_event_row list) op" where
  "first_stored_rows query [] = return_op (Ok [])"
| "first_stored_rows query (key # keys) =
     try_op (query key) (\<lambda>stored_rows.
       if stored_rows \<noteq> [] then return_op (Ok stored_rows) else first_stored_rows query keys)"

definition sqlite_load ::
  "('e, 'id) sqlite_event_store \<Rightarrow> 'id \<Rightarrow> (sqlite_world, event_store_error + ('e, 'id) event_stream) op" where
  "sqlite_load st aggregate_id =
     try_op (return_op (aggregate_id_lookup_keys (cx_id (sl_codecs st)) aggregate_id)) (\<lambda>keys.
     try_op (first_stored_rows (\<lambda>key. query_stored_event_rows (sl_display st)
         (\<lambda>db. sort_key se_revision (db_stream (sl_aggregate_type st) key db))) keys) (\<lambda>stored_rows.
       return_op (collect_results (envelope_from_stored_row st) stored_rows)))"

definition sqlite_load_after_revision ::
  "('e, 'id) sqlite_event_store \<Rightarrow> 'id \<Rightarrow> revision \<Rightarrow>
   (sqlite_world, event_store_error + ('e, 'id) event_stream) op" where
  "sqlite_load_after_revision st aggregate_id revision =
     try_op (return_op (ok_or (error_serialization ''revision exceeds SQLite INTEGER'')
         (i64_try_from_u64 revision))) (\<lambda>revision_i64.
     try_op (return_op (aggregate_id_lookup_keys (cx_id (sl_codecs st)) aggregate_id)) (\<lambda>keys.
     try_op (first_stored_rows (\<lambda>key. query_stored_event_rows (sl_display st)
         (\<lambda>db. sort_key se_revision (filter (\<lambda>r. se_revision r > revision_i64)
            (db_stream (sl_aggregate_type st) key db)))) keys) (\<lambda>stored_rows.
       return_op (collect_results (envelope_from_stored_row st) stored_rows))))"

definition sqlite_load_global_after ::
  "('e, 'id) sqlite_event_store \<Rightarrow> nat option \<Rightarrow>
   (sqlite_world, event_store_error + ('e, 'id) event_stream) op" where
  "sqlite_load_global_after st sequence =
     try_op (return_op (ok_or (error_deserialization ''global sequence exceeds SQLite INTEGER'')
         (i64_try_from_u64 (case sequence of None \<Rightarrow> 0 | Some s \<Rightarrow> s)))) (\<lambda>sequence.
     try_op (query_stored_event_rows (sl_display st) (\<lambda>db. sort_key se_sequence
         (filter (\<lambda>r. se_aggregate_type r = sl_aggregate_type st \<and> se_sequence r > sequence) (db_events db))))
       (\<lambda>stored_rows. return_op (collect_results (envelope_from_stored_row st) stored_rows)))"

definition sqlite_load_global_after_limited ::
  "('e, 'id) sqlite_event_store \<Rightarrow> nat option \<Rightarrow> nat \<Rightarrow>
   (sqlite_world, event_store_error + ('e, 'id) event_stream) op" where
  "sqlite_load_global_after_limited st sequence limit =
     try_op (return_op (ok_or (error_deserialization ''global sequence exceeds SQLite INTEGER'')
         (i64_try_from_u64 (case sequence of None \<Rightarrow> 0 | Some s \<Rightarrow> s)))) (\<lambda>sequence.
     try_op (return_op (ok_or (error_deserialization ''event replay limit exceeds SQLite INTEGER'')
         (i64_try_from_u64 limit))) (\<lambda>limit.
     try_op (query_stored_event_rows (sl_display st) (\<lambda>db. take (nat limit) (sort_key se_sequence
         (filter (\<lambda>r. se_aggregate_type r = sl_aggregate_type st \<and> se_sequence r > sequence) (db_events db)))))
       (\<lambda>stored_rows. return_op (collect_results (envelope_from_stored_row st) stored_rows))))"

definition sqlite_load_raw_global_after_limited ::
  "('e, 'id) sqlite_event_store \<Rightarrow> nat option \<Rightarrow> nat \<Rightarrow>
   (sqlite_world, event_store_error + (json, string) event_stream) op" where
  "sqlite_load_raw_global_after_limited st sequence limit =
     try_op (return_op (ok_or (error_deserialization ''global sequence exceeds SQLite INTEGER'')
         (i64_try_from_u64 (case sequence of None \<Rightarrow> 0 | Some s \<Rightarrow> s)))) (\<lambda>sequence.
     try_op (return_op (ok_or (error_deserialization ''event replay limit exceeds SQLite INTEGER'')
         (i64_try_from_u64 limit))) (\<lambda>limit.
     try_op (query_stored_event_rows (sl_display st) (\<lambda>db. take (nat limit) (sort_key se_sequence
         (filter (\<lambda>r. se_sequence r > sequence) (db_events db)))))
       (\<lambda>stored_rows. return_op (collect_results (raw_envelope_from_stored_row st) stored_rows))))"

section \<open>Appending\<close>

text \<open>An event version is a \<open>u32\<close>.\<close>

record 'e prepared_sqlite_event =
  pe_event_id :: event_id
  pe_event_type :: string
  pe_event_version :: nat
  pe_payload :: 'e
  pe_payload_json :: string
  pe_metadata :: metadata
  pe_metadata_json :: string
  pe_recorded_at :: system_time
  pe_recorded_at_ms :: int

definition prepared_sqlite_event_new ::
  "('e, 'id) sqlite_event_store \<Rightarrow> 'e new_event \<Rightarrow>
   (sqlite_world, event_store_error + 'e prepared_sqlite_event) op" where
  "prepared_sqlite_event_new st event w =
     (let (event_id, recorded_at) = sl_source st (sw_ticks w);
          codecs = sl_codecs st
      in (and_then (system_time_to_millis (sl_earlier st) recorded_at) (\<lambda>recorded_at_ms.
          and_then (serialize_payload (cx_event codecs) (ne_payload event)) (\<lambda>payload_value.
          and_then (serialize_metadata (cx_metadata codecs) (ne_metadata event)) (\<lambda>metadata_value.
            Ok \<lparr>pe_event_id = event_id, pe_event_type = event_type_as_str (ne_event_type event),
              pe_event_version = ne_event_version event mod 2 ^ 32, pe_payload = ne_payload event,
              pe_payload_json = cx_print codecs payload_value, pe_metadata = ne_metadata event,
              pe_metadata_json = cx_print codecs metadata_value, pe_recorded_at = recorded_at,
              pe_recorded_at_ms = recorded_at_ms\<rparr>))),
          w\<lparr>sw_ticks := sw_ticks w + 1\<rparr>))"

text \<open>\<open>events.into_iter().map(PreparedSqliteEvent::new).collect()?\<close>.\<close>

fun prepare_events ::
  "('e, 'id) sqlite_event_store \<Rightarrow> 'e new_event list \<Rightarrow>
   (sqlite_world, event_store_error + 'e prepared_sqlite_event list) op" where
  "prepare_events st [] = return_op (Ok [])"
| "prepare_events st (event # events) =
     try_op (prepared_sqlite_event_new st event) (\<lambda>p.
     try_op (prepare_events st events) (\<lambda>ps. return_op (Ok (p # ps))))"

definition begin_immediate ::
  "('e, 'id) sqlite_event_store \<Rightarrow> expected_revision \<Rightarrow> nat \<Rightarrow>
   (sqlite_world, event_store_error + 'a) op \<Rightarrow> (sqlite_world, event_store_error + 'a) op" where
  "begin_immediate st expected_revision stale_revision body =
     try_or_op engine_call
       (map_sqlite_contention_error (sl_display st) (Some expected_revision) (return_op (Ok stale_revision)))
       (\<lambda>_. in_transaction body)"

text \<open>The rows of the INSERT, numbered from \<open>index\<close>; the revision must fit the column.\<close>

fun stored_rows_from ::
  "('e, 'id) sqlite_event_store \<Rightarrow> string \<Rightarrow> nat \<Rightarrow> nat \<Rightarrow> 'e prepared_sqlite_event list \<Rightarrow>
   event_store_error + stored_sqlite_event_row list" where
  "stored_rows_from st aggregate_id_key actual_revision index [] = Ok []"
| "stored_rows_from st aggregate_id_key actual_revision index (event # events) =
     and_then (ok_or (error_serialization ''revision exceeds SQLite INTEGER'')
         (i64_try_from_u64 (actual_revision + index + 1))) (\<lambda>revision_i64.
     and_then (stored_rows_from st aggregate_id_key actual_revision (index + 1) events) (\<lambda>rows.
       Ok (\<lparr>se_event_id = event_id_as_str (pe_event_id event), se_aggregate_id = aggregate_id_key,
          se_aggregate_type = sl_aggregate_type st, se_revision = revision_i64, se_sequence = 0,
          se_event_type = pe_event_type event, se_event_version = int (pe_event_version event),
          se_payload = pe_payload_json event, se_metadata = pe_metadata_json event,
          se_recorded_at_ms = pe_recorded_at_ms event\<rparr> # rows)))"

text \<open>The envelopes of the committed events, numbered from \<open>index\<close>.\<close>

definition committed_envelope ::
  "('e, 'id) sqlite_event_store \<Rightarrow> 'id \<Rightarrow> nat \<Rightarrow> nat \<Rightarrow> 'e prepared_sqlite_event \<Rightarrow> ('e, 'id) event_envelope" where
  "committed_envelope st aggregate_id revision sequence event =
     envelope_new (pe_event_id event) aggregate_id (aggregate_type_new (sl_aggregate_type st)) revision
       (Some sequence) (event_type_new (pe_event_type event)) (pe_event_version event) (pe_payload event)
       (pe_metadata event) (pe_recorded_at event)"

fun committed_from ::
  "('e, 'id) sqlite_event_store \<Rightarrow> 'id \<Rightarrow> nat \<Rightarrow> int \<Rightarrow> nat \<Rightarrow> 'e prepared_sqlite_event list \<Rightarrow>
   event_store_error + ('e, 'id) event_stream" where
  "committed_from st aggregate_id actual_revision first_sequence index [] = Ok []"
| "committed_from st aggregate_id actual_revision first_sequence index (event # events) =
     and_then (ok_or (error_deserialization ''SQLite sequence cannot be negative'')
         (u64_try_from_i64 (first_sequence + int index))) (\<lambda>sequence.
     and_then (committed_from st aggregate_id actual_revision first_sequence (index + 1) events) (\<lambda>committed.
       Ok (committed_envelope st aggregate_id (actual_revision + index + 1) sequence event # committed)))"

definition insert_prepared_sqlite_events ::
  "('e, 'id) sqlite_event_store \<Rightarrow> 'id \<Rightarrow> string \<Rightarrow> nat \<Rightarrow> expected_revision \<Rightarrow> 'e prepared_sqlite_event list \<Rightarrow>
   (sqlite_world, event_store_error + ('e, 'id) event_stream) op" where
  "insert_prepared_sqlite_events st aggregate_id aggregate_id_key actual_revision expected_revision prepared =
     try_op (return_op (stored_rows_from st aggregate_id_key actual_revision 0 prepared)) (\<lambda>rows.
     try_or_op (sql_step (insert_event_rows (sl_table_name st) rows))
       (map_sqlite_insert_error (sl_display st) expected_revision actual_revision
          (current_revision_locked st aggregate_id_key)) (\<lambda>_ w.
     case last_insert_rowid w of (last_rowid, w1) \<Rightarrow>
       (let first_sequence = last_rowid - int (length prepared) + 1
        in if first_sequence \<le> 0
           then (Err (error_backend ''SQLite multi-row insert returned an invalid first sequence''), w1)
           else (committed_from st aggregate_id actual_revision first_sequence 0 prepared, w1))))"

definition append_prepared_sqlite_events_once ::
  "('e, 'id) sqlite_event_store \<Rightarrow> string list \<Rightarrow> 'id \<Rightarrow> string \<Rightarrow> expected_revision \<Rightarrow>
   'e prepared_sqlite_event list \<Rightarrow> (sqlite_world, event_store_error + ('e, 'id) event_stream) op" where
  "append_prepared_sqlite_events_once st keys aggregate_id aggregate_id_key expected_revision prepared =
     try_op (max_revision_for_lookup_keys keys (current_revision_locked st)) (\<lambda>stale_revision.
       begin_immediate st expected_revision stale_revision (
         try_op (max_revision_for_lookup_keys keys (current_revision_locked st)) (\<lambda>actual_revision.
         try_op (return_op (check_expected_revision expected_revision actual_revision)) (\<lambda>_.
         try_op (insert_prepared_sqlite_events st aggregate_id aggregate_id_key actual_revision
             expected_revision prepared) (\<lambda>committed.
         try_or_op engine_call
           (map_sqlite_contention_error (sl_display st) (Some expected_revision)
              (return_op (Ok stale_revision))) (\<lambda>_.
           return_op (Ok committed)))))))"

definition MAX_APPEND_ATTEMPTS :: nat where "MAX_APPEND_ATTEMPTS = 32"

text \<open>The attempts still to make; the error of the last one is returned.\<close>

fun append_attempts ::
  "(sqlite_world, event_store_error + 'a) op \<Rightarrow> nat \<Rightarrow> (sqlite_world, event_store_error + 'a) op" where
  "append_attempts once 0 w =
     (Err (error_backend ''sqlite append exhausted optimistic concurrency retries''), w)"
| "append_attempts once (Suc n) w =
     (case once w of
        (Inr committed, w1) \<Rightarrow> (Ok committed, w1)
      | (Inl error, w1) \<Rightarrow>
          if is_retryable error \<and> n > 0 then append_attempts once n w1 else (Err error, w1))"

text \<open>An append of no events checks the expectation in a transaction of its own.\<close>

definition append_nothing ::
  "('e, 'id) sqlite_event_store \<Rightarrow> string list \<Rightarrow> expected_revision \<Rightarrow>
   (sqlite_world, event_store_error + ('e, 'id) event_stream) op" where
  "append_nothing st keys expected_revision =
     try_op (max_revision_for_lookup_keys keys (current_revision_locked st)) (\<lambda>stale_revision.
       begin_immediate st expected_revision stale_revision (
         try_op (max_revision_for_lookup_keys keys (current_revision_locked st)) (\<lambda>actual_revision.
         try_op (return_op (check_expected_revision expected_revision actual_revision)) (\<lambda>_.
         try_or_op engine_call
           (map_sqlite_contention_error (sl_display st) (Some expected_revision)
              (max_revision_for_lookup_keys keys (current_revision_locked st))) (\<lambda>_.
           return_op (Ok []))))))"

definition sqlite_append ::
  "('e, 'id) sqlite_event_store \<Rightarrow> 'id \<Rightarrow> expected_revision \<Rightarrow> 'e new_event list \<Rightarrow>
   (sqlite_world, event_store_error + ('e, 'id) event_stream) op" where
  "sqlite_append st aggregate_id expected_revision events =
     try_op (return_op (aggregate_id_lookup_keys (cx_id (sl_codecs st)) aggregate_id)) (\<lambda>keys.
     let aggregate_id_key = hd keys in
     try_op (prepare_events st events) (\<lambda>prepared.
       if prepared = [] then append_nothing st keys expected_revision
       else append_attempts
         (append_prepared_sqlite_events_once st keys aggregate_id aggregate_id_key expected_revision prepared)
         MAX_APPEND_ATTEMPTS))"

definition sqlite_event_store ::
  "('e, 'id) sqlite_event_store \<Rightarrow> (sqlite_world, 'id, 'e, event_store_error) event_store" where
  "sqlite_event_store st = \<lparr>es_load = sqlite_load st,
     es_load_after_revision = sqlite_load_after_revision st, es_append = sqlite_append st,
     es_load_global_after_limited = sqlite_load_global_after_limited st\<rparr>"

section \<open>Appending under an idempotency key\<close>

definition wall_now :: "(sqlite_world, system_time) op" where
  "wall_now w = (ck_wall (sw_clock w) (ck_wall_reads (sw_clock w)),
     w\<lparr>sw_clock := (sw_clock w)\<lparr>ck_wall_reads := ck_wall_reads (sw_clock w) + 1\<rparr>\<rparr>)"

abbreviation on_clock :: "(clock, 'a) op \<Rightarrow> (sqlite_world, 'a) op" where
  "on_clock \<equiv> lift_op sw_clock (\<lambda>c w. w\<lparr>sw_clock := c\<rparr>)"

text \<open>\<open>query_row(...).optional()\<close> on the idempotency table.\<close>

definition select_key_row ::
  "(rusqlite_error \<Rightarrow> string) \<Rightarrow> idempotency_key \<Rightarrow> (sqlite_world, event_store_error + key_row option) op" where
  "select_key_row display key = op_map_err (map_sqlite_error display)
     (sql_step (\<lambda>db. (Ok (map_of (db_keys db) (idempotency_key_as_str key)), db)))"

definition sqlite_load_idempotent ::
  "('e, 'id) sqlite_event_store \<Rightarrow> idempotency_key \<Rightarrow>
   (sqlite_world, event_store_error + ('e, 'id) event_stream idempotency_state option) op" where
  "sqlite_load_idempotent st key =
     try_op (select_key_row (sl_display st) key) (\<lambda>row w.
       let (now, w) = on_clock now_ms w
       in case row of
         None \<Rightarrow> (Ok None, w)
       | Some r \<Rightarrow>
           if kr_state r = ''pending''
           then (case on_clock (pending_state_from_row (kr_owner r) (kr_expires_at_ms r) now) w of
               (Some lease, w) \<Rightarrow> (Ok (Some (Pending lease)), w)
             | (None, w) \<Rightarrow> (Err (error_deserialization
                 ''pending idempotency row has expired or is missing lease metadata''), w))
           else if kr_state r = ''complete''
           then (case kr_value r of
               Some value \<Rightarrow>
                 (map_err (\<lambda>error. error_deserialization (''idempotent committed events JSON: '' @ error))
                    (map_ok (\<lambda>v. Some (Complete v)) (cd_from_str (cx_committed (sl_codecs st)) value)), w)
             | None \<Rightarrow> (Err (error_deserialization ''completed idempotency row is missing value''), w))
           else (Err (error_deserialization (''unknown idempotency state: '' @ kr_state r)), w))"

text \<open>The loop that inserts one row at a time and collects the envelopes.\<close>

fun insert_each ::
  "('e, 'id) sqlite_event_store \<Rightarrow> 'id \<Rightarrow> string \<Rightarrow> nat \<Rightarrow> expected_revision \<Rightarrow> nat \<Rightarrow>
   'e prepared_sqlite_event list \<Rightarrow> (sqlite_world, event_store_error + ('e, 'id) event_stream) op" where
  "insert_each st aggregate_id aggregate_id_key actual_revision expected_revision index [] = return_op (Ok [])"
| "insert_each st aggregate_id aggregate_id_key actual_revision expected_revision index (event # events) =
     try_op (return_op (stored_rows_from st aggregate_id_key actual_revision index [event])) (\<lambda>rows.
     try_or_op (sql_step (insert_event_rows (sl_table_name st) rows))
       (map_sqlite_insert_error (sl_display st) expected_revision actual_revision
          (current_revision_locked st aggregate_id_key)) (\<lambda>_ w.
     case last_insert_rowid w of (sequence, w1) \<Rightarrow>
       try_op (return_op (ok_or (error_deserialization ''SQLite sequence cannot be negative'')
           (u64_try_from_i64 sequence))) (\<lambda>sequence.
       try_op (insert_each st aggregate_id aggregate_id_key actual_revision expected_revision (index + 1) events)
         (\<lambda>committed. return_op
           (Ok (committed_envelope st aggregate_id (actual_revision + index + 1) sequence event # committed)))) w1))"

definition i64_or_max :: "nat \<Rightarrow> int" where
  "i64_or_max n = (case i64_try_from_u64 n of Some z \<Rightarrow> z | None \<Rightarrow> int i64_max)"

text \<open>\<open>INSERT\<close> of a pending row: the primary key fails it when the key has a row.\<close>

definition pending_row :: "int \<Rightarrow> idempotency_lease \<Rightarrow> key_row" where
  "pending_row updated_at_ms lease =
     \<lparr>kr_state = ''pending'', kr_value = None, kr_updated_at_ms = updated_at_ms,
      kr_owner = Some (il_owner lease), kr_expires_at_ms = Some (i64_or_max (il_expires_at_ms lease))\<rparr>"

definition insert_pending_row ::
  "string \<Rightarrow> string \<Rightarrow> int \<Rightarrow> idempotency_lease \<Rightarrow> sqlite_db \<Rightarrow> (rusqlite_error + unit) \<times> sqlite_db" where
  "insert_pending_row table key updated_at_ms lease db =
     (case insert_or_ignore key (pending_row updated_at_ms lease) (db_keys db) of (n, rows) \<Rightarrow>
        if n = 0
        then (Err (SqliteFailure ConstraintViolation SQLITE_CONSTRAINT_PRIMARYKEY
           (Some (''UNIQUE constraint failed: '' @ table @ ''.idempotency_key''))), db)
        else (Ok (), db\<lparr>db_keys := rows\<rparr>))"

text \<open>\<open>UPDATE ... SET state = 'complete', value, updated_at_ms\<close>.\<close>

definition complete_row :: "string \<Rightarrow> string \<Rightarrow> int \<Rightarrow> sqlite_db \<Rightarrow> (rusqlite_error + nat) \<times> sqlite_db" where
  "complete_row key value_json updated_at_ms =
     on_keys (update_key key (\<lambda>_. True) (\<lambda>r. r\<lparr>kr_state := ''complete'', kr_value := Some value_json,
       kr_updated_at_ms := updated_at_ms\<rparr>))"

text \<open>What the row of the key decides: nothing, or the result of the call.\<close>

definition existing_key_row ::
  "('e, 'id) sqlite_event_store \<Rightarrow> idempotency_key \<Rightarrow> key_row \<Rightarrow>
   (sqlite_world, (idempotency_key, event_store_error) idempotent_append_error + ('e, 'id) event_stream) op" where
  "existing_key_row st key r =
     (if kr_state r = ''complete''
      then (case kr_value r of
          Some value \<Rightarrow>
            try_op (return_op (map_err (\<lambda>error. AStore
                (error_deserialization (''idempotent committed events JSON: '' @ error)))
              (cd_from_str (cx_committed (sl_codecs st)) value))) (\<lambda>committed.
            try_op (op_map_err (\<lambda>e. AStore (map_sqlite_error (sl_display st) e)) engine_call) (\<lambda>_.
              return_op (Ok committed)))
        | None \<Rightarrow> return_op (Err (AStore (error_deserialization ''completed idempotency row is missing value''))))
      else (\<lambda>w.
        let (leased, w) =
          (if kr_state r = ''pending''
           then (let (now, w) = on_clock now_ms w;
                     (lease, w) = on_clock (pending_state_from_row (kr_owner r) (kr_expires_at_ms r) now) w
                 in (lease \<noteq> None, w))
           else (False, w))
        in if leased then (Err (APending key), w)
           else (Err (AStore (error_deserialization (''unknown idempotency state: '' @ kr_state r))), w)))"

text \<open>Reserving the key, appending and completing the key, up to the commit.\<close>

definition append_and_complete ::
  "('e, 'id) sqlite_event_store \<Rightarrow> idempotency_key \<Rightarrow> 'id \<Rightarrow> string \<Rightarrow> expected_revision \<Rightarrow>
   'e prepared_sqlite_event list \<Rightarrow> (sqlite_world, event_store_error + ('e, 'id) event_stream) op" where
  "append_and_complete st key aggregate_id aggregate_id_key expected_revision prepared =
     (let sql_err = map_sqlite_error (sl_display st); k = idempotency_key_as_str key in
     (\<lambda>w. case wall_now w of (now, w) \<Rightarrow>
     try_op (return_op (system_time_to_millis (sl_earlier st) now)) (\<lambda>updated_at_ms w.
     case on_clock (new_lease lease_config_default) w of (lease, w) \<Rightarrow>
     try_op (op_map_err sql_err engine_call) (\<lambda>_.
     try_op (op_map_err sql_err (sql_step (insert_pending_row (sl_idempotency_table st) k updated_at_ms lease))) (\<lambda>_.
     try_op (current_revision_locked st aggregate_id_key) (\<lambda>actual_revision.
     try_op (return_op (check_expected_revision expected_revision actual_revision)) (\<lambda>_.
     try_op (op_map_err sql_err engine_call) (\<lambda>_.
     try_op (insert_each st aggregate_id aggregate_id_key actual_revision expected_revision 0 prepared) (\<lambda>committed.
     try_op (return_op (map_err (\<lambda>error. error_serialization (''idempotent committed events JSON: '' @ error))
         (cd_to_string (cx_committed (sl_codecs st)) committed))) (\<lambda>value_json.
     try_op (op_map_err sql_err engine_call) (\<lambda>_.
     try_op (op_map_err sql_err (sql_step (complete_row k value_json updated_at_ms))) (\<lambda>_.
     try_op (op_map_err sql_err engine_call) (\<lambda>_.
       return_op (Ok committed))))))))))) w) w))"

definition sqlite_append_idempotent ::
  "('e, 'id) sqlite_event_store \<Rightarrow> idempotency_key \<Rightarrow> 'id \<Rightarrow> expected_revision \<Rightarrow> 'e new_event list \<Rightarrow>
   (sqlite_world, (idempotency_key, event_store_error) idempotent_append_error + ('e, 'id) event_stream) op" where
  "sqlite_append_idempotent st key aggregate_id expected_revision events =
     try_op (return_op (map_err AStore (serialize_id (cx_id (sl_codecs st)) aggregate_id))) (\<lambda>aggregate_id_key.
     try_op (op_map_err AStore (prepare_events st events)) (\<lambda>prepared.
     try_op (op_map_err AStore (current_revision_locked st aggregate_id_key)) (\<lambda>stale_revision.
     try_or_op engine_call
       (\<lambda>error w. case map_sqlite_contention_error (sl_display st) (Some expected_revision)
            (return_op (Ok stale_revision)) error w of (e, w1) \<Rightarrow> (AStore e, w1)) (\<lambda>_.
       in_transaction (
         try_op (op_map_err (\<lambda>e. AStore (map_sqlite_error (sl_display st) e)) engine_call) (\<lambda>_.
         try_op (op_map_err AStore (select_key_row (sl_display st) key)) (\<lambda>row.
           case row of
             Some r \<Rightarrow> existing_key_row st key r
           | None \<Rightarrow> op_map_err AStore
               (append_and_complete st key aggregate_id aggregate_id_key expected_revision prepared))))))))"

definition sqlite_atomic_store ::
  "('e, 'id) sqlite_event_store \<Rightarrow> (sqlite_world, 'id, 'e, event_store_error) atomic_store" where
  "sqlite_atomic_store st = \<lparr>as_load_idempotent = sqlite_load_idempotent st,
     as_append_idempotent = sqlite_append_idempotent st\<rparr>"

end
