(* ===== verification/Sqlite_Facts.thy ===== *)
theory Sqlite_Facts
  imports Sqlite_Store
begin

text \<open>
  What the SQLite event store keeps and returns: operations that leave the database alone, the laws
  of its codecs, the rows of an append and what they decode to, and the proof that the store
  satisfies the event store contract.
\<close>

section \<open>Operations that keep the database\<close>

abbreviation keeps_db :: "(sqlite_world, 'a) op \<Rightarrow> bool" where
  "keeps_db \<equiv> keeps sw_db"

text \<open>No statement touches the clock.\<close>

definition mono_time :: "sqlite_world \<Rightarrow> nat" where
  "mono_time w = ck_mono (sw_clock w)"

lemma keeps_step [keeps_intros]:
  assumes "\<And>db. snd (f db) = db"
  shows "keeps_db (sql_step f)"
proof (rule keepsI)
  fix w r w'
  assume "sql_step f w = (r, w')"
  moreover have "\<And>db r db'. f db = (r, db') \<Longrightarrow> db' = db" using assms by (metis snd_conv)
  ultimately show "sw_db w' = sw_db w"
    by (auto simp: sql_step_def split: prod.splits list.splits option.splits)
qed

lemma step_mono_time [keeps_intros]: "keeps mono_time (sql_step f)"
  by (rule keepsI) (auto simp: sql_step_def mono_time_def split: prod.splits list.splits option.splits)

lemma keeps_transaction [keeps_intros]: "keeps_db f \<Longrightarrow> keeps_db (in_transaction f)"
  by (rule keepsI) (auto simp: in_transaction_def split: prod.splits sum.splits dest!: keepsD)

lemma transaction_mono_time [keeps_intros]: "keeps mono_time f \<Longrightarrow> keeps mono_time (in_transaction f)"
  by (rule keepsI) (auto simp: in_transaction_def mono_time_def split: prod.splits sum.splits dest!: keepsD)

lemma keeps_contention [keeps_intros]:
  "keeps g reread \<Longrightarrow> keeps g (map_sqlite_contention_error display expected reread error)"
  by (rule keepsI)
    (auto simp: map_sqlite_contention_error_def split: prod.splits bool.splits option.splits dest!: keepsD)

lemma keeps_insert_error [keeps_intros]:
  "keeps g reread \<Longrightarrow> keeps g (map_sqlite_insert_error display expected stale reread error)"
  by (rule keepsI)
    (auto simp: map_sqlite_insert_error_def split: prod.splits if_splits dest!: keepsD)

lemma keeps_current_revision [keeps_intros]:
  "keeps_db (current_revision_locked st key)" "keeps mono_time (current_revision_locked st key)"
  unfolding current_revision_locked_def by (intro keeps_intros; simp)+

lemma keeps_max_revision [keeps_intros]:
  "(\<And>key. keeps g (read key)) \<Longrightarrow> keeps g (max_revision_for_lookup_keys keys read)"
proof -
  assume "\<And>key. keeps g (read key)"
  then have "keeps g (max_revision_fold read keys m)" for m
    by (induction keys arbitrary: m) (auto intro: keeps_intros)
  then show ?thesis by (simp add: max_revision_for_lookup_keys_def)
qed

lemma keeps_query [keeps_intros]:
  "keeps_db (query_stored_event_rows display q)" "keeps mono_time (query_stored_event_rows display q)"
  unfolding query_stored_event_rows_def by (intro keeps_intros; simp)+

lemma keeps_first_rows [keeps_intros]:
  "(\<And>key. keeps g (q key)) \<Longrightarrow> keeps g (first_stored_rows q keys)"
  by (induction keys) (simp_all add: keeps_intros)

lemma keeps_prepare [keeps_intros]:
  "keeps_db (prepare_events st events)" "keeps mono_time (prepare_events st events)"
proof -
  have "keeps_db (prepared_sqlite_event_new st e)" "keeps mono_time (prepared_sqlite_event_new st e)" for e
    by (simp_all add: keeps_def mono_time_def prepared_sqlite_event_new_def split_beta Let_def)
  then show "keeps_db (prepare_events st events)" "keeps mono_time (prepare_events st events)"
    by (induction events) (auto intro: keeps_intros)
qed

section \<open>Successful steps\<close>

lemma sql_step_Ok: "sql_step f w = (Inr a, w') \<Longrightarrow> f (sw_db w) = (Inr a, sw_db w')"
  by (auto simp: sql_step_def split: list.splits option.splits prod.splits)

lemma engine_call_Ok: "engine_call w = (Inr u, w') \<Longrightarrow> sw_db w' = sw_db w"
  using sql_step_Ok by fastforce

lemma in_transaction_Ok_iff [result_simps]: "in_transaction f w = (Inr a, w') \<longleftrightarrow> f w = (Inr a, w')"
  by (auto simp: in_transaction_def split: prod.splits sum.splits)

lemma in_transaction_Err: "in_transaction f w = (Inl e, w') \<Longrightarrow> sw_db w' = sw_db w"
  by (auto simp: in_transaction_def split: prod.splits sum.splits)

lemma begin_immediate_cases:
  assumes "begin_immediate st x stale body w = (r, w')"
  obtains (failed) e where "r = Inl e" "sw_db w' = sw_db w"
  | (ran) a w1 where "r = Inr a" "sw_db w1 = sw_db w" "body w1 = (Inr a, w')"
proof -
  let ?h = "map_sqlite_contention_error (sl_display st) (Some x) (return_op (Ok stale))"
  obtain b w1 where b: "engine_call w = (b, w1)" by (meson surj_pair)
  have same: "sw_db w1 = sw_db w" using keepsD [OF keeps_step b] by simp
  show ?thesis
  proof (cases b)
    case (Inl d)
    obtain e w2 where h: "?h d w1 = (e, w2)" by (meson surj_pair)
    have "keeps_db (?h d)" by (intro keeps_intros)
    from keepsD [OF this h] have "sw_db w2 = sw_db w1" .
    then show ?thesis
      using assms b Inl h same by (intro failed [of e]) (auto simp: begin_immediate_def try_or_op_def)
  next
    case (Inr u)
    then have run: "in_transaction body w1 = (r, w')"
      using assms b by (simp add: begin_immediate_def try_or_op_def)
    show ?thesis
    proof (cases r)
      case (Inl e)
      then show ?thesis using in_transaction_Err run same failed by metis
    next
      case (Inr a)
      then show ?thesis using run same ran by (simp add: in_transaction_Ok_iff)
    qed
  qed
qed

lemma current_revision_Ok:
  assumes "current_revision_locked st key w = (Inr n, w')"
  shows "int n = max_revision (db_stream (sl_aggregate_type st) key (sw_db w)) \<and> sw_db w' = sw_db w"
proof -
  have "sw_db w' = sw_db w" using keepsD [OF keeps_current_revision(1) assms] .
  then show ?thesis using assms
    by (auto simp: current_revision_locked_def result_simps u64_try_from_i64_def
        split: if_splits dest!: sql_step_Ok)
qed

lemma max_revision_fold_Ok:
  "max_revision_fold (current_revision_locked st) keys m w = (Inr n, w') \<Longrightarrow>
   int n = foldl max (int m) (map (\<lambda>key. max_revision (db_stream (sl_aggregate_type st) key (sw_db w))) keys)"
proof (induction keys arbitrary: m w)
  case (Cons key keys)
  then obtain a w1 where a: "current_revision_locked st key w = (Inr a, w1)"
    and rest: "max_revision_fold (current_revision_locked st) keys (max m a) w1 = (Inr n, w')"
    by (auto simp: result_simps)
  show ?case using Cons.IH [OF rest] current_revision_Ok [OF a] by (simp add: of_nat_max)
qed (simp add: return_op_def)

lemma query_rows_Ok:
  "query_stored_event_rows display q w = (Inr rows, w') \<Longrightarrow> rows = q (sw_db w)"
  by (fastforce simp: query_stored_event_rows_def result_simps dest!: sql_step_Ok engine_call_Ok)

lemma first_rows_Ok:
  "first_stored_rows (\<lambda>key. query_stored_event_rows display (q key)) keys w = (Inr rows, w') \<Longrightarrow>
   rows = (case filter (\<lambda>key. q key (sw_db w) \<noteq> []) keys of [] \<Rightarrow> [] | key # _ \<Rightarrow> q key (sw_db w))"
proof (induction keys arbitrary: w)
  case (Cons key keys)
  then obtain rs w1 where rs: "query_stored_event_rows display (q key) w = (Inr rs, w1)"
    and rest: "(if rs \<noteq> [] then return_op (Ok rs)
        else first_stored_rows (\<lambda>key. query_stored_event_rows display (q key)) keys) w1 = (Inr rows, w')"
    by (auto simp: result_simps)
  have "rs = q key (sw_db w)" "sw_db w1 = sw_db w"
    using query_rows_Ok [OF rs] keepsD [OF keeps_query(1) rs] by auto
  then show ?case using rest Cons.IH [of w1] by (auto simp: return_op_def split: list.splits)
qed (simp add: return_op_def)

section \<open>The codecs\<close>

text \<open>
  A value that was serialised and printed is parsed and read back; an identifier is read back from
  its column; and the older column text of an identifier is not the column text of another one.
\<close>

definition sql_codecs_laws :: "('e, 'id) sql_codecs \<Rightarrow> bool" where
  "sql_codecs_laws cx \<longleftrightarrow>
     codec_laws (cx_event cx) \<and> codec_laws (cx_metadata cx) \<and>
     (\<forall>e v. cd_to_value (cx_event cx) e = Ok v \<longrightarrow> cx_parse cx (cx_print cx v) = Ok v) \<and>
     (\<forall>m v. cd_to_value (cx_metadata cx) m = Ok v \<longrightarrow> cx_parse cx (cx_print cx v) = Ok v) \<and>
     (\<forall>i k. serialize_id (cx_id cx) i = Ok k \<longrightarrow> deserialize_id (cx_id cx) k = Ok i) \<and>
     (\<forall>i k ks j. aggregate_id_lookup_keys (cx_id cx) i = Ok (k # ks) \<longrightarrow>
        (\<forall>l\<in>set ks. serialize_id (cx_id cx) j \<noteq> Ok l))"

lemma lookup_keys_serialize:
  "aggregate_id_lookup_keys C i = Ok keys \<Longrightarrow> \<exists>k ks. keys = k # ks \<and> serialize_id C i = Ok k"
  "serialize_id C i = Ok k \<Longrightarrow> \<exists>ks. aggregate_id_lookup_keys C i = Ok (k # ks)"
  by (auto simp: aggregate_id_lookup_keys_def result_simps)

lemma serialize_id_inj:
  "sql_codecs_laws cx \<Longrightarrow> serialize_id (cx_id cx) i = Ok k \<Longrightarrow> serialize_id (cx_id cx) j = Ok k \<Longrightarrow> i = j"
  unfolding sql_codecs_laws_def by (metis Inr_inject)

lemma from_to_bytes [simp]: "from_bytes (to_bytes s) = s"
proof -
  have "char_of (unat (word_of_nat (of_char c) :: 8 word)) = c" for c :: char
    by (simp add: unat_of_nat take_bit_eq_mod)
  then show ?thesis by (simp add: from_bytes_def to_bytes_def comp_def map_idI)
qed

section \<open>Prepared events and their rows\<close>

text \<open>A timestamp column holds whole milliseconds.\<close>

definition at_millis :: "('e, 'id) event_envelope \<Rightarrow> ('e, 'id) event_envelope" where
  "at_millis env = env\<lparr>env_recorded_at := env_recorded_at env - env_recorded_at env mod 1000000\<rparr>"

definition prepared_ok :: "('e, 'id) sqlite_event_store \<Rightarrow> 'e prepared_sqlite_event \<Rightarrow> bool" where
  "prepared_ok st p \<longleftrightarrow>
     system_time_to_millis (sl_earlier st) (pe_recorded_at p) = Ok (pe_recorded_at_ms p) \<and>
     (\<exists>v. cd_to_value (cx_event (sl_codecs st)) (pe_payload p) = Ok v \<and>
        pe_payload_json p = cx_print (sl_codecs st) v) \<and>
     (\<exists>v. cd_to_value (cx_metadata (sl_codecs st)) (pe_metadata p) = Ok v \<and>
        pe_metadata_json p = cx_print (sl_codecs st) v) \<and>
     pe_event_version p \<le> u32_max"

lemma prepare_events_Ok:
  "prepare_events st evs w = (Inr ps, w') \<Longrightarrow>
   (\<forall>p\<in>set ps. prepared_ok st p \<and> (\<exists>n. pe_recorded_at p = snd (sl_source st n))) \<and>
   map pe_payload ps = map ne_payload evs"
proof (induction evs arbitrary: ps w)
  case (Cons e evs)
  then obtain p w1 qs where p: "prepared_sqlite_event_new st e w = (Inr p, w1)"
    and qs: "prepare_events st evs w1 = (Inr qs, w')" "ps = p # qs"
    by (auto simp: result_simps)
  have "(2::nat) ^ 32 - 1 = u32_max" by (simp add: u32_max_def)
  moreover have "n mod 2 ^ 32 \<le> (2::nat) ^ 32 - 1" for n :: nat
    using mod_less_divisor [of "2 ^ 32" n] by simp
  ultimately have "prepared_ok st p \<and> pe_payload p = ne_payload e \<and>
      (\<exists>n. pe_recorded_at p = snd (sl_source st n))"
    using p by (auto simp: prepared_sqlite_event_new_def prepared_ok_def Let_def split_beta result_simps
        serialize_payload_def serialize_metadata_def)
  then show ?case using Cons.IH [OF qs(1)] qs(2) by simp
qed (simp add: return_op_def)

text \<open>No upcaster applies.\<close>

definition unupcasted :: "('e, 'id) sqlite_event_store \<Rightarrow> bool" where
  "unupcasted st \<longleftrightarrow> (\<forall>et v b. prepare_payload (sl_upcasters st) et v b = Ok (v, b))"

lemma row_decodes:
  assumes laws: "sql_codecs_laws (sl_codecs st)" and "unupcasted st" and ok: "prepared_ok st p"
    and key: "serialize_id (cx_id (sl_codecs st)) i = Ok k"
    and row: "se_event_id r = event_id_as_str (pe_event_id p)" "se_aggregate_id r = k"
      "se_aggregate_type r = sl_aggregate_type st" "se_revision r = int n" "se_sequence r = int s"
      "se_event_type r = pe_event_type p" "se_event_version r = int (pe_event_version p)"
      "se_payload r = pe_payload_json p" "se_metadata r = pe_metadata_json p"
      "se_recorded_at_ms r = pe_recorded_at_ms p"
  shows "envelope_from_stored_row st r = Ok (at_millis (committed_envelope st i n s p))"
proof -
  let ?cx = "sl_codecs st"
  from ok obtain v m where v: "cd_to_value (cx_event ?cx) (pe_payload p) = Ok v"
      "pe_payload_json p = cx_print ?cx v"
    and m: "cd_to_value (cx_metadata ?cx) (pe_metadata p) = Ok m" "pe_metadata_json p = cx_print ?cx m"
    and t: "system_time_to_millis (sl_earlier st) (pe_recorded_at p) = Ok (pe_recorded_at_ms p)"
    and version: "pe_event_version p \<le> u32_max"
    by (auto simp: prepared_ok_def)
  have id: "deserialize_id (cx_id ?cx) k = Ok i" using laws key by (simp add: sql_codecs_laws_def)
  have parse: "cx_parse ?cx (cx_print ?cx v) = Ok v" "cx_parse ?cx (cx_print ?cx m) = Ok m"
    using laws v(1) m(1) by (auto simp: sql_codecs_laws_def)
  have payload: "deserialize_payload (cx_event ?cx) a b v = Ok (pe_payload p)" for a b
    using laws v(1) by (intro payload_roundtrip) (auto simp: sql_codecs_laws_def serialize_payload_def)
  have meta: "deserialize_metadata (cx_metadata ?cx) a m = Ok (pe_metadata p)" for a
    using laws m(1) by (intro metadata_roundtrip) (auto simp: sql_codecs_laws_def serialize_metadata_def)
  have time: "millis_to_system_time (pe_recorded_at_ms p) = Ok (pe_recorded_at p - pe_recorded_at p mod 1000000)"
    using system_time_roundtrip [OF t] by simp
  show ?thesis
    using version assms(2)
    by (cases "pe_event_id p") (simp add: envelope_from_stored_row_def row id parse payload meta time
        v(2) m(2) u64_try_from_i64_def u32_try_from_i64_def unupcasted_def committed_envelope_def
        at_millis_def envelope_new_def event_id_from_string_def)
qed

section \<open>What an append inserts\<close>

lemma insert_event_rows_Ok:
  "insert_event_rows table new db = (Inr u, db') \<Longrightarrow>
   db' = db\<lparr>db_events := db_events db @ sequenced (db_next_sequence db) new,
     db_next_sequence := db_next_sequence db + int (length new)\<rparr>"
  by (auto simp: insert_event_rows_def Let_def split: if_splits)

lemma sequenced_length [simp]: "length (sequenced s rows) = length rows"
  by (induction rows arbitrary: s) auto

lemma sequenced_append: "sequenced s (xs @ ys) = sequenced s xs @ sequenced (s + int (length xs)) ys"
  by (induction xs arbitrary: s) (auto simp: algebra_simps)

lemma sequenced_map: "(\<And>r s. f (r\<lparr>se_sequence := s\<rparr>) = f r) \<Longrightarrow> map f (sequenced s rows) = map f rows"
  by (induction rows arbitrary: s) auto

lemma stored_rows_from_length: "stored_rows_from st k a n ps = Ok rows \<Longrightarrow> length rows = length ps"
  by (induction ps arbitrary: n rows) (auto simp: result_simps)

lemma stored_rows_stream:
  "stored_rows_from st k a n ps = Ok rows \<Longrightarrow>
   (\<forall>r\<in>set (sequenced s rows). se_aggregate_type r = sl_aggregate_type st \<and> se_aggregate_id r = k) \<and>
   map se_revision (sequenced s rows) = map int [a + n + 1..<a + n + 1 + length ps]"
proof (induction ps arbitrary: n s rows)
  case (Cons p ps)
  then obtain z rest where z: "i64_try_from_u64 (a + n + 1) = Some z"
    and rest: "stored_rows_from st k a (n + 1) ps = Ok rest"
    and rows: "tl rows = rest" "se_aggregate_type (hd rows) = sl_aggregate_type st"
      "se_aggregate_id (hd rows) = k" "se_revision (hd rows) = z" "rows \<noteq> []"
    by (auto simp: result_simps)
  have "[a + n + 1..<a + n + 1 + length (p # ps)] = (a + n + 1) # [a + (n + 1) + 1..<a + (n + 1) + 1 + length ps]"
    by (subst upt_rec) simp
  moreover have "z = int (a + n + 1)" using z by (auto simp: i64_try_from_u64_def split: if_splits)
  ultimately show ?case using Cons.IH [OF rest, of "s + 1"] rows by (cases rows) auto
qed simp

text \<open>The rows of an append decode to the envelopes it returns, at whole milliseconds.\<close>

lemma appended_decode:
  assumes "sql_codecs_laws (sl_codecs st)" and "unupcasted st"
    and "serialize_id (cx_id (sl_codecs st)) i = Ok k"
  shows "stored_rows_from st k a n ps = Ok rows \<Longrightarrow> committed_from st i a s n ps = Ok cs \<Longrightarrow>
    \<forall>p\<in>set ps. prepared_ok st p \<Longrightarrow>
    collect_results (envelope_from_stored_row st) (sequenced (s + int n) rows) = Ok (map at_millis cs)"
proof (induction ps arbitrary: n rows cs)
  case (Cons p ps)
  from Cons.prems(1) obtain z rest where z: "i64_try_from_u64 (a + n + 1) = Some z"
    and rest: "stored_rows_from st k a (n + 1) ps = Ok rest"
    and row: "rows = \<lparr>se_event_id = event_id_as_str (pe_event_id p), se_aggregate_id = k,
          se_aggregate_type = sl_aggregate_type st, se_revision = z, se_sequence = 0,
          se_event_type = pe_event_type p, se_event_version = int (pe_event_version p),
          se_payload = pe_payload_json p, se_metadata = pe_metadata_json p,
          se_recorded_at_ms = pe_recorded_at_ms p\<rparr> # rest"
    by (auto simp: result_simps)
  from Cons.prems(2) obtain q ds where q: "u64_try_from_i64 (s + int n) = Some q"
    and ds: "committed_from st i a s (n + 1) ps = Ok ds"
    and cs: "cs = committed_envelope st i (a + n + 1) q p # ds"
    by (auto simp: result_simps)
  have ints: "z = int (a + n + 1)" "s + int n = int q"
    using z q by (auto simp: i64_try_from_u64_def u64_try_from_i64_def split: if_splits)
  have "envelope_from_stored_row st (hd rows\<lparr>se_sequence := s + int n\<rparr>) =
      Ok (at_millis (committed_envelope st i (a + n + 1) q p))"
    by (rule row_decodes [OF assms(1,2) _ assms(3)]) (use Cons.prems(3) row ints in auto)
  moreover have "collect_results (envelope_from_stored_row st) (sequenced (s + int (n + 1)) rest) =
      Ok (map at_millis ds)"
    using Cons.IH [OF rest ds] Cons.prems(3) by simp
  ultimately show ?case using row cs by (simp add: algebra_simps)
qed simp

lemma committed_from_payloads:
  "committed_from st i a s n ps = Ok cs \<Longrightarrow>
   map env_payload cs = map pe_payload ps \<and>
   (\<forall>c\<in>set cs. \<exists>p\<in>set ps. env_recorded_at c = pe_recorded_at p) \<and>
   map env_revision cs = [a + n + 1..<a + n + 1 + length ps]"
proof (induction ps arbitrary: n cs)
  case (Cons p ps)
  then obtain q ds where ds: "committed_from st i a s (n + 1) ps = Ok ds"
    and cs: "cs = committed_envelope st i (a + n + 1) q p # ds"
    by (auto simp: result_simps)
  have "[a + n + 1..<a + n + 1 + length (p # ps)] = (a + n + 1) # [a + (n + 1) + 1..<a + (n + 1) + 1 + length ps]"
    by (subst upt_rec) simp
  then show ?case using Cons.IH [OF ds] cs by (auto simp: committed_envelope_def)
qed simp

section \<open>The append\<close>

text \<open>The database after the rows of the prepared events were inserted into the stream of \<open>k\<close>.\<close>

definition inserted ::
  "('e, 'id) sqlite_event_store \<Rightarrow> string \<Rightarrow> nat \<Rightarrow> 'e prepared_sqlite_event list \<Rightarrow> sqlite_db \<Rightarrow> sqlite_db \<Rightarrow> bool" where
  "inserted st k actual ps db db' \<longleftrightarrow> (\<exists>rows. stored_rows_from st k actual 0 ps = Ok rows \<and>
     db_events db' = db_events db @ sequenced (db_next_sequence db) rows \<and>
     db_next_sequence db' = db_next_sequence db + int (length ps))"

lemma insert_prepared_Ok:
  assumes "insert_prepared_sqlite_events st i k actual x ps w = (Inr cs, w')"
  shows "inserted st k actual ps (sw_db w) (sw_db w') \<and> db_keys (sw_db w') = db_keys (sw_db w) \<and>
    committed_from st i actual (db_next_sequence (sw_db w)) 0 ps = Ok cs"
proof -
  obtain rows u w1 where rows: "stored_rows_from st k actual 0 ps = Ok rows"
    and step: "sql_step (insert_event_rows (sl_table_name st) rows) w = (Inr u, w1)"
    and rest: "(let first_sequence = db_next_sequence (sw_db w1) - 1 - int (length ps) + 1
        in if first_sequence \<le> 0
           then (Err (error_backend ''SQLite multi-row insert returned an invalid first sequence''), w1)
           else (committed_from st i actual first_sequence 0 ps, w1)) = (Inr cs, w')"
    using assms by (auto simp: insert_prepared_sqlite_events_def result_simps last_insert_rowid_def)
  have db: "sw_db w1 = (sw_db w)\<lparr>db_events := db_events (sw_db w) @ sequenced (db_next_sequence (sw_db w)) rows,
      db_next_sequence := db_next_sequence (sw_db w) + int (length rows)\<rparr>"
    using insert_event_rows_Ok [OF sql_step_Ok [OF step]] .
  then have "w' = w1" "committed_from st i actual (db_next_sequence (sw_db w)) 0 ps = Ok cs"
    using rest stored_rows_from_length [OF rows] by (auto simp: Let_def split: if_splits)
  then show ?thesis using rows db stored_rows_from_length [OF rows] by (auto simp: inserted_def)
qed

lemma append_once_cases:
  assumes "append_prepared_sqlite_events_once st keys i k x ps w = (r, w')"
  obtains (failed) e where "r = Inl e" "sw_db w' = sw_db w"
  | (committed) cs actual where "r = Inr cs"
      "int actual = foldl max 0 (map (\<lambda>key. max_revision (db_stream (sl_aggregate_type st) key (sw_db w))) keys)"
      "expectation_met x actual" "inserted st k actual ps (sw_db w) (sw_db w')"
      "db_keys (sw_db w') = db_keys (sw_db w)"
      "committed_from st i actual (db_next_sequence (sw_db w)) 0 ps = Ok cs"
proof -
  have keeps: "keeps_db (max_revision_for_lookup_keys keys (current_revision_locked st))" by (intro keeps_intros)
  obtain s w1 where s: "max_revision_for_lookup_keys keys (current_revision_locked st) w = (s, w1)"
    by (meson surj_pair)
  have w1: "sw_db w1 = sw_db w" using keepsD [OF keeps s] .
  show ?thesis
  proof (cases s)
    case (Inl e)
    then show ?thesis using assms s w1
      by (intro failed [of e]) (auto simp: append_prepared_sqlite_events_once_def try_op_run)
  next
    case (Inr stale)
    note run = assms [unfolded append_prepared_sqlite_events_once_def
        try_op_run(1) [where f = "max_revision_for_lookup_keys keys (current_revision_locked st)", OF s [unfolded Inr]]]
    from run show ?thesis
    proof (cases rule: begin_immediate_cases)
      case (failed e)
      then show ?thesis using that(1) w1 by metis
    next
      case (ran cs w2)
      obtain actual w3 where m: "max_revision_for_lookup_keys keys (current_revision_locked st) w2 = (Inr actual, w3)"
        and check: "check_expected_revision x actual = Ok ()"
        and ins: "\<exists>w4. insert_prepared_sqlite_events st i k actual x ps w3 = (Inr cs, w4) \<and>
          (\<exists>u. engine_call w4 = (Inr u, w'))"
        using ran(3) by (auto simp: result_simps)
      obtain w4 u where ins: "insert_prepared_sqlite_events st i k actual x ps w3 = (Inr cs, w4)"
        and commit: "engine_call w4 = (Inr u, w')" using ins by blast
      have w3: "sw_db w3 = sw_db w" using keepsD [OF keeps m] ran(2) w1 by simp
      have "int actual = foldl max 0 (map (\<lambda>key. max_revision (db_stream (sl_aggregate_type st) key (sw_db w))) keys)"
        using max_revision_fold_Ok [of st keys 0 w2 actual w3] m ran(2) w1
        by (simp add: max_revision_for_lookup_keys_def)
      moreover have "expectation_met x actual"
        using check by (auto simp: check_expected_revision_contract split: if_splits)
      ultimately show ?thesis
        using insert_prepared_Ok [OF ins] engine_call_Ok [OF commit] w3 ran(1)
        by (intro committed [of cs actual]) simp_all
    qed
  qed
qed

end
