(* ===== verification/Sqlite_Contract.thy ===== *)
theory Sqlite_Contract
  imports Sqlite_Facts
begin

text \<open>
  The SQLite event store satisfies the event store contract: the stream of an aggregate is what the
  rows under its current key decode to.
\<close>

declare upt_Suc [simp del]

section \<open>Streams\<close>

definition sqlite_stream :: "('e, 'id) sqlite_event_store \<Rightarrow> sqlite_world \<Rightarrow> 'id \<Rightarrow> ('e, 'id) event_stream" where
  "sqlite_stream st w i = (case serialize_id (cx_id (sl_codecs st)) i of
      Inl _ \<Rightarrow> []
    | Inr k \<Rightarrow> unwrap_or [] (collect_results (envelope_from_stored_row st)
        (db_stream (sl_aggregate_type st) k (sw_db w))))"

text \<open>
  Nothing is stored under an older key, and the rows under a current key have the revisions from 1 on
  and decode.
\<close>

definition sqlite_inv :: "('e, 'id) sqlite_event_store \<Rightarrow> sqlite_world \<Rightarrow> bool" where
  "sqlite_inv st w \<longleftrightarrow> (\<forall>i k ks. aggregate_id_lookup_keys (cx_id (sl_codecs st)) i = Ok (k # ks) \<longrightarrow>
     (\<forall>l\<in>set ks. db_stream (sl_aggregate_type st) l (sw_db w) = []) \<and>
     (let rows = db_stream (sl_aggregate_type st) k (sw_db w)
      in map se_revision rows = map int [1..<length rows + 1] \<and>
         (\<exists>es. collect_results (envelope_from_stored_row st) rows = Ok es)))"

lemma sqlite_inv_db: "sw_db w' = sw_db w \<Longrightarrow> sqlite_inv st w' = sqlite_inv st w"
  by (simp add: sqlite_inv_def)

lemma sqlite_stream_db: "sw_db w' = sw_db w \<Longrightarrow> sqlite_stream st w' = sqlite_stream st w"
  by (simp add: fun_eq_iff sqlite_stream_def split: sum.split)

lemma row_revision:
  "envelope_from_stored_row st r = Ok env \<Longrightarrow> 0 \<le> se_revision r \<and> env_revision env = nat (se_revision r)"
  by (auto simp: envelope_from_stored_row_def result_simps u64_try_from_i64_def split: if_splits)

lemma decoded_revisions:
  assumes "collect_results (envelope_from_stored_row st) rows = Ok es"
  shows "map se_revision rows = map (\<lambda>e. int (env_revision e)) es"
  using assms unfolding collect_results_Ok
  by (induction rows es rule: list_all2_induct) (auto dest: row_revision)

lemma sqlite_invD:
  assumes "sqlite_inv st w" and "serialize_id (cx_id (sl_codecs st)) i = Ok k"
  obtains ks es where "aggregate_id_lookup_keys (cx_id (sl_codecs st)) i = Ok (k # ks)"
    "\<forall>l\<in>set ks. db_stream (sl_aggregate_type st) l (sw_db w) = []"
    "map se_revision (db_stream (sl_aggregate_type st) k (sw_db w)) = map int [1..<length es + 1]"
    "collect_results (envelope_from_stored_row st) (db_stream (sl_aggregate_type st) k (sw_db w)) = Ok es"
    "sqlite_stream st w i = es" "contiguous_from 0 es"
proof -
  obtain ks where keys: "aggregate_id_lookup_keys (cx_id (sl_codecs st)) i = Ok (k # ks)"
    using lookup_keys_serialize(2) [OF assms(2)] by blast
  let ?rows = "db_stream (sl_aggregate_type st) k (sw_db w)"
  obtain es where es: "collect_results (envelope_from_stored_row st) ?rows = Ok es"
    and revs: "map se_revision ?rows = map int [1..<length ?rows + 1]"
    and empty: "\<forall>l\<in>set ks. db_stream (sl_aggregate_type st) l (sw_db w) = []"
    using assms(1) [unfolded sqlite_inv_def, rule_format, OF keys] by (auto simp: Let_def)
  have len: "length ?rows = length es"
    using es unfolding collect_results_Ok by (rule list_all2_lengthD)
  have "map int (map env_revision es) = map int [1..<length es + 1]"
    using decoded_revisions [OF es] revs len by (simp add: comp_def)
  then have "map env_revision es = [1..<length es + 1]" by (simp only: inj_map_eq_map [OF inj_of_nat])
  then have "contiguous_from 0 es" by (simp add: contiguous_from_revisions)
  moreover have "sqlite_stream st w i = es" using assms(2) es by (simp add: sqlite_stream_def unwrap_or_def)
  ultimately show ?thesis using that [OF keys empty _ es] revs len by simp
qed

lemma max_revision_upto: "map se_revision rows = map int [1..<n + 1] \<Longrightarrow> max_revision rows = int n"
proof -
  assume revs: "map se_revision rows = map int [1..<n + 1]"
  then have "length rows = n" by (metis length_map length_upt diff_add_inverse2)
  moreover have "Max (int ` {1..<n + 1}) = int n" if "0 < n"
    using that by (intro Max_eqI) auto
  moreover have "set (map se_revision rows) = int ` {1..<n + 1}"
    using arg_cong [OF revs, of set] by simp
  ultimately show ?thesis unfolding max_revision_def by (cases "n = 0") auto
qed

lemma max_revision_keys:
  assumes "map se_revision (db_stream at k db) = map int [1..<n + 1]" and "\<forall>l\<in>set ks. db_stream at l db = []"
  shows "foldl max 0 (map (\<lambda>key. max_revision (db_stream at key db)) (k # ks)) = int n"
proof -
  have "foldl max m (map (\<lambda>key. max_revision (db_stream at key db)) ks) = m" if "0 \<le> m" for m
    using assms(2) that by (induction ks) (auto simp: max_revision_def)
  then show ?thesis using max_revision_upto [OF assms(1)] by simp
qed

section \<open>Loads\<close>

lemma keeps_load: "keeps_db (sqlite_load st i)" "keeps_db (sqlite_load_after_revision st i k)"
  unfolding sqlite_load_def sqlite_load_after_revision_def by (intro keeps_intros)+

lemma sorted_rows:
  assumes "map se_revision rows = map int [1..<n + 1]"
  shows "sort_key se_revision rows = rows"
    and "sort_key se_revision (filter (\<lambda>r. se_revision r > z) rows) = filter (\<lambda>r. se_revision r > z) rows"
proof -
  have "sorted (map se_revision rows)" using assms by (simp add: sorted_map)
  then show "sort_key se_revision rows = rows"
    "sort_key se_revision (filter (\<lambda>r. se_revision r > z) rows) = filter (\<lambda>r. se_revision r > z) rows"
    by (simp_all add: sort_key_id_if_sorted sorted_filter)
qed

lemma first_rows_only:
  assumes "\<forall>l\<in>set ks. q l db = []"
  shows "(case filter (\<lambda>key. q key db \<noteq> []) (k # ks) of [] \<Rightarrow> [] | key # _ \<Rightarrow> q key db) = q k db"
proof -
  have "filter (\<lambda>key. q key db \<noteq> []) ks = []" using assms by (simp add: filter_empty_conv)
  then show ?thesis by simp
qed

lemma sqlite_load_Ok:
  assumes "sqlite_inv st w" and "sqlite_load st i w = (Inr es, w')"
  shows "es = sqlite_stream st w i"
proof -
  obtain keys rows w1 where keys: "aggregate_id_lookup_keys (cx_id (sl_codecs st)) i = Ok keys"
    and rows: "first_stored_rows (\<lambda>key. query_stored_event_rows (sl_display st)
         (\<lambda>db. sort_key se_revision (db_stream (sl_aggregate_type st) key db))) keys w = (Inr rows, w1)"
    and es: "collect_results (envelope_from_stored_row st) rows = Ok es"
    using assms(2) by (auto simp: sqlite_load_def result_simps)
  obtain k ks where k: "keys = k # ks" "serialize_id (cx_id (sl_codecs st)) i = Ok k"
    using lookup_keys_serialize(1) [OF keys] by blast
  from sqlite_invD [OF assms(1) k(2)] obtain ks' es' where "aggregate_id_lookup_keys (cx_id (sl_codecs st)) i = Ok (k # ks')"
    and empty: "\<forall>l\<in>set ks'. db_stream (sl_aggregate_type st) l (sw_db w) = []"
    and revs: "map se_revision (db_stream (sl_aggregate_type st) k (sw_db w)) = map int [1..<length es' + 1]"
    and dec: "collect_results (envelope_from_stored_row st) (db_stream (sl_aggregate_type st) k (sw_db w)) = Ok es'"
      "sqlite_stream st w i = es'" by metis
  then have "ks' = ks" using keys k(1) by simp
  then have "rows = db_stream (sl_aggregate_type st) k (sw_db w)"
    using first_rows_Ok [OF rows] first_rows_only [of ks "\<lambda>key db. sort_key se_revision (db_stream (sl_aggregate_type st) key db)"
        "sw_db w" k] empty sorted_rows(1) [OF revs] k(1) by simp
  then show ?thesis using es dec by simp
qed

lemma collect_results_filter:
  assumes "collect_results f xs = Ok ys" and "\<And>x y. f x = Ok y \<Longrightarrow> P x = Q y"
  shows "collect_results f (filter P xs) = Ok (filter Q ys)"
  using assms(1) unfolding collect_results_Ok
  by (induction xs ys rule: list_all2_induct) (auto simp: assms(2))

lemma sqlite_load_after_Ok:
  assumes "sqlite_inv st w" and "sqlite_load_after_revision st i n w = (Inr es, w')"
  shows "es = filter (\<lambda>e. env_revision e > n) (sqlite_stream st w i)"
proof -
  obtain z keys rows w1 where z: "i64_try_from_u64 n = Some z"
    and keys: "aggregate_id_lookup_keys (cx_id (sl_codecs st)) i = Ok keys"
    and rows: "first_stored_rows (\<lambda>key. query_stored_event_rows (sl_display st)
         (\<lambda>db. sort_key se_revision (filter (\<lambda>r. se_revision r > z) (db_stream (sl_aggregate_type st) key db))))
         keys w = (Inr rows, w1)"
    and es: "collect_results (envelope_from_stored_row st) rows = Ok es"
    using assms(2) by (auto simp: sqlite_load_after_revision_def result_simps)
  have zn: "z = int n" using z by (auto simp: i64_try_from_u64_def split: if_splits)
  obtain k ks where k: "keys = k # ks" "serialize_id (cx_id (sl_codecs st)) i = Ok k"
    using lookup_keys_serialize(1) [OF keys] by blast
  from sqlite_invD [OF assms(1) k(2)] obtain ks' es' where "aggregate_id_lookup_keys (cx_id (sl_codecs st)) i = Ok (k # ks')"
    and empty: "\<forall>l\<in>set ks'. db_stream (sl_aggregate_type st) l (sw_db w) = []"
    and revs: "map se_revision (db_stream (sl_aggregate_type st) k (sw_db w)) = map int [1..<length es' + 1]"
    and dec: "collect_results (envelope_from_stored_row st) (db_stream (sl_aggregate_type st) k (sw_db w)) = Ok es'"
      "sqlite_stream st w i = es'" by metis
  then have "ks' = ks" using keys k(1) by simp
  then have "rows = filter (\<lambda>r. se_revision r > z) (db_stream (sl_aggregate_type st) k (sw_db w))"
    using first_rows_Ok [OF rows]
      first_rows_only [of ks "\<lambda>key db. sort_key se_revision (filter (\<lambda>r. se_revision r > z) (db_stream (sl_aggregate_type st) key db))"
        "sw_db w" k] empty sorted_rows(2) [OF revs, of z] k(1) by simp
  moreover have "collect_results (envelope_from_stored_row st)
      (filter (\<lambda>r. se_revision r > z) (db_stream (sl_aggregate_type st) k (sw_db w))) =
      Ok (filter (\<lambda>e. env_revision e > n) es')"
    by (rule collect_results_filter [OF dec(1)]) (use zn in \<open>auto dest: row_revision\<close>)
  ultimately show ?thesis using es dec by simp
qed

section \<open>Appends\<close>

text \<open>A failure leaves the database as it was.\<close>

definition rolls_back :: "(sqlite_world, 'e + 'a) op \<Rightarrow> bool" where
  "rolls_back f \<longleftrightarrow> (\<forall>w e w'. f w = (Inl e, w') \<longrightarrow> sw_db w' = sw_db w)"

lemma rolls_backD: "rolls_back f \<Longrightarrow> f w = (Inl e, w') \<Longrightarrow> sw_db w' = sw_db w"
  by (auto simp: rolls_back_def)

lemma rolls_back_try: "keeps_db f \<Longrightarrow> (\<And>a. rolls_back (k a)) \<Longrightarrow> rolls_back (try_op f k)"
  unfolding rolls_back_def try_op_Err_iff by (metis keepsD)

lemma rolls_back_try_or:
  assumes "keeps_db f" and "\<And>d. keeps_db (h d)" and "\<And>a. rolls_back (k a)"
  shows "rolls_back (try_or_op f h k)"
  unfolding rolls_back_def
proof (intro allI impI)
  fix w e w' assume run: "try_or_op f h k w = (Inl e, w')"
  obtain r w1 where r: "f w = (r, w1)" by (meson surj_pair)
  have "sw_db w1 = sw_db w" using keepsD [OF assms(1) r] .
  then show "sw_db w' = sw_db w"
    using run r keepsD [OF assms(2)] rolls_backD [OF assms(3)]
    by (cases r) (auto simp: try_or_op_def split: prod.splits)
qed

lemma rolls_back_transaction: "rolls_back (in_transaction f)"
  using in_transaction_Err by (auto simp: rolls_back_def)

lemma keeps_case: "keeps_db f \<Longrightarrow> keeps_db (\<lambda>w. case f w of (e, w1) \<Rightarrow> (g e, w1))"
  by (rule keepsI) (auto split: prod.splits dest: keepsD)

lemma rolls_back_keeps: "keeps_db f \<Longrightarrow> rolls_back f"
  by (auto simp: rolls_back_def dest: keepsD)

lemma append_once_rolls_back: "rolls_back (append_prepared_sqlite_events_once st keys i k x ps)"
  unfolding rolls_back_def by (auto elim: append_once_cases)

lemma append_attempts_result:
  "append_attempts once n w = (Inr cs, w') \<Longrightarrow> rolls_back once \<Longrightarrow>
   \<exists>w0. sw_db w0 = sw_db w \<and> once w0 = (Inr cs, w')"
proof (induction n arbitrary: w)
  case (Suc n)
  obtain r w1 where r: "once w = (r, w1)" by (meson surj_pair)
  show ?case
  proof (cases r)
    case (Inl e)
    then have "append_attempts once n w1 = (Inr cs, w')"
      using Suc.prems(1) r by (auto split: if_splits)
    from Suc.IH [OF this Suc.prems(2)] show ?thesis using rolls_backD [OF Suc.prems(2) r [unfolded Inl]] by auto
  qed (use Suc.prems r in auto)
qed simp

lemma append_attempts_failed:
  "append_attempts once n w = (Inl e, w') \<Longrightarrow> rolls_back once \<Longrightarrow>
   sw_db w' = sw_db w"
proof (induction n arbitrary: w)
  case (Suc n)
  obtain r w1 where r: "once w = (r, w1)" by (meson surj_pair)
  show ?case
  proof (cases r)
    case (Inl d)
    then have "append_attempts once n w1 = (Inl e, w') \<or> w' = w1"
      using Suc.prems(1) r by (auto split: if_splits)
    then show ?thesis using Suc.IH [OF _ Suc.prems(2)] rolls_backD [OF Suc.prems(2) r [unfolded Inl]] by auto
  qed (use Suc.prems r in auto)
qed simp

lemma append_nothing_cases:
  assumes "append_nothing st keys x w = (r, w')"
  shows "sw_db w' = sw_db w \<and> (\<forall>cs. r = Inr cs \<longrightarrow> cs = [] \<and> (\<exists>actual.
    int actual = foldl max 0 (map (\<lambda>key. max_revision (db_stream (sl_aggregate_type st) key (sw_db w))) keys) \<and>
    expectation_met x actual))"
proof -
  have keeps: "keeps_db (append_nothing st keys x)"
    unfolding append_nothing_def begin_immediate_def by (intro keeps_intros) simp_all
  have "cs = [] \<and> (\<exists>actual.
    int actual = foldl max 0 (map (\<lambda>key. max_revision (db_stream (sl_aggregate_type st) key (sw_db w))) keys) \<and>
    expectation_met x actual)" if r: "r = Inr cs" for cs
  proof -
    obtain stale u w1 w2 actual w3 where m: "max_revision_for_lookup_keys keys (current_revision_locked st) w = (Inr stale, w1)"
      and b: "engine_call w1 = (Inr u, w2)"
      and a: "max_revision_for_lookup_keys keys (current_revision_locked st) w2 = (Inr actual, w3)"
      and check: "check_expected_revision x actual = Ok ()" and cs: "cs = []"
      using assms r by (auto simp: append_nothing_def begin_immediate_def result_simps)
    have "keeps_db (max_revision_for_lookup_keys keys (current_revision_locked st))" by (intro keeps_intros)
    from keepsD [OF this m] have "sw_db w2 = sw_db w" using engine_call_Ok [OF b] by simp
    then show ?thesis
      using max_revision_fold_Ok [of st keys 0 w2 actual w3] a check cs
      by (intro conjI exI [of _ actual])
         (auto simp: max_revision_for_lookup_keys_def check_expected_revision_contract split: if_splits)
  qed
  then show ?thesis using keepsD [OF keeps assms] by blast
qed

lemma sqlite_append_failed: "sqlite_append st i x evs w = (Inl e, w') \<Longrightarrow> sw_db w' = sw_db w"
proof -
  have "rolls_back (if ps = [] then append_nothing st keys x
      else append_attempts (append_prepared_sqlite_events_once st keys i k x ps) n)" for keys k ps n
  proof (cases "ps = []")
    case True
    then show ?thesis unfolding rolls_back_def by (auto dest: append_nothing_cases)
  next
    case False
    then show ?thesis using append_attempts_failed [OF _ append_once_rolls_back] by (auto simp: rolls_back_def)
  qed
  then have "rolls_back (sqlite_append st i x evs)"
    unfolding sqlite_append_def Let_def by (intro rolls_back_try keeps_intros)
  then show "sqlite_append st i x evs w = (Inl e, w') \<Longrightarrow> sw_db w' = sw_db w" by (rule rolls_backD)
qed

lemma sqlite_append_Ok:
  assumes "sqlite_append st i x evs w = (Inr cs, w')"
  obtains k ks ps actual where "aggregate_id_lookup_keys (cx_id (sl_codecs st)) i = Ok (k # ks)"
    "serialize_id (cx_id (sl_codecs st)) i = Ok k"
    "\<forall>p\<in>set ps. prepared_ok st p \<and> (\<exists>n. pe_recorded_at p = snd (sl_source st n))"
    "map pe_payload ps = map ne_payload evs"
    "int actual = foldl max 0 (map (\<lambda>key. max_revision (db_stream (sl_aggregate_type st) key (sw_db w))) (k # ks))"
    "expectation_met x actual" "db_keys (sw_db w') = db_keys (sw_db w)"
    "ps = [] \<and> cs = [] \<and> sw_db w' = sw_db w \<or>
     inserted st k actual ps (sw_db w) (sw_db w') \<and>
     committed_from st i actual (db_next_sequence (sw_db w)) 0 ps = Ok cs"
proof -
  obtain keys ps w1 where keys: "aggregate_id_lookup_keys (cx_id (sl_codecs st)) i = Ok keys"
    and p: "prepare_events st evs w = (Inr ps, w1)"
    and rest: "(if ps = [] then append_nothing st keys x
        else append_attempts (append_prepared_sqlite_events_once st keys i (hd keys) x ps) MAX_APPEND_ATTEMPTS) w1
        = (Inr cs, w')"
    using assms by (auto simp: sqlite_append_def result_simps Let_def)
  obtain k ks where k: "keys = k # ks" "serialize_id (cx_id (sl_codecs st)) i = Ok k"
    using lookup_keys_serialize(1) [OF keys] by blast
  have w1: "sw_db w1 = sw_db w" using keepsD [OF keeps_prepare(1) p] .
  note ps = prepare_events_Ok [OF p]
  note give = that [OF keys [unfolded k(1)] k(2)]
  show ?thesis
  proof (cases "ps = []")
    case True
    then show ?thesis using append_nothing_cases [of st keys x w1 "Inr cs" w'] rest w1 k(1) ps
      by (auto intro!: give [of ps])
  next
    case False
    then have "append_attempts (append_prepared_sqlite_events_once st keys i k x ps) MAX_APPEND_ATTEMPTS w1 = (Inr cs, w')"
      using rest k(1) by simp
    from append_attempts_result [OF this append_once_rolls_back] obtain w0 where w0: "sw_db w0 = sw_db w"
      "append_prepared_sqlite_events_once st keys i k x ps w0 = (Inr cs, w')" using w1 by auto
    from w0(2) show ?thesis
    proof (cases rule: append_once_cases)
      case (committed cs' actual)
      then show ?thesis using ps w0(1) k(1) by (intro give [of ps actual]) simp_all
    qed simp
  qed
qed

section \<open>The contract\<close>

lemma db_stream_append:
  "db_events db' = db_events db @ rows \<Longrightarrow>
   db_stream at k db' = db_stream at k db @ filter (\<lambda>r. se_aggregate_type r = at \<and> se_aggregate_id r = k) rows"
  by (simp add: db_stream_def)

lemma inserted_stream:
  assumes laws: "sql_codecs_laws (sl_codecs st)" and up: "unupcasted st" and inv: "sqlite_inv st w"
    and key: "serialize_id (cx_id (sl_codecs st)) i = Ok k"
    and ins: "inserted st k (length (sqlite_stream st w i)) ps (sw_db w) (sw_db w')"
    and com: "committed_from st i (length (sqlite_stream st w i)) (db_next_sequence (sw_db w)) 0 ps = Ok cs"
    and ok: "\<forall>p\<in>set ps. prepared_ok st p"
  shows "sqlite_inv st w' \<and>
    sqlite_stream st w' = (sqlite_stream st w)(i := sqlite_stream st w i @ map at_millis cs)"
proof -
  let ?at = "sl_aggregate_type st" and ?cx = "cx_id (sl_codecs st)"
  from sqlite_invD [OF inv key] obtain ks es where keys: "aggregate_id_lookup_keys ?cx i = Ok (k # ks)"
    and revs: "map se_revision (db_stream ?at k (sw_db w)) = map int [1..<length es + 1]"
    and dec: "collect_results (envelope_from_stored_row st) (db_stream ?at k (sw_db w)) = Ok es"
    and es: "sqlite_stream st w i = es" by metis
  from ins obtain rows where rows: "stored_rows_from st k (length es) 0 ps = Ok rows"
    and db: "db_events (sw_db w') = db_events (sw_db w) @ sequenced (db_next_sequence (sw_db w)) rows"
    by (auto simp: inserted_def es)
  let ?new = "sequenced (db_next_sequence (sw_db w)) rows"
  note new = stored_rows_stream [OF rows, of "db_next_sequence (sw_db w)"]
  have grows: "db_stream ?at k (sw_db w') = db_stream ?at k (sw_db w) @ ?new"
    using new by (simp add: db_stream_append [OF db] filter_id_conv)
  have others: "db_stream ?at l (sw_db w') = db_stream ?at l (sw_db w)" if "l \<noteq> k" for l
    using new that by (auto simp: db_stream_append [OF db] filter_empty_conv)
  have decoded: "collect_results (envelope_from_stored_row st) ?new = Ok (map at_millis cs)"
    using appended_decode [OF laws up key rows com [unfolded es]] ok by simp
  have grown: "collect_results (envelope_from_stored_row st) (db_stream ?at k (sw_db w')) =
      Ok (es @ map at_millis cs)"
    using dec decoded unfolding grows collect_results_Ok by (rule list_all2_appendI)
  have "length ps = length cs" using committed_from_payloads [OF com] by (metis length_map)
  then have revs': "map se_revision (db_stream ?at k (sw_db w')) = map int [1..<length es + length cs + 1]"
    unfolding grows map_append revs using new
    by (simp flip: map_append) (simp add: upt_add_eq_append [of "Suc 0" "Suc (length es)"] flip: add_Suc)
  have len: "length (db_stream ?at k (sw_db w')) = length es + length cs"
    using arg_cong [OF revs', of length] by simp
  have "sqlite_inv st w'"
    unfolding sqlite_inv_def
  proof (intro allI impI conjI)
    fix j k' ks' assume j: "aggregate_id_lookup_keys ?cx j = Ok (k' # ks')"
    have "l \<noteq> k" if "l \<in> set ks'" for l
      using laws j that key unfolding sql_codecs_laws_def by blast
    then show "\<forall>l\<in>set ks'. db_stream ?at l (sw_db w') = []"
      using inv j others unfolding sqlite_inv_def by auto
    show "let rows = db_stream ?at k' (sw_db w')
       in map se_revision rows = map int [1..<length rows + 1] \<and>
          (\<exists>es. collect_results (envelope_from_stored_row st) rows = Ok es)"
    proof (cases "k' = k")
      case True
      then show ?thesis using revs' len grown by (simp add: Let_def)
    next
      case False
      then show ?thesis using inv j others unfolding sqlite_inv_def by auto
    qed
  qed
  moreover have "sqlite_stream st w' j = ((sqlite_stream st w)(i := sqlite_stream st w i @ map at_millis cs)) j" for j
  proof (cases "j = i")
    case True
    then show ?thesis using grown es key by (simp add: sqlite_stream_def unwrap_or_def)
  next
    case False
    then have "serialize_id ?cx j \<noteq> Ok k" using serialize_id_inj [OF laws key] by blast
    then show ?thesis using False others by (auto simp: sqlite_stream_def split: sum.split)
  qed
  ultimately show ?thesis by (simp add: fun_eq_iff)
qed

text \<open>After an append: the stream has grown by what was returned, at whole milliseconds, and no other
  stream has changed.\<close>

lemma sqlite_append_stream:
  assumes laws: "sql_codecs_laws (sl_codecs st)" and up: "unupcasted st" and inv: "sqlite_inv st w"
    and run: "sqlite_append st i x evs w = (Inr cs, w')"
  shows "sqlite_inv st w' \<and>
    sqlite_stream st w' = (sqlite_stream st w)(i := sqlite_stream st w i @ map at_millis cs) \<and>
    expectation_met x (length (sqlite_stream st w i)) \<and> map env_payload cs = map ne_payload evs \<and>
    (\<forall>c\<in>set cs. \<exists>n. env_recorded_at c = snd (sl_source st n)) \<and>
    db_keys (sw_db w') = db_keys (sw_db w)"
  using run
proof (cases rule: sqlite_append_Ok)
  case (1 k ks ps actual)
  let ?at = "sl_aggregate_type st" and ?cx = "cx_id (sl_codecs st)"
  from sqlite_invD [OF inv 1(2)] obtain ks' es where keys: "aggregate_id_lookup_keys ?cx i = Ok (k # ks')"
    and empty: "\<forall>l\<in>set ks'. db_stream ?at l (sw_db w) = []"
    and revs: "map se_revision (db_stream ?at k (sw_db w)) = map int [1..<length es + 1]"
    and es: "sqlite_stream st w i = es" by metis
  have actual: "actual = length (sqlite_stream st w i)"
    using 1(5) max_revision_keys [OF revs empty] keys 1(1) es by simp
  show ?thesis
  proof (cases "ps = [] \<and> cs = [] \<and> sw_db w' = sw_db w")
    case True
    then have "sqlite_inv st w'" "sqlite_stream st w' = sqlite_stream st w"
      using sqlite_inv_db [of w' w st] sqlite_stream_db [of w' w st] inv by simp_all
    then show ?thesis using True 1(4,6,7) actual by (simp add: fun_upd_idem)
  next
    case False
    then have ins: "inserted st k actual ps (sw_db w) (sw_db w')"
      and com: "committed_from st i actual (db_next_sequence (sw_db w)) 0 ps = Ok cs"
      using 1(8) by blast+
    from inserted_stream [OF laws up inv 1(2) ins [unfolded actual] com [unfolded actual]] show ?thesis
      using 1(3,4,6,7) actual committed_from_payloads [OF com] by auto
  qed
qed

text \<open>The clock shows whole milliseconds.\<close>

definition whole_millis :: "('e, 'id) sqlite_event_store \<Rightarrow> bool" where
  "whole_millis st \<longleftrightarrow> (\<forall>n. snd (sl_source st n) mod 1000000 = 0)"

lemma whole_millis_envelopes:
  assumes "whole_millis st" and "\<forall>c\<in>set cs. \<exists>n. env_recorded_at c = snd (sl_source st n)"
  shows "map at_millis cs = cs"
proof -
  have "env_recorded_at c mod 1000000 = 0" if "c \<in> set cs" for c
    using assms that by (auto simp: whole_millis_def)
  then show ?thesis by (auto simp: map_idI at_millis_def)
qed

lemma sqlite_contract:
  assumes laws: "sql_codecs_laws (sl_codecs st)" and up: "unupcasted st" and millis: "whole_millis st"
  shows "quiet_event_store (sqlite_event_store st) (sqlite_inv st) (sqlite_stream st)"
proof -
  have load: "sqlite_inv st w' \<and> sqlite_stream st w' = sqlite_stream st w \<and>
      (\<forall>es. r = Inr es \<longrightarrow> es = sqlite_stream st w i)"
    if "sqlite_inv st w" "sqlite_load st i w = (r, w')" for w i r w'
    using sqlite_inv_db sqlite_stream_db keepsD [OF keeps_load(1) that(2)] sqlite_load_Ok that by metis
  have load_after: "sqlite_inv st w' \<and> sqlite_stream st w' = sqlite_stream st w \<and>
      (\<forall>es. r = Inr es \<longrightarrow> es = filter (\<lambda>e. env_revision e > k) (sqlite_stream st w i))"
    if "sqlite_inv st w" "sqlite_load_after_revision st i k w = (r, w')" for w i k r w'
    using sqlite_inv_db sqlite_stream_db keepsD [OF keeps_load(2) that(2)] sqlite_load_after_Ok that by metis
  have appended: "sqlite_inv st w' \<and> sqlite_stream st w' = (sqlite_stream st w)(i := sqlite_stream st w i @ cs) \<and>
      expectation_met x (length (sqlite_stream st w i)) \<and> map env_payload cs = map ne_payload evs"
    if "sqlite_inv st w" "sqlite_append st i x evs w = (Inr cs, w')" for w i x evs cs w'
    using sqlite_append_stream [OF laws up that] whole_millis_envelopes [OF millis, of cs] by metis
  have failed: "sqlite_inv st w' \<and> sqlite_stream st w' = sqlite_stream st w"
    if "sqlite_inv st w" "sqlite_append st i x evs w = (Inl e, w')" for w i x evs e w'
    using sqlite_append_failed [OF that(2)] sqlite_inv_db sqlite_stream_db that(1) by metis
  show ?thesis
  proof (unfold_locales, goal_cases)
    case (1 w i)
    show ?case
    proof (cases "serialize_id (cx_id (sl_codecs st)) i")
      case (Inr k)
      then show ?thesis using sqlite_invD [OF 1 Inr] by metis
    qed (simp add: sqlite_stream_def)
  next
    case (2 w i r w')
    then show ?case using load [of w i r w'] by (simp add: sqlite_event_store_def)
  next
    case (3 w i k r w')
    then show ?case using load_after [of w i k r w'] by (auto simp: sqlite_event_store_def)
  next
    case (4 w i x evs r w')
    then have run: "sqlite_append st i x evs w = (r, w')" by (simp add: sqlite_event_store_def)
    show ?case
    proof (cases r)
      case (Inl e)
      then show ?thesis using failed [OF 4(1), of i x evs e w'] run by simp
    next
      case (Inr cs)
      then show ?thesis using appended [OF 4(1), of i x evs cs w'] run by auto
    qed
  next
    case (5 w i r w')
    then show ?case using load [of w i r w'] by (simp add: sqlite_event_store_def)
  next
    case (6 w i k r w')
    then show ?case using load_after [of w i k r w'] by (simp add: sqlite_event_store_def)
  next
    case (7 w i x evs cs w')
    then show ?case using appended [of w i x evs cs w'] by (simp add: sqlite_event_store_def)
  next
    case (8 w i x evs e w')
    then show ?case using failed [of w i x evs e w'] by (simp add: sqlite_event_store_def)
  qed
qed

end
