(* ===== verification/Sqlite_Atomic.thy ===== *)
theory Sqlite_Atomic
  imports Sqlite_Contract
begin

text \<open>
  The append under an idempotency key: the key's row, the events and the recorded result are written
  in one transaction, so each key is appended once, and the same result is returned from then on.
\<close>

section \<open>The rows of the loop\<close>

lemma committed_from_Cons:
  assumes "u64_try_from_i64 (s + int n) = Some q" and "committed_from st i a s (n + 1) ps = Ok ds"
  shows "committed_from st i a s n (p # ps) = Ok (committed_envelope st i (a + n + 1) q p # ds)"
  using assms by simp

lemma insert_each_Ok:
  "insert_each st i k a x n ps w = (Inr cs, w') \<Longrightarrow>
   \<exists>rows. stored_rows_from st k a n ps = Ok rows \<and>
     db_events (sw_db w') = db_events (sw_db w) @ sequenced (db_next_sequence (sw_db w)) rows \<and>
     db_next_sequence (sw_db w') = db_next_sequence (sw_db w) + int (length ps) \<and>
     db_keys (sw_db w') = db_keys (sw_db w) \<and>
     committed_from st i a (db_next_sequence (sw_db w) - int n) n ps = Ok cs"
proof (induction ps arbitrary: n w cs)
  case (Cons p ps)
  let ?s = "db_next_sequence (sw_db w)"
  from Cons.prems obtain row u w1 q ds w2 where row: "stored_rows_from st k a n [p] = Ok row"
    and step: "sql_step (insert_event_rows (sl_table_name st) row) w = (Inr u, w1)"
    and q: "u64_try_from_i64 (db_next_sequence (sw_db w1) - 1) = Some q"
    and ds: "insert_each st i k a x (n + 1) ps w1 = (Inr ds, w')"
    and cs: "cs = committed_envelope st i (a + n + 1) q p # ds"
    by (auto simp: result_simps last_insert_rowid_def simp del: stored_rows_from.simps)
  have len: "length row = 1" using stored_rows_from_length [OF row] by simp
  have db: "db_events (sw_db w1) = db_events (sw_db w) @ sequenced ?s row"
    "db_next_sequence (sw_db w1) = ?s + 1" "db_keys (sw_db w1) = db_keys (sw_db w)"
    using insert_event_rows_Ok [OF sql_step_Ok [OF step]] len by simp_all
  from Cons.IH [OF ds] obtain rows where rows: "stored_rows_from st k a (n + 1) ps = Ok rows"
    "db_events (sw_db w') = db_events (sw_db w1) @ sequenced (?s + 1) rows"
    "db_next_sequence (sw_db w') = ?s + 1 + int (length ps)" "db_keys (sw_db w') = db_keys (sw_db w)"
    "committed_from st i a (?s + 1 - int (n + 1)) (n + 1) ps = Ok ds" using db by auto
  have "stored_rows_from st k a n (p # ps) = Ok (row @ rows)"
    using row rows(1) by (auto simp: result_simps)
  moreover have "db_events (sw_db w') = db_events (sw_db w) @ sequenced ?s (row @ rows)"
    using rows(2) db(1) len by (simp add: sequenced_append)
  moreover have "committed_from st i a (?s - int n) n (p # ps) = Ok cs"
    unfolding cs using q db(2) rows(5) by (intro committed_from_Cons) simp_all
  ultimately show ?case using rows(3,4) by auto
qed (simp add: return_op_def)

section \<open>The key's row\<close>

definition completed ::
  "('e, 'id) sqlite_event_store \<Rightarrow> sqlite_db \<Rightarrow> idempotency_key \<Rightarrow> ('e, 'id) event_stream option" where
  "completed st db key = (case map_of (db_keys db) (idempotency_key_as_str key) of
      None \<Rightarrow> None
    | Some r \<Rightarrow> (case (kr_state r = ''complete'', kr_value r) of
        (True, Some value) \<Rightarrow> (case cd_from_str (cx_committed (sl_codecs st)) value of
            Inr cs \<Rightarrow> Some cs | Inl _ \<Rightarrow> None)
      | _ \<Rightarrow> None))"

lemma existing_row_Ok:
  assumes "existing_key_row st key r w = (Inr cs, w')" and "map_of (db_keys (sw_db w)) (idempotency_key_as_str key) = Some r"
  shows "completed st (sw_db w) key = Some cs \<and> sw_db w' = sw_db w"
proof -
  have "kr_state r = ''complete''"
    using assms(1) by (auto simp: existing_key_row_def Let_def split: if_splits prod.splits)
  moreover obtain v where "kr_value r = Some v"
    using assms(1) calculation by (cases "kr_value r") (auto simp: existing_key_row_def return_op_def)
  ultimately show ?thesis using assms
    by (auto simp: existing_key_row_def completed_def result_simps dest!: engine_call_Ok)
qed

lemma append_and_complete_Ok:
  assumes "append_and_complete st key i k x ps w = (Inr cs, w')"
    and "\<And>t cs. cd_to_string (cx_committed (sl_codecs st)) cs = Ok t \<Longrightarrow>
      cd_from_str (cx_committed (sl_codecs st)) t = Ok cs"
  shows "\<exists>actual. int actual = max_revision (db_stream (sl_aggregate_type st) k (sw_db w)) \<and>
    expectation_met x actual \<and> inserted st k actual ps (sw_db w) (sw_db w') \<and>
    committed_from st i actual (db_next_sequence (sw_db w)) 0 ps = Ok cs \<and>
    completed st (sw_db w') key = Some cs"
proof -
  let ?k = "idempotency_key_as_str key"
  obtain now w1 where now: "wall_now w = (now, w1)" by (meson surj_pair)
  obtain lease w2 where lease: "on_clock (new_lease lease_config_default) w1 = (lease, w2)" by (meson surj_pair)
  have w2: "sw_db w2 = sw_db w" using now lease by (auto simp: wall_now_def lift_op_iff)
  from assms(1) obtain ms w3 w4 actual w5 w6 w7 t w8 w9 u3 u4 u6 u8 u9 u' where
      w3: "engine_call w2 = (Inr u3, w3)"
    and w4: "sql_step (insert_pending_row (sl_idempotency_table st) ?k ms lease) w3 = (Inr u4, w4)"
    and w5: "current_revision_locked st k w4 = (Inr actual, w5)"
    and check: "check_expected_revision x actual = Ok ()"
    and w6: "engine_call w5 = (Inr u6, w6)"
    and w7: "insert_each st i k actual x 0 ps w6 = (Inr cs, w7)"
    and t: "cd_to_string (cx_committed (sl_codecs st)) cs = Ok t"
    and w8: "engine_call w7 = (Inr u8, w8)"
    and w9: "sql_step (complete_row ?k t ms) w8 = (Inr u9, w9)"
    and w': "engine_call w9 = (Inr u', w')"
    by (auto simp: append_and_complete_def Let_def now lease result_simps)
  note dbs = engine_call_Ok [OF w3] engine_call_Ok [OF w6] engine_call_Ok [OF w8] engine_call_Ok [OF w']
    current_revision_Ok [OF w5]
  have pend: "map_of (db_keys (sw_db w)) ?k = None \<and>
      (sw_db w)\<lparr>db_keys := AList.update ?k (pending_row ms lease) (db_keys (sw_db w))\<rparr> = sw_db w4"
    using sql_step_Ok [OF w4] dbs(1) w2
    by (auto simp: insert_pending_row_def insert_or_ignore_def split: option.splits)
  define rows0 where "rows0 = AList.update ?k (pending_row ms lease) (db_keys (sw_db w))"
  have pending: "sw_db w4 = (sw_db w)\<lparr>db_keys := rows0\<rparr>" "map_of rows0 ?k = Some (pending_row ms lease)"
    using pend by (simp_all add: rows0_def update_conv')
  from insert_each_Ok [OF w7] obtain rows where rows: "stored_rows_from st k actual 0 ps = Ok rows"
    "db_events (sw_db w7) = db_events (sw_db w) @ sequenced (db_next_sequence (sw_db w)) rows"
    "db_next_sequence (sw_db w7) = db_next_sequence (sw_db w) + int (length ps)"
    "db_keys (sw_db w7) = rows0"
    "committed_from st i actual (db_next_sequence (sw_db w)) 0 ps = Ok cs"
    using dbs pending by auto
  let ?row = "(pending_row ms lease)\<lparr>kr_state := ''complete'', kr_value := Some t, kr_updated_at_ms := ms\<rparr>"
  have "(sw_db w7)\<lparr>db_keys := AList.update ?k ?row rows0\<rparr> = sw_db w9"
    using sql_step_Ok [OF w9] dbs(3) rows(4) pending(2)
    by (simp add: complete_row_def on_keys_def update_key_def)
  then have final: "sw_db w' = (sw_db w7)\<lparr>db_keys := AList.update ?k ?row rows0\<rparr>"
    using dbs(4) by simp
  have "int actual = max_revision (db_stream (sl_aggregate_type st) k (sw_db w))"
    using dbs(5) pending by (simp add: db_stream_def)
  moreover have "expectation_met x actual"
    using check by (auto simp: check_expected_revision_contract split: if_splits)
  moreover have "inserted st k actual ps (sw_db w) (sw_db w')"
    using rows final by (auto simp: inserted_def)
  moreover have "completed st (sw_db w') key = Some cs"
    using final assms(2) [OF t] by (simp add: completed_def update_conv')
  ultimately show ?thesis using rows(5) by blast
qed

section \<open>The append\<close>

definition committed_laws :: "('e, 'id) sql_codecs \<Rightarrow> bool" where
  "committed_laws cx \<longleftrightarrow> (\<forall>t cs. cd_to_string (cx_committed cx) cs = Ok t \<longrightarrow>
     cd_from_str (cx_committed cx) t = Ok cs)"

lemma append_idempotent_rolls_back: "rolls_back (sqlite_append_idempotent st key i x evs)"
  unfolding sqlite_append_idempotent_def
  by (intro rolls_back_try rolls_back_try_or rolls_back_transaction keeps_intros keeps_case) simp_all

lemma append_idempotent_Ok:
  assumes laws: "sql_codecs_laws (sl_codecs st)" "committed_laws (sl_codecs st)" and up: "unupcasted st"
    and inv: "sqlite_inv st w" and run: "sqlite_append_idempotent st key i x evs w = (Inr cs, w')"
  shows "sqlite_inv st w' \<and> completed st (sw_db w') key = Some cs \<and>
    (completed st (sw_db w) key = Some cs \<and> sw_db w' = sw_db w \<or>
     map_of (db_keys (sw_db w)) (idempotency_key_as_str key) = None \<and>
     sqlite_stream st w' = (sqlite_stream st w)(i := sqlite_stream st w i @ map at_millis cs) \<and>
     expectation_met x (length (sqlite_stream st w i)) \<and> map env_payload cs = map ne_payload evs)"
proof -
  obtain k ps w1 stale w2 u w3 u' w4 row w5 where k: "serialize_id (cx_id (sl_codecs st)) i = Ok k"
    and ps: "prepare_events st evs w = (Inr ps, w1)"
    and stale: "current_revision_locked st k w1 = (Inr stale, w2)"
    and bg: "engine_call w2 = (Inr u, w3)" and prep: "engine_call w3 = (Inr u', w4)"
    and row: "select_key_row (sl_display st) key w4 = (Inr row, w5)"
    and rest: "(case row of
             Some r \<Rightarrow> existing_key_row st key r
           | None \<Rightarrow> op_map_err AStore (append_and_complete st key i k x ps)) w5 = (Inr cs, w')"
    using run by (auto simp: sqlite_append_idempotent_def result_simps)
  have w5: "sw_db w5 = sw_db w" "row = map_of (db_keys (sw_db w)) (idempotency_key_as_str key)"
    using keepsD [OF keeps_prepare(1) ps] current_revision_Ok [OF stale] engine_call_Ok [OF bg]
      engine_call_Ok [OF prep] row by (auto simp: select_key_row_def result_simps dest!: sql_step_Ok)
  show ?thesis
  proof (cases row)
    case (Some r)
    then have "completed st (sw_db w) key = Some cs \<and> sw_db w' = sw_db w"
      using existing_row_Ok [of st key r w5 cs w'] rest w5 by simp
    then show ?thesis using inv sqlite_inv_db [of w' w st] by simp
  next
    case None
    then have "append_and_complete st key i k x ps w5 = (Inr cs, w')"
      using rest by (simp add: result_simps)
    from append_and_complete_Ok [OF this] laws(2) obtain actual where
        actual: "int actual = max_revision (db_stream (sl_aggregate_type st) k (sw_db w))"
      and met: "expectation_met x actual" and ins: "inserted st k actual ps (sw_db w) (sw_db w')"
      and com: "committed_from st i actual (db_next_sequence (sw_db w)) 0 ps = Ok cs"
      and done': "completed st (sw_db w') key = Some cs"
      unfolding committed_laws_def w5(1) by blast
    obtain es where "map se_revision (db_stream (sl_aggregate_type st) k (sw_db w)) = map int [1..<length es + 1]"
      "sqlite_stream st w i = es" using sqlite_invD [OF inv k] by metis
    then have len: "actual = length (sqlite_stream st w i)"
      using actual max_revision_upto by (metis of_nat_eq_iff)
    note prepared = prepare_events_Ok [OF ps]
    have "sqlite_inv st w' \<and> sqlite_stream st w' = (sqlite_stream st w)(i := sqlite_stream st w i @ map at_millis cs)"
      using inserted_stream [OF laws(1) up inv k ins [unfolded len] com [unfolded len]] prepared by blast
    then show ?thesis
      using met done' None w5(2) len prepared committed_from_payloads [OF com] by simp
  qed
qed

end
