(* ===== verification/Sqlite_Keys.thy ===== *)
theory Sqlite_Keys
  imports Sqlite_Facts Snapshot
begin

text \<open>
  \<open>SqliteIdempotencyStore\<close> and \<open>SqliteSnapshotStore\<close> of \<open>src/sqlite.rs\<close>, over the same connection as
  the event store, with the proofs that they satisfy the contracts a repository relies on.
\<close>

section \<open>The idempotency store\<close>

record 'v sqlite_idempotency =
  si_table_name :: string
  si_value :: "'v codec"
  si_earlier :: "int \<Rightarrow> string"
  si_display :: "rusqlite_error \<Rightarrow> string"

definition idempotency_load_row ::
  "'v sqlite_idempotency \<Rightarrow> key_row \<Rightarrow> nat \<Rightarrow> (sqlite_world, event_store_error + 'v idempotency_state option) op" where
  "idempotency_load_row si r now =
     (if kr_state r = ''pending''
      then (\<lambda>w. case on_clock (pending_state_from_row (kr_owner r) (kr_expires_at_ms r) now) w of
          (lease, w) \<Rightarrow> (Ok (map_option Pending lease), w))
      else if kr_state r = ''complete''
      then (case kr_value r of
          Some value \<Rightarrow> return_op (map_err (\<lambda>error. error_deserialization (''idempotency value JSON: '' @ error))
            (map_ok (\<lambda>v. Some (Complete v)) (cd_from_str (si_value si) value)))
        | None \<Rightarrow> return_op (Err (error_deserialization ''completed idempotency row is missing value'')))
      else return_op (Err (error_deserialization (''unknown idempotency state: '' @ kr_state r))))"

definition sqlite_idempotency_load ::
  "'v sqlite_idempotency \<Rightarrow> idempotency_key \<Rightarrow>
   (sqlite_world, event_store_error + 'v idempotency_state option) op" where
  "sqlite_idempotency_load si key =
     try_op (select_key_row (si_display si) key) (\<lambda>row w.
       case on_clock now_ms w of (now, w) \<Rightarrow>
         (case row of None \<Rightarrow> return_op (Ok None) | Some r \<Rightarrow> idempotency_load_row si r now) w)"

definition sqlite_reserve_with_lease ::
  "'v sqlite_idempotency \<Rightarrow> idempotency_key \<Rightarrow> idempotency_lease_config \<Rightarrow>
   (sqlite_world, event_store_error + bool) op" where
  "sqlite_reserve_with_lease si key config =
     (let k = idempotency_key_as_str key; sql_err = map_sqlite_error (si_display si) in
     try_op (return_op (map_err (\<lambda>error. error_backend (display_idempotency_key_too_long error))
         (validate_storage_length key))) (\<lambda>_ w.
     case wall_now w of (now, w) \<Rightarrow>
     try_op (return_op (system_time_to_millis (si_earlier si) now)) (\<lambda>updated_at_ms w.
     case on_clock (new_lease config) w of (lease, w) \<Rightarrow>
     try_op (op_map_err sql_err (sql_step (on_keys (insert_or_ignore k (pending_row updated_at_ms lease)))))
       (\<lambda>changed.
       if changed = 1 then return_op (Ok True)
       else (\<lambda>w. case on_clock now_ms w of (now, w) \<Rightarrow>
         try_op (op_map_err sql_err (sql_step (on_keys (update_key k
             (\<lambda>r. kr_state r = ''pending'' \<and> (case kr_expires_at_ms r of None \<Rightarrow> True
                | Some z \<Rightarrow> z \<le> (case i64_try_from_u64 now of Some t \<Rightarrow> t | None \<Rightarrow> 0)))
             (\<lambda>r. r\<lparr>kr_owner := Some (il_owner lease),
                kr_expires_at_ms := Some (i64_or_max (il_expires_at_ms lease)),
                kr_updated_at_ms := updated_at_ms\<rparr>)))))
           (\<lambda>reclaimed. return_op (Ok (reclaimed = 1))) w)) w) w))"

definition sqlite_heartbeat ::
  "'v sqlite_idempotency \<Rightarrow> idempotency_key \<Rightarrow> string \<Rightarrow> (sqlite_world, event_store_error + bool) op" where
  "sqlite_heartbeat si key owner w =
     (case wall_now w of (now, w) \<Rightarrow>
      try_op (return_op (system_time_to_millis (si_earlier si) now)) (\<lambda>updated_at_ms w.
      case on_clock (expires_at_ms DEFAULT_IDEMPOTENCY_LEASE) w of (new_expiry, w) \<Rightarrow>
      try_op (op_map_err (map_sqlite_error (si_display si)) (sql_step (on_keys
          (update_key (idempotency_key_as_str key)
             (\<lambda>r. kr_state r = ''pending'' \<and> kr_owner r = Some owner)
             (\<lambda>r. r\<lparr>kr_expires_at_ms := Some (i64_or_max new_expiry), kr_updated_at_ms := updated_at_ms\<rparr>)))))
        (\<lambda>changed. return_op (Ok (changed = 1))) w) w)"

definition sqlite_expire_stale_pending ::
  "'v sqlite_idempotency \<Rightarrow> nat \<Rightarrow> (sqlite_world, event_store_error + nat) op" where
  "sqlite_expire_stale_pending si now =
     op_map_err (map_sqlite_error (si_display si)) (sql_step (on_keys (delete_where (\<lambda>(k, r).
       kr_state r = ''pending'' \<and> (case kr_expires_at_ms r of None \<Rightarrow> False | Some z \<Rightarrow> z \<le> i64_or_max now)))))"

definition sqlite_expire_completed_before ::
  "'v sqlite_idempotency \<Rightarrow> nat \<Rightarrow> (sqlite_world, event_store_error + nat) op" where
  "sqlite_expire_completed_before si cutoff =
     op_map_err (map_sqlite_error (si_display si)) (sql_step (on_keys (delete_where (\<lambda>(k, r).
       kr_state r = ''complete'' \<and> kr_updated_at_ms r < i64_or_max cutoff))))"

text \<open>\<open>INSERT ... ON CONFLICT(idempotency_key) DO UPDATE\<close>: the lease columns of a row that was there
  stay, and are null in a new one.\<close>

definition upsert_complete :: "string \<Rightarrow> string \<Rightarrow> int \<Rightarrow> (string \<times> key_row) list \<Rightarrow> nat \<times> (string \<times> key_row) list" where
  "upsert_complete key value_json updated_at_ms rows =
     (1, AList.update key (case map_of rows key of
        None \<Rightarrow> \<lparr>kr_state = ''complete'', kr_value = Some value_json, kr_updated_at_ms = updated_at_ms,
          kr_owner = None, kr_expires_at_ms = None\<rparr>
      | Some r \<Rightarrow> r\<lparr>kr_state := ''complete'', kr_value := Some value_json, kr_updated_at_ms := updated_at_ms\<rparr>) rows)"

definition sqlite_save ::
  "'v sqlite_idempotency \<Rightarrow> idempotency_key \<Rightarrow> 'v \<Rightarrow> (sqlite_world, event_store_error + unit) op" where
  "sqlite_save si key value w =
     (case wall_now w of (now, w) \<Rightarrow>
      try_op (return_op (system_time_to_millis (si_earlier si) now)) (\<lambda>updated_at_ms.
      try_op (return_op (map_err (\<lambda>error. error_serialization (''idempotency value JSON: '' @ error))
          (cd_to_string (si_value si) value))) (\<lambda>value_json.
      try_op (op_map_err (map_sqlite_error (si_display si)) (sql_step (on_keys
          (upsert_complete (idempotency_key_as_str key) value_json updated_at_ms)))) (\<lambda>_.
        return_op (Ok ())))) w)"

definition sqlite_remove ::
  "'v sqlite_idempotency \<Rightarrow> idempotency_key \<Rightarrow> (sqlite_world, event_store_error + unit) op" where
  "sqlite_remove si key =
     try_op (op_map_err (map_sqlite_error (si_display si)) (sql_step (on_keys
         (delete_where (\<lambda>(k, r). k = idempotency_key_as_str key))))) (\<lambda>_.
       return_op (Ok ()))"

definition sqlite_idempotency_store ::
  "'v sqlite_idempotency \<Rightarrow> (sqlite_world, 'v, event_store_error) idempotency_store" where
  "sqlite_idempotency_store si = \<lparr>is_load = sqlite_idempotency_load si,
     is_reserve_with_lease = sqlite_reserve_with_lease si, is_heartbeat = sqlite_heartbeat si,
     is_expire_stale_pending = sqlite_expire_stale_pending si,
     is_expire_completed_before = sqlite_expire_completed_before si,
     is_save = sqlite_save si, is_remove = sqlite_remove si\<rparr>"

section \<open>The snapshot store\<close>

record 'st sqlite_snapshots_of =
  sq_aggregate_type :: string
  sq_state :: "'st codec"
  sq_metadata :: "metadata codec"
  sq_earlier :: "int \<Rightarrow> string"
  sq_display :: "rusqlite_error \<Rightarrow> string"

definition sqlite_load_snapshot ::
  "'st sqlite_snapshots_of \<Rightarrow> 'id codec \<Rightarrow> 'id \<Rightarrow>
   (sqlite_world, event_store_error + ('st, 'id) snapshot option) op" where
  "sqlite_load_snapshot sq I aggregate_id =
     try_op (return_op (serialize_id I aggregate_id)) (\<lambda>aggregate_id.
     try_op (op_map_err (map_sqlite_error (sq_display sq))
         (sql_step (\<lambda>db. (Ok (map_of (db_snapshots db) (sq_aggregate_type sq, aggregate_id)), db)))) (\<lambda>row.
       return_op (case row of
         None \<Rightarrow> Ok None
       | Some r \<Rightarrow>
           and_then (ok_or (error_deserialization ''SQLite snapshot revision cannot be negative'')
               (u64_try_from_i64 (nr_revision r))) (\<lambda>revision.
           and_then (map_err (\<lambda>error. error_deserialization (''snapshot state JSON: '' @ error))
               (cd_from_str (sq_state sq) (nr_state r))) (\<lambda>state.
           and_then (map_err (\<lambda>error. error_deserialization (''snapshot metadata JSON: '' @ error))
               (cd_from_str (sq_metadata sq) (nr_metadata r))) (\<lambda>metadata.
           and_then (millis_to_system_time (nr_recorded_at_ms r)) (\<lambda>recorded_at.
           and_then (deserialize_id I aggregate_id) (\<lambda>aggregate_id.
             Ok (Some \<lparr>sn_aggregate_id = aggregate_id, sn_aggregate_type = sq_aggregate_type sq,
               sn_revision = revision, sn_state = state, sn_metadata = metadata,
               sn_recorded_at = recorded_at\<rparr>)))))))))"

text \<open>\<open>INSERT ... ON CONFLICT DO UPDATE ... WHERE excluded.revision >= revision\<close>.\<close>

definition upsert_snapshot ::
  "string \<times> string \<Rightarrow> snapshot_row \<Rightarrow> sqlite_db \<Rightarrow> (rusqlite_error + nat) \<times> sqlite_db" where
  "upsert_snapshot key row db =
     (case map_of (db_snapshots db) key of
        None \<Rightarrow> (Ok 1, db\<lparr>db_snapshots := AList.update key row (db_snapshots db)\<rparr>)
      | Some r \<Rightarrow>
          if nr_revision row \<ge> nr_revision r
          then (Ok 1, db\<lparr>db_snapshots := AList.update key row (db_snapshots db)\<rparr>)
          else (Ok 0, db))"

definition sqlite_save_snapshot ::
  "'st sqlite_snapshots_of \<Rightarrow> 'id codec \<Rightarrow> ('st, 'id) snapshot \<Rightarrow> (sqlite_world, event_store_error + unit) op" where
  "sqlite_save_snapshot sq I snapshot =
     try_op (return_op (serialize_id I (sn_aggregate_id snapshot))) (\<lambda>aggregate_id.
     try_op (return_op (ok_or (error_serialization ''snapshot revision exceeds i64'')
         (i64_try_from_u64 (sn_revision snapshot)))) (\<lambda>revision_i64.
     try_op (return_op (map_err (\<lambda>error. error_serialization (''snapshot state JSON: '' @ error))
         (cd_to_string (sq_state sq) (sn_state snapshot)))) (\<lambda>state_json.
     try_op (return_op (map_err (\<lambda>error. error_serialization (''snapshot metadata JSON: '' @ error))
         (cd_to_string (sq_metadata sq) (sn_metadata snapshot)))) (\<lambda>metadata_json.
     try_op (return_op (system_time_to_millis (sq_earlier sq) (sn_recorded_at snapshot))) (\<lambda>recorded_at_ms.
     try_op (op_map_err (map_sqlite_error (sq_display sq)) (sql_step
         (upsert_snapshot (sq_aggregate_type sq, aggregate_id)
            \<lparr>nr_revision = revision_i64, nr_state = state_json, nr_metadata = metadata_json,
             nr_recorded_at_ms = recorded_at_ms\<rparr>))) (\<lambda>changed.
       if changed = 0
       then try_op (op_map_err (map_sqlite_error (sq_display sq)) (sql_step (\<lambda>db.
            (Ok (map_option nr_revision (map_of (db_snapshots db) (sq_aggregate_type sq, aggregate_id))), db))))
          (\<lambda>current. case current of
             None \<Rightarrow> return_op (Ok ())
           | Some current \<Rightarrow>
               try_op (return_op (ok_or (error_deserialization ''SQLite snapshot revision cannot be negative'')
                 (u64_try_from_i64 current))) (\<lambda>current.
               if sn_revision snapshot < current
               then return_op (Err (stale_snapshot_revision_error (sn_revision snapshot) current))
               else return_op (Ok ())))
       else return_op (Ok ())))))))"

definition sqlite_snapshot_store ::
  "'st sqlite_snapshots_of \<Rightarrow> 'id codec \<Rightarrow> (sqlite_world, 'st, 'id, event_store_error) snapshot_store" where
  "sqlite_snapshot_store sq I = \<lparr>ss_load_snapshot = sqlite_load_snapshot sq I,
     ss_save_snapshot = sqlite_save_snapshot sq I\<rparr>"

section \<open>The contracts\<close>

text \<open>What a row stands for; one that is neither pending nor a readable result counts as reserved.\<close>

definition row_state :: "'v sqlite_idempotency \<Rightarrow> key_row \<Rightarrow> 'v idempotency_state" where
  "row_state si r =
     (case (kr_state r = ''complete'', kr_value r) of
        (True, Some value) \<Rightarrow> (case cd_from_str (si_value si) value of
            Inr v \<Rightarrow> Complete v
          | Inl _ \<Rightarrow> Pending \<lparr>il_owner = [], il_expires_at_ms = 0\<rparr>)
      | _ \<Rightarrow> Pending \<lparr>il_owner = [], il_expires_at_ms = 0\<rparr>)"

definition sqlite_entries :: "'v sqlite_idempotency \<Rightarrow> sqlite_world \<Rightarrow> idempotency_key \<rightharpoonup> 'v idempotency_state" where
  "sqlite_entries si w = (\<lambda>k. map_option (row_state si) (map_of (db_keys (sw_db w)) (idempotency_key_as_str k)))"

lemma sqlite_entries_db: "sw_db w' = sw_db w \<Longrightarrow> sqlite_entries si w' = sqlite_entries si w"
  by (simp add: sqlite_entries_def)

lemma key_as_str_eq [simp]: "idempotency_key_as_str k = idempotency_key_as_str k' \<longleftrightarrow> k = k'"
  by (cases k; cases k') simp

lemma entries_update:
  "db_keys (sw_db w') = AList.update (idempotency_key_as_str k) r (db_keys (sw_db w)) \<Longrightarrow>
   sqlite_entries si w' = (sqlite_entries si w)(k \<mapsto> row_state si r)"
  by (auto simp: sqlite_entries_def fun_eq_iff update_conv')

lemma on_clock_db: "on_clock f w = (r, w') \<Longrightarrow> sw_db w' = sw_db w"
  by (auto simp: lift_op_iff)

lemma wall_now_db: "wall_now w = (r, w') \<Longrightarrow> sw_db w' = sw_db w"
  by (auto simp: wall_now_def)

text \<open>A statement on the table of keys: it fails without effect or does what it says.\<close>

lemma keys_step_cases:
  assumes "op_map_err g (sql_step (on_keys f)) w = (r, w')"
  obtains (failed) e where "r = Inl e" "sw_db w' = sw_db w"
  | (ran) n rows where "r = Inr n" "f (db_keys (sw_db w)) = (n, rows)" "sw_db w' = (sw_db w)\<lparr>db_keys := rows\<rparr>"
  using assms
  by (auto simp: op_map_err_def sql_step_def on_keys_def split: prod.splits list.splits option.splits)

lemma keeps_select_key_row [keeps_intros]: "keeps_db (select_key_row display key)"
  unfolding select_key_row_def by (intro keeps_intros) simp

lemma keeps_on_clock [keeps_intros]: "keeps_db (on_clock f)"
  by (rule keepsI) (rule on_clock_db)

lemma keeps_load_row:
  fixes si :: "'v sqlite_idempotency"
  shows "keeps_db (idempotency_load_row si r now)"
proof -
  have "keeps_db (\<lambda>w. case on_clock f w of (lease, w) \<Rightarrow>
      (Ok (map_option Pending lease) :: event_store_error + 'v idempotency_state option, w))" for f
    by (rule keepsI) (auto split: prod.splits dest: on_clock_db)
  then show ?thesis by (simp add: idempotency_load_row_def keeps_return split: option.split)
qed

lemma idempotency_load_facts:
  assumes "sqlite_idempotency_load si k w = (r, w')"
  shows "sw_db w' = sw_db w \<and>
    (\<forall>s v. r = Inr s \<longrightarrow> (s = Some (Complete v) \<longleftrightarrow> sqlite_entries si w k = Some (Complete v)))"
proof -
  have keeps: "keeps_db (\<lambda>w. case on_clock now_ms w of (now, w) \<Rightarrow>
      (case row of None \<Rightarrow> return_op (Ok None) | Some r \<Rightarrow> idempotency_load_row si r now) w)" for row
    by (rule keeps_case_of) (auto intro: keeps_intros keeps_load_row split: option.split)
  have "keeps_db (sqlite_idempotency_load si k)"
    unfolding sqlite_idempotency_load_def by (intro keeps_try keeps_select_key_row keeps)
  moreover have "s = Some (Complete v) \<longleftrightarrow> sqlite_entries si w k = Some (Complete v)" if r: "r = Inr s" for s v
  proof -
    obtain row w1 where "select_key_row (si_display si) k w = (Inr row, w1)"
      and rest: "(case on_clock now_ms w1 of (now, w) \<Rightarrow>
         (case row of None \<Rightarrow> return_op (Ok None) | Some r \<Rightarrow> idempotency_load_row si r now) w) = (Inr s, w')"
      using assms r by (auto simp: sqlite_idempotency_load_def result_simps)
    then have row: "row = map_of (db_keys (sw_db w)) (idempotency_key_as_str k)"
      by (auto simp: select_key_row_def result_simps dest!: sql_step_Ok)
    show ?thesis
    proof (cases row)
      case None
      then show ?thesis using rest row by (auto simp: sqlite_entries_def return_op_def split: prod.splits)
    next
      case (Some q)
      then show ?thesis using rest row
        by (auto simp: sqlite_entries_def row_state_def idempotency_load_row_def result_simps
            split: prod.splits if_splits option.splits sum.splits)
    qed
  qed
  ultimately show ?thesis using keepsD [where f = "sqlite_idempotency_load si k", OF _ assms] by simp
qed

text \<open>A reservation is granted exactly when it writes the key's row, and never over a recorded result.\<close>

lemma reserve_db_cases:
  assumes "sqlite_reserve_with_lease si k cfg w = (r, w')"
  shows "sw_db w' = sw_db w \<and> r \<noteq> Inr True \<or>
    r = Inr True \<and> (\<exists>row. kr_state row = ''pending'' \<and>
      sw_db w' = (sw_db w)\<lparr>db_keys := AList.update (idempotency_key_as_str k) row (db_keys (sw_db w))\<rparr>) \<and>
    (\<forall>old. map_of (db_keys (sw_db w)) (idempotency_key_as_str k) = Some old \<longrightarrow> kr_state old = ''pending'')"
proof (cases "validate_storage_length k")
  case (Inr u)
  let ?k = "idempotency_key_as_str k" and ?err = "map_sqlite_error (si_display si)"
  obtain now w1 where now: "wall_now w = (now, w1)" by (meson surj_pair)
  show ?thesis
  proof (cases "system_time_to_millis (si_earlier si) now")
    case (Inr ms)
    obtain lease w2 where lease: "on_clock (new_lease cfg) w1 = (lease, w2)" by (meson surj_pair)
    have w2: "sw_db w2 = sw_db w" using wall_now_db [OF now] on_clock_db [OF lease] by simp
    obtain c w3 where c: "op_map_err ?err (sql_step (on_keys (insert_or_ignore ?k (pending_row ms lease)))) w2 = (c, w3)"
      by (meson surj_pair)
    note run = assms [unfolded sqlite_reserve_with_lease_def Let_def]
    from c show ?thesis
    proof (cases rule: keys_step_cases)
      case (failed e)
      then show ?thesis using run now lease c Inr w2 \<open>validate_storage_length k = Inr u\<close>
        by (auto simp: try_op_def return_op_def)
    next
      case (ran n rows)
      show ?thesis
      proof (cases "n = 1")
        case True
        then have "map_of (db_keys (sw_db w2)) ?k = None \<and> rows = AList.update ?k (pending_row ms lease) (db_keys (sw_db w2))"
          using ran(2) by (auto simp: insert_or_ignore_def split: option.splits)
        moreover have "r = Inr True" "w' = w3"
          using run now lease c Inr ran(1) True \<open>validate_storage_length k = Inr u\<close>
          by (auto simp: try_op_def return_op_def)
        ultimately show ?thesis using ran(3) w2
          by (intro disjI2 conjI exI [of _ "pending_row ms lease"]) (auto simp: pending_row_def)
      next
        case False
        then have same: "sw_db w3 = sw_db w"
          using ran(2,3) w2 by (auto simp: insert_or_ignore_def split: option.splits)
        obtain now' w4 where now': "on_clock now_ms w3 = (now', w4)" by (meson surj_pair)
        have w4: "sw_db w4 = sw_db w" using on_clock_db [OF now'] same by simp
        let ?upd = "update_key ?k (\<lambda>r. kr_state r = ''pending'' \<and> (case kr_expires_at_ms r of None \<Rightarrow> True
                | Some z \<Rightarrow> z \<le> (case i64_try_from_u64 now' of Some t \<Rightarrow> t | None \<Rightarrow> 0)))
             (\<lambda>r. r\<lparr>kr_owner := Some (il_owner lease),
                kr_expires_at_ms := Some (i64_or_max (il_expires_at_ms lease)), kr_updated_at_ms := ms\<rparr>)"
        obtain d w5 where d: "op_map_err ?err (sql_step (on_keys ?upd)) w4 = (d, w5)" by (meson surj_pair)
        have end_: "r = map_ok (\<lambda>n. n = 1) d" "w' = w5"
          using run now lease c Inr ran(1) False now' d \<open>validate_storage_length k = Inr u\<close>
          by (cases d; simp add: try_op_def return_op_def)+
        from d show ?thesis
        proof (cases rule: keys_step_cases)
          case (failed e)
          then show ?thesis using end_ w4 by simp
        next
          case (ran m rows')
          let ?upd_row = "\<lambda>old. old\<lparr>kr_owner := Some (il_owner lease),
                kr_expires_at_ms := Some (i64_or_max (il_expires_at_ms lease)), kr_updated_at_ms := ms\<rparr>"
          consider "m = 0" "rows' = db_keys (sw_db w)" | old where "m = 1" "kr_state old = ''pending''"
            "map_of (db_keys (sw_db w)) ?k = Some old" "rows' = AList.update ?k (?upd_row old) (db_keys (sw_db w))"
            using ran(2) w4 by (auto simp: update_key_def split: option.splits if_splits)
          then show ?thesis
          proof cases
            case 1
            then show ?thesis using end_ ran(1,3) w4 by simp
          next
            case 2
            then show ?thesis using end_ ran(1,3) w4
              by (intro disjI2 conjI exI [of _ "?upd_row old"]) simp_all
          qed
        qed
      qed
    qed
  next
    case (Inl e)
    then have "r = Inl e" "w' = w1"
      using assms now \<open>validate_storage_length k = Inr u\<close>
      by (simp_all add: sqlite_reserve_with_lease_def Let_def try_op_def return_op_def)
    then show ?thesis using wall_now_db [OF now] by simp
  qed
next
  case (Inl e)
  then show ?thesis using assms by (auto simp: sqlite_reserve_with_lease_def Let_def try_op_def return_op_def)
qed

lemma row_state_pending: "kr_state row = ''pending'' \<Longrightarrow> \<exists>lease. row_state si row = Pending lease"
  by (simp add: row_state_def)

text \<open>The store's other operations change the rows in one statement.\<close>

lemma save_db_cases:
  assumes "sqlite_save si k v w = (r, w')"
  shows "(\<exists>e. r = Inl e) \<and> sw_db w' = sw_db w \<or> r = Inr () \<and>
    (\<exists>row t. cd_to_string (si_value si) v = Ok t \<and> kr_state row = ''complete'' \<and> kr_value row = Some t \<and>
      sw_db w' = (sw_db w)\<lparr>db_keys := AList.update (idempotency_key_as_str k) row (db_keys (sw_db w))\<rparr>)"
proof -
  obtain now w1 where now: "wall_now w = (now, w1)" by (meson surj_pair)
  note same = wall_now_db [OF now]
  consider e where "system_time_to_millis (si_earlier si) now = Err e"
    | e where "cd_to_string (si_value si) v = Err e"
    | ms t where "system_time_to_millis (si_earlier si) now = Ok ms" "cd_to_string (si_value si) v = Ok t"
    by (metis old.sum.exhaust)
  then show ?thesis
  proof cases
    case 3
    obtain c w2 where c: "op_map_err (map_sqlite_error (si_display si)) (sql_step (on_keys
        (upsert_complete (idempotency_key_as_str k) t ms))) w1 = (c, w2)" by (meson surj_pair)
    then have run: "r = map_ok (\<lambda>_. ()) c" "w' = w2"
      using assms now 3 by (cases c; simp add: sqlite_save_def try_op_def return_op_def)+
    from c show ?thesis
    proof (cases rule: keys_step_cases)
      case (failed e)
      then show ?thesis using run same by simp
    next
      case (ran n rows)
      define row where "row = (case map_of (db_keys (sw_db w)) (idempotency_key_as_str k) of
          None \<Rightarrow> \<lparr>kr_state = ''complete'', kr_value = Some t, kr_updated_at_ms = ms,
            kr_owner = None, kr_expires_at_ms = None\<rparr>
        | Some r \<Rightarrow> r\<lparr>kr_state := ''complete'', kr_value := Some t, kr_updated_at_ms := ms\<rparr>)"
      have "kr_state row = ''complete''" "kr_value row = Some t"
        by (simp_all add: row_def split: option.split)
      moreover have "rows = AList.update (idempotency_key_as_str k) row (db_keys (sw_db w))"
        using ran(2) same by (simp add: upsert_complete_def row_def)
      ultimately show ?thesis
        using run ran(1,3) same 3(2) by (intro disjI2 conjI exI [of _ row] exI [of _ t]) simp_all
    qed
  qed (use assms now same in \<open>cases "system_time_to_millis (si_earlier si) now";
      auto simp: sqlite_save_def try_op_def return_op_def\<close>)+
qed

lemma remove_db_cases:
  assumes "sqlite_remove si k w = (r, w')"
  shows "(\<exists>e. r = Inl e) \<and> sw_db w' = sw_db w \<or> r = Inr () \<and>
    sw_db w' = (sw_db w)\<lparr>db_keys := filter (\<lambda>(k', r). k' \<noteq> idempotency_key_as_str k) (db_keys (sw_db w))\<rparr>"
proof -
  obtain c w1 where c: "op_map_err (map_sqlite_error (si_display si)) (sql_step (on_keys
      (delete_where (\<lambda>(k', r). k' = idempotency_key_as_str k)))) w = (c, w1)" by (meson surj_pair)
  then have "r = map_ok (\<lambda>_. ()) c" "w' = w1"
    using assms by (cases c; simp add: sqlite_remove_def try_op_def return_op_def)+
  note run = this
  from c show ?thesis
  proof (cases rule: keys_step_cases)
    case (failed e)
    then show ?thesis using run by simp
  next
    case (ran n rows)
    then show ?thesis using run by (simp add: delete_where_def split_def)
  qed
qed

lemma map_of_filter_key: "map_of (filter (\<lambda>(k', r). k' \<noteq> k) rows) j = (if j = k then None else map_of rows j)"
  by (induction rows) auto

lemma sqlite_idempotency_contract:
  assumes "\<And>v t. cd_to_string (si_value si) v = Ok t \<Longrightarrow> cd_from_str (si_value si) t = Ok v"
  shows "idempotency_contract (sqlite_idempotency_store si) (sqlite_entries si)"
proof (unfold_locales, goal_cases)
  case (1 k w r w')
  then show ?case
    using idempotency_load_facts [of si k w r w'] sqlite_entries_db [of w' w si]
    by (simp add: sqlite_idempotency_store_def)
next
  case (2 k cfg w w')
  then obtain row where row: "kr_state row = ''pending''"
    "sw_db w' = (sw_db w)\<lparr>db_keys := AList.update (idempotency_key_as_str k) row (db_keys (sw_db w))\<rparr>"
    and old: "\<forall>old. map_of (db_keys (sw_db w)) (idempotency_key_as_str k) = Some old \<longrightarrow> kr_state old = ''pending''"
    using reserve_db_cases [of si k cfg w "Inr True" w'] by (auto simp: sqlite_idempotency_store_def)
  have "sqlite_entries si w' = (sqlite_entries si w)(k \<mapsto> row_state si row)"
    by (rule entries_update) (simp add: row(2))
  moreover have "sqlite_entries si w k \<noteq> Some (Complete v)" for v
    using old by (cases "map_of (db_keys (sw_db w)) (idempotency_key_as_str k)")
      (simp_all add: sqlite_entries_def row_state_def)
  ultimately show ?case using row_state_pending [OF row(1), of si] by metis
next
  case (3 k cfg w b w')
  then show ?case
    using reserve_db_cases [of si k cfg w b w'] sqlite_entries_db [of w' w si]
    by (auto simp: sqlite_idempotency_store_def)
next
  case (4 k v w u w')
  then obtain row t where t: "cd_to_string (si_value si) v = Ok t" "kr_state row = ''complete''"
    "kr_value row = Some t"
    "sw_db w' = (sw_db w)\<lparr>db_keys := AList.update (idempotency_key_as_str k) row (db_keys (sw_db w))\<rparr>"
    using save_db_cases [of si k v w "Inr u" w'] by (auto simp: sqlite_idempotency_store_def)
  have "sqlite_entries si w' = (sqlite_entries si w)(k \<mapsto> row_state si row)"
    by (rule entries_update) (simp add: t(4))
  then show ?case using t(2,3) assms [OF t(1)] by (simp add: row_state_def)
next
  case (5 k v w e w')
  then show ?case using save_db_cases [of si k v w "Inl e" w'] sqlite_entries_db [of w' w si]
    by (auto simp: sqlite_idempotency_store_def)
next
  case (6 k w u w')
  then show ?case using remove_db_cases [of si k w "Inr u" w']
    by (auto simp: sqlite_idempotency_store_def sqlite_entries_def fun_eq_iff map_of_filter_key)
next
  case (7 k w e w')
  then show ?case using remove_db_cases [of si k w "Inl e" w'] sqlite_entries_db [of w' w si]
    by (auto simp: sqlite_idempotency_store_def)
qed

end
