(* ===== verification/Sqlite_World.thy ===== *)
theory Sqlite_World
  imports Sqlite_Atomic Sqlite_Keys Idempotent_Facts
begin

text \<open>
  One SQLite connection under a repository: the event store, the idempotency store and the clock of
  the same world do not disturb each other, so the facts about idempotent execution hold of it.
\<close>

section \<open>What the key operations leave alone\<close>

definition event_rows :: "sqlite_world \<Rightarrow> stored_sqlite_event_row list" where
  "event_rows w = db_events (sw_db w)"

lemma stream_of_rows:
  assumes "event_rows w' = event_rows w"
  shows "sqlite_inv st w' = sqlite_inv st w" and "sqlite_stream st w' = sqlite_stream st w"
proof -
  have "db_stream at k (sw_db w') = db_stream at k (sw_db w)" for at k
    using assms by (simp add: event_rows_def db_stream_def)
  then show "sqlite_inv st w' = sqlite_inv st w" "sqlite_stream st w' = sqlite_stream st w"
    by (simp_all add: sqlite_inv_def sqlite_stream_def fun_eq_iff split: sum.split)
qed

lemma event_rows_db [keeps_intros]: "keeps_db f \<Longrightarrow> keeps event_rows f"
  by (rule keepsI) (auto simp: event_rows_def dest: keepsD)

lemma event_rows_keys [keeps_intros]: "keeps event_rows (sql_step (on_keys f))"
  by (rule keepsI) (auto simp: sql_step_def on_keys_def event_rows_def split: prod.splits list.splits option.splits)

lemma clock_mono [keeps_intros]:
  "keeps ck_mono now_ms" "keeps ck_mono (expires_at_ms d)" "keeps ck_mono (new_lease cfg)"
  "keeps ck_mono (pending_state_from_row owner expires now)"
  by (auto simp: keeps_def now_ms_def expires_at_ms_def new_lease_def pending_state_from_row_def Let_def
      split: option.splits prod.splits)

lemma on_clock_mono [keeps_intros]: "keeps ck_mono f \<Longrightarrow> keeps mono_time (on_clock f)"
  by (rule keepsI) (auto simp: lift_op_iff mono_time_def dest: keepsD)

lemma on_clock_rows [keeps_intros]: "keeps event_rows (on_clock f)"
  by (rule keepsI) (auto simp: lift_op_iff event_rows_def)

lemma wall_now_keeps [keeps_intros]: "keeps mono_time wall_now" "keeps event_rows wall_now"
  by (auto simp: keeps_def wall_now_def mono_time_def event_rows_def)

lemma load_row_keeps [keeps_intros]:
  fixes si :: "'v sqlite_idempotency"
  shows "keeps mono_time (idempotency_load_row si r now)"
proof -
  have "keeps mono_time (\<lambda>w. case on_clock (pending_state_from_row owner expires now) w of (lease, w) \<Rightarrow>
      (Ok (map_option Pending lease) :: event_store_error + 'v idempotency_state option, w))" for owner expires
    by (rule keepsI) (auto split: prod.splits dest: keepsD [OF on_clock_mono [OF clock_mono(4)]])
  then show ?thesis by (simp add: idempotency_load_row_def keeps_return split: option.split)
qed

lemma load_keeps: "keeps mono_time (sqlite_idempotency_load si k)" "keeps event_rows (sqlite_idempotency_load si k)"
proof -
  have "keeps mono_time (\<lambda>w. case on_clock now_ms w of (now, w) \<Rightarrow>
      (case row of None \<Rightarrow> return_op (Ok None) | Some r \<Rightarrow> idempotency_load_row si r now) w)" for row
    by (rule keeps_case_of) (auto intro: keeps_intros split: option.split)
  then show "keeps mono_time (sqlite_idempotency_load si k)"
    unfolding sqlite_idempotency_load_def select_key_row_def by (intro keeps_try keeps_map_err step_mono_time)
  show "keeps event_rows (sqlite_idempotency_load si k)"
    by (rule event_rows_db, rule keepsI) (blast dest: idempotency_load_facts)
qed

lemma reserve_keeps:
  "keeps mono_time (sqlite_reserve_with_lease si k cfg)" "keeps event_rows (sqlite_reserve_with_lease si k cfg)"
  unfolding sqlite_reserve_with_lease_def Let_def
  by (intro keeps_try keeps_case_of keeps_if keeps_return keeps_map_err step_mono_time event_rows_keys
      wall_now_keeps on_clock_mono on_clock_rows clock_mono)+

lemma save_keeps: "keeps mono_time (sqlite_save si k v)" "keeps event_rows (sqlite_save si k v)"
  unfolding sqlite_save_def
  by (intro keeps_try keeps_case_of keeps_return keeps_map_err step_mono_time event_rows_keys wall_now_keeps)+

lemma remove_keeps: "keeps mono_time (sqlite_remove si k)" "keeps event_rows (sqlite_remove si k)"
  unfolding sqlite_remove_def
  by (intro keeps_try keeps_return keeps_map_err step_mono_time event_rows_keys)+

section \<open>What the event store leaves alone\<close>

lemma sqlite_load_mono_time: "keeps mono_time (sqlite_load st i)"
  unfolding sqlite_load_def by (intro keeps_intros)

lemma append_once_mono_time: "keeps mono_time (append_prepared_sqlite_events_once st keys i k x ps)"
proof -
  have "keeps mono_time last_insert_rowid" by (simp add: keeps_def last_insert_rowid_def)
  then have "keeps mono_time (insert_prepared_sqlite_events st i k actual x ps)" for actual
    unfolding insert_prepared_sqlite_events_def
    by (intro keeps_try keeps_try_or keeps_return step_mono_time keeps_insert_error keeps_current_revision)
       (auto simp: keeps_def last_insert_rowid_def Let_def)
  then show ?thesis
    unfolding append_prepared_sqlite_events_once_def begin_immediate_def
    by (intro keeps_intros)
qed

lemma append_attempts_mono_time:
  "keeps mono_time once \<Longrightarrow> append_attempts once n w = (r, w') \<Longrightarrow> mono_time w' = mono_time w"
proof (induction n arbitrary: w)
  case (Suc n)
  obtain q w1 where q: "once w = (q, w1)" by (meson surj_pair)
  have "mono_time w1 = mono_time w" using keepsD [OF Suc.prems(1) q] .
  then show ?case using Suc.prems(2) Suc.IH [OF Suc.prems(1), of w1] q
    by (cases q) (auto split: if_splits)
qed simp

lemma sqlite_append_mono_time: "keeps mono_time (sqlite_append st i x evs)"
proof -
  have "keeps mono_time (append_attempts (append_prepared_sqlite_events_once st keys i k x ps) n)" for keys k ps n
    by (rule keepsI) (rule append_attempts_mono_time [OF append_once_mono_time])
  moreover have "keeps mono_time (append_nothing st keys x)" for keys
    unfolding append_nothing_def begin_immediate_def by (intro keeps_intros)
  ultimately show ?thesis
    unfolding sqlite_append_def Let_def by (intro keeps_try keeps_if keeps_return keeps_prepare) assumption+
qed

section \<open>The world of a repository\<close>

definition sqlite_timer :: "sqlite_world timer" where
  "sqlite_timer = clock_timer sw_clock (\<lambda>c w. w\<lparr>sw_clock := c\<rparr>)"

lemma sqlite_timer_monotonic: "monotonic_timer sqlite_timer mono_time"
proof -
  have "monotonic_timer sqlite_timer (ck_mono \<circ> sw_clock)"
    unfolding sqlite_timer_def by (rule clock_timer_monotonic) simp
  then show ?thesis by (simp add: comp_def mono_time_def [abs_def])
qed

lemma undisturbed_keeps:
  assumes "keeps event_rows f" and "keeps mono_time f" and "f w = (r, w')"
  shows "undisturbed (sqlite_inv st) (sqlite_stream st) mono_time w w'"
  using keepsD [OF assms(1,3)] keepsD [OF assms(2,3)] stream_of_rows [of w' w st]
  by (simp add: undisturbed_def)

lemma sqlite_append_keys:
  assumes "sqlite_append st i x evs w = (r, w')"
  shows "db_keys (sw_db w') = db_keys (sw_db w)"
proof (cases r)
  case (Inl e)
  then show ?thesis using sqlite_append_failed assms by metis
next
  case (Inr cs)
  then show ?thesis using sqlite_append_Ok assms by metis
qed

lemma sqlite_entries_keys:
  "db_keys (sw_db w') = db_keys (sw_db w) \<Longrightarrow> sqlite_entries si w' = sqlite_entries si w"
  by (simp add: sqlite_entries_def)

lemma sqlite_idempotent_world:
  assumes laws: "sql_codecs_laws (sl_codecs st)" "unupcasted st" "whole_millis st"
    and codec: "\<And>v t. cd_to_string (si_value si) v = Ok t \<Longrightarrow> cd_from_str (si_value si) t = Ok v"
  shows "idempotent_world (sqlite_event_store st) (sqlite_inv st) (sqlite_stream st)
    (sqlite_idempotency_store si) (sqlite_entries si) sqlite_timer mono_time"
proof -
  have e: "event_store_contract (sqlite_event_store st) (sqlite_inv st) (sqlite_stream st)"
    using sqlite_contract [OF laws] by (rule quiet_event_store.axioms(1))
  have i: "idempotency_contract (sqlite_idempotency_store si) (sqlite_entries si)"
    using codec by (rule sqlite_idempotency_contract)
  show ?thesis
  proof (intro idempotent_world.intro [OF e i sqlite_timer_monotonic] idempotent_world_axioms.intro, goal_cases)
    case (1 i w r w')
    then have run: "sqlite_load st i w = (r, w')" by (simp add: sqlite_event_store_def)
    show ?case using keepsD [OF keeps_load(1) run] keepsD [OF sqlite_load_mono_time run]
      by (simp add: sqlite_entries_def)
  next
    case (2 i x evs w r w')
    then have run: "sqlite_append st i x evs w = (r, w')" by (simp add: sqlite_event_store_def)
    show ?case using sqlite_append_keys [OF run] keepsD [OF sqlite_append_mono_time run]
      by (simp add: sqlite_entries_def)
  next
    case (3 k w s w')
    then show ?case using undisturbed_keeps [OF load_keeps(2,1)] by (simp add: sqlite_idempotency_store_def)
  next
    case (4 k c w b w')
    then show ?case using undisturbed_keeps [OF reserve_keeps(2,1)] by (simp add: sqlite_idempotency_store_def)
  next
    case (5 k v w u w')
    then show ?case using undisturbed_keeps [OF save_keeps(2,1)] by (simp add: sqlite_idempotency_store_def)
  next
    case (6 k w u w')
    then show ?case using undisturbed_keeps [OF remove_keeps(2,1)] by (simp add: sqlite_idempotency_store_def)
  next
    case (7 w n w')
    then have "event_rows w' = event_rows w" "mono_time w' = mono_time w" "db_keys (sw_db w') = db_keys (sw_db w)"
      by (auto simp: sqlite_timer_def clock_timer_def lift_op_iff now_ms_def event_rows_def mono_time_def)
    then show ?case using stream_of_rows [of w' w st] sqlite_entries_keys [of w' w si]
      by (simp add: undisturbed_def)
  next
    case (8 w n w')
    then have "event_rows w' = event_rows w" "mono_time w \<le> mono_time w'" "db_keys (sw_db w') = db_keys (sw_db w)"
      by (auto simp: sqlite_timer_def clock_timer_def lift_op_iff instant_now_def event_rows_def mono_time_def Let_def)
    then show ?case using stream_of_rows [of w' w st] sqlite_entries_keys [of w' w si]
      by (simp add: undisturbed_def)
  next
    case (9 d w z w')
    then have "event_rows w' = event_rows w" "mono_time w \<le> mono_time w'" "db_keys (sw_db w') = db_keys (sw_db w)"
      by (auto simp: sqlite_timer_def clock_timer_def lift_op_iff thread_sleep_def event_rows_def mono_time_def)
    then show ?case using stream_of_rows [of w' w st] sqlite_entries_keys [of w' w si]
      by (simp add: undisturbed_def)
  qed
qed

end
