(* ===== verification/Sqlite_Properties.thy ===== *)
theory Sqlite_Properties
  imports Sqlite_World
begin

text \<open>
  The properties of the SQLite stores, with a concrete store for their witnesses: aggregates with
  numeric identifiers and text payloads.
\<close>

declare upt_Suc [simp del]

section \<open>A concrete store\<close>

definition nat_codec :: "nat codec" where
  "nat_codec = \<lparr>cd_to_value = (\<lambda>n. if n \<le> u64_max then Ok (json_nat n) else Err ''number out of range''),
     cd_to_string = (\<lambda>n. if n \<le> u64_max then Ok (show_nat n) else Err ''number out of range''),
     cd_from_str = parse_u64, cd_from_value = (\<lambda>v. ok_or ''invalid type'' (as_u64_value v)),
     cd_render = (\<lambda>v. case as_u64_value v of
         None \<Rightarrow> Err ''not a number''
       | Some n \<Rightarrow> if n \<le> u64_max then Ok (show_nat n) else Err ''number out of range'')\<rparr>"

lemma nat_codec_keys:
  "aggregate_id_lookup_keys nat_codec n = (if n \<le> u64_max then Ok [show_nat n]
     else Err (serialization_with_source (''aggregate_id: '' @ ''number out of range'') ''number out of range''))"
  "serialize_id nat_codec n = (if n \<le> u64_max then Ok (show_nat n)
     else Err (serialization_with_source (''aggregate_id: '' @ ''number out of range'') ''number out of range''))"
  by (simp_all add: aggregate_id_lookup_keys_def serialize_id_def nat_codec_def json_nat_def)

lemma nat_codec_reads: "n \<le> u64_max \<Longrightarrow> deserialize_id nat_codec (show_nat n) = Ok n"
  using parse_unsigned_show_nat [of n u64_max] by (simp add: deserialize_id_def nat_codec_def)

text \<open>The codec of committed events: the empty list only.\<close>

definition no_events_codec :: "('e, 'id) event_stream codec" where
  "no_events_codec = \<lparr>cd_to_value = (\<lambda>es. if es = [] then Ok (JArray []) else Err ''unsupported''),
     cd_to_string = (\<lambda>es. if es = [] then Ok ''[]'' else Err ''unsupported''),
     cd_from_str = (\<lambda>t. if t = ''[]'' then Ok [] else Err ''unsupported''),
     cd_from_value = (\<lambda>v. Ok []), cd_render = (\<lambda>v. Ok ''[]'')\<rparr>"

definition empty_object_codec :: "metadata codec" where
  "empty_object_codec = \<lparr>cd_to_value = (\<lambda>m. if m = metadata_new then Ok (JObject []) else Err ''unsupported''),
     cd_to_string = (\<lambda>m. if m = metadata_new then Ok ''{}'' else Err ''unsupported''),
     cd_from_str = (\<lambda>t. Ok metadata_new), cd_from_value = (\<lambda>v. Ok metadata_new),
     cd_render = (\<lambda>v. if v = JObject [] then Ok ''{}'' else Err ''unsupported'')\<rparr>"

definition demo_codecs :: "(string, nat) sql_codecs" where
  "demo_codecs = \<lparr>cx_event = string_codec, cx_metadata = empty_object_codec, cx_id = nat_codec,
     cx_committed = no_events_codec,
     cx_parse = (\<lambda>t. if t = ''{}'' then Ok (JObject []) else map_ok JString (cd_from_str string_codec t)),
     cx_print = (\<lambda>v. case v of JString s \<Rightarrow> quote_mark # escape_text s | _ \<Rightarrow> ''{}'')\<rparr>"

definition demo_sqlite :: "(string, nat) sqlite_event_store" where
  "demo_sqlite = \<lparr>sl_aggregate_type = ''account'', sl_table_name = ''events'',
     sl_idempotency_table = ''idempotency_keys'', sl_upcasters = upcaster_registry_new,
     sl_codecs = demo_codecs, sl_source = (\<lambda>n. (EventId (show_nat n), int n * 1000000)),
     sl_earlier = (\<lambda>_. ''second time provided was later than self''), sl_display = (\<lambda>_. ''driver error'')\<rparr>"

definition demo_db :: sqlite_world where
  "demo_db = \<lparr>sw_db = \<lparr>db_events = [], db_next_sequence = 1, db_keys = [], db_snapshots = []\<rparr>,
     sw_faults = [], sw_clock = demo_clock, sw_ticks = 0\<rparr>"

lemma demo_codecs_laws: "sql_codecs_laws demo_codecs" "committed_laws demo_codecs"
proof -
  have "codec_laws empty_object_codec"
    by (auto simp: codec_laws_def empty_object_codec_def split: if_splits)
  then show "sql_codecs_laws demo_codecs"
    using string_codec_laws nat_codec_reads
    by (auto simp: sql_codecs_laws_def demo_codecs_def nat_codec_keys string_codec_def empty_object_codec_def
        unescape_escape quote_mark_def split: if_splits)
  show "committed_laws demo_codecs"
    by (auto simp: committed_laws_def demo_codecs_def no_events_codec_def split: if_splits)
qed

lemma demo_sqlite_laws:
  "sql_codecs_laws (sl_codecs demo_sqlite)" "committed_laws (sl_codecs demo_sqlite)" "unupcasted demo_sqlite"
  "whole_millis demo_sqlite"
  using demo_codecs_laws
  by (simp_all add: demo_sqlite_def unupcasted_def prepare_payload_def registry_is_empty_def
      upcaster_registry_new_def whole_millis_def)

lemma demo_db_inv: "sqlite_inv demo_sqlite demo_db"
  by (simp add: sqlite_inv_def demo_db_def db_stream_def)

interpretation demo_sqlite: quiet_event_store "sqlite_event_store demo_sqlite" "sqlite_inv demo_sqlite"
  "sqlite_stream demo_sqlite"
  by (rule sqlite_contract [OF demo_sqlite_laws(1,3,4)])

interpretation demo_sqlite_keys: idempotent_world "sqlite_event_store demo_sqlite" "sqlite_inv demo_sqlite"
  "sqlite_stream demo_sqlite" "sqlite_idempotency_store
    \<lparr>si_table_name = ''idempotency_keys'', si_value = no_events_codec, si_earlier = sl_earlier demo_sqlite,
     si_display = sl_display demo_sqlite\<rparr>"
  "sqlite_entries \<lparr>si_table_name = ''idempotency_keys'', si_value = no_events_codec,
     si_earlier = sl_earlier demo_sqlite, si_display = sl_display demo_sqlite\<rparr>" sqlite_timer mono_time
  by (rule sqlite_idempotent_world [OF demo_sqlite_laws(1,3,4)])
     (auto simp: no_events_codec_def split: if_splits)

section \<open>The event store\<close>


definition demo_deposit :: "string new_event" where
  "demo_deposit = new_event_with_type ''ten'' (EventType ''Deposited'') metadata_new"

lemmas demo_steps = try_op_def try_or_op_def return_op_def op_map_err_def sql_step_def in_transaction_def
  demo_sqlite_def demo_codecs_def demo_db_def demo_deposit_def new_event_with_type_def

lemma demo_prepared: "prepare_events demo_sqlite [demo_deposit] demo_db =
    (Ok [\<lparr>pe_event_id = EventId (show_nat 0), pe_event_type = ''Deposited'', pe_event_version = 1,
       pe_payload = ''ten'', pe_payload_json = quote_mark # escape_text ''ten'', pe_metadata = metadata_new,
       pe_metadata_json = ''{}'', pe_recorded_at = 0, pe_recorded_at_ms = 0\<rparr>], demo_db\<lparr>sw_ticks := 1\<rparr>)"
  by (simp add: demo_steps prepared_sqlite_event_new_def system_time_to_millis_def i64_try_from_u64_def
      i64_max_def serialize_payload_def serialize_metadata_def string_codec_def empty_object_codec_def)

lemma append_attempts_first: "once w = (Ok cs, w') \<Longrightarrow> 0 < n \<Longrightarrow> append_attempts once n w = (Ok cs, w')"
  by (cases n) auto

lemma empty_revision:
  "sw_faults w = [] \<Longrightarrow> db_events (sw_db w) = [] \<Longrightarrow> current_revision_locked st k w = (Ok 0, w)"
  by (cases w) (simp add: current_revision_locked_def demo_steps db_stream_def max_revision_def u64_try_from_i64_def)

lemma empty_max_revision:
  "sw_faults w = [] \<Longrightarrow> db_events (sw_db w) = [] \<Longrightarrow>
   max_revision_for_lookup_keys [k] (current_revision_locked st) w = (Ok 0, w)"
  by (simp add: max_revision_for_lookup_keys_def try_op_def empty_revision return_op_def)

text \<open>An append without faults.\<close>

lemma once_runs:
  assumes "sw_faults w = []" and "max_revision_for_lookup_keys keys (current_revision_locked st) w = (Ok a, w)"
    and "check_expected_revision x a = Ok ()" and "stored_rows_from st k a 0 ps = Ok rows"
    and "insert_event_rows (sl_table_name st) rows (sw_db w) = (Ok (), db)"
    and "db_next_sequence db = s + int (length ps)" and "0 < s" and "committed_from st i a s 0 ps = Ok cs"
  shows "append_prepared_sqlite_events_once st keys i k x ps w = (Ok cs, w\<lparr>sw_db := db\<rparr>)"
  using assms
  by (cases w) (simp add: append_prepared_sqlite_events_once_def begin_immediate_def try_op_def try_or_op_def
      in_transaction_def sql_step_def return_op_def insert_prepared_sqlite_events_def last_insert_rowid_def Let_def)

lemma append_runs:
  assumes "aggregate_id_lookup_keys (cx_id (sl_codecs st)) i = Ok (k # ks)" and "ps \<noteq> []"
    and "prepare_events st evs w0 = (Ok ps, w)"
    and "append_prepared_sqlite_events_once st (k # ks) i k x ps w = (Ok cs, w')"
  shows "sqlite_append st i x evs w0 = (Ok cs, w')"
proof -
  have "append_attempts (append_prepared_sqlite_events_once st (k # ks) i k x ps) MAX_APPEND_ATTEMPTS w = (Ok cs, w')"
    using assms(4) by (rule append_attempts_first) (simp add: MAX_APPEND_ATTEMPTS_def)
  then show ?thesis using assms by (simp add: sqlite_append_def try_op_def return_op_def)
qed

lemma demo_append_runs: "\<exists>cs w'. sqlite_append demo_sqlite 7 NoStream [demo_deposit] demo_db = (Ok cs, w')"
proof -
  have keys: "aggregate_id_lookup_keys (cx_id (sl_codecs demo_sqlite)) 7 = Ok [show_nat 7]"
    by (simp add: demo_sqlite_def demo_codecs_def nat_codec_keys u64_max_def)
  obtain p where p: "prepare_events demo_sqlite [demo_deposit] demo_db = (Ok [p], demo_db\<lparr>sw_ticks := 1\<rparr>)"
    using demo_prepared by blast
  let ?w = "demo_db\<lparr>sw_ticks := 1\<rparr>"
  have w: "sw_faults ?w = []" "db_events (sw_db ?w) = []" "db_next_sequence (sw_db ?w) = 1"
    by (simp_all add: demo_db_def)
  obtain row where row: "stored_rows_from demo_sqlite (show_nat 7) 0 0 [p] = Ok [row]"
    by (simp add: i64_try_from_u64_def i64_max_def)
  have "append_prepared_sqlite_events_once demo_sqlite [show_nat 7] 7 (show_nat 7) NoStream [p] ?w =
    (Ok [committed_envelope demo_sqlite 7 1 1 p], ?w\<lparr>sw_db := (sw_db ?w)\<lparr>db_events := sequenced 1 [row],
      db_next_sequence := 2\<rparr>\<rparr>)"
    by (rule once_runs [OF w(1) empty_max_revision [OF w(1,2)] _ row, where s = 1])
       (use w in \<open>simp_all add: insert_event_rows_def i64_max_def u64_try_from_i64_def\<close>)
  then show ?thesis using append_runs [OF keys _ p] by blast
qed



text \<open>Identifiers whose JSON value is a text, such as a UUID, with one row stored under the quoted text.\<close>

definition tag_codec :: "nat codec" where
  "tag_codec = \<lparr>cd_to_value = (\<lambda>n. if n \<le> u64_max then Ok (JString (show_nat n)) else Err ''number out of range''),
     cd_to_string = (\<lambda>n. if n \<le> u64_max then Ok (quote_mark # escape_text (show_nat n)) else Err ''number out of range''),
     cd_from_str = (\<lambda>t. and_then (cd_from_str string_codec t) parse_u64),
     cd_from_value = (\<lambda>v. and_then (ok_or ''invalid type'' (as_str v)) parse_u64),
     cd_render = cd_render string_codec\<rparr>"

definition tagged_sqlite :: "(string, nat) sqlite_event_store" where
  "tagged_sqlite = demo_sqlite\<lparr>sl_codecs := demo_codecs\<lparr>cx_id := tag_codec\<rparr>\<rparr>"

definition quoted_row :: stored_sqlite_event_row where
  "quoted_row = \<lparr>se_event_id = ''first'', se_aggregate_id = quote_mark # escape_text (show_nat 7),
     se_aggregate_type = ''account'', se_revision = 1, se_sequence = 1, se_event_type = ''Opened'',
     se_event_version = 1, se_payload = quote_mark # escape_text ''zero'', se_metadata = ''{}'',
     se_recorded_at_ms = 0\<rparr>"

definition quoted_db :: sqlite_world where
  "quoted_db = demo_db\<lparr>sw_db := (sw_db demo_db)\<lparr>db_events := [quoted_row], db_next_sequence := 2\<rparr>\<rparr>"

lemma show_nat_unquoted: "show_nat n = c # cs \<Longrightarrow> c \<noteq> quote_mark"
  using show_nat_all_dec [of c n] by (auto simp: quote_mark_def is_dec_def)

lemma tag_codec_keys:
  "serialize_id tag_codec n = (if n \<le> u64_max then Ok (show_nat n)
     else Err (serialization_with_source (''aggregate_id: '' @ ''number out of range'') ''number out of range''))"
  "n \<le> u64_max \<Longrightarrow> aggregate_id_lookup_keys tag_codec n = Ok [show_nat n, quote_mark # escape_text (show_nat n)]"
  "n \<le> u64_max \<Longrightarrow> deserialize_id tag_codec (show_nat n) = Ok n"
proof -
  show ser: "serialize_id tag_codec n = (if n \<le> u64_max then Ok (show_nat n)
     else Err (serialization_with_source (''aggregate_id: '' @ ''number out of range'') ''number out of range''))"
    by (simp add: serialize_id_def tag_codec_def)
  obtain c cs where c: "show_nat n = c # cs" by (cases "show_nat n") auto
  note unq = show_nat_unquoted [OF c]
  then show "n \<le> u64_max \<Longrightarrow> aggregate_id_lookup_keys tag_codec n = Ok [show_nat n, quote_mark # escape_text (show_nat n)]"
    using c by (auto simp: aggregate_id_lookup_keys_def ser) (simp_all add: tag_codec_def)
  show "n \<le> u64_max \<Longrightarrow> deserialize_id tag_codec (show_nat n) = Ok n"
    using parse_unsigned_show_nat [of n u64_max] c unq unescape_escape [of "c # cs"]
    by (simp add: deserialize_id_def tag_codec_def string_codec_def)
qed

lemma tagged_laws: "sql_codecs_laws (sl_codecs tagged_sqlite)" "unupcasted tagged_sqlite"
proof -
  have "serialize_id tag_codec j \<noteq> Ok (quote_mark # escape_text (show_nat n))" for j n
    using show_nat_unquoted [of j] by (auto simp: tag_codec_keys(1))
  moreover have "\<not> n \<le> u64_max \<Longrightarrow> aggregate_id_lookup_keys tag_codec n \<noteq> Ok keys" for n keys
    by (simp add: aggregate_id_lookup_keys_def tag_codec_keys(1))
  then have "aggregate_id_lookup_keys tag_codec n = Ok (k # ks) \<Longrightarrow> l \<in> set ks \<Longrightarrow>
      l = quote_mark # escape_text (show_nat n)" for n k ks l
    using tag_codec_keys(2) [of n] by (cases "n \<le> u64_max") auto
  moreover have "serialize_id tag_codec n = Ok k \<Longrightarrow> deserialize_id tag_codec k = Ok n" for n k
    using tag_codec_keys(3) [of n] by (auto simp: tag_codec_keys(1) split: if_splits)
  ultimately show "sql_codecs_laws (sl_codecs tagged_sqlite)"
    using demo_codecs_laws(1) unfolding sql_codecs_laws_def tagged_sqlite_def
    by (simp add: demo_codecs_def) blast
  show "unupcasted tagged_sqlite" using demo_sqlite_laws(3) by (simp add: tagged_sqlite_def unupcasted_def)
qed

lemma quoted_append_runs: "\<exists>cs w'. sqlite_append tagged_sqlite 7 Any [demo_deposit] quoted_db = (Ok cs, w')"
proof -
  let ?q = "quote_mark # escape_text (show_nat 7)"
  have keys: "aggregate_id_lookup_keys (cx_id (sl_codecs tagged_sqlite)) 7 = Ok [show_nat 7, ?q]"
    by (simp add: tagged_sqlite_def tag_codec_keys(2) u64_max_def)
  let ?w = "quoted_db\<lparr>sw_ticks := 1\<rparr>"
  obtain p where p: "prepare_events tagged_sqlite [demo_deposit] quoted_db = (Ok [p], ?w)"
    and id: "pe_event_id p = EventId (show_nat 0)"
    by (simp add: demo_steps tagged_sqlite_def quoted_db_def prepared_sqlite_event_new_def system_time_to_millis_def
        i64_try_from_u64_def i64_max_def serialize_payload_def serialize_metadata_def string_codec_def
        empty_object_codec_def)
  have w: "sw_faults ?w = []" "sw_db ?w = (sw_db demo_db)\<lparr>db_events := [quoted_row], db_next_sequence := 2\<rparr>"
    by (simp_all add: quoted_db_def demo_db_def)
  have "show_nat 7 \<noteq> ?q" using show_nat_unquoted [of 7] by (cases "show_nat 7") auto
  then have rev: "current_revision_locked tagged_sqlite (show_nat 7) ?w = (Ok 0, ?w)"
    "current_revision_locked tagged_sqlite ?q ?w = (Ok 1, ?w)"
    using w by (simp_all add: current_revision_locked_def demo_steps tagged_sqlite_def quoted_db_def db_stream_def
        quoted_row_def max_revision_def u64_try_from_i64_def)
  obtain row where row: "stored_rows_from tagged_sqlite (show_nat 7) 1 0 [p] = Ok [row]"
    and facts: "se_event_id row = show_nat 0" "se_revision row = 2"
    by (simp add: i64_try_from_u64_def i64_max_def id)
  have "show_nat 0 \<noteq> ''first''" by code_simp
  then have "append_prepared_sqlite_events_once tagged_sqlite [show_nat 7, ?q] 7 (show_nat 7) Any [p] ?w =
    (Ok [committed_envelope tagged_sqlite 7 2 2 p], ?w\<lparr>sw_db := (sw_db ?w)\<lparr>db_events := quoted_row # sequenced 2 [row],
      db_next_sequence := 3\<rparr>\<rparr>)"
    by (intro once_runs [OF w(1) _ _ row, where s = 2])
       (use w rev facts in \<open>simp_all add: max_revision_for_lookup_keys_def try_op_def return_op_def
         insert_event_rows_def i64_max_def u64_try_from_i64_def quoted_row_def stream_key_def numeral_2_eq_2\<close>)
  then show ?thesis using append_runs [OF keys _ p] by blast
qed

text \<open>A load without faults answers with what its rows decode to.\<close>

lemma query_runs:
  "sw_faults w = [] \<Longrightarrow> query_stored_event_rows display q w = (Ok (q (sw_db w)), w)"
  by (cases w) (simp add: query_stored_event_rows_def try_op_def op_map_err_def sql_step_def)


section \<open>Appending under a key\<close>



section \<open>Idempotent execution\<close>


text \<open>An aggregate that accepts any command text that is not empty.\<close>

definition text_aggregate :: "(nat, string, string, string) aggregate" where
  "text_aggregate = \<lparr>agg_aggregate_type = ''account'', agg_new = 0, agg_apply = (\<lambda>n _. n + 1),
     agg_handle = (\<lambda>n cmd. if cmd = [] then Err ''empty'' else Ok [cmd]),
     agg_event = \<lparr>de_event_type = (\<lambda>_. ''said''), de_event_version = (\<lambda>_. 1)\<rparr>\<rparr>"


section \<open>Snapshots\<close>

lemma upsert_snapshot_cases:
  assumes "upsert_snapshot key row db = (r, db')"
  obtains (kept) old where "r = Ok 0" "db' = db" "map_of (db_snapshots db) key = Some old"
      "nr_revision row < nr_revision old"
  | (written) "r = Ok 1" "map_of (db_snapshots db') = (map_of (db_snapshots db))(key \<mapsto> row)"
      "\<And>old. map_of (db_snapshots db) key = Some old \<Longrightarrow> nr_revision old \<le> nr_revision row"
  using assms by (auto simp: upsert_snapshot_def update_conv' split: option.splits if_splits)

definition snapshot_revision :: "sqlite_world \<Rightarrow> string \<times> string \<Rightarrow> int option" where
  "snapshot_revision w key = map_option nr_revision (map_of (db_snapshots (sw_db w)) key)"

lemma snapshot_revision_db: "sw_db w' = sw_db w \<Longrightarrow> snapshot_revision w' = snapshot_revision w"
  by (simp add: snapshot_revision_def fun_eq_iff)

text \<open>C10: SQLite snapshots never move back, and the newest one is read back.  Whatever the driver
  answers, no stored snapshot gets an older revision; and once a save has reported success, a load
  that succeeds finds that snapshot, with its timestamp at whole milliseconds.\<close>

theorem sqlite_snapshot_save_load:
  assumes laws: "\<forall>s t. cd_to_string (sq_state sq) s = Ok t \<longrightarrow> cd_from_str (sq_state sq) t = Ok s"
      "\<forall>m t. cd_to_string (sq_metadata sq) m = Ok t \<longrightarrow> cd_from_str (sq_metadata sq) t = Ok m"
      "\<forall>k. serialize_id I (sn_aggregate_id s) = Ok k \<longrightarrow> deserialize_id I k = Ok (sn_aggregate_id s)"
    and run: "sqlite_save_snapshot sq I s w = (r, w')"
  shows "(\<forall>key z. snapshot_revision w key = Some z \<longrightarrow>
      (\<exists>z'. snapshot_revision w' key = Some z' \<and> z \<le> z')) \<and>
    (r = Ok () \<longrightarrow> (\<forall>w2 found w3. sw_db w2 = sw_db w' \<longrightarrow>
       sqlite_load_snapshot sq I (sn_aggregate_id s) w2 = (Ok found, w3) \<longrightarrow>
       found = Some (s\<lparr>sn_aggregate_type := sq_aggregate_type sq,
         sn_recorded_at := sn_recorded_at s - sn_recorded_at s mod 1000000\<rparr>)))"
proof (cases "sw_db w' = sw_db w \<and> r \<noteq> Ok ()")
  case True
  then show ?thesis using snapshot_revision_db [of w' w] by auto
next
  case False
  let ?err = "map_sqlite_error (sq_display sq)"
  obtain k where k: "serialize_id I (sn_aggregate_id s) = Ok k"
    using run False by (cases "serialize_id I (sn_aggregate_id s)")
      (auto simp: sqlite_save_snapshot_def try_op_def return_op_def)
  obtain z where z: "i64_try_from_u64 (sn_revision s) = Some z"
    using run False k by (cases "i64_try_from_u64 (sn_revision s)")
      (auto simp: sqlite_save_snapshot_def try_op_def return_op_def)
  obtain t where t: "cd_to_string (sq_state sq) (sn_state s) = Ok t"
    using run False k z by (cases "cd_to_string (sq_state sq) (sn_state s)")
      (auto simp: sqlite_save_snapshot_def try_op_def return_op_def)
  obtain m where m: "cd_to_string (sq_metadata sq) (sn_metadata s) = Ok m"
    using run False k z t by (cases "cd_to_string (sq_metadata sq) (sn_metadata s)")
      (auto simp: sqlite_save_snapshot_def try_op_def return_op_def)
  obtain ms where ms: "system_time_to_millis (sq_earlier sq) (sn_recorded_at s) = Ok ms"
    using run False k z t m by (cases "system_time_to_millis (sq_earlier sq) (sn_recorded_at s)")
      (auto simp: sqlite_save_snapshot_def try_op_def return_op_def)
  let ?key = "(sq_aggregate_type sq, k)"
  let ?row = "\<lparr>nr_revision = z, nr_state = t, nr_metadata = m, nr_recorded_at_ms = ms\<rparr>"
  obtain c w1 where c: "op_map_err ?err (sql_step (upsert_snapshot ?key ?row)) w = (c, w1)" by (meson surj_pair)
  show ?thesis
  proof (cases c)
    case (Inl e)
    then have "r = Inl e" "sw_db w' = sw_db w" using run k z t m ms c
      by (auto simp: sqlite_save_snapshot_def try_op_def return_op_def op_map_err_def sql_step_def
          upsert_snapshot_def split: prod.splits list.splits option.splits if_splits)
    then show ?thesis using False by simp
  next
    case (Inr n)
    then have "upsert_snapshot ?key ?row (sw_db w) = (Ok n, sw_db w1)"
      using c by (auto simp: result_simps dest: sql_step_Ok)
    then show ?thesis
    proof (cases rule: upsert_snapshot_cases)
      case (kept old)
      let ?select = "op_map_err ?err (sql_step (\<lambda>db. (Ok (map_option nr_revision (map_of (db_snapshots db) ?key)), db)))"
      obtain d w2 where d: "?select w1 = (d, w2)" by (meson surj_pair)
      have same: "sw_db w2 = sw_db w" using kept d
        by (auto simp: op_map_err_def sql_step_def split: prod.splits list.splits option.splits)
      have zint: "z = int (sn_revision s)" using z by (auto simp: i64_try_from_u64_def split: if_splits)
      have selected: "d = Inr q \<Longrightarrow> q = Some (nr_revision old)" for q
        using d kept by (auto simp: result_simps dest!: sql_step_Ok)
      have n: "n = 0" using kept(1) by simp
      have step: "try_op (op_map_err ?err (sql_step (upsert_snapshot ?key ?row))) K w = K n w1" for K
        using c Inr by (simp add: try_op_def)
      have run2: "(r, w') = try_op ?select (\<lambda>current. case current of
             None \<Rightarrow> return_op (Ok ())
           | Some current \<Rightarrow>
               try_op (return_op (ok_or (error_deserialization ''SQLite snapshot revision cannot be negative'')
                 (u64_try_from_i64 current))) (\<lambda>current.
               if sn_revision s < current
               then return_op (Err (stale_snapshot_revision_error (sn_revision s) current))
               else return_op (Ok ()))) w1"
        using run n by (simp add: sqlite_save_snapshot_def k z t m ms step try_op_return eq_commute [of "(r, w')"])
      have newer: "u64_try_from_i64 (nr_revision old) = Some (nat (nr_revision old))"
        "sn_revision s < nat (nr_revision old)"
        using kept(4) zint by (simp_all add: u64_try_from_i64_def)
      have "w' = w2 \<and> r \<noteq> Ok ()"
      proof (cases d)
        case (Inl e)
        then show ?thesis using run2 d by (simp add: try_op_def)
      next
        case (Inr q)
        have "q = Some (nr_revision old)" by (rule selected) (rule Inr)
        then show ?thesis using run2 d newer unfolding Inr
          by (simp add: try_op_def [of ?select] try_op_return return_op_def)
      qed
      then show ?thesis using same False by simp
    next
      case written
      then have done': "r = Ok ()" "w' = w1" using run k z t m ms c Inr
        by (simp_all add: sqlite_save_snapshot_def try_op_def return_op_def)
      have mono: "\<exists>z'. snapshot_revision w' key = Some z' \<and> y \<le> z'" if "snapshot_revision w key = Some y" for key y
        using that written done'(2) by (auto simp: snapshot_revision_def)
      have "found = Some (s\<lparr>sn_aggregate_type := sq_aggregate_type sq,
         sn_recorded_at := sn_recorded_at s - sn_recorded_at s mod 1000000\<rparr>)"
        if db: "sw_db w2 = sw_db w'" and load: "sqlite_load_snapshot sq I (sn_aggregate_id s) w2 = (Ok found, w3)"
        for w2 found w3
      proof -
        have row: "map_of (db_snapshots (sw_db w2)) ?key = Some ?row" using written db done'(2) by simp
        have "u64_try_from_i64 z = Some (sn_revision s)" using u64_i64_roundtrip [OF z] .
        moreover have "deserialize_id I k = Ok (sn_aggregate_id s)" using laws(3) k by blast
        moreover have "millis_to_system_time ms = Ok (sn_recorded_at s - sn_recorded_at s mod 1000000)"
          using system_time_roundtrip [OF ms] by simp
        ultimately show ?thesis
          using load k row laws(1,2) t m
          by (auto simp: sqlite_load_snapshot_def result_simps dest!: sql_step_Ok)
      qed
      then show ?thesis using mono by blast
    qed
  qed
qed

definition demo_snapshot :: "(string, nat) snapshot" where
  "demo_snapshot = \<lparr>sn_aggregate_id = 7, sn_aggregate_type = ''account'', sn_revision = 3,
     sn_state = ''state'', sn_metadata = metadata_new, sn_recorded_at = 0\<rparr>"

theorem sqlite_snapshot_save_load_witness:
  "\<exists>r w'. sqlite_save_snapshot \<lparr>sq_aggregate_type = ''account'', sq_state = string_codec,
        sq_metadata = empty_object_codec, sq_earlier = sl_earlier demo_sqlite, sq_display = sl_display demo_sqlite\<rparr>
      nat_codec demo_snapshot
      (demo_db\<lparr>sw_db := (sw_db demo_db)\<lparr>db_snapshots := [((''account'', show_nat 7),
         \<lparr>nr_revision = 2, nr_state = ''s'', nr_metadata = ''{}'', nr_recorded_at_ms = 0\<rparr>)]\<rparr>\<rparr>) = (r, w') \<and>
    (\<exists>z. snapshot_revision w' (''account'', show_nat 7) = Some z \<and> 2 \<le> z)"
proof -
  let ?sq = "\<lparr>sq_aggregate_type = ''account'', sq_state = string_codec, sq_metadata = empty_object_codec,
    sq_earlier = sl_earlier demo_sqlite, sq_display = sl_display demo_sqlite\<rparr>"
  let ?w = "demo_db\<lparr>sw_db := (sw_db demo_db)\<lparr>db_snapshots := [((''account'', show_nat 7),
         \<lparr>nr_revision = 2, nr_state = ''s'', nr_metadata = ''{}'', nr_recorded_at_ms = 0\<rparr>)]\<rparr>\<rparr>"
  obtain r w' where run: "sqlite_save_snapshot ?sq nat_codec demo_snapshot ?w = (r, w')" by (meson surj_pair)
  have laws: "\<forall>s t. cd_to_string (sq_state ?sq) s = Ok t \<longrightarrow> cd_from_str (sq_state ?sq) t = Ok s"
    "\<forall>m t. cd_to_string (sq_metadata ?sq) m = Ok t \<longrightarrow> cd_from_str (sq_metadata ?sq) t = Ok m"
    "\<forall>k. serialize_id nat_codec (sn_aggregate_id demo_snapshot) = Ok k \<longrightarrow> deserialize_id nat_codec k = Ok (sn_aggregate_id demo_snapshot)"
    using nat_codec_reads
    by (auto simp: string_codec_def unescape_escape empty_object_codec_def nat_codec_keys demo_snapshot_def split: if_splits)
  have "snapshot_revision ?w (''account'', show_nat 7) = Some 2" by (simp add: snapshot_revision_def)
  then show ?thesis using sqlite_snapshot_save_load [OF laws run] run by blast
qed

end
