(* ===== verification/Redis_Protocol.thy ===== *)
theory Redis_Protocol
  imports Json_Value
begin

text \<open>
  The wire protocol of \<open>src/redis.rs\<close>: reply values, the encoding of a command, the reader of replies
  with its limits, the address of a URL and its redaction.  A byte is a \<open>char\<close>.  A connection is the
  bytes that still arrive and how they end: closed, or with a read error.
\<close>

section \<open>UTF-8\<close>

text \<open>
  \<open>String::from_utf8\<close>: the length of the character at the head, or what is wrong with it: an invalid
  sequence of some bytes, or an incomplete one.
\<close>

definition is_cont :: "nat \<Rightarrow> bool" where
  "is_cont b \<longleftrightarrow> 128 \<le> b \<and> b \<le> 191"

fun conts :: "nat \<Rightarrow> nat \<Rightarrow> nat list \<Rightarrow> nat option + nat" where
  "conts seen 0 bs = Ok seen"
| "conts seen (Suc n) [] = Err None"
| "conts seen (Suc n) (b # bs) = (if is_cont b then conts (seen + 1) n bs else Err (Some seen))"

definition utf8_step :: "nat list \<Rightarrow> nat option + nat" where
  "utf8_step bs = (case bs of [] \<Rightarrow> Ok 0 | b # r \<Rightarrow>
     let second = (\<lambda>lo hi more. case r of
           [] \<Rightarrow> Err None
         | c # r2 \<Rightarrow> if lo \<le> c \<and> c \<le> hi then conts 2 more r2 else Err (Some 1))
     in if b < 128 then Ok 1
        else if 194 \<le> b \<and> b \<le> 223 then second 128 191 0
        else if b = 224 then second 160 191 1
        else if b = 237 then second 128 159 1
        else if 225 \<le> b \<and> b \<le> 239 then second 128 191 1
        else if b = 240 then second 144 191 2
        else if 241 \<le> b \<and> b \<le> 243 then second 128 191 2
        else if b = 244 then second 128 143 2
        else Err (Some 1))"

fun utf8_error :: "nat \<Rightarrow> nat \<Rightarrow> nat list \<Rightarrow> (nat \<times> nat option) option" where
  "utf8_error i 0 [] = None"
| "utf8_error i (Suc skip) [] = None"
| "utf8_error i (Suc skip) (b # bs) = utf8_error (i + 1) skip bs"
| "utf8_error i 0 (b # bs) = (case utf8_step (b # bs) of
      Inl e \<Rightarrow> Some (i, e)
    | Inr n \<Rightarrow> utf8_error (i + 1) (n - 1) bs)"

definition from_utf8 :: "string \<Rightarrow> string + string" where
  "from_utf8 s = (case utf8_error 0 0 (map of_char s) of
      None \<Rightarrow> Ok s
    | Some (i, Some n) \<Rightarrow> Err (''invalid utf-8 sequence of '' @ show_nat n @ '' bytes from index '' @ show_nat i)
    | Some (i, None) \<Rightarrow> Err (''incomplete utf-8 byte sequence from index '' @ show_nat i))"

lemma utf8_error_ascii: "\<forall>b\<in>set bs. b < 128 \<Longrightarrow> utf8_error i 0 bs = None"
  by (induction bs arbitrary: i) (auto simp: utf8_step_def)

lemma from_utf8_ascii: "\<forall>c\<in>set s. of_char c < (128::nat) \<Longrightarrow> from_utf8 s = Ok s"
  by (simp add: from_utf8_def utf8_error_ascii)

lemma from_utf8_Ok: "from_utf8 s = Ok t \<Longrightarrow> t = s"
  by (auto simp: from_utf8_def split: option.splits)

section \<open>Values and errors\<close>

datatype redis_value =
    NilValue
  | Status string
  | Integer int
  | Bytes string
  | Array "redis_value list"

datatype redis_client_error =
    InvalidUrl string
  | Io string
  | Timeout
  | RedisError string
  | Protocol string
  | ConnectionDesynced string

fun display_redis_client_error :: "redis_client_error \<Rightarrow> string" where
  "display_redis_client_error (InvalidUrl message) = ''invalid Redis URL: '' @ message"
| "display_redis_client_error (Io message) = ''Redis I/O error: '' @ message"
| "display_redis_client_error Timeout = ''Redis read timed out''"
| "display_redis_client_error (RedisError message) = ''Redis error: '' @ message"
| "display_redis_client_error (Protocol message) = ''Redis protocol error: '' @ message"
| "display_redis_client_error (ConnectionDesynced message) = ''Redis connection desynced: '' @ message"

definition LF :: char where "LF = CHR 0x0A"
definition CRLF :: string where "CRLF = [CHR 0x0D, CHR 0x0A]"

definition show_int :: "int \<Rightarrow> string" where
  "show_int z = (if z < 0 then CHR ''-'' # show_nat (nat (- z)) else show_nat (nat z))"

section \<open>Commands\<close>

definition push_bulk :: "string \<Rightarrow> string" where
  "push_bulk bytes = ''$'' @ show_nat (length bytes) @ CRLF @ bytes @ CRLF"

definition encode_resp_command :: "string \<Rightarrow> string list \<Rightarrow> string" where
  "encode_resp_command command args =
     ''*'' @ show_nat (length args + 1) @ CRLF @ push_bulk command @ concat (map push_bulk args)"

section \<open>Replies\<close>

definition MAX_RESP_BULK_BYTES :: nat where "MAX_RESP_BULK_BYTES = 64 * 1024 * 1024"
definition MAX_RESP_LINE_BYTES :: nat where "MAX_RESP_LINE_BYTES = 1024 * 1024"
definition MAX_RESP_ARRAY_LEN :: nat where "MAX_RESP_ARRAY_LEN = 1000000"
definition MAX_RESP_DEPTH :: nat where "MAX_RESP_DEPTH = 32"

text \<open>The bytes still to arrive; after them the peer has closed, or a read fails.\<close>

record reader =
  rd_bytes :: string
  rd_end :: "redis_client_error option"

definition read_exact :: "nat \<Rightarrow> (reader, redis_client_error + string) op" where
  "read_exact n rd =
     (if n \<le> length (rd_bytes rd)
      then (Ok (take n (rd_bytes rd)), rd\<lparr>rd_bytes := drop n (rd_bytes rd)\<rparr>)
      else (Err (case rd_end rd of None \<Rightarrow> Io ''failed to fill whole buffer'' | Some e \<Rightarrow> e),
        rd\<lparr>rd_bytes := []\<rparr>))"

text \<open>\<open>take(limit).read_until(newline)\<close>: up to and with the newline, at most \<open>limit\<close> bytes.\<close>

definition read_until_newline :: "nat \<Rightarrow> (reader, redis_client_error + string) op" where
  "read_until_newline limit rd =
     (let bs = rd_bytes rd; before = takeWhile (\<lambda>c. c \<noteq> LF) bs
      in if limit \<le> length before then (Ok (take limit bs), rd\<lparr>rd_bytes := drop limit bs\<rparr>)
         else (case dropWhile (\<lambda>c. c \<noteq> LF) bs of
             c # rest \<Rightarrow> (Ok (before @ [c]), rd\<lparr>rd_bytes := rest\<rparr>)
           | [] \<Rightarrow> ((case rd_end rd of None \<Rightarrow> Ok before | Some e \<Rightarrow> Err e), rd\<lparr>rd_bytes := []\<rparr>)))"

definition ends_with_crlf :: "string \<Rightarrow> bool" where
  "ends_with_crlf line \<longleftrightarrow> 2 \<le> length line \<and> drop (length line - 2) line = CRLF"

definition read_resp_line :: "(reader, redis_client_error + string) op" where
  "read_resp_line =
     try_op (read_until_newline (MAX_RESP_LINE_BYTES + 1)) (\<lambda>line.
     if length line > MAX_RESP_LINE_BYTES
       then return_op (Err (Protocol ''RESP line exceeds the maximum length''))
     else if \<not> ends_with_crlf line
       then return_op (Err (Protocol ''RESP line did not end with CRLF''))
     else return_op (map_err (\<lambda>error. Protocol (''RESP line UTF-8: '' @ error))
       (from_utf8 (take (length line - 2) line))))"

definition read_expected_crlf :: "(reader, redis_client_error + unit) op" where
  "read_expected_crlf =
     try_op (read_exact 2) (\<lambda>crlf.
       return_op (if crlf = CRLF then Ok () else Err (Protocol ''bulk string did not end with CRLF'')))"

text \<open>The loop over the elements of an array.\<close>

fun read_many :: "nat \<Rightarrow> (reader, redis_client_error + 'a) op \<Rightarrow> (reader, redis_client_error + 'a list) op" where
  "read_many 0 f = return_op (Ok [])"
| "read_many (Suc n) f =
     try_op f (\<lambda>value. try_op (read_many n f) (\<lambda>values. return_op (Ok (value # values))))"

text \<open>\<open>levels\<close> counts down from \<open>MAX_RESP_DEPTH\<close> where the code counts \<open>depth\<close> up.\<close>

fun read_resp_value_at_depth :: "nat \<Rightarrow> (reader, redis_client_error + redis_value) op" where
  "read_resp_value_at_depth 0 =
     return_op (Err (Protocol (''RESP nesting exceeds '' @ show_nat MAX_RESP_DEPTH @ '' levels'')))"
| "read_resp_value_at_depth (Suc levels) =
     try_op (read_exact 1) (\<lambda>prefix.
     if hd prefix = CHR ''+'' then try_op read_resp_line (\<lambda>line. return_op (Ok (Status line)))
     else if hd prefix = CHR ''-'' then try_op read_resp_line (\<lambda>line. return_op (Err (RedisError line)))
     else if hd prefix = CHR '':'' then
       try_op read_resp_line (\<lambda>line.
       try_op (return_op (map_err (\<lambda>error. Protocol (''invalid integer `'' @ line @ ''`: '' @ error)) (parse_i64 line)))
         (\<lambda>z. return_op (Ok (Integer z))))
     else if hd prefix = CHR ''$'' then
       try_op read_resp_line (\<lambda>line.
       try_op (return_op (map_err (\<lambda>error. Protocol (''invalid bulk length `'' @ line @ ''`: '' @ error)) (parse_i64 line)))
         (\<lambda>len.
         if len < 0 then return_op (Ok NilValue)
         else if nat len > MAX_RESP_BULK_BYTES
           then return_op (Err (Protocol (''bulk reply of '' @ show_nat (nat len) @ '' bytes exceeds the '' @
             show_nat MAX_RESP_BULK_BYTES @ '' byte limit'')))
         else try_op (read_exact (nat len)) (\<lambda>bytes.
           try_op read_expected_crlf (\<lambda>_. return_op (Ok (Bytes bytes))))))
     else if hd prefix = CHR ''*'' then
       try_op read_resp_line (\<lambda>line.
       try_op (return_op (map_err (\<lambda>error. Protocol (''invalid array length `'' @ line @ ''`: '' @ error)) (parse_i64 line)))
         (\<lambda>len.
         if len < 0 then return_op (Ok NilValue)
         else if nat len > MAX_RESP_ARRAY_LEN
           then return_op (Err (Protocol (''array reply of '' @ show_nat (nat len) @ '' elements exceeds the '' @
             show_nat MAX_RESP_ARRAY_LEN @ '' element limit'')))
         else try_op (read_many (nat len) (read_resp_value_at_depth levels)) (\<lambda>values.
           return_op (Ok (Array values)))))
     else return_op (Err (Protocol (''unknown RESP prefix byte `'' @ show_nat (of_char (hd prefix)) @ ''`''))))"

definition read_resp_value :: "(reader, redis_client_error + redis_value) op" where
  "read_resp_value = read_resp_value_at_depth MAX_RESP_DEPTH"

text \<open>What a server sends for a value.\<close>

fun resp_reply :: "redis_value \<Rightarrow> string" where
  "resp_reply NilValue = ''$-1'' @ CRLF"
| "resp_reply (Status s) = ''+'' @ s @ CRLF"
| "resp_reply (Integer z) = '':'' @ show_int z @ CRLF"
| "resp_reply (Bytes bytes) = push_bulk bytes"
| "resp_reply (Array values) = ''*'' @ show_nat (length values) @ CRLF @ concat (map resp_reply values)"

text \<open>The limits of the reader, on a value at most \<open>levels\<close> deep.\<close>

fun resp_readable :: "nat \<Rightarrow> redis_value \<Rightarrow> bool" where
  "resp_readable levels NilValue \<longleftrightarrow> 0 < levels"
| "resp_readable levels (Status s) \<longleftrightarrow>
     0 < levels \<and> LF \<notin> set s \<and> length s + 2 \<le> MAX_RESP_LINE_BYTES \<and> from_utf8 s = Ok s"
| "resp_readable levels (Integer z) \<longleftrightarrow> 0 < levels \<and> - int i64_max - 1 \<le> z \<and> z \<le> int i64_max"
| "resp_readable levels (Bytes bytes) \<longleftrightarrow> 0 < levels \<and> length bytes \<le> MAX_RESP_BULK_BYTES"
| "resp_readable levels (Array values) \<longleftrightarrow> 0 < levels \<and> length values \<le> MAX_RESP_ARRAY_LEN \<and>
     (\<forall>v\<in>set values. resp_readable (levels - 1) v)"

lemma read_line_crlf:
  assumes "LF \<notin> set line" "length line + 2 \<le> MAX_RESP_LINE_BYTES" "from_utf8 line = Ok line"
  shows "read_resp_line (rd\<lparr>rd_bytes := line @ CRLF @ rest\<rparr>) = (Ok line, rd\<lparr>rd_bytes := rest\<rparr>)"
proof -
  have tw: "takeWhile (\<lambda>c. c \<noteq> LF) (line @ CRLF @ rest) = line @ [CHR 0x0D]"
    and dw: "dropWhile (\<lambda>c. c \<noteq> LF) (line @ CRLF @ rest) = LF # rest"
    using assms(1) by (induction line) (auto simp: CRLF_def LF_def)
  have "read_until_newline (MAX_RESP_LINE_BYTES + 1) (rd\<lparr>rd_bytes := line @ CRLF @ rest\<rparr>) =
      (Ok (line @ CRLF), rd\<lparr>rd_bytes := rest\<rparr>)"
    using assms(2) unfolding read_until_newline_def by (simp add: tw dw Let_def) (simp add: CRLF_def LF_def)
  moreover have "ends_with_crlf (line @ CRLF)" "take (length (line @ CRLF) - 2) (line @ CRLF) = line"
    "length (line @ CRLF) \<le> MAX_RESP_LINE_BYTES"
    using assms(2) by (simp_all add: ends_with_crlf_def CRLF_def)
  ultimately show ?thesis using assms(3)
    by (simp add: read_resp_line_def try_op_def return_op_def)
qed

lemma is_dec_ascii: "is_dec c \<Longrightarrow> of_char c < (128::nat) \<and> c \<noteq> LF"
  by (auto simp: is_dec_def LF_def)

lemma length_show_nat: "n < 10 ^ k \<Longrightarrow> 0 < k \<Longrightarrow> length (show_nat n) \<le> k"
proof (induction k arbitrary: n)
  case (Suc k)
  show ?case
  proof (cases "n < 10")
    case False
    then have "k \<noteq> 0" using Suc.prems by (cases k) auto
    moreover have "n div 10 < 10 ^ k" using Suc.prems(1) by (simp add: less_mult_imp_div_less mult.commute)
    ultimately have "length (show_nat (n div 10)) \<le> k" using Suc.IH by simp
    then show ?thesis using False by (subst radix.simps) simp
  qed (subst radix.simps, simp)
qed simp

lemma read_line_show_nat:
  assumes "n \<le> i64_max"
  shows "read_resp_line (rd\<lparr>rd_bytes := show_nat n @ CRLF @ rest\<rparr>) = (Ok (show_nat n), rd\<lparr>rd_bytes := rest\<rparr>)"
proof (rule read_line_crlf)
  have "n < 10 ^ 20" using assms by (simp add: i64_max_def)
  then show "length (show_nat n) + 2 \<le> MAX_RESP_LINE_BYTES"
    using length_show_nat [of n 20] by (simp add: MAX_RESP_LINE_BYTES_def)
  show "LF \<notin> set (show_nat n)" "from_utf8 (show_nat n) = Ok (show_nat n)"
    using is_dec_ascii show_nat_all_dec by (blast, intro from_utf8_ascii, blast)
qed

lemma read_prefix: "read_exact (Suc 0) (rd\<lparr>rd_bytes := c # bs\<rparr>) = (Ok [c], rd\<lparr>rd_bytes := bs\<rparr>)"
  by (simp add: read_exact_def)

lemma read_bulk:
  assumes "length bytes \<le> MAX_RESP_BULK_BYTES"
  shows "read_resp_value_at_depth (Suc levels) (rd\<lparr>rd_bytes := push_bulk bytes @ rest\<rparr>) =
    (Ok (Bytes bytes), rd\<lparr>rd_bytes := rest\<rparr>)"
proof -
  have le: "length bytes \<le> i64_max" using assms by (simp add: MAX_RESP_BULK_BYTES_def i64_max_def)
  have body: "read_exact (length bytes) (rd\<lparr>rd_bytes := bytes @ CRLF @ rest\<rparr>) =
      (Ok bytes, rd\<lparr>rd_bytes := CRLF @ rest\<rparr>)"
    by (simp add: read_exact_def)
  have tail: "read_expected_crlf (rd\<lparr>rd_bytes := CRLF @ rest\<rparr>) = (Ok (), rd\<lparr>rd_bytes := rest\<rparr>)"
    by (simp add: read_expected_crlf_def read_exact_def try_op_def return_op_def CRLF_def)
  show ?thesis using assms
    by (simp add: push_bulk_def try_op_def return_op_def read_prefix read_line_show_nat [OF le]
        parse_i64_show_nat [OF le] body tail)
qed

lemma show_int_line:
  assumes "- int i64_max - 1 \<le> z" "z \<le> int i64_max"
  shows "read_resp_line (rd\<lparr>rd_bytes := show_int z @ CRLF @ rest\<rparr>) = (Ok (show_int z), rd\<lparr>rd_bytes := rest\<rparr>)"
    and "parse_i64 (show_int z) = Ok z"
proof -
  have len: "length (show_int z) \<le> 21" "\<forall>c\<in>set (show_int z). of_char c < (128::nat) \<and> c \<noteq> LF"
  proof -
    have "nat \<bar>z\<bar> < 10 ^ 20" using assms by (simp add: i64_max_def)
    then have "length (show_nat (nat \<bar>z\<bar>)) \<le> 20" by (rule length_show_nat) simp
    then show "length (show_int z) \<le> 21" by (cases "z < 0") (simp_all add: show_int_def)
    show "\<forall>c\<in>set (show_int z). of_char c < (128::nat) \<and> c \<noteq> LF"
      using is_dec_ascii show_nat_all_dec by (auto simp: show_int_def LF_def)
  qed
  then show "read_resp_line (rd\<lparr>rd_bytes := show_int z @ CRLF @ rest\<rparr>) = (Ok (show_int z), rd\<lparr>rd_bytes := rest\<rparr>)"
    by (intro read_line_crlf from_utf8_ascii) (auto simp: MAX_RESP_LINE_BYTES_def)
  show "parse_i64 (show_int z) = Ok z"
  proof (cases "z < 0")
    case True
    then have "nat (- z) \<le> i64_max + 1" using assms(1) by simp
    from parse_digits_show_nat [OF this] show ?thesis using True
      by (simp add: show_int_def parse_i64_def)
  next
    case False
    then show ?thesis using parse_i64_show_nat [of "nat z"] assms(2) by (simp add: show_int_def)
  qed
qed

text \<open>Every value within the limits is read from its bytes, and the bytes behind it are left.\<close>

lemma read_many_concat:
  assumes "\<And>x rd rest. x \<in> set xs \<Longrightarrow> f (rd\<lparr>rd_bytes := enc x @ rest\<rparr>) = (Ok (g x), rd\<lparr>rd_bytes := rest\<rparr>)"
  shows "read_many (length xs) f (rd\<lparr>rd_bytes := concat (map enc xs) @ rest\<rparr>) =
    (Ok (map g xs), rd\<lparr>rd_bytes := rest\<rparr>)"
  using assms by (induction xs) (simp_all add: try_op_def return_op_def)

lemma read_reply:
  "resp_readable levels v \<Longrightarrow>
   read_resp_value_at_depth levels (rd\<lparr>rd_bytes := resp_reply v @ rest\<rparr>) = (Ok v, rd\<lparr>rd_bytes := rest\<rparr>)"
proof (induction v arbitrary: levels rd rest)
  case NilValue
  have line: "read_resp_line (rd\<lparr>rd_bytes := ''-1'' @ CRLF @ rest\<rparr>) = (Ok ''-1'', rd\<lparr>rd_bytes := rest\<rparr>)"
    by (intro read_line_crlf from_utf8_ascii) (auto simp: LF_def MAX_RESP_LINE_BYTES_def)
  have "parse_i64 ''-1'' = Ok (- 1)" by (simp add: parse_i64_def is_dec_def dec_val_def i64_max_def)
  then show ?case using NilValue line by (cases levels) (auto simp: try_op_def return_op_def read_prefix)
next
  case (Status s)
  then have "read_resp_line (rd\<lparr>rd_bytes := s @ CRLF @ rest\<rparr>) = (Ok s, rd\<lparr>rd_bytes := rest\<rparr>)"
    by (intro read_line_crlf) auto
  then show ?case using Status by (cases levels) (auto simp: try_op_def return_op_def read_prefix)
next
  case (Integer z)
  then show ?case using show_int_line(1) [where z = z and rd = rd and rest = rest] show_int_line(2) [of z]
    by (cases levels) (auto simp: try_op_def return_op_def read_prefix)
next
  case (Bytes bytes)
  then show ?case using read_bulk [where bytes = bytes and levels = "levels - 1" and rd = rd and rest = rest] by (cases levels) auto
next
  case (Array vs)
  then obtain l where l: "levels = Suc l" by (cases levels) auto
  have le: "length vs \<le> i64_max" using Array.prems by (simp add: MAX_RESP_ARRAY_LEN_def i64_max_def)
  have "read_many (length vs) (read_resp_value_at_depth l) (rd\<lparr>rd_bytes := concat (map resp_reply vs) @ rest\<rparr>) =
      (Ok (map (\<lambda>v. v) vs), rd\<lparr>rd_bytes := rest\<rparr>)"
    using Array l by (intro read_many_concat) auto
  then show ?case using Array.prems read_line_show_nat [OF le] parse_i64_show_nat [OF le]
    by (simp add: l try_op_def return_op_def read_prefix)
qed

text \<open>A command is read as the array of its name and its arguments, whatever bytes they hold.\<close>

lemma encode_resp_command_reply:
  "encode_resp_command command args = resp_reply (Array (Bytes command # map Bytes args))"
proof -
  have "concat (map push_bulk args) = concat (map resp_reply (map Bytes args))" by (induction args) auto
  then show ?thesis by (simp add: encode_resp_command_def)
qed

text \<open>C14: RESP framing.  What the client writes for a command is read back, by the reader of the same
  file, as the array of the command's name and its arguments, whatever bytes the arguments hold, line
  ends included, and the bytes that follow are left for the next read; and every reply within the
  reader's limits is read as the value the server sent.\<close>

theorem resp_framing:
  assumes "length args < MAX_RESP_ARRAY_LEN" "\<forall>a\<in>set (command # args). length a \<le> MAX_RESP_BULK_BYTES"
    and "resp_readable MAX_RESP_DEPTH v"
  shows "read_resp_value \<lparr>rd_bytes = encode_resp_command command args @ rest, rd_end = e\<rparr> =
      (Ok (Array (Bytes command # map Bytes args)), \<lparr>rd_bytes = rest, rd_end = e\<rparr>) \<and>
    read_resp_value \<lparr>rd_bytes = resp_reply v @ rest, rd_end = e\<rparr> = (Ok v, \<lparr>rd_bytes = rest, rd_end = e\<rparr>)"
proof -
  have "resp_readable MAX_RESP_DEPTH (Array (Bytes command # map Bytes args))"
    using assms(1,2) by (auto simp: MAX_RESP_DEPTH_def)
  from read_reply [OF this, where rd = "\<lparr>rd_bytes = rest, rd_end = e\<rparr>" and rest = rest]
    read_reply [OF assms(3), where rd = "\<lparr>rd_bytes = rest, rd_end = e\<rparr>" and rest = rest]
  show ?thesis by (simp add: read_resp_value_def encode_resp_command_reply)
qed

theorem resp_framing_witness:
  "read_resp_value \<lparr>rd_bytes = encode_resp_command ''SET'' [CRLF, ''$1''] @ ''+OK'', rd_end = None\<rparr> =
    (Ok (Array [Bytes ''SET'', Bytes CRLF, Bytes ''$1'']), \<lparr>rd_bytes = ''+OK'', rd_end = None\<rparr>)"
proof -
  have "read_resp_value \<lparr>rd_bytes = encode_resp_command ''SET'' [CRLF, ''$1''] @ ''+OK'', rd_end = None\<rparr> =
      (Ok (Array (Bytes ''SET'' # map Bytes [CRLF, ''$1''])), \<lparr>rd_bytes = ''+OK'', rd_end = None\<rparr>) \<and>
    read_resp_value \<lparr>rd_bytes = resp_reply (Array [Integer (- 3), NilValue]) @ ''+OK'', rd_end = None\<rparr> =
      (Ok (Array [Integer (- 3), NilValue]), \<lparr>rd_bytes = ''+OK'', rd_end = None\<rparr>)"
    by (rule resp_framing)
      (auto simp: MAX_RESP_ARRAY_LEN_def MAX_RESP_BULK_BYTES_def MAX_RESP_DEPTH_def CRLF_def i64_max_def)
  then show ?thesis by simp
qed

end
