(* ===== verification/Redis_Client.thy ===== *)
theory Redis_Client
  imports Redis_Protocol
begin

text \<open>
  \<open>WasiRedisClient\<close> of \<open>src/redis.rs\<close>: the address of a URL and its redaction, the policy of a
  connection, and a command over a cached or a fresh connection.  The network gives each connect, write
  and read its next outcome from a list, and the server is a function of the command; the theorem is
  that a command reaches the server at most once and that a result is its own reply.
\<close>

section \<open>Addresses\<close>

text \<open>\<open>split_once\<close> and \<open>rsplit_once\<close> at a character, and \<open>find\<close> of a text.\<close>

fun split_once :: "char \<Rightarrow> string \<Rightarrow> (string \<times> string) option" where
  "split_once c [] = None"
| "split_once c (x # xs) =
     (if x = c then Some ([], xs) else map_option (\<lambda>(a, b). (x # a, b)) (split_once c xs))"

definition rsplit_once :: "char \<Rightarrow> string \<Rightarrow> (string \<times> string) option" where
  "rsplit_once c s = map_option (\<lambda>(a, b). (List.rev b, List.rev a)) (split_once c (List.rev s))"

fun split_at_text :: "string \<Rightarrow> string \<Rightarrow> (string \<times> string) option" where
  "split_at_text p [] = (if p = [] then Some ([], []) else None)"
| "split_at_text p (c # cs) =
     (if starts_with (c # cs) p then Some ([], drop (length p) (c # cs))
      else map_option (\<lambda>(a, b). (c # a, b)) (split_at_text p cs))"

definition redact_redis_url :: "string \<Rightarrow> string" where
  "redact_redis_url url =
     (case split_at_text ''://'' url of
        None \<Rightarrow> url
      | Some (scheme, remainder) \<Rightarrow>
          (case rsplit_once CHR ''@'' remainder of
             None \<Rightarrow> url
           | Some (_, host) \<Rightarrow> scheme @ ''://'' @ ''***@'' @ host))"

text \<open>Two URLs that differ in the user information alone have one redaction.\<close>

lemma split_once_Some: "split_once c s = Some (a, b) \<Longrightarrow> s = a @ c # b \<and> c \<notin> set a"
  by (induction s arbitrary: a) (auto split: if_splits)

lemma split_once_append: "c \<notin> set a \<Longrightarrow> split_once c (a @ c # b) = Some (a, b)"
  by (induction a) auto

lemma split_once_None: "split_once c s = None \<longleftrightarrow> c \<notin> set s"
  by (induction s) auto

lemma rsplit_once_append: "c \<notin> set b \<Longrightarrow> rsplit_once c (a @ c # b) = Some (a, b)"
  by (simp add: rsplit_once_def split_once_append)

lemma rsplit_once_Some: "rsplit_once c s = Some (a, b) \<Longrightarrow> s = a @ c # b \<and> c \<notin> set b"
  by (auto simp: rsplit_once_def rev_swap dest!: split_once_Some)

lemma rsplit_once_None: "rsplit_once c s = None \<longleftrightarrow> c \<notin> set s"
  by (simp add: rsplit_once_def split_once_None)

lemma split_at_scheme:
  "CHR '':'' \<notin> set scheme \<Longrightarrow> split_at_text ''://'' (scheme @ ''://'' @ r) = Some (scheme, r)"
  by (induction scheme) auto

lemma redact_hides_userinfo:
  assumes "CHR '':'' \<notin> set scheme" "CHR ''@'' \<notin> set host"
  shows "redact_redis_url (scheme @ ''://'' @ auth @ ''@'' @ host) = scheme @ ''://***@'' @ host"
  using split_at_scheme [OF assms(1), of "auth @ ''@'' @ host"] rsplit_once_append [OF assms(2), of auth]
  by (simp add: redact_redis_url_def)

record redis_address =
  ra_host :: string
  ra_port :: nat
  ra_username :: "string option"
  ra_password :: "string option"
  ra_db :: "nat option"
  ra_tls :: bool

definition u16_max :: nat where "u16_max = 65535"

definition non_empty :: "string \<Rightarrow> string option" where
  "non_empty s = (if s = [] then None else Some s)"

definition address_credentials :: "string option \<Rightarrow> string option \<times> string option" where
  "address_credentials auth = (case auth of
      None \<Rightarrow> (None, None)
    | Some auth \<Rightarrow>
        (case split_once CHR '':'' auth of
           Some (username, password) \<Rightarrow> (non_empty username, non_empty password)
         | None \<Rightarrow> (None, non_empty auth)))"

definition address_rest :: "bool \<Rightarrow> string \<Rightarrow> redis_client_error + redis_address" where
  "address_rest tls rest =
     (let (authority, path) = (case split_once CHR ''/'' rest of Some p \<Rightarrow> p | None \<Rightarrow> (rest, []));
          (auth, host_port) = (case rsplit_once CHR ''@'' authority of
              Some (auth, host_port) \<Rightarrow> (Some auth, host_port) | None \<Rightarrow> (None, authority))
      in if host_port = [] then Err (InvalidUrl ''host is required'')
         else and_then
           (case rsplit_once CHR '':'' host_port of
              Some (host, port) \<Rightarrow>
                map_ok (Pair host) (map_err (\<lambda>error. InvalidUrl (''invalid port `'' @ port @ ''`: '' @ error))
                  (parse_unsigned u16_max port))
            | None \<Rightarrow> Ok (host_port, 6379)) (\<lambda>(host, port).
         let (username, password) = address_credentials auth in
         and_then
           (if path = [] then Ok None
            else map_ok Some (map_err (\<lambda>error. InvalidUrl (''invalid database `'' @ path @ ''`: '' @ error))
              (parse_u32 path))) (\<lambda>db.
         Ok \<lparr>ra_host = host, ra_port = port, ra_username = username, ra_password = password,
           ra_db = db, ra_tls = tls\<rparr>)))"

definition redis_address_parse :: "string \<Rightarrow> redis_client_error + redis_address" where
  "redis_address_parse url =
     (if starts_with url ''rediss://'' then address_rest True (drop 9 url)
      else if starts_with url ''redis://'' then address_rest False (drop 8 url)
      else Err (InvalidUrl ''only redis:// and rediss:// URLs are supported''))"

definition is_loopback :: "redis_address \<Rightarrow> bool" where
  "is_loopback address \<longleftrightarrow> ra_host address \<in> {''localhost'', ''127.0.0.1'', ''::1'', ''[::1]''}"

text \<open>An IPv6 loopback host has no port of its own text: without one its last group is read as a port.\<close>

lemma ipv6_without_port:
  "redis_address_parse ''redis://[::1]'' =
     Err (InvalidUrl (''invalid port `1]`: '' @ invalid_digit_error))"
  by (simp add: redis_address_parse_def address_rest_def rsplit_once_def parse_unsigned_def is_dec_def
      dec_val_def u16_max_def)

section \<open>Connections\<close>

datatype net_outcome =
    Fine
  | Fails redis_client_error
  | Cuts nat redis_client_error

text \<open>A server answers a command with an error or a value.\<close>

type_synonym 's server = "string \<Rightarrow> string list \<Rightarrow> 's \<Rightarrow> (string + redis_value) \<times> 's"

record 's wasi =
  wn_server :: 's
  wn_outcomes :: "net_outcome list"
  wn_cached :: "reader option"

record wasi_redis_client =
  wc_url :: string
  wc_allow_insecure_remote :: bool

definition next_outcome :: "('s wasi, net_outcome) op" where
  "next_outcome w = (case wn_outcomes w of
      [] \<Rightarrow> (Fine, w) | x # xs \<Rightarrow> (x, w\<lparr>wn_outcomes := xs\<rparr>))"

fun reply_bytes :: "string + redis_value \<Rightarrow> string" where
  "reply_bytes (Inl message) = ''-'' @ message @ CRLF"
| "reply_bytes (Inr v) = resp_reply v"

text \<open>
  A command that was written whole is executed, and its reply arrives, or is cut off by a read error;
  a failed write leaves an incomplete command, which a server does not execute.
\<close>

definition write_command ::
  "'s server \<Rightarrow> reader \<Rightarrow> string \<Rightarrow> string list \<Rightarrow> ('s wasi, redis_client_error + reader) op" where
  "write_command serve conn command args w = (case next_outcome w of
      (Fails e, w1) \<Rightarrow> (Err e, w1)
    | (outcome, w1) \<Rightarrow> (case serve command args (wn_server w1) of (reply, s) \<Rightarrow>
        (Ok (case outcome of
            Cuts n e \<Rightarrow> \<lparr>rd_bytes = rd_bytes conn @ take n (reply_bytes reply), rd_end = Some e\<rparr>
          | _ \<Rightarrow> conn\<lparr>rd_bytes := rd_bytes conn @ reply_bytes reply\<rparr>),
         w1\<lparr>wn_server := s\<rparr>)))"

definition expect_ok :: "(redis_value \<Rightarrow> string) \<Rightarrow> redis_value \<Rightarrow> string \<Rightarrow> redis_client_error + unit" where
  "expect_ok debug v command = (case v of
      Status status \<Rightarrow> if to_ascii_lowercase status = ''ok'' then Ok ()
        else Err (Protocol (command @ '' returned unexpected value '' @ debug v))
    | _ \<Rightarrow> Err (Protocol (command @ '' returned unexpected value '' @ debug v)))"

text \<open>A handshake command: write, read, and \<open>expect_ok\<close>.\<close>

definition handshake ::
  "'s server \<Rightarrow> (redis_value \<Rightarrow> string) \<Rightarrow> string \<Rightarrow> string list \<Rightarrow> reader \<Rightarrow>
   ('s wasi, redis_client_error + reader) op" where
  "handshake serve debug command args conn =
     try_op (write_command serve conn command args) (\<lambda>conn.
       case read_resp_value conn of
         (Inl e, conn) \<Rightarrow> return_op (Err e)
       | (Inr v, conn) \<Rightarrow> try_op (return_op (expect_ok debug v command)) (\<lambda>_. return_op (Ok conn)))"

definition open_reader ::
  "'s server \<Rightarrow> (redis_value \<Rightarrow> string) \<Rightarrow> wasi_redis_client \<Rightarrow> ('s wasi, redis_client_error + reader) op" where
  "open_reader serve debug client =
     try_op (return_op (redis_address_parse (wc_url client))) (\<lambda>address.
     if \<not> ra_tls address \<and> \<not> is_loopback address \<and> \<not> wc_allow_insecure_remote client
     then return_op (Err (InvalidUrl (''plain redis:// to `'' @ ra_host address @
         ''` requires with_allow_insecure_remote(true) or use rediss:// with the wasi-redis-tls feature'')))
     else try_op (\<lambda>w. case next_outcome w of
         (Fails e, w1) \<Rightarrow> (Err e, w1)
       | (_, w1) \<Rightarrow> (Ok \<lparr>rd_bytes = [], rd_end = None\<rparr>, w1)) (\<lambda>conn.
     try_op (case ra_password address of
         None \<Rightarrow> return_op (Ok conn)
       | Some password \<Rightarrow> handshake serve debug ''AUTH''
           ((case ra_username address of None \<Rightarrow> [] | Some u \<Rightarrow> [u]) @ [password]) conn) (\<lambda>conn.
     case ra_db address of
         None \<Rightarrow> return_op (Ok conn)
       | Some db \<Rightarrow> handshake serve debug ''SELECT'' [show_nat db] conn)))"

text \<open>A cached connection is used when the probe finds it open and without bytes.\<close>

definition take_cached_connection :: "('s wasi, reader option) op" where
  "take_cached_connection w = (case wn_cached w of
      None \<Rightarrow> (None, w)
    | Some conn \<Rightarrow> (case next_outcome (w\<lparr>wn_cached := None\<rparr>) of
        (Fine, w1) \<Rightarrow> (if rd_bytes conn = [] \<and> rd_end conn = None then Some conn else None, w1)
      | (_, w1) \<Rightarrow> (None, w1)))"

definition store_cached_connection :: "reader \<Rightarrow> 's wasi \<Rightarrow> 's wasi" where
  "store_cached_connection conn w = (if rd_bytes conn \<noteq> [] then w else w\<lparr>wn_cached := Some conn\<rparr>)"

text \<open>The reply on a connection; the connection is kept after a complete one.\<close>

definition read_and_store :: "reader \<Rightarrow> ('s wasi, redis_client_error + redis_value) op" where
  "read_and_store conn w = (case read_resp_value conn of
      (Inr v, conn) \<Rightarrow> (Ok v, store_cached_connection conn w)
    | (Inl e, conn) \<Rightarrow> (Err e, w))"

definition execute_fresh ::
  "'s server \<Rightarrow> (redis_value \<Rightarrow> string) \<Rightarrow> wasi_redis_client \<Rightarrow> string \<Rightarrow> string list \<Rightarrow>
   ('s wasi, redis_client_error + redis_value) op" where
  "execute_fresh serve debug client command args =
     try_op (open_reader serve debug client) (\<lambda>conn.
     try_op (write_command serve conn command args) read_and_store)"

definition execute_blocking ::
  "'s server \<Rightarrow> (redis_value \<Rightarrow> string) \<Rightarrow> wasi_redis_client \<Rightarrow> string \<Rightarrow> string list \<Rightarrow>
   ('s wasi, redis_client_error + redis_value) op" where
  "execute_blocking serve debug client command args w =
     (case take_cached_connection w of
        (None, w1) \<Rightarrow> execute_fresh serve debug client command args w1
      | (Some conn, w1) \<Rightarrow>
          (case write_command serve conn command args w1 of
             (Inr conn, w2) \<Rightarrow> read_and_store conn w2
           | (Inl e, w2) \<Rightarrow>
               (case e of
                  Io _ \<Rightarrow> execute_fresh serve debug client command args w2
                | Timeout \<Rightarrow> execute_fresh serve debug client command args w2
                | _ \<Rightarrow> (Err e, w2))))"

section \<open>A reply that was cut off is not read as another one\<close>

text \<open>An operation that succeeds reads the same, and leaves what follows, when more bytes arrive.\<close>

definition reads_on :: "(reader, redis_client_error + 'a) op \<Rightarrow> bool" where
  "reads_on f \<longleftrightarrow> (\<forall>b e v rd m e'. f \<lparr>rd_bytes = b, rd_end = e\<rparr> = (Inr v, rd) \<longrightarrow>
     f \<lparr>rd_bytes = b @ m, rd_end = e'\<rparr> = (Inr v, \<lparr>rd_bytes = rd_bytes rd @ m, rd_end = e'\<rparr>))"

lemma reads_onD:
  "reads_on f \<Longrightarrow> f \<lparr>rd_bytes = b, rd_end = e\<rparr> = (Inr v, rd) \<Longrightarrow>
   f \<lparr>rd_bytes = b @ m, rd_end = e'\<rparr> = (Inr v, \<lparr>rd_bytes = rd_bytes rd @ m, rd_end = e'\<rparr>)"
  by (simp add: reads_on_def)

named_theorems reads_on_intros

lemma reads_on_return [reads_on_intros]: "reads_on (return_op r)"
  by (simp add: reads_on_def return_op_def)

lemma reads_on_try [reads_on_intros]:
  assumes "reads_on f" "\<And>a. reads_on (k a)"
  shows "reads_on (try_op f k)"
  unfolding reads_on_def
proof (intro allI impI)
  fix b e v rd m e'
  assume "try_op f k \<lparr>rd_bytes = b, rd_end = e\<rparr> = (Inr v, rd)"
  then obtain a b1 e1 where f: "f \<lparr>rd_bytes = b, rd_end = e\<rparr> = (Inr a, \<lparr>rd_bytes = b1, rd_end = e1\<rparr>)"
    and k: "k a \<lparr>rd_bytes = b1, rd_end = e1\<rparr> = (Inr v, rd)"
    unfolding try_op_Ok_iff by (metis reader.cases)
  show "try_op f k \<lparr>rd_bytes = b @ m, rd_end = e'\<rparr> = (Inr v, \<lparr>rd_bytes = rd_bytes rd @ m, rd_end = e'\<rparr>)"
    using reads_onD [OF assms(1) f, of m e'] reads_onD [OF assms(2) k, of m e'] by (simp add: try_op_def)
qed

lemma reads_on_if [reads_on_intros]: "reads_on f \<Longrightarrow> reads_on g \<Longrightarrow> reads_on (if b then f else g)"
  by simp

lemma reads_on_exact [reads_on_intros]: "reads_on (read_exact n)"
  by (auto simp: reads_on_def read_exact_def split: if_splits option.splits)

lemma read_line_newline:
  assumes "LF \<notin> set before" "length before \<le> MAX_RESP_LINE_BYTES"
  shows "read_resp_line \<lparr>rd_bytes = before @ LF # rest, rd_end = e\<rparr> =
    ((if length before + 1 > MAX_RESP_LINE_BYTES then Err (Protocol ''RESP line exceeds the maximum length'')
      else if \<not> ends_with_crlf (before @ [LF]) then Err (Protocol ''RESP line did not end with CRLF'')
      else map_err (\<lambda>error. Protocol (''RESP line UTF-8: '' @ error)) (from_utf8 (take (length before - 1) before))),
     \<lparr>rd_bytes = rest, rd_end = e\<rparr>)"
proof -
  have "takeWhile (\<lambda>c. c \<noteq> LF) (before @ LF # rest) = before"
    "dropWhile (\<lambda>c. c \<noteq> LF) (before @ LF # rest) = LF # rest"
    using assms(1) by (induction before) auto
  then show ?thesis using assms(2)
    by (auto simp: read_resp_line_def read_until_newline_def try_op_def return_op_def Let_def)
qed

lemma read_line_needs_newline:
  assumes run: "read_resp_line \<lparr>rd_bytes = b, rd_end = e\<rparr> = (Inr v, rd)"
  obtains before rest where "b = before @ LF # rest" "LF \<notin> set before" "length before \<le> MAX_RESP_LINE_BYTES"
proof -
  obtain line rd1 where line: "read_until_newline (MAX_RESP_LINE_BYTES + 1) \<lparr>rd_bytes = b, rd_end = e\<rparr> = (Inr line, rd1)"
    and ok: "length line \<le> MAX_RESP_LINE_BYTES" "ends_with_crlf line"
    using run unfolding read_resp_line_def try_op_Ok_iff by (auto simp: return_op_def split: if_splits)
  let ?before = "takeWhile (\<lambda>c. c \<noteq> LF) b"
  have short: "\<not> MAX_RESP_LINE_BYTES + 1 \<le> length ?before"
  proof
    assume long: "MAX_RESP_LINE_BYTES + 1 \<le> length ?before"
    then have "length line = MAX_RESP_LINE_BYTES + 1"
      using line length_takeWhile_le [of "\<lambda>c. c \<noteq> LF" b] by (auto simp: read_until_newline_def Let_def)
    then show False using ok(1) by simp
  qed
  have "LF \<in> set b"
  proof (rule ccontr)
    assume no: "LF \<notin> set b"
    then have tw: "?before = b" and dw: "dropWhile (\<lambda>c. c \<noteq> LF) b = []"
      by (auto simp: takeWhile_eq_all_conv dropWhile_eq_Nil_conv)
    have "line = b" using line short
      unfolding read_until_newline_def Let_def reader.simps tw dw by (auto split: option.splits if_splits)
    moreover have "LF \<in> set (drop (length line - 2) line)"
      using ok(2) by (simp add: ends_with_crlf_def CRLF_def LF_def)
    ultimately show False using no by (meson in_set_dropD)
  qed
  then obtain before rest where "b = before @ LF # rest" "LF \<notin> set before"
    by (metis split_list_first)
  moreover from this have "?before = before" by (induction before arbitrary: b) auto
  ultimately show thesis using that short by simp
qed

lemma reads_on_line [reads_on_intros]: "reads_on read_resp_line"
  unfolding reads_on_def
proof (intro allI impI)
  fix b e v rd m e'
  assume run: "read_resp_line \<lparr>rd_bytes = b, rd_end = e\<rparr> = (Inr v, rd)"
  from read_line_needs_newline [OF run] obtain before rest where
    b: "b = before @ LF # rest" and before: "LF \<notin> set before" "length before \<le> MAX_RESP_LINE_BYTES" .
  from run show "read_resp_line \<lparr>rd_bytes = b @ m, rd_end = e'\<rparr> = (Inr v, \<lparr>rd_bytes = rd_bytes rd @ m, rd_end = e'\<rparr>)"
    using read_line_newline [OF before, of rest e] read_line_newline [OF before, of "rest @ m" e'] by (auto simp: b)
qed

lemma reads_on_crlf [reads_on_intros]: "reads_on read_expected_crlf"
  unfolding read_expected_crlf_def by (intro reads_on_intros)

lemma reads_on_many [reads_on_intros]: "reads_on f \<Longrightarrow> reads_on (read_many n f)"
  by (induction n) (simp_all add: reads_on_intros)

lemma reads_on_value: "reads_on (read_resp_value_at_depth levels)"
proof (induction levels)
  case (Suc levels)
  show ?case unfolding read_resp_value_at_depth.simps by (intro reads_on_intros Suc)
qed (simp add: reads_on_intros)

lemma cut_reply:
  assumes "resp_readable MAX_RESP_DEPTH u"
    and "read_resp_value \<lparr>rd_bytes = take n (resp_reply u), rd_end = e\<rparr> = (Inr v, rd)"
  shows "v = u \<and> rd_bytes rd = []"
proof -
  have "read_resp_value \<lparr>rd_bytes = resp_reply u, rd_end = None\<rparr> =
      (Inr v, \<lparr>rd_bytes = rd_bytes rd @ drop n (resp_reply u), rd_end = None\<rparr>)"
    using reads_onD [OF reads_on_value assms(2) [unfolded read_resp_value_def], of "drop n (resp_reply u)" None]
    by (simp add: read_resp_value_def)
  moreover have "read_resp_value \<lparr>rd_bytes = resp_reply u, rd_end = None\<rparr> =
      (Inr u, \<lparr>rd_bytes = [], rd_end = None\<rparr>)"
    using read_reply [OF assms(1), where rd = "\<lparr>rd_bytes = [], rd_end = None\<rparr>" and rest = "[]"]
    by (simp add: read_resp_value_def)
  ultimately show ?thesis by simp
qed

text \<open>An error reply is an error, whole or cut.\<close>

lemma error_reply:
  "read_resp_value \<lparr>rd_bytes = take n (''-'' @ message @ CRLF), rd_end = e\<rparr> \<noteq> (Inr v, rd)"
  "read_resp_value \<lparr>rd_bytes = ''-'' @ message @ CRLF, rd_end = e\<rparr> \<noteq> (Inr v, rd)"
proof -
  have "read_resp_value \<lparr>rd_bytes = bs, rd_end = e\<rparr> \<noteq> (Inr v, rd)" if "bs = [] \<or> hd bs = CHR ''-''" for bs
    using that by (cases bs) (auto simp: read_resp_value_def MAX_RESP_DEPTH_def numeral_eq_Suc try_op_def
      read_exact_def return_op_def split: prod.splits sum.splits option.splits)
  then show "read_resp_value \<lparr>rd_bytes = take n (''-'' @ message @ CRLF), rd_end = e\<rparr> \<noteq> (Inr v, rd)"
    "read_resp_value \<lparr>rd_bytes = ''-'' @ message @ CRLF, rd_end = e\<rparr> \<noteq> (Inr v, rd)"
    by (cases n; simp)+
qed

section \<open>At most once\<close>

definition readable_server :: "'s server \<Rightarrow> bool" where
  "readable_server serve \<longleftrightarrow>
     (\<forall>command args s v. fst (serve command args s) = Inr v \<longrightarrow> resp_readable MAX_RESP_DEPTH v) \<and>
     (\<forall>args s. snd (serve ''AUTH'' args s) = s \<and> snd (serve ''SELECT'' args s) = s)"

text \<open>A connection on which one command's reply is all that arrives.\<close>

definition holds_reply :: "string + redis_value \<Rightarrow> reader \<Rightarrow> bool" where
  "holds_reply reply conn \<longleftrightarrow> (\<exists>n. rd_bytes conn = take n (reply_bytes reply))"

lemma next_outcome_server: "next_outcome w = (x, w') \<Longrightarrow> wn_server w' = wn_server w"
  by (auto simp: next_outcome_def split: list.splits)

lemma write_command_spec:
  assumes "write_command serve conn command args w = (r, w')" "rd_bytes conn = []"
  shows "(case r of
      Inl e \<Rightarrow> wn_server w' = wn_server w
    | Inr conn' \<Rightarrow> wn_server w' = snd (serve command args (wn_server w)) \<and>
        holds_reply (fst (serve command args (wn_server w))) conn')"
proof -
  obtain outcome w1 where o: "next_outcome w = (outcome, w1)" by (meson surj_pair)
  obtain reply s where reply: "serve command args (wn_server w) = (reply, s)" by (meson surj_pair)
  have whole: "\<exists>n. reply_bytes reply = take n (reply_bytes reply)" by (metis order_refl take_all)
  have w1: "wn_server w1 = wn_server w" by (rule next_outcome_server [OF o])
  show ?thesis using assms whole w1
    by (cases outcome) (auto simp: write_command_def o reply holds_reply_def)
qed

lemma holds_reply_read:
  assumes "readable_server serve" "holds_reply (fst (serve command args s)) conn"
    and "read_resp_value conn = (Inr v, conn')"
  shows "fst (serve command args s) = Inr v \<and> rd_bytes conn' = []"
proof -
  obtain n where bytes: "rd_bytes conn = take n (reply_bytes (fst (serve command args s)))"
    using assms(2) by (auto simp: holds_reply_def)
  obtain e where conn: "conn = \<lparr>rd_bytes = rd_bytes conn, rd_end = e\<rparr>" by (cases conn) simp
  show ?thesis
  proof (cases "fst (serve command args s)")
    case (Inl message)
    then show ?thesis using assms(3) error_reply(1) [of n message e v conn'] bytes conn by simp
  next
    case (Inr u)
    then have "resp_readable MAX_RESP_DEPTH u" using assms(1) by (simp add: readable_server_def)
    then show ?thesis using cut_reply [of u n e v conn'] assms(3) bytes conn Inr by simp
  qed
qed

lemma handshake_spec:
  assumes serve: "readable_server serve" "command = ''AUTH'' \<or> command = ''SELECT''"
    and "handshake serve debug command args conn w = (r, w')" "rd_bytes conn = []"
  shows "wn_server w' = wn_server w \<and> (\<forall>conn'. r = Inr conn' \<longrightarrow> rd_bytes conn' = [])"
proof -
  obtain d w1 where d: "write_command serve conn command args w = (d, w1)" by (meson surj_pair)
  have same: "snd (serve command args (wn_server w)) = wn_server w"
    using serve by (auto simp: readable_server_def)
  note spec = write_command_spec [OF d assms(4)]
  show ?thesis
  proof (cases d)
    case (Inr c)
    then have c: "wn_server w1 = wn_server w" "holds_reply (fst (serve command args (wn_server w))) c"
      using spec same by simp_all
    obtain q c' where q: "read_resp_value c = (q, c')" by (meson surj_pair)
    show ?thesis
    proof (cases q)
      case (Inr v)
      then have "rd_bytes c' = []" using holds_reply_read [OF serve(1) c(2)] q by simp
      then show ?thesis using assms(3) d q c(1) Inr \<open>d = Inr c\<close>
        by (auto simp: handshake_def try_op_def return_op_def split: sum.splits)
    qed (use assms(3) d q c(1) \<open>d = Inr c\<close> in \<open>auto simp: handshake_def try_op_def return_op_def\<close>)
  qed (use assms(3) d spec in \<open>auto simp: handshake_def try_op_def\<close>)
qed

text \<open>An operation that gives a connection without bytes and leaves the server as it was.\<close>

definition connects :: "('s wasi, redis_client_error + reader) op \<Rightarrow> bool" where
  "connects f \<longleftrightarrow> (\<forall>w r w'. f w = (r, w') \<longrightarrow>
     wn_server w' = wn_server w \<and> (\<forall>conn. r = Inr conn \<longrightarrow> rd_bytes conn = []))"

lemma connectsD:
  assumes "connects f" "f w = (r, w')"
  shows "wn_server w' = wn_server w" "r = Inr conn \<Longrightarrow> rd_bytes conn = []"
  using assms by (auto simp: connects_def)

lemma connects_try:
  assumes f: "connects f" and k: "\<And>conn. rd_bytes conn = [] \<Longrightarrow> connects (k conn)"
  shows "connects (try_op f k)"
  unfolding connects_def
proof (intro allI impI)
  fix w r w' assume run: "try_op f k w = (r, w')"
  obtain q w1 where q: "f w = (q, w1)" by (meson surj_pair)
  show "wn_server w' = wn_server w \<and> (\<forall>conn. r = Inr conn \<longrightarrow> rd_bytes conn = [])"
  proof (cases q)
    case (Inr conn)
    have "k conn w1 = (r, w')" using run q Inr by (simp add: try_op_def)
    then show ?thesis using connectsD [OF k] connectsD [OF f q] Inr by metis
  qed (use run q connectsD [OF f q] in \<open>auto simp: try_op_def\<close>)
qed

lemma connects_return: "(\<And>conn. r = Inr conn \<Longrightarrow> rd_bytes conn = []) \<Longrightarrow> connects (return_op r)"
  by (simp add: connects_def return_op_def)

lemma connects_handshake:
  assumes "readable_server serve" "command = ''AUTH'' \<or> command = ''SELECT''" "rd_bytes conn = []"
  shows "connects (handshake serve debug command args conn)"
  using handshake_spec [OF assms(1,2) _ assms(3)] by (auto simp: connects_def)

lemma connects_open:
  assumes serve: "readable_server serve"
  shows "connects (open_reader serve debug client)"
  unfolding open_reader_def
proof (cases "redis_address_parse (wc_url client)")
  case (Inr address)
  have connect: "connects (\<lambda>w. case next_outcome w of
      (Fails e, w1) \<Rightarrow> (Err e, w1) | (_, w1) \<Rightarrow> (Ok \<lparr>rd_bytes = [], rd_end = None\<rparr>, w1))"
    by (auto simp: connects_def dest!: next_outcome_server split: prod.splits net_outcome.splits)
  show "connects (try_op (return_op (redis_address_parse (wc_url client))) (\<lambda>address.
     if \<not> ra_tls address \<and> \<not> is_loopback address \<and> \<not> wc_allow_insecure_remote client
     then return_op (Err (InvalidUrl (''plain redis:// to `'' @ ra_host address @
         ''` requires with_allow_insecure_remote(true) or use rediss:// with the wasi-redis-tls feature'')))
     else try_op (\<lambda>w. case next_outcome w of
         (Fails e, w1) \<Rightarrow> (Err e, w1)
       | (_, w1) \<Rightarrow> (Ok \<lparr>rd_bytes = [], rd_end = None\<rparr>, w1)) (\<lambda>conn.
     try_op (case ra_password address of
         None \<Rightarrow> return_op (Ok conn)
       | Some password \<Rightarrow> handshake serve debug ''AUTH''
           ((case ra_username address of None \<Rightarrow> [] | Some u \<Rightarrow> [u]) @ [password]) conn) (\<lambda>conn.
     case ra_db address of
         None \<Rightarrow> return_op (Ok conn)
       | Some db \<Rightarrow> handshake serve debug ''SELECT'' [show_nat db] conn))))"
    unfolding Inr try_op_return
    by (auto intro!: connects_try connect connects_return connects_handshake [OF serve] split: option.split)
qed (auto simp: try_op_return intro: connects_return)

definition once_or_never :: "'s server \<Rightarrow> string \<Rightarrow> string list \<Rightarrow> redis_client_error + redis_value \<Rightarrow> 's \<Rightarrow> 's \<Rightarrow> bool" where
  "once_or_never serve command args r s s' \<longleftrightarrow>
     (case r of
        Inr v \<Rightarrow> serve command args s = (Ok v, s')
      | Inl e \<Rightarrow> s' = s \<or> s' = snd (serve command args s))"

lemma read_and_store_spec:
  assumes serve: "readable_server serve"
    and conn: "holds_reply (fst (serve command args s)) conn" "wn_server w = snd (serve command args s)"
    and run: "read_and_store conn w = (r, w')"
  shows "once_or_never serve command args r s (wn_server w')"
proof -
  obtain q c where q: "read_resp_value conn = (q, c)" by (meson surj_pair)
  show ?thesis
  proof (cases q)
    case (Inr v)
    then have "fst (serve command args s) = Ok v" using holds_reply_read [OF serve conn(1)] q by simp
    then have "serve command args s = (Ok v, wn_server w)" using conn(2) by (metis prod.collapse)
    moreover have "r = Ok v" "wn_server w' = wn_server w"
      using run unfolding read_and_store_def q Inr by (auto simp: store_cached_connection_def split: if_splits)
    ultimately show ?thesis by (simp add: once_or_never_def)
  qed (use run q conn(2) in \<open>auto simp: read_and_store_def once_or_never_def\<close>)
qed

lemma execute_fresh_spec:
  assumes serve: "readable_server serve" and run: "execute_fresh serve debug client command args w = (r, w')"
  shows "once_or_never serve command args r (wn_server w) (wn_server w')"
proof -
  obtain q w1 where q: "open_reader serve debug client w = (q, w1)" by (meson surj_pair)
  note opened = connectsD [OF connects_open [OF serve] q]
  show ?thesis
  proof (cases q)
    case (Inr conn)
    obtain d w2 where d: "write_command serve conn command args w1 = (d, w2)" by (meson surj_pair)
    note wrote = write_command_spec [OF d opened(2) [OF Inr]]
    show ?thesis
    proof (cases d)
      case (Inr c)
      then have "read_and_store c w2 = (r, w')" using run q d \<open>q = Inr conn\<close>
        by (simp add: execute_fresh_def try_op_def)
      then show ?thesis using wrote opened(1) Inr
          read_and_store_spec [OF serve, of command args "wn_server w" c w2 r w'] by simp
    qed (use wrote opened(1) \<open>q = Inr conn\<close> run q d in \<open>auto simp: execute_fresh_def try_op_def once_or_never_def\<close>)
  qed (use run q opened(1) in \<open>auto simp: execute_fresh_def try_op_def once_or_never_def\<close>)
qed

text \<open>C13: A Redis command is executed at most once, and a result is its own reply.  Whatever the network
  does with the cached connection, the retry on a fresh one, the handshake and the replies, which may be
  cut anywhere, the server has executed the command once or not at all when the client returns; and when
  the client returns a value, the server has executed it and answered with that value.\<close>

theorem execute_at_most_once:
  assumes serve: "readable_server serve"
    and run: "execute_blocking serve debug client command args w = (r, w')"
  shows "(case r of
      Inr v \<Rightarrow> serve command args (wn_server w) = (Ok v, wn_server w')
    | Inl e \<Rightarrow> wn_server w' = wn_server w \<or> wn_server w' = snd (serve command args (wn_server w)))"
proof -
  obtain q w1 where q: "take_cached_connection w = (q, w1)" by (meson surj_pair)
  have w1: "wn_server w1 = wn_server w"
    and clean: "\<And>conn. q = Some conn \<Longrightarrow> rd_bytes conn = []"
    using q by (auto simp: take_cached_connection_def next_outcome_def
        split: option.splits list.splits net_outcome.splits if_splits)
  have "once_or_never serve command args r (wn_server w) (wn_server w')"
  proof (cases q)
    case None
    then show ?thesis using run q w1 execute_fresh_spec [OF serve, of debug client command args w1 r w']
      by (simp add: execute_blocking_def)
  next
    case (Some conn)
    obtain d w2 where d: "write_command serve conn command args w1 = (d, w2)" by (meson surj_pair)
    note wrote = write_command_spec [OF d clean [OF Some]]
    show ?thesis
    proof (cases d)
      case (Inl e)
      then show ?thesis
        using run q Some d wrote w1 execute_fresh_spec [OF serve, of debug client command args w2 r w']
        by (cases e) (auto simp: execute_blocking_def once_or_never_def)
    next
      case (Inr c)
      then have "read_and_store c w2 = (r, w')" using run q Some d by (simp add: execute_blocking_def)
      then show ?thesis using wrote w1 Inr
          read_and_store_spec [OF serve, of command args "wn_server w" c w2 r w'] by simp
    qed
  qed
  then show ?thesis by (simp add: once_or_never_def)
qed

text \<open>A counter that answers an increment, over a cached connection whose write fails.\<close>

definition counter_server :: "nat server" where
  "counter_server command args n =
     (if command = ''INCR'' then (Ok (Integer (int (n mod 10))), n + 1) else (Ok (Status ''OK''), n))"

theorem execute_at_most_once_witness:
  "\<exists>r w'. execute_blocking counter_server (\<lambda>_. []) \<lparr>wc_url = ''redis://localhost'', wc_allow_insecure_remote = False\<rparr>
      ''INCR'' [] \<lparr>wn_server = 4, wn_outcomes = [Fine, Fails Timeout], wn_cached = Some \<lparr>rd_bytes = [], rd_end = None\<rparr>\<rparr> = (r, w') \<and>
    (case r of Inr v \<Rightarrow> counter_server ''INCR'' [] 4 = (Ok v, wn_server w') | Inl e \<Rightarrow> wn_server w' = 4 \<or> wn_server w' = 5)"
proof -
  let ?run = "execute_blocking counter_server (\<lambda>_. []) \<lparr>wc_url = ''redis://localhost'', wc_allow_insecure_remote = False\<rparr>
      ''INCR'' [] \<lparr>wn_server = 4, wn_outcomes = [Fine, Fails Timeout], wn_cached = Some \<lparr>rd_bytes = [], rd_end = None\<rparr>\<rparr>"
  obtain r w' where run: "?run = (r, w')" by (meson surj_pair)
  have "from_utf8 ''OK'' = Ok ''OK''" by (rule from_utf8_ascii) simp
  moreover have "n mod 10 \<le> i64_max" for n
    using mod_less_divisor [of 10 n] by (simp add: i64_max_def)
  ultimately have "readable_server counter_server"
    by (auto simp: readable_server_def counter_server_def MAX_RESP_DEPTH_def MAX_RESP_LINE_BYTES_def LF_def
        simp flip: of_nat_mod split: if_splits)
  from execute_at_most_once [OF this run] show ?thesis using run
    by (auto simp: counter_server_def split: sum.splits)
qed

end
