(* ===== verification/Redis_Server.thy ===== *)
theory Redis_Server
  imports Redis_Protocol Sql_Common Idempotency "HOL-Library.AList"
begin

text \<open>
  The server of the Redis stores of \<open>src/redis.rs\<close>: keys that hold a string, a hash or a sorted set, the
  commands the stores send, and their Lua scripts, which the source holds as text.  A script is a
  sequence of commands on the keys; an error in it ends it and keeps what it has written.  A step of
  the schedule decides for each command whether it is answered, refused before it runs, or runs and
  loses its answer, and what other clients append before it.
\<close>

section \<open>Keys and commands\<close>

datatype redis_data =
    RString string
  | RHash "(string \<times> string) list"
  | RSortedSet "(string \<times> int) list"

type_synonym keyspace = "string \<rightharpoonup> redis_data"

definition wrong_type :: string where
  "wrong_type = ''WRONGTYPE Operation against a key holding the wrong kind of value''"

definition redis_get :: "string \<Rightarrow> (keyspace, string + string option) op" where
  "redis_get k ks = (case ks k of
      None \<Rightarrow> Ok None | Some (RString s) \<Rightarrow> Ok (Some s) | _ \<Rightarrow> Err wrong_type, ks)"

definition redis_set :: "string \<Rightarrow> string \<Rightarrow> (keyspace, string + unit) op" where
  "redis_set k s ks = (Ok (), ks(k \<mapsto> RString s))"

definition redis_del :: "string \<Rightarrow> (keyspace, string + nat) op" where
  "redis_del k ks = (Ok (if ks k = None then 0 else 1), ks(k := None))"

definition redis_hgetall :: "string \<Rightarrow> (keyspace, string + (string \<times> string) list) op" where
  "redis_hgetall k ks = (case ks k of
      None \<Rightarrow> Ok [] | Some (RHash hash) \<Rightarrow> Ok hash | _ \<Rightarrow> Err wrong_type, ks)"

definition redis_hget :: "string \<Rightarrow> string \<Rightarrow> (keyspace, string + string option) op" where
  "redis_hget k field = try_op (redis_hgetall k) (\<lambda>hash. return_op (Ok (map_of hash field)))"

definition redis_hset :: "string \<Rightarrow> (string \<times> string) list \<Rightarrow> (keyspace, string + unit) op" where
  "redis_hset k new = try_op (redis_hgetall k) (\<lambda>hash ks.
     (Ok (), ks(k \<mapsto> RHash (foldl (\<lambda>fs (f, v). AList.update f v fs) hash new))))"

definition redis_zmembers :: "string \<Rightarrow> (keyspace, string + (string \<times> int) list) op" where
  "redis_zmembers k ks = (case ks k of
      None \<Rightarrow> Ok [] | Some (RSortedSet members) \<Rightarrow> Ok members | _ \<Rightarrow> Err wrong_type, ks)"

text \<open>Members are kept in the order of their scores.\<close>

definition redis_zadd :: "string \<Rightarrow> int \<Rightarrow> string \<Rightarrow> (keyspace, string + unit) op" where
  "redis_zadd k score member = try_op (redis_zmembers k) (\<lambda>members ks.
     let others = filter (\<lambda>m. fst m \<noteq> member) members in
     (Ok (), ks(k \<mapsto> RSortedSet (takeWhile (\<lambda>m. snd m \<le> score) others @ (member, score) #
        dropWhile (\<lambda>m. snd m \<le> score) others))))"

definition redis_zcard :: "string \<Rightarrow> (keyspace, string + nat) op" where
  "redis_zcard k = try_op (redis_zmembers k) (\<lambda>members. return_op (Ok (length members)))"

text \<open>\<open>ZRANGEBYSCORE k (after +inf LIMIT 0 limit\<close>.\<close>

definition redis_zrange :: "string \<Rightarrow> int \<Rightarrow> nat \<Rightarrow> (keyspace, string + (string \<times> int) list) op" where
  "redis_zrange k after limit = try_op (redis_zmembers k) (\<lambda>members.
     return_op (Ok (take limit (filter (\<lambda>m. snd m > after) members))))"

section \<open>Scripts\<close>

text \<open>
  The interpreter's conversions: \<open>tonumber\<close> and \<open>tostring\<close> of Lua, and the text of a number that is an
  argument or a score.  Numbers of the scripts are integers; a Lua number holds them exactly up to
  \<open>2 ^ 53\<close>, and \<open>tostring\<close> writes fourteen digits.
\<close>

record lua =
  lu_tonumber :: "string \<Rightarrow> int option"
  lu_tostring :: "int \<Rightarrow> string"
  lu_arg :: "int \<Rightarrow> string"

datatype lua_script =
    AppendScript | FetchHashesScript | CheckpointSaveScript | IdempotencyReserveScript
  | IdempotencySaveScript | IdempotencyRemoveScript | SnapshotSaveScript | HeartbeatScript

definition script_error :: string where
  "script_error = ''ERR user_script: attempt to use a nil value''"

definition or_zero :: "string option \<Rightarrow> string" where
  "or_zero s = (case s of None \<Rightarrow> ''0'' | Some s \<Rightarrow> s)"

text \<open>The loop of \<open>APPEND_LUA\<close>, with eight arguments for each event.\<close>

fun append_each ::
  "lua \<Rightarrow> string \<Rightarrow> string \<Rightarrow> string \<Rightarrow> nat \<Rightarrow> int \<Rightarrow> int \<Rightarrow> string list \<Rightarrow> (keyspace, string + unit) op" where
  "append_each L stream_key global_key event_prefix 0 revision sequence args = return_op (Ok ())"
| "append_each L stream_key global_key event_prefix (Suc n) revision sequence
     (event_id # aggregate_id # aggregate_type # event_type # event_version # payload # metadata #
      recorded_at_ms # args) =
     try_op (redis_hset (event_prefix @ lu_tostring L sequence)
       [(''event_id'', event_id), (''aggregate_id'', aggregate_id), (''aggregate_type'', aggregate_type),
        (''revision'', lu_tostring L revision), (''sequence'', lu_tostring L sequence),
        (''event_type'', event_type), (''event_version'', event_version), (''payload'', payload),
        (''metadata'', metadata), (''recorded_at_ms'', recorded_at_ms)]) (\<lambda>_.
     try_op (redis_zadd stream_key revision (lu_tostring L sequence)) (\<lambda>_.
     try_op (redis_zadd global_key sequence (lu_tostring L sequence)) (\<lambda>_.
       append_each L stream_key global_key event_prefix n (revision + 1) (sequence + 1) args)))"
| "append_each L stream_key global_key event_prefix (Suc n) revision sequence args =
     return_op (Err script_error)"

fun append_lua :: "lua \<Rightarrow> string list \<Rightarrow> string list \<Rightarrow> (keyspace, string + redis_value) op" where
  "append_lua L [revision_key, sequence_key, stream_key, global_key, event_prefix]
     (expected_kind # expected_revision # count # args) =
     try_op (redis_get revision_key) (\<lambda>revision.
     try_op (redis_zcard stream_key) (\<lambda>stream_card.
     case lu_tonumber L (or_zero revision) of
       None \<Rightarrow> return_op (Ok (Array [Bytes ''ERR'', Bytes ''inconsistent_state'']))
     | Some current \<Rightarrow>
         if int stream_card \<noteq> current
           then return_op (Ok (Array [Bytes ''ERR'', Bytes ''inconsistent_state'', Integer current, Integer (int stream_card)]))
         else if expected_kind = ''no_stream'' \<and> current \<noteq> 0
           then return_op (Ok (Array [Bytes ''ERR'', Bytes ''stream_exists'', Integer current]))
         else if expected_kind = ''exact'' \<and> Some current \<noteq> lu_tonumber L expected_revision
           then return_op (Ok (Array [Bytes ''ERR'', Bytes ''wrong_revision'', Integer current]))
         else if lu_tonumber L count = Some 0
           then return_op (Ok (Array [Bytes ''OK'', Integer 0, Integer 0, Integer current]))
         else try_op (redis_get sequence_key) (\<lambda>seq.
           case (lu_tonumber L (or_zero seq), lu_tonumber L count) of
             (Some seq_current, Some count) \<Rightarrow>
               try_op (append_each L stream_key global_key event_prefix (nat count) (current + 1) (seq_current + 1) args) (\<lambda>_.
               try_op (redis_set revision_key (lu_arg L (current + count))) (\<lambda>_.
               try_op (redis_set sequence_key (lu_arg L (seq_current + count))) (\<lambda>_.
                 return_op (Ok (Array [Bytes ''OK'', Integer (seq_current + 1), Integer (seq_current + count),
                   Integer (current + count)])))))
           | _ \<Rightarrow> return_op (Err script_error))))"
| "append_lua L keys argv = return_op (Err script_error)"

fun fetch_hashes_lua :: "string list \<Rightarrow> (keyspace, string + redis_value list) op" where
  "fetch_hashes_lua [] = return_op (Ok [])"
| "fetch_hashes_lua (key # keys) =
     try_op (redis_hgetall key) (\<lambda>hash.
     try_op (fetch_hashes_lua keys) (\<lambda>out. return_op (Ok
       (Integer (int (2 * length hash)) # concat (map (\<lambda>(f, v). [Bytes f, Bytes v]) hash) @ out))))"

fun checkpoint_save_lua :: "lua \<Rightarrow> string list \<Rightarrow> string list \<Rightarrow> (keyspace, string + redis_value) op" where
  "checkpoint_save_lua L [key] [sequence] =
     try_op (redis_get key) (\<lambda>current. case current of
         None \<Rightarrow> try_op (redis_set key sequence) (\<lambda>_. return_op (Ok (Integer 1)))
       | Some current \<Rightarrow>
           (case (lu_tonumber L current, lu_tonumber L sequence) of
              (Some a, Some b) \<Rightarrow>
                if a < b then try_op (redis_set key sequence) (\<lambda>_. return_op (Ok (Integer 1)))
                else return_op (Ok (Integer 1))
            | _ \<Rightarrow> return_op (Err script_error)))"
| "checkpoint_save_lua L keys argv = return_op (Err script_error)"

fun idempotency_reserve_lua :: "lua \<Rightarrow> string list \<Rightarrow> string list \<Rightarrow> (keyspace, string + redis_value) op" where
  "idempotency_reserve_lua L [key] [lease_owner, expiry, now] =
     try_op (redis_hget key ''state'') (\<lambda>existing. case existing of
         None \<Rightarrow> try_op (redis_hset key [(''state'', ''pending''), (''owner'', lease_owner), (''expires_at_ms'', expiry)])
           (\<lambda>_. return_op (Ok (Integer 1)))
       | Some existing \<Rightarrow>
           if existing = ''complete'' then return_op (Ok (Integer 0))
           else try_op (redis_hget key ''expires_at_ms'') (\<lambda>expires.
             case (lu_tonumber L (or_zero expires), lu_tonumber L now) of
               (Some expires, Some now) \<Rightarrow>
                 if expires \<le> now
                 then try_op (redis_hset key [(''owner'', lease_owner), (''expires_at_ms'', expiry)])
                   (\<lambda>_. return_op (Ok (Integer 1)))
                 else return_op (Ok (Integer 0))
             | _ \<Rightarrow> return_op (Err script_error)))"
| "idempotency_reserve_lua L keys argv = return_op (Err script_error)"

fun idempotency_save_lua :: "string list \<Rightarrow> string list \<Rightarrow> (keyspace, string + redis_value) op" where
  "idempotency_save_lua [key] [payload] =
     try_op (redis_hset key [(''state'', ''complete''), (''value'', payload), (''owner'', []), (''expires_at_ms'', ''0'')])
       (\<lambda>_. return_op (Ok (Integer 1)))"
| "idempotency_save_lua keys argv = return_op (Err script_error)"

fun idempotency_remove_lua :: "string list \<Rightarrow> (keyspace, string + redis_value) op" where
  "idempotency_remove_lua [key] = try_op (redis_del key) (\<lambda>n. return_op (Ok (Integer (int n))))"
| "idempotency_remove_lua keys = return_op (Err script_error)"

fun heartbeat_lua :: "string list \<Rightarrow> string list \<Rightarrow> (keyspace, string + redis_value) op" where
  "heartbeat_lua [key] [lease_owner, expiry] =
     try_op (redis_hget key ''owner'') (\<lambda>current.
       if current = Some lease_owner
       then try_op (redis_hset key [(''expires_at_ms'', expiry)]) (\<lambda>_. return_op (Ok (Integer 1)))
       else return_op (Ok (Integer 0)))"
| "heartbeat_lua keys argv = return_op (Err script_error)"

fun snapshot_save_lua :: "lua \<Rightarrow> string list \<Rightarrow> string list \<Rightarrow> (keyspace, string + redis_value) op" where
  "snapshot_save_lua L [key] [revision, state, metadata, recorded_at_ms, aggregate_type] =
     try_op (redis_hget key ''revision'') (\<lambda>current.
       case (lu_tonumber L (or_zero current), lu_tonumber L revision) of
         (Some current, Some offered) \<Rightarrow>
           if current \<noteq> 0 \<and> offered < current
           then return_op (Ok (Array [Bytes ''ERR'', Bytes ''stale_revision'', Integer current]))
           else try_op (redis_hset key [(''revision'', revision), (''state'', state), (''metadata'', metadata),
               (''recorded_at_ms'', recorded_at_ms), (''aggregate_type'', aggregate_type)])
             (\<lambda>_. return_op (Ok (Bytes ''OK'')))
       | _ \<Rightarrow> return_op (Err script_error))"
| "snapshot_save_lua L keys argv = return_op (Err script_error)"

definition run_script ::
  "lua \<Rightarrow> lua_script \<Rightarrow> string list \<Rightarrow> string list \<Rightarrow> (keyspace, string + redis_value) op" where
  "run_script L script keys argv = (case script of
      AppendScript \<Rightarrow> append_lua L keys argv
    | FetchHashesScript \<Rightarrow> try_op (fetch_hashes_lua keys) (\<lambda>out. return_op (Ok (Array out)))
    | CheckpointSaveScript \<Rightarrow> checkpoint_save_lua L keys argv
    | IdempotencyReserveScript \<Rightarrow> idempotency_reserve_lua L keys argv
    | IdempotencySaveScript \<Rightarrow> idempotency_save_lua keys argv
    | IdempotencyRemoveScript \<Rightarrow> idempotency_remove_lua keys
    | SnapshotSaveScript \<Rightarrow> snapshot_save_lua L keys argv
    | HeartbeatScript \<Rightarrow> heartbeat_lua keys argv)"

section \<open>The server\<close>

text \<open>The arguments of a script behind its text or digest: the number of keys, the keys, the rest.\<close>

datatype redis_command =
    GetCommand string
  | DelCommand string
  | HGetAllCommand string
  | ZRangeByScoreCommand string nat nat
  | EvalSha lua_script "string list"
  | Eval lua_script "string list"
  | Publish string string

datatype redis_step =
    Answers
  | Refuses string
  | Loses string
  | OtherAppends "string list" "string list"
  | FlushesScripts

record redis_world =
  rw_keys :: keyspace
  rw_scripts :: "lua_script list"
  rw_published :: "(string \<times> string) list"
  rw_schedule :: "redis_step list"
  rw_clock :: clock
  rw_ticks :: nat

definition on_keyspace :: "(keyspace, 'a) op \<Rightarrow> (redis_world, 'a) op" where
  "on_keyspace f w = (case f (rw_keys w) of (r, ks) \<Rightarrow> (r, w\<lparr>rw_keys := ks\<rparr>))"

definition eval_script :: "lua \<Rightarrow> lua_script \<Rightarrow> string list \<Rightarrow> (redis_world, string + redis_value) op" where
  "eval_script L script args = (case args of
      [] \<Rightarrow> return_op (Err ''ERR wrong number of arguments'')
    | numkeys # rest \<Rightarrow>
        (case parse_u64 numkeys of
           Inl _ \<Rightarrow> return_op (Err ''ERR value is not an integer or out of range'')
         | Inr n \<Rightarrow>
             if n > length rest then return_op (Err ''ERR Number of keys can't be greater than number of args'')
             else on_keyspace (run_script L script (take n rest) (drop n rest))))"

definition bytes_pairs :: "(string \<times> string) list \<Rightarrow> redis_value" where
  "bytes_pairs ps = Array (concat (map (\<lambda>(a, b). [Bytes a, Bytes b]) ps))"

definition serve_command :: "lua \<Rightarrow> redis_command \<Rightarrow> (redis_world, string + redis_value) op" where
  "serve_command L command = (case command of
      GetCommand k \<Rightarrow> on_keyspace (try_op (redis_get k) (\<lambda>s. return_op (Ok
        (case s of None \<Rightarrow> NilValue | Some s \<Rightarrow> Bytes s))))
    | DelCommand k \<Rightarrow> on_keyspace (try_op (redis_del k) (\<lambda>n. return_op (Ok (Integer (int n)))))
    | HGetAllCommand k \<Rightarrow> on_keyspace (try_op (redis_hgetall k) (\<lambda>hash. return_op (Ok (bytes_pairs hash))))
    | ZRangeByScoreCommand k after limit \<Rightarrow> on_keyspace (try_op (redis_zrange k (int after) limit) (\<lambda>members.
        return_op (Ok (bytes_pairs (map (\<lambda>(m, s). (m, lu_arg L s)) members)))))
    | EvalSha script args \<Rightarrow> (\<lambda>w.
        if script \<in> set (rw_scripts w) then eval_script L script args w
        else (Err ''NOSCRIPT No matching script. Please use EVAL.'', w))
    | Eval script args \<Rightarrow> (\<lambda>w. eval_script L script args (w\<lparr>rw_scripts := script # rw_scripts w\<rparr>))
    | Publish channel payload \<Rightarrow> (\<lambda>w.
        (Ok (Integer 0), w\<lparr>rw_published := rw_published w @ [(channel, payload)]\<rparr>)))"

text \<open>What happens before the command, and what the schedule decides for it.\<close>

fun others_act :: "lua \<Rightarrow> redis_step list \<Rightarrow> redis_world \<Rightarrow> redis_world" where
  "others_act L (OtherAppends keys argv # steps) w =
     others_act L steps (w\<lparr>rw_keys := snd (append_lua L keys argv (rw_keys w))\<rparr>)"
| "others_act L (FlushesScripts # steps) w = others_act L steps (w\<lparr>rw_scripts := []\<rparr>)"
| "others_act L steps w = w\<lparr>rw_schedule := steps\<rparr>"

text \<open>How a client hands an answer to the store: as it came, or, in Spin, always as a list.\<close>

record redis_client =
  rc_lua :: lua
  rc_frame :: "redis_value \<Rightarrow> redis_value"

definition wasi_frame :: "redis_value \<Rightarrow> redis_value" where "wasi_frame value = value"

fun spin_frame :: "redis_value \<Rightarrow> redis_value" where
  "spin_frame (Array items) = Array items"
| "spin_frame value = Array [value]"

definition redis_execute :: "redis_client \<Rightarrow> redis_command \<Rightarrow> (redis_world, string + redis_value) op" where
  "redis_execute C command w =
     (let w = others_act (rc_lua C) (rw_schedule w) w; serve = serve_command (rc_lua C) command in
      case rw_schedule w of
        Refuses e # steps \<Rightarrow> (Err e, w\<lparr>rw_schedule := steps\<rparr>)
      | Loses e # steps \<Rightarrow> (Err e, snd (serve (w\<lparr>rw_schedule := steps\<rparr>)))
      | steps \<Rightarrow> (case serve (w\<lparr>rw_schedule := tl steps\<rparr>) of (r, w) \<Rightarrow> (map_ok (rc_frame C) r, w)))"

definition ascii_upper :: "char \<Rightarrow> char" where
  "ascii_upper c = (if (97::nat) \<le> of_char c \<and> of_char c \<le> (122::nat)
     then char_of (of_char c - (32::nat)) else c)"

definition is_noscript_error :: "string \<Rightarrow> bool" where
  "is_noscript_error error \<longleftrightarrow> contains (map ascii_upper error) ''NOSCRIPT''"

definition execute_lua_script ::
  "redis_client \<Rightarrow> lua_script \<Rightarrow> string list \<Rightarrow> (redis_world, string + redis_value) op" where
  "execute_lua_script C script args w = (case redis_execute C (EvalSha script args) w of
      (Inr v, w1) \<Rightarrow> (Ok v, w1)
    | (Inl error, w1) \<Rightarrow>
        if is_noscript_error error then redis_execute C (Eval script args) w1 else (Err error, w1))"

end
