(* ===== verification/Redis_Store.thy ===== *)
theory Redis_Store
  imports Redis_Server Sqlite_Store
begin

text \<open>
  \<open>RedisEventStore\<close> and \<open>RedisCheckpointStore\<close> of \<open>src/redis.rs\<close>: keys under one hash tag, reads of an
  index in pages and of event hashes in chunks, the decoding of a hash, and the append by one script.
  The store record holds the client and what the code takes from its surroundings.
\<close>

section \<open>The store\<close>

definition DEFAULT_PREFIX :: string where "DEFAULT_PREFIX = ''ddd_cqrs_es''"
definition SEQUENCE_PAGE_SIZE :: nat where "SEQUENCE_PAGE_SIZE = 500"
definition HASH_FETCH_CHUNK_SIZE :: nat where "HASH_FETCH_CHUNK_SIZE = 256"

record ('e, 'id) redis_event_store =
  rs_client :: redis_client
  rs_prefix :: string
  rs_aggregate_type :: string
  rs_upcasters :: upcaster_registry
  rs_codecs :: "('e, 'id) sql_codecs"
  rs_source :: "nat \<Rightarrow> event_id \<times> system_time"
  rs_earlier :: "int \<Rightarrow> string"

definition validate_redis_prefix :: "string \<Rightarrow> event_store_error + unit" where
  "validate_redis_prefix pfx =
     (if pfx = [] then Err (error_backend ''Redis key prefix cannot be empty'')
      else if CHR ''{'' \<in> set pfx \<or> CHR ''}'' \<in> set pfx
        then Err (error_backend (''Redis key prefix `'' @ pfx @ ''` must not contain Redis Cluster hash-tag braces''))
      else if list_all (\<lambda>c. c = CHR '':'' \<or> c = CHR ''_'' \<or> c = CHR ''-'' \<or> is_ascii_alphanumeric c) pfx
        then Ok ()
      else Err (error_backend (''invalid Redis key prefix `'' @ pfx @ ''`'')))"

definition redis_with_prefix ::
  "('e, 'id) redis_event_store \<Rightarrow> string \<Rightarrow> event_store_error + ('e, 'id) redis_event_store" where
  "redis_with_prefix st pfx =
     and_then (validate_redis_prefix pfx) (\<lambda>_.
       Ok (st\<lparr>rs_prefix := pfx, rs_upcasters := upcaster_registry_new\<rparr>))"

definition redis_new :: "('e, 'id) redis_event_store \<Rightarrow> ('e, 'id) redis_event_store" where
  "redis_new st = st\<lparr>rs_prefix := DEFAULT_PREFIX, rs_upcasters := upcaster_registry_new\<rparr>"

definition redis_hash_tagged_prefix :: "string \<Rightarrow> string" where
  "redis_hash_tagged_prefix pfx = ''{'' @ pfx @ ''}''"

definition hex_encode :: "string \<Rightarrow> string" where
  "hex_encode bytes = concat (map (\<lambda>c. [digit_char (of_char c div 16), digit_char (of_char c mod 16)]) bytes)"

definition event_key_prefix :: "('e, 'id) redis_event_store \<Rightarrow> string" where
  "event_key_prefix st = redis_hash_tagged_prefix (rs_prefix st) @ '':event:''"

definition sequence_key :: "('e, 'id) redis_event_store \<Rightarrow> string" where
  "sequence_key st = redis_hash_tagged_prefix (rs_prefix st) @ '':seq''"

definition global_key :: "('e, 'id) redis_event_store \<Rightarrow> string" where
  "global_key st = redis_hash_tagged_prefix (rs_prefix st) @ '':global''"

definition event_key :: "('e, 'id) redis_event_store \<Rightarrow> nat \<Rightarrow> string" where
  "event_key st sequence = event_key_prefix st @ show_nat sequence"

record redis_stream_keys =
  sk_aggregate_id_json :: string
  sk_revision_key :: string
  sk_stream_key :: string

definition stream_keys_for_storage_key ::
  "('e, 'id) redis_event_store \<Rightarrow> string \<Rightarrow> string \<Rightarrow> redis_stream_keys" where
  "stream_keys_for_storage_key st aggregate_type aggregate_id_json =
     (let tagged = redis_hash_tagged_prefix (rs_prefix st);
          key = hex_encode aggregate_type @ '':'' @ hex_encode aggregate_id_json
      in \<lparr>sk_aggregate_id_json = aggregate_id_json, sk_revision_key = tagged @ '':revision:'' @ key,
          sk_stream_key = tagged @ '':stream:'' @ key\<rparr>)"

definition redis_stream_keys_of ::
  "('e, 'id) redis_event_store \<Rightarrow> 'id \<Rightarrow> event_store_error + redis_stream_keys" where
  "redis_stream_keys_of st aggregate_id =
     map_ok (\<lambda>keys. stream_keys_for_storage_key st (rs_aggregate_type st) (hd keys))
       (aggregate_id_lookup_keys (cx_id (rs_codecs st)) aggregate_id)"

section \<open>Reading values\<close>

text \<open>\<open>{value:?}\<close> of a value.\<close>

fun join_text :: "string \<Rightarrow> string list \<Rightarrow> string" where
  "join_text sep [] = []"
| "join_text sep [s] = s"
| "join_text sep (s # t # ts) = s @ sep @ join_text sep (t # ts)"

definition debug_char :: "char \<Rightarrow> string" where
  "debug_char c = (if c = CHR 0x22 \<or> c = CHR 0x5C then [CHR 0x5C, c]
     else if c = CHR 0x0A then [CHR 0x5C, CHR ''n''] else if c = CHR 0x0D then [CHR 0x5C, CHR ''r'']
     else if c = CHR 0x09 then [CHR 0x5C, CHR ''t''] else if c = CHR 0x00 then [CHR 0x5C, CHR ''0'']
     else if of_char c < (32::nat) \<or> of_char c = (127::nat)
       then CHR 0x5C # ''u{'' @ show_hex (of_char c) @ ''}''
     else [c])"

fun debug_redis_value :: "redis_value \<Rightarrow> string" where
  "debug_redis_value NilValue = ''Nil''"
| "debug_redis_value (Status s) = ''Status('' @ [CHR 0x22] @ concat (map debug_char s) @ [CHR 0x22] @ '')''"
| "debug_redis_value (Integer z) = ''Int('' @ show_int z @ '')''"
| "debug_redis_value (Bytes bytes) = ''Bytes(['' @ join_text '', '' (map (\<lambda>c. show_nat (of_char c)) bytes) @ ''])''"
| "debug_redis_value (Array values) = ''Array(['' @ join_text '', '' (map debug_redis_value values) @ ''])''"

definition map_executor_error :: "string \<Rightarrow> event_store_error" where
  "map_executor_error error = error_backend error"

fun redis_array_items :: "redis_value \<Rightarrow> event_store_error + redis_value list" where
  "redis_array_items (Array items) = Ok items"
| "redis_array_items NilValue = Ok []"
| "redis_array_items value = Err (error_deserialization (''expected Redis array, got '' @ debug_redis_value value))"

fun redis_scalar :: "redis_value \<Rightarrow> redis_value" where
  "redis_scalar (Array [item]) = item"
| "redis_scalar value = value"

fun redis_value_bytes :: "redis_value \<Rightarrow> string \<Rightarrow> event_store_error + string" where
  "redis_value_bytes (Bytes bytes) label = Ok bytes"
| "redis_value_bytes (Status s) label = Ok s"
| "redis_value_bytes (Integer z) label = Ok (show_int z)"
| "redis_value_bytes value label =
     Err (error_deserialization (label @ '': expected Redis scalar, got '' @ debug_redis_value value))"

definition redis_value_string :: "redis_value \<Rightarrow> string \<Rightarrow> event_store_error + string" where
  "redis_value_string value label =
     and_then (redis_value_bytes value label) (\<lambda>bytes.
       map_err (\<lambda>error. error_deserialization (label @ '' is not valid UTF-8: '' @ error)) (from_utf8 bytes))"

fun redis_value_u64 :: "redis_value \<Rightarrow> string \<Rightarrow> event_store_error + nat" where
  "redis_value_u64 (Integer z) label =
     ok_or (error_deserialization (label @ '' cannot be negative'')) (u64_try_from_i64 z)"
| "redis_value_u64 (Bytes bytes) label =
     and_then (map_err (\<lambda>error. error_deserialization (label @ '' is not valid UTF-8: '' @ error)) (from_utf8 bytes)) (\<lambda>text.
       map_err (\<lambda>error. error_deserialization (label @ '' is not a u64: '' @ error)) (parse_u64 text))"
| "redis_value_u64 (Status text) label =
     map_err (\<lambda>error. error_deserialization (label @ '' is not a u64: '' @ error)) (parse_u64 text)"
| "redis_value_u64 value label =
     Err (error_deserialization (label @ '': expected Redis integer scalar, got '' @ debug_redis_value value))"

definition redis_optional_u64 :: "redis_value \<Rightarrow> string \<Rightarrow> event_store_error + nat" where
  "redis_optional_u64 value label = (case redis_scalar value of
      NilValue \<Rightarrow> Ok 0 | value \<Rightarrow> redis_value_u64 value label)"

fun pairs_of :: "'a list \<Rightarrow> ('a \<times> 'a) list" where
  "pairs_of (a # b # xs) = (a, b) # pairs_of xs"
| "pairs_of xs = []"

definition redis_scored_sequence_page :: "redis_value \<Rightarrow> event_store_error + (nat \<times> nat) list" where
  "redis_scored_sequence_page value =
     and_then (redis_array_items value) (\<lambda>items.
       if length items mod 2 \<noteq> 0
       then Err (error_deserialization ''Redis scored index page has an odd element count'')
       else collect_results (\<lambda>(member, score).
         and_then (redis_value_u64 member ''Redis sequence'') (\<lambda>m.
         and_then (redis_value_u64 score ''Redis index score'') (\<lambda>s. Ok (m, s)))) (pairs_of items))"

text \<open>The \<open>BTreeMap\<close> of a hash: each field once.\<close>

fun insert_fields :: "(redis_value \<times> redis_value) list \<Rightarrow> (string \<times> string) list \<Rightarrow>
    event_store_error + (string \<times> string) list" where
  "insert_fields [] hash = Ok hash"
| "insert_fields ((f, v) # ps) hash =
     and_then (redis_value_string f ''Redis hash field'') (\<lambda>field.
     and_then (redis_value_bytes v ''Redis hash value'') (\<lambda>content.
       insert_fields ps (AList.update field content hash)))"

definition redis_hash_from_items :: "redis_value list \<Rightarrow> event_store_error + (string \<times> string) list" where
  "redis_hash_from_items items =
     (if length items mod 2 \<noteq> 0 then Err (error_deserialization ''Redis hash reply has odd field count'')
      else insert_fields (pairs_of items) [])"

text \<open>The loop over the sequences: \<open>items\<close> from the cursor on, and the number of hashes so far.\<close>

fun unpack_loop :: "nat \<Rightarrow> nat \<Rightarrow> nat list \<Rightarrow> redis_value list \<Rightarrow>
    event_store_error + (string \<times> string) list list" where
  "unpack_loop found expected [] items =
     (if items \<noteq> [] then Err (error_deserialization (''Redis hash batch has '' @ show_nat (length items) @
        '' trailing items after '' @ show_nat expected @ '' events''))
      else Ok [])"
| "unpack_loop found expected (sequence # sequences) items =
     (case items of
        [] \<Rightarrow> Err (error_deserialization (''Redis hash batch ended after '' @ show_nat found @ '' of '' @
          show_nat expected @ '' events''))
      | Integer count # rest \<Rightarrow>
          (if count < 0 then Err (error_deserialization ''Redis hash batch length prefix is negative'')
           else if nat count > length rest
             then Err (error_deserialization (''Redis hash batch is truncated at event sequence '' @ show_nat sequence))
           else and_then (redis_hash_from_items (take (nat count) rest)) (\<lambda>hash.
             if hash = [] then Err (error_deserialization (''Redis event sequence '' @ show_nat sequence @
               '' is indexed but missing''))
             else map_ok (Cons hash) (unpack_loop (found + 1) expected sequences (drop (nat count) rest))))
      | _ \<Rightarrow> Err (error_deserialization ''Redis hash batch length prefix is not an integer''))"

definition unpack_flat_hash_batch ::
  "redis_value \<Rightarrow> nat list \<Rightarrow> event_store_error + (string \<times> string) list list" where
  "unpack_flat_hash_batch value sequences =
     and_then (redis_array_items value) (unpack_loop 0 (length sequences) sequences)"

section \<open>Reading an index and its hashes\<close>

definition current_revision ::
  "('e, 'id) redis_event_store \<Rightarrow> string \<Rightarrow> (redis_world, event_store_error + nat) op" where
  "current_revision st revision_key =
     try_op (op_map_err map_executor_error (redis_execute (rs_client st) (GetCommand revision_key))) (\<lambda>value.
       return_op (redis_optional_u64 value ''stream revision''))"

fun max_revision_loop ::
  "('e, 'id) redis_event_store \<Rightarrow> string \<Rightarrow> string list \<Rightarrow> nat \<Rightarrow> (redis_world, event_store_error + nat) op" where
  "max_revision_loop st aggregate_type [] revision = return_op (Ok revision)"
| "max_revision_loop st aggregate_type (storage_key # keys) revision =
     try_op (current_revision st (sk_revision_key (stream_keys_for_storage_key st aggregate_type storage_key)))
       (\<lambda>r. max_revision_loop st aggregate_type keys (max revision r))"

definition max_revision_for_aggregate_id ::
  "('e, 'id) redis_event_store \<Rightarrow> string \<Rightarrow> 'id \<Rightarrow> (redis_world, event_store_error + nat) op" where
  "max_revision_for_aggregate_id st aggregate_type aggregate_id =
     try_op (return_op (aggregate_id_lookup_keys (cx_id (rs_codecs st)) aggregate_id)) (\<lambda>keys.
       max_revision_loop st aggregate_type keys 0)"

text \<open>The chunks of a list.\<close>

function chunks :: "nat \<Rightarrow> 'a list \<Rightarrow> 'a list list" where
  "chunks n xs = (if xs = [] \<or> n = 0 then [] else take n xs # chunks n (drop n xs))"
  by pat_completeness auto
termination by (relation "measure (\<lambda>(n, xs). length xs)") auto

declare chunks.simps [simp del]

fun load_chunks ::
  "('e, 'id) redis_event_store \<Rightarrow> nat list list \<Rightarrow>
   (redis_world, event_store_error + (string \<times> string) list list) op" where
  "load_chunks st [] = return_op (Ok [])"
| "load_chunks st (chunk # rest) =
     try_op (op_map_err map_executor_error (execute_lua_script (rs_client st) FetchHashesScript
         (show_nat (length chunk) # map (event_key st) chunk))) (\<lambda>value.
     try_op (return_op (unpack_flat_hash_batch value chunk)) (\<lambda>hashes.
     try_op (load_chunks st rest) (\<lambda>more. return_op (Ok (hashes @ more)))))"

definition load_sequence_hashes ::
  "('e, 'id) redis_event_store \<Rightarrow> nat list \<Rightarrow> (redis_world, event_store_error + (string \<times> string) list list) op" where
  "load_sequence_hashes st sequences = load_chunks st (chunks HASH_FETCH_CHUNK_SIZE sequences)"

text \<open>
  The loop over the pages of an index.  \<open>page_max\<close> is \<open>SEQUENCE_PAGE_SIZE\<close>; a score is a \<open>u64\<close>, so a
  cursor that only grows ends the loop.
\<close>

definition page_size_of :: "nat \<Rightarrow> nat option \<Rightarrow> nat \<Rightarrow> nat option" where
  "page_size_of page_max limit found = (case limit of
      None \<Rightarrow> Some page_max
    | Some l \<Rightarrow> if l - found = 0 then None else Some (min (l - found) page_max))"

function index_pages ::
  "redis_client \<Rightarrow> nat \<Rightarrow> string \<Rightarrow> nat option \<Rightarrow> nat list \<Rightarrow> nat \<Rightarrow> redis_world \<Rightarrow>
   (event_store_error + nat list) \<times> redis_world" where
  "index_pages C page_max index_key limit sequences cursor w =
     (case page_size_of page_max limit (length sequences) of
        None \<Rightarrow> (Ok sequences, w)
      | Some page_size \<Rightarrow>
          (case redis_execute C (ZRangeByScoreCommand index_key cursor page_size) w of
             (Inl e, w1) \<Rightarrow> (Err (map_executor_error e), w1)
           | (Inr value, w1) \<Rightarrow>
               (case redis_scored_sequence_page value of
                  Inl e \<Rightarrow> (Err e, w1)
                | Inr page \<Rightarrow>
                    if length page < page_size \<or> page = [] then (Ok (sequences @ map fst page), w1)
                    else if cursor < snd (last page) \<and> snd (last page) \<le> u64_max
                    then index_pages C page_max index_key limit (sequences @ map fst page) (snd (last page)) w1
                    else (Ok (sequences @ map fst page), w1))))"
  by pat_completeness auto
termination by (relation "measure (\<lambda>(C, page_max, index_key, limit, sequences, cursor, w). u64_max - cursor)") auto

declare index_pages.simps [simp del]

definition load_indexed_sequences ::
  "('e, 'id) redis_event_store \<Rightarrow> string \<Rightarrow> nat \<Rightarrow> nat option \<Rightarrow> (redis_world, event_store_error + nat list) op" where
  "load_indexed_sequences st index_key after_score limit =
     index_pages (rs_client st) SEQUENCE_PAGE_SIZE index_key limit [] after_score"

section \<open>Decoding a hash\<close>

definition hash_field_string_peek :: "(string \<times> string) list \<Rightarrow> string \<Rightarrow> event_store_error + string" where
  "hash_field_string_peek hash field =
     and_then (ok_or (error_deserialization (''Redis event hash missing `'' @ field @ ''`'')) (map_of hash field))
       (\<lambda>v. map_err (\<lambda>error. error_deserialization (''Redis event hash `'' @ field @ ''` UTF-8: '' @ error)) (from_utf8 v))"

text \<open>Taking a field out of the map; the fields are distinct, so the others stay as they are.\<close>

definition take_hash_field :: "(string \<times> string) list \<Rightarrow> string \<Rightarrow> event_store_error + string" where
  "take_hash_field hash field =
     ok_or (error_deserialization (''Redis event hash missing `'' @ field @ ''`'')) (map_of hash field)"

definition hash_field_string :: "(string \<times> string) list \<Rightarrow> string \<Rightarrow> event_store_error + string" where
  "hash_field_string hash field = and_then (take_hash_field hash field) (\<lambda>v.
     map_err (\<lambda>error. error_deserialization (''Redis event hash `'' @ field @ ''` UTF-8: '' @ error)) (from_utf8 v))"

definition hash_field_u64 :: "(string \<times> string) list \<Rightarrow> string \<Rightarrow> event_store_error + nat" where
  "hash_field_u64 hash field = and_then (hash_field_string hash field) (\<lambda>v.
     map_err (\<lambda>error. error_deserialization (''Redis event hash `'' @ field @ ''` u64: '' @ error)) (parse_u64 v))"

definition hash_field_i64 :: "(string \<times> string) list \<Rightarrow> string \<Rightarrow> event_store_error + int" where
  "hash_field_i64 hash field = and_then (hash_field_string hash field) (\<lambda>v.
     map_err (\<lambda>error. error_deserialization (''Redis event hash `'' @ field @ ''` i64: '' @ error)) (parse_i64 v))"

definition hash_field_u32 :: "(string \<times> string) list \<Rightarrow> string \<Rightarrow> event_store_error + nat" where
  "hash_field_u32 hash field = and_then (hash_field_u64 hash field) (\<lambda>n.
     if n \<le> u32_max then Ok n
     else Err (error_deserialization (''Redis event hash `'' @ field @ ''` exceeds u32'')))"

definition hash_to_envelope ::
  "('e, 'id) redis_event_store \<Rightarrow> (string \<times> string) list \<Rightarrow> event_store_error + ('e, 'id) event_envelope" where
  "hash_to_envelope st hash =
     and_then (hash_field_string hash ''event_id'') (\<lambda>event_id.
     and_then (hash_field_string hash ''aggregate_id'') (\<lambda>aggregate_id_json.
     and_then (hash_field_string hash ''aggregate_type'') (\<lambda>aggregate_type.
     and_then (hash_field_u64 hash ''revision'') (\<lambda>revision.
     and_then (hash_field_u64 hash ''sequence'') (\<lambda>sequence.
     and_then (hash_field_string hash ''event_type'') (\<lambda>event_type.
     and_then (hash_field_u32 hash ''event_version'') (\<lambda>event_version.
     and_then (take_hash_field hash ''payload'') (\<lambda>payload_bytes.
     and_then (take_hash_field hash ''metadata'') (\<lambda>metadata_bytes.
     and_then (hash_field_i64 hash ''recorded_at_ms'') (\<lambda>recorded_at_ms.
     and_then (deserialize_id (cx_id (rs_codecs st)) aggregate_id_json) (\<lambda>aggregate_id.
     and_then (map_err (\<lambda>error. error_deserialization (display_upcast_error error))
         (prepare_payload (rs_upcasters st) event_type event_version (to_bytes payload_bytes))) (\<lambda>(event_version, upcasted).
     and_then (map_err (\<lambda>error. error_deserialization (''payload JSON: '' @ error))
         (cx_parse (rs_codecs st) (from_bytes upcasted))) (\<lambda>payload_value.
     and_then (deserialize_payload (cx_event (rs_codecs st)) event_id event_type payload_value) (\<lambda>payload.
     and_then (map_err (\<lambda>error. error_deserialization (''metadata JSON: '' @ error))
         (cx_parse (rs_codecs st) metadata_bytes)) (\<lambda>metadata_value.
     and_then (deserialize_metadata (cx_metadata (rs_codecs st)) event_id metadata_value) (\<lambda>metadata.
     and_then (millis_to_system_time recorded_at_ms) (\<lambda>recorded_at.
       Ok (envelope_new (event_id_from_string event_id) aggregate_id (aggregate_type_new aggregate_type) revision
         (Some sequence) (event_type_new event_type) event_version payload metadata recorded_at))))))))))))))))))"

definition hash_to_raw_envelope ::
  "('e, 'id) redis_event_store \<Rightarrow> (string \<times> string) list \<Rightarrow> event_store_error + (json, string) event_envelope" where
  "hash_to_raw_envelope st hash =
     and_then (hash_field_string hash ''event_id'') (\<lambda>event_id.
     and_then (hash_field_string hash ''aggregate_id'') (\<lambda>aggregate_id_json.
     and_then (hash_field_string hash ''aggregate_type'') (\<lambda>aggregate_type.
     and_then (hash_field_u64 hash ''revision'') (\<lambda>revision.
     and_then (hash_field_u64 hash ''sequence'') (\<lambda>sequence.
     and_then (hash_field_string hash ''event_type'') (\<lambda>event_type.
     and_then (hash_field_u32 hash ''event_version'') (\<lambda>event_version.
     and_then (take_hash_field hash ''payload'') (\<lambda>payload_bytes.
     and_then (take_hash_field hash ''metadata'') (\<lambda>metadata_bytes.
     and_then (hash_field_i64 hash ''recorded_at_ms'') (\<lambda>recorded_at_ms.
     and_then (map_err (\<lambda>error. error_deserialization (display_upcast_error error))
         (prepare_payload (rs_upcasters st) event_type event_version (to_bytes payload_bytes))) (\<lambda>(event_version, upcasted).
     and_then (map_err (\<lambda>error. error_deserialization (''payload JSON: '' @ error))
         (cx_parse (rs_codecs st) (from_bytes upcasted))) (\<lambda>payload.
     and_then (map_err (\<lambda>error. error_deserialization (''metadata JSON: '' @ error))
         (cx_parse (rs_codecs st) metadata_bytes)) (\<lambda>metadata_value.
     and_then (deserialize_metadata (cx_metadata (rs_codecs st)) event_id metadata_value) (\<lambda>metadata.
     and_then (millis_to_system_time recorded_at_ms) (\<lambda>recorded_at.
       Ok (envelope_new (event_id_from_string event_id) aggregate_id_json (aggregate_type_new aggregate_type)
         revision (Some sequence) (event_type_new event_type) event_version payload metadata recorded_at))))))))))))))))"

section \<open>Loading\<close>

text \<open>The hashes of this aggregate type, decoded; the others are passed over.\<close>

fun typed_envelopes ::
  "('e, 'id) redis_event_store \<Rightarrow> (string \<times> string) list list \<Rightarrow> event_store_error + ('e, 'id) event_stream" where
  "typed_envelopes st [] = Ok []"
| "typed_envelopes st (hash # hashes) =
     and_then (hash_field_string_peek hash ''aggregate_type'') (\<lambda>aggregate_type.
       if aggregate_type = rs_aggregate_type st
       then and_then (hash_to_envelope st hash) (\<lambda>env. map_ok (Cons env) (typed_envelopes st hashes))
       else typed_envelopes st hashes)"

fun load_storage_keys ::
  "('e, 'id) redis_event_store \<Rightarrow> nat \<Rightarrow> string list \<Rightarrow> (redis_world, event_store_error + ('e, 'id) event_stream) op" where
  "load_storage_keys st after [] = return_op (Ok [])"
| "load_storage_keys st after (storage_key # storage_keys) =
     try_op (load_indexed_sequences st
         (sk_stream_key (stream_keys_for_storage_key st (rs_aggregate_type st) storage_key)) after None) (\<lambda>sequences.
     try_op (load_sequence_hashes st sequences) (\<lambda>hashes.
     try_op (return_op (typed_envelopes st hashes)) (\<lambda>events.
       if events \<noteq> [] then return_op (Ok events) else load_storage_keys st after storage_keys)))"

definition redis_load_after_revision ::
  "('e, 'id) redis_event_store \<Rightarrow> 'id \<Rightarrow> revision \<Rightarrow> (redis_world, event_store_error + ('e, 'id) event_stream) op" where
  "redis_load_after_revision st aggregate_id revision =
     try_op (return_op (aggregate_id_lookup_keys (cx_id (rs_codecs st)) aggregate_id)) (\<lambda>storage_keys.
       load_storage_keys st revision storage_keys)"

definition redis_load ::
  "('e, 'id) redis_event_store \<Rightarrow> 'id \<Rightarrow> (redis_world, event_store_error + ('e, 'id) event_stream) op" where
  "redis_load st aggregate_id =
     try_op (return_op (aggregate_id_lookup_keys (cx_id (rs_codecs st)) aggregate_id)) (\<lambda>storage_keys.
       load_storage_keys st 0 storage_keys)"

definition redis_global_range ::
  "('e, 'id) redis_event_store \<Rightarrow> ((string \<times> string) list \<Rightarrow> event_store_error + 'env) \<Rightarrow> nat option \<Rightarrow> nat option \<Rightarrow>
   (redis_world, event_store_error + 'env list) op" where
  "redis_global_range st decode sequence limit =
     try_op (load_indexed_sequences st (global_key st) (case sequence of None \<Rightarrow> 0 | Some s \<Rightarrow> s) limit) (\<lambda>sequences.
     try_op (load_sequence_hashes st sequences) (\<lambda>hashes. return_op (collect_results decode hashes)))"

definition redis_load_global_after ::
  "('e, 'id) redis_event_store \<Rightarrow> nat option \<Rightarrow> (redis_world, event_store_error + ('e, 'id) event_stream) op" where
  "redis_load_global_after st sequence = redis_global_range st (hash_to_envelope st) sequence None"

definition redis_load_global_after_limited ::
  "('e, 'id) redis_event_store \<Rightarrow> nat option \<Rightarrow> nat \<Rightarrow> (redis_world, event_store_error + ('e, 'id) event_stream) op" where
  "redis_load_global_after_limited st sequence limit =
     redis_global_range st (hash_to_envelope st) sequence (Some limit)"

definition redis_load_raw_global_after_limited ::
  "('e, 'id) redis_event_store \<Rightarrow> nat option \<Rightarrow> nat \<Rightarrow> (redis_world, event_store_error + (json, string) event_stream) op" where
  "redis_load_raw_global_after_limited st sequence limit =
     redis_global_range st (hash_to_raw_envelope st) sequence (Some limit)"

section \<open>Appending\<close>

record 'e prepared_redis_event =
  pr_event_id :: event_id
  pr_event_type :: string
  pr_event_version :: nat
  pr_payload :: 'e
  pr_payload_json :: string
  pr_metadata :: metadata
  pr_metadata_json :: string
  pr_recorded_at :: system_time
  pr_recorded_at_ms :: int

definition prepared_redis_event_new ::
  "('e, 'id) redis_event_store \<Rightarrow> 'e new_event \<Rightarrow>
   (redis_world, event_store_error + 'e prepared_redis_event) op" where
  "prepared_redis_event_new st event w =
     (let (event_id, recorded_at) = rs_source st (rw_ticks w);
          codecs = rs_codecs st
      in (and_then (system_time_to_millis (rs_earlier st) recorded_at) (\<lambda>recorded_at_ms.
          and_then (serialize_payload (cx_event codecs) (ne_payload event)) (\<lambda>payload_value.
          and_then (serialize_metadata (cx_metadata codecs) (ne_metadata event)) (\<lambda>metadata_value.
            Ok \<lparr>pr_event_id = event_id, pr_event_type = event_type_as_str (ne_event_type event),
              pr_event_version = ne_event_version event mod 2 ^ 32, pr_payload = ne_payload event,
              pr_payload_json = cx_print codecs payload_value, pr_metadata = ne_metadata event,
              pr_metadata_json = cx_print codecs metadata_value, pr_recorded_at = recorded_at,
              pr_recorded_at_ms = recorded_at_ms\<rparr>))),
          w\<lparr>rw_ticks := rw_ticks w + 1\<rparr>))"

fun prepare_redis_events ::
  "('e, 'id) redis_event_store \<Rightarrow> 'e new_event list \<Rightarrow>
   (redis_world, event_store_error + 'e prepared_redis_event list) op" where
  "prepare_redis_events st [] = return_op (Ok [])"
| "prepare_redis_events st (event # events) =
     try_op (prepared_redis_event_new st event) (\<lambda>p.
     try_op (prepare_redis_events st events) (\<lambda>ps. return_op (Ok (p # ps))))"

fun expected_revision_arg :: "expected_revision \<Rightarrow> string \<times> nat" where
  "expected_revision_arg Any = (''any'', 0)"
| "expected_revision_arg NoStream = (''no_stream'', 0)"
| "expected_revision_arg (Exact revision) = (''exact'', revision)"

definition event_args :: "redis_stream_keys \<Rightarrow> string \<Rightarrow> 'e prepared_redis_event \<Rightarrow> string list" where
  "event_args keys aggregate_type event =
     [event_id_as_str (pr_event_id event), sk_aggregate_id_json keys, aggregate_type, pr_event_type event,
      show_nat (pr_event_version event), pr_payload_json event, pr_metadata_json event,
      show_int (pr_recorded_at_ms event)]"

definition build_append_eval_args ::
  "('e, 'id) redis_event_store \<Rightarrow> redis_stream_keys \<Rightarrow> expected_revision \<Rightarrow> 'e prepared_redis_event list \<Rightarrow> string list" where
  "build_append_eval_args st keys expected_revision events =
     (let (expected_kind, expected_value) = expected_revision_arg expected_revision in
      [''5'', sk_revision_key keys, sequence_key st, sk_stream_key keys, global_key st, event_key_prefix st,
       expected_kind, show_nat expected_value, show_nat (length events)]
      @ concat (map (event_args keys (rs_aggregate_type st)) events))"

text \<open>The first and the last sequence and the revision after the append.  An index past the end of the
  reply, which panics in the code, is unspecified here; the script's replies have the fields.\<close>

definition parse_append_eval_result ::
  "redis_value \<Rightarrow> expected_revision \<Rightarrow> event_store_error + nat \<times> nat \<times> nat" where
  "parse_append_eval_result value expected =
     and_then (redis_array_items value) (\<lambda>items.
     if length items < 3 then Err (error_deserialization ''Redis append script returned too few fields'')
     else and_then (redis_value_string (items ! 0) ''append script status'') (\<lambda>status.
     if status = ''OK'' then
       (if length items < 4 then Err (error_deserialization ''Redis append script returned too few success fields'')
        else and_then (redis_value_u64 (items ! 1) ''append first sequence'') (\<lambda>first_sequence.
          and_then (redis_value_u64 (items ! 2) ''append last sequence'') (\<lambda>last_sequence.
          and_then (redis_value_u64 (items ! 3) ''append next revision'') (\<lambda>next_revision.
            Ok (first_sequence, last_sequence, next_revision)))))
     else if status = ''ERR'' then
       and_then (redis_value_string (items ! 1) ''append error reason'') (\<lambda>reason.
       and_then (redis_value_u64 (items ! 2) ''append actual revision'') (\<lambda>actual.
       if reason = ''stream_exists'' then Err (Concurrency StreamAlreadyExists)
       else if reason = ''wrong_revision'' then Err (Concurrency (WrongExpectedRevision expected actual))
       else if reason = ''inconsistent_state'' then
         and_then (redis_value_u64 (items ! 3) ''append stream cardinality'') (\<lambda>stream_card.
           Err (error_backend (''Redis stream revision counter ('' @ show_nat actual @
             '') does not match stream index cardinality ('' @ show_nat stream_card @
             ''); configure maxmemory-policy noeviction and avoid partial key eviction or restore'')))
       else Err (error_backend (''Redis append script failed: '' @ reason))))
     else Err (error_deserialization (''unknown Redis append status `'' @ status @ ''`''))))"

fun redis_committed_from ::
  "('e, 'id) redis_event_store \<Rightarrow> 'id \<Rightarrow> nat \<Rightarrow> nat \<Rightarrow> 'e prepared_redis_event list \<Rightarrow> ('e, 'id) event_stream" where
  "redis_committed_from st aggregate_id revision sequence [] = []"
| "redis_committed_from st aggregate_id revision sequence (event # events) =
     envelope_new (pr_event_id event) aggregate_id (aggregate_type_new (rs_aggregate_type st)) revision
       (Some sequence) (event_type_new (pr_event_type event)) (pr_event_version event) (pr_payload event)
       (pr_metadata event) (pr_recorded_at event)
     # redis_committed_from st aggregate_id (revision + 1) (sequence + 1) events"

definition redis_append ::
  "('e, 'id) redis_event_store \<Rightarrow> 'id \<Rightarrow> expected_revision \<Rightarrow> 'e new_event list \<Rightarrow>
   (redis_world, event_store_error + ('e, 'id) event_stream) op" where
  "redis_append st aggregate_id expected_revision events =
     try_op (return_op (redis_stream_keys_of st aggregate_id)) (\<lambda>keys.
     try_op (prepare_redis_events st events) (\<lambda>prepared.
     if prepared = []
     then try_op (max_revision_for_aggregate_id st (rs_aggregate_type st) aggregate_id) (\<lambda>actual.
       try_op (return_op (check_expected_revision expected_revision actual)) (\<lambda>_. return_op (Ok [])))
     else try_op (op_map_err map_executor_error (execute_lua_script (rs_client st) AppendScript
         (build_append_eval_args st keys expected_revision prepared))) (\<lambda>value.
       try_op (return_op (parse_append_eval_result value expected_revision)) (\<lambda>(first_sequence, last_sequence, next_revision).
       if next_revision < length prepared
       then return_op (Err (error_deserialization ''Redis append script returned revision smaller than event count''))
       else return_op (Ok (redis_committed_from st aggregate_id (next_revision - length prepared + 1)
         first_sequence prepared))))))"

definition redis_event_store_ops ::
  "('e, 'id) redis_event_store \<Rightarrow> (redis_world, 'id, 'e, event_store_error) event_store" where
  "redis_event_store_ops st = \<lparr>es_load = redis_load st,
     es_load_after_revision = redis_load_after_revision st, es_append = redis_append st,
     es_load_global_after_limited = redis_load_global_after_limited st\<rparr>"

section \<open>Checkpoints\<close>

record redis_checkpoints =
  rp_client :: redis_client
  rp_prefix :: string

definition redis_checkpoint_key :: "redis_checkpoints \<Rightarrow> string \<Rightarrow> string" where
  "redis_checkpoint_key cp projection_name =
     redis_hash_tagged_prefix (rp_prefix cp) @ '':checkpoint:'' @ hex_encode projection_name"

definition redis_load_checkpoint ::
  "redis_checkpoints \<Rightarrow> string \<Rightarrow> (redis_world, event_store_error + nat option) op" where
  "redis_load_checkpoint cp projection_name =
     try_op (op_map_err map_executor_error (redis_execute (rp_client cp) (GetCommand (redis_checkpoint_key cp projection_name))))
       (\<lambda>value. return_op (map_ok (\<lambda>sequence. if sequence \<noteq> 0 then Some sequence else None)
          (redis_optional_u64 value ''projection checkpoint'')))"

definition redis_save_checkpoint ::
  "redis_checkpoints \<Rightarrow> string \<Rightarrow> nat \<Rightarrow> (redis_world, event_store_error + unit) op" where
  "redis_save_checkpoint cp projection_name sequence =
     try_op (op_map_err map_executor_error (execute_lua_script (rp_client cp) CheckpointSaveScript
         [''1'', redis_checkpoint_key cp projection_name, show_nat sequence])) (\<lambda>_. return_op (Ok ()))"

definition redis_reset_checkpoint ::
  "redis_checkpoints \<Rightarrow> string \<Rightarrow> (redis_world, event_store_error + unit) op" where
  "redis_reset_checkpoint cp projection_name =
     try_op (op_map_err map_executor_error (redis_execute (rp_client cp) (DelCommand (redis_checkpoint_key cp projection_name))))
       (\<lambda>_. return_op (Ok ()))"

section \<open>Publishing\<close>

definition redis_publish :: "redis_client \<Rightarrow> string \<Rightarrow> string \<Rightarrow> (redis_world, event_store_error + unit) op" where
  "redis_publish C channel payload =
     try_op (op_map_err map_executor_error (redis_execute C (Publish channel payload))) (\<lambda>_. return_op (Ok ()))"

definition redis_publish_json ::
  "redis_client \<Rightarrow> string \<Rightarrow> 'v codec \<Rightarrow> 'v \<Rightarrow> (redis_world, event_store_error + unit) op" where
  "redis_publish_json C channel codec v =
     try_op (return_op (map_err error_serialization (cd_to_string codec v))) (\<lambda>payload.
       redis_publish C channel payload)"

end
