(* ===== verification/Redis_Keys.thy ===== *)
theory Redis_Keys
  imports Redis_Store Snapshot
begin

text \<open>
  \<open>RedisIdempotencyStore\<close> and \<open>RedisSnapshotStore\<close> of \<open>src/redis.rs\<close>: one hash per key and per snapshot,
  written by scripts.
\<close>

section \<open>The idempotency store\<close>

record 'v redis_idempotency =
  ri_client :: redis_client
  ri_prefix :: string
  ri_value :: "'v codec"

definition redis_idempotency_key :: "'v redis_idempotency \<Rightarrow> idempotency_key \<Rightarrow> string" where
  "redis_idempotency_key ri key =
     redis_hash_tagged_prefix (ri_prefix ri) @ '':idempotency:'' @ hex_encode (idempotency_key_as_str key)"

text \<open>The first pair of the reply with this field; a value that is not text is none.\<close>

fun find_field :: "redis_value list \<Rightarrow> string \<Rightarrow> string option" where
  "find_field (Bytes key # Bytes v # items) field =
     (if key = field then (case from_utf8 v of Inl _ \<Rightarrow> None | Inr t \<Rightarrow> Some t) else find_field items field)"
| "find_field (a # b # items) field = find_field items field"
| "find_field items field = None"

fun field_from_hash :: "redis_value \<Rightarrow> string \<Rightarrow> string option" where
  "field_from_hash (Array items) field = find_field items field"
| "field_from_hash value field = None"

abbreviation on_redis_clock :: "(clock, 'a) op \<Rightarrow> (redis_world, 'a) op" where
  "on_redis_clock \<equiv> lift_op rw_clock (\<lambda>c w. w\<lparr>rw_clock := c\<rparr>)"

definition redis_idempotency_load ::
  "'v redis_idempotency \<Rightarrow> idempotency_key \<Rightarrow> (redis_world, event_store_error + 'v idempotency_state option) op" where
  "redis_idempotency_load ri key =
     try_op (op_map_err map_executor_error (redis_execute (ri_client ri) (HGetAllCommand (redis_idempotency_key ri key)))) (\<lambda>value w.
       case value of
         Array items \<Rightarrow>
           if items = [] then (Ok None, w)
           else (let state = (case field_from_hash value ''state'' of None \<Rightarrow> [] | Some s \<Rightarrow> s) in
             if state = ''complete'' then
               (and_then (ok_or (error_deserialization ''completed redis idempotency row is missing value'')
                   (field_from_hash value ''value'')) (\<lambda>raw.
                 map_err (\<lambda>error. error_deserialization (''idempotency value JSON: '' @ error))
                   (map_ok (\<lambda>v. Some (Complete v)) (cd_from_str (ri_value ri) raw))), w)
             else if state = ''pending'' then
               (let owner = field_from_hash value ''owner'';
                    expires = (case field_from_hash value ''expires_at_ms'' of None \<Rightarrow> None
                      | Some v \<Rightarrow> (case parse_i64 v of Inl _ \<Rightarrow> None | Inr z \<Rightarrow> Some z));
                    (now, w) = on_redis_clock now_ms w;
                    (lease, w) = on_redis_clock (pending_state_from_row owner expires now) w
                in (Ok (map_option Pending lease), w))
             else (Err (error_deserialization (''unknown idempotency state: '' @ state)), w))
       | _ \<Rightarrow> (Ok None, w))"

definition redis_reserve_with_lease ::
  "'v redis_idempotency \<Rightarrow> idempotency_key \<Rightarrow> idempotency_lease_config \<Rightarrow> (redis_world, event_store_error + bool) op" where
  "redis_reserve_with_lease ri key config w =
     (let (lease, w) = on_redis_clock (new_lease config) w;
          (now, w) = on_redis_clock now_ms w
      in try_op (op_map_err map_executor_error (execute_lua_script (ri_client ri) IdempotencyReserveScript
           [''1'', redis_idempotency_key ri key, il_owner lease, show_nat (il_expires_at_ms lease), show_nat now])) (\<lambda>result.
         return_op (case result of
             Integer z \<Rightarrow> if z = 1 then Ok True else if z = 0 then Ok False
               else Err (error_deserialization (''unexpected redis idempotency reserve reply: '' @ debug_redis_value result))
           | _ \<Rightarrow> Err (error_deserialization (''unexpected redis idempotency reserve reply: '' @ debug_redis_value result)))) w)"

definition redis_heartbeat ::
  "'v redis_idempotency \<Rightarrow> idempotency_key \<Rightarrow> string \<Rightarrow> (redis_world, event_store_error + bool) op" where
  "redis_heartbeat ri key owner w =
     (let (new_expiry, w) = on_redis_clock (expires_at_ms DEFAULT_IDEMPOTENCY_LEASE) w
      in try_op (op_map_err map_executor_error (redis_execute (ri_client ri) (Eval HeartbeatScript
           [''1'', redis_idempotency_key ri key, owner, show_nat new_expiry]))) (\<lambda>result.
         return_op (Ok (result = Integer 1))) w)"

definition redis_expire_stale_pending ::
  "'v redis_idempotency \<Rightarrow> nat \<Rightarrow> (redis_world, event_store_error + nat) op" where
  "redis_expire_stale_pending ri now = return_op (Ok 0)"

definition redis_idempotency_save ::
  "'v redis_idempotency \<Rightarrow> idempotency_key \<Rightarrow> 'v \<Rightarrow> (redis_world, event_store_error + unit) op" where
  "redis_idempotency_save ri key v =
     try_op (return_op (map_err (\<lambda>error. error_serialization (''idempotency value JSON: '' @ error))
         (cd_to_string (ri_value ri) v))) (\<lambda>value_json.
     try_op (op_map_err map_executor_error (execute_lua_script (ri_client ri) IdempotencySaveScript
         [''1'', redis_idempotency_key ri key, value_json])) (\<lambda>_. return_op (Ok ())))"

definition redis_idempotency_remove ::
  "'v redis_idempotency \<Rightarrow> idempotency_key \<Rightarrow> (redis_world, event_store_error + unit) op" where
  "redis_idempotency_remove ri key =
     try_op (op_map_err map_executor_error (execute_lua_script (ri_client ri) IdempotencyRemoveScript
         [''1'', redis_idempotency_key ri key])) (\<lambda>_. return_op (Ok ()))"

definition redis_idempotency_store ::
  "'v redis_idempotency \<Rightarrow> (redis_world, 'v, event_store_error) idempotency_store" where
  "redis_idempotency_store ri = \<lparr>is_load = redis_idempotency_load ri,
     is_reserve_with_lease = redis_reserve_with_lease ri, is_heartbeat = redis_heartbeat ri,
     is_expire_stale_pending = redis_expire_stale_pending ri,
     is_expire_completed_before = default_expire_completed_before,
     is_save = redis_idempotency_save ri, is_remove = redis_idempotency_remove ri\<rparr>"

section \<open>The snapshot store\<close>

record 'st redis_snapshots =
  rn_client :: redis_client
  rn_prefix :: string
  rn_aggregate_type :: string
  rn_state :: "'st codec"
  rn_metadata :: "metadata codec"
  rn_earlier :: "int \<Rightarrow> string"

definition snapshot_key :: "'st redis_snapshots \<Rightarrow> string \<Rightarrow> string \<Rightarrow> string" where
  "snapshot_key rn aggregate_type aggregate_id =
     redis_hash_tagged_prefix (rn_prefix rn) @ '':snapshot:'' @ hex_encode aggregate_type @ '':'' @ hex_encode aggregate_id"

definition redis_load_snapshot ::
  "'st redis_snapshots \<Rightarrow> 'id codec \<Rightarrow> 'id \<Rightarrow> (redis_world, event_store_error + ('st, 'id) snapshot option) op" where
  "redis_load_snapshot rn I aggregate_id =
     try_op (return_op (serialize_id I aggregate_id)) (\<lambda>aggregate_id.
     try_op (op_map_err map_executor_error (redis_execute (rn_client rn)
         (HGetAllCommand (snapshot_key rn (rn_aggregate_type rn) aggregate_id)))) (\<lambda>value.
     return_op (case value of
       Array items \<Rightarrow>
         if items = [] then Ok None
         else
           and_then (ok_or (error_deserialization ''redis snapshot missing revision'') (field_from_hash value ''revision'')) (\<lambda>revision.
           and_then (map_err (\<lambda>error. error_deserialization (''redis snapshot revision: '' @ error)) (parse_u64 revision)) (\<lambda>revision.
           and_then (ok_or (error_deserialization ''redis snapshot missing state'') (field_from_hash value ''state'')) (\<lambda>state_raw.
           and_then (ok_or (error_deserialization ''redis snapshot missing metadata'') (field_from_hash value ''metadata'')) (\<lambda>metadata_raw.
           and_then (ok_or (error_deserialization ''redis snapshot missing recorded_at_ms'') (field_from_hash value ''recorded_at_ms'')) (\<lambda>recorded_at_ms.
           and_then (map_err (\<lambda>error. error_deserialization (''redis snapshot recorded_at_ms: '' @ error)) (parse_i64 recorded_at_ms)) (\<lambda>recorded_at_ms.
           let aggregate_type = (case field_from_hash value ''aggregate_type'' of None \<Rightarrow> rn_aggregate_type rn | Some t \<Rightarrow> t) in
           and_then (map_err (\<lambda>error. error_deserialization (''snapshot state JSON: '' @ error)) (cd_from_str (rn_state rn) state_raw)) (\<lambda>state.
           and_then (map_err (\<lambda>error. error_deserialization (''snapshot metadata JSON: '' @ error)) (cd_from_str (rn_metadata rn) metadata_raw)) (\<lambda>metadata.
           and_then (millis_to_system_time recorded_at_ms) (\<lambda>recorded_at.
           and_then (deserialize_id I aggregate_id) (\<lambda>aggregate_id.
             Ok (Some \<lparr>sn_aggregate_id = aggregate_id, sn_aggregate_type = aggregate_type, sn_revision = revision,
               sn_state = state, sn_metadata = metadata, sn_recorded_at = recorded_at\<rparr>)))))))))))
     | _ \<Rightarrow> Ok None)))"

text \<open>What the store makes of the reply of \<open>SNAPSHOT_SAVE_LUA\<close>.\<close>

definition unexpected_save_reply :: "redis_value \<Rightarrow> event_store_error + unit" where
  "unexpected_save_reply result =
     Err (error_deserialization (''unexpected redis snapshot save reply: '' @ debug_redis_value result))"

definition snapshot_save_reply :: "nat \<Rightarrow> redis_value \<Rightarrow> event_store_error + unit" where
  "snapshot_save_reply snapshot_revision result = (case result of
      Status status \<Rightarrow> if to_ascii_lowercase status = ''ok'' then Ok () else unexpected_save_reply result
    | Bytes bytes \<Rightarrow> if to_ascii_lowercase bytes = ''ok'' then Ok () else unexpected_save_reply result
    | Array items \<Rightarrow>
        if length items \<ge> 3 then
          (case items ! 0 of
             Bytes kind \<Rightarrow>
               if kind = ''ERR'' then
                 (case items ! 1 of
                    Bytes reason \<Rightarrow>
                      if reason = ''stale_revision'' then
                        (case items ! 2 of
                           Bytes current \<Rightarrow>
                             and_then (map_err (\<lambda>error. error_deserialization (''redis snapshot stale revision: '' @ error)) (from_utf8 current)) (\<lambda>text.
                             and_then (map_err (\<lambda>error. error_deserialization (''redis snapshot stale revision: '' @ error)) (parse_u64 text)) (\<lambda>current.
                               Err (stale_snapshot_revision_error snapshot_revision current)))
                         | _ \<Rightarrow> unexpected_save_reply result)
                      else Err (error_deserialization (''redis snapshot save failed: '' @ debug_redis_value result))
                  | _ \<Rightarrow> unexpected_save_reply result)
               else Err (error_deserialization (''redis snapshot save failed: '' @ debug_redis_value result))
           | _ \<Rightarrow> unexpected_save_reply result)
        else unexpected_save_reply result
    | _ \<Rightarrow> unexpected_save_reply result)"

definition redis_save_snapshot ::
  "'st redis_snapshots \<Rightarrow> 'id codec \<Rightarrow> ('st, 'id) snapshot \<Rightarrow> (redis_world, event_store_error + unit) op" where
  "redis_save_snapshot rn I snapshot =
     try_op (return_op (serialize_id I (sn_aggregate_id snapshot))) (\<lambda>aggregate_id.
     try_op (return_op (map_err (\<lambda>error. error_serialization (''snapshot state JSON: '' @ error))
         (cd_to_string (rn_state rn) (sn_state snapshot)))) (\<lambda>state_json.
     try_op (return_op (map_err (\<lambda>error. error_serialization (''snapshot metadata JSON: '' @ error))
         (cd_to_string (rn_metadata rn) (sn_metadata snapshot)))) (\<lambda>metadata_json.
     try_op (return_op (system_time_to_millis (rn_earlier rn) (sn_recorded_at snapshot))) (\<lambda>recorded_at_ms.
     try_op (op_map_err map_executor_error (execute_lua_script (rn_client rn) SnapshotSaveScript
         [''1'', snapshot_key rn (rn_aggregate_type rn) aggregate_id, show_nat (sn_revision snapshot), state_json,
          metadata_json, show_int recorded_at_ms, sn_aggregate_type snapshot])) (\<lambda>result.
       return_op (snapshot_save_reply (sn_revision snapshot) result))))))"

definition redis_snapshot_store ::
  "'st redis_snapshots \<Rightarrow> 'id codec \<Rightarrow> (redis_world, 'st, 'id, event_store_error) snapshot_store" where
  "redis_snapshot_store rn I = \<lparr>ss_load_snapshot = redis_load_snapshot rn I,
     ss_save_snapshot = redis_save_snapshot rn I\<rparr>"

end
