(* ===== verification/Redis_Facts.thy ===== *)
theory Redis_Facts
  imports Redis_Store Sqlite_Facts
begin

text \<open>
  What the keys of the Redis store mean.  The store's keys represent a log of appended entries: the
  counters, the two kinds of index and the event hashes are functions of it.  The append script
  extends the log by its arguments or leaves the keys as they were.
\<close>

section \<open>Keys\<close>

lemma digit_char_inj: "a < 16 \<Longrightarrow> b < 16 \<Longrightarrow> digit_char a = digit_char b \<Longrightarrow> a = b"
  by (metis digit_val_char)

lemma hex_encode_inj [simp]: "hex_encode a = hex_encode b \<longleftrightarrow> a = b"
proof
  show "hex_encode a = hex_encode b \<Longrightarrow> a = b"
  proof (induction a arbitrary: b)
    case Nil
    then show ?case by (cases b) (auto simp: hex_encode_def)
  next
    case (Cons c cs)
    then obtain d ds where b: "b = d # ds" by (cases b) (auto simp: hex_encode_def)
    have lt: "of_char x div 16 < (16::nat)" "of_char x mod 16 < (16::nat)" for x :: char
      using nat_of_char_less_256 [of x] by (auto simp: less_mult_imp_div_less)
    have "of_char c div 16 = (of_char d div 16 :: nat)" "of_char c mod 16 = (of_char d mod 16 :: nat)"
      using Cons.prems b digit_char_inj lt by (auto simp: hex_encode_def)
    then have "of_char c = (of_char d :: nat)" by (metis div_mult_mod_eq)
    then show ?case using Cons b by (auto simp: hex_encode_def)
  qed
qed simp

lemma hex_encode_digits: "c \<in> set (hex_encode s) \<Longrightarrow> is_digit_char c"
proof -
  have lt: "of_char x div 16 < (16::nat)" "of_char x mod 16 < (16::nat)" for x :: char
    using nat_of_char_less_256 [of x] by (auto simp: less_mult_imp_div_less)
  show "c \<in> set (hex_encode s) \<Longrightarrow> is_digit_char c"
    using is_digit_char_digit [OF lt(1)] is_digit_char_digit [OF lt(2)] by (auto simp: hex_encode_def)
qed

lemma hex_pair_inj:
  "hex_encode a @ CHR '':'' # hex_encode b = hex_encode a' @ CHR '':'' # hex_encode b' \<longleftrightarrow> a = a' \<and> b = b'"
proof -
  have "CHR '':'' \<notin> set (hex_encode x)" for x using hex_encode_digits separator_not_digit(1) by blast
  then show ?thesis using append_sep_inj by (metis hex_encode_inj)
qed

abbreviation keys_of :: "('e, 'id) redis_event_store \<Rightarrow> string \<times> string \<Rightarrow> redis_stream_keys" where
  "keys_of st s \<equiv> stream_keys_for_storage_key st (fst s) (snd s)"

lemma keys_distinct [simp]:
  "sk_revision_key (stream_keys_for_storage_key st a b) = sk_revision_key (stream_keys_for_storage_key st a' b') \<longleftrightarrow> a = a' \<and> b = b'"
  "sk_stream_key (stream_keys_for_storage_key st a b) = sk_stream_key (stream_keys_for_storage_key st a' b') \<longleftrightarrow> a = a' \<and> b = b'"
  "sk_revision_key (stream_keys_for_storage_key st a b) \<noteq> sk_stream_key (stream_keys_for_storage_key st a' b')"
  "sk_stream_key (stream_keys_for_storage_key st a b) \<noteq> sk_revision_key (stream_keys_for_storage_key st a' b')"
  "sk_revision_key (stream_keys_for_storage_key st a b) \<noteq> sequence_key st" "sequence_key st \<noteq> sk_revision_key (stream_keys_for_storage_key st a b)"
  "sk_revision_key (stream_keys_for_storage_key st a b) \<noteq> global_key st" "global_key st \<noteq> sk_revision_key (stream_keys_for_storage_key st a b)"
  "sk_revision_key (stream_keys_for_storage_key st a b) \<noteq> event_key st n" "event_key st n \<noteq> sk_revision_key (stream_keys_for_storage_key st a b)"
  "sk_stream_key (stream_keys_for_storage_key st a b) \<noteq> sequence_key st" "sequence_key st \<noteq> sk_stream_key (stream_keys_for_storage_key st a b)"
  "sk_stream_key (stream_keys_for_storage_key st a b) \<noteq> global_key st" "global_key st \<noteq> sk_stream_key (stream_keys_for_storage_key st a b)"
  "sk_stream_key (stream_keys_for_storage_key st a b) \<noteq> event_key st n" "event_key st n \<noteq> sk_stream_key (stream_keys_for_storage_key st a b)"
  "sequence_key st \<noteq> global_key st" "global_key st \<noteq> sequence_key st"
  "sequence_key st \<noteq> event_key st n" "event_key st n \<noteq> sequence_key st"
  "global_key st \<noteq> event_key st n" "event_key st n \<noteq> global_key st"
  "event_key st m = event_key st n \<longleftrightarrow> m = n"
  by (auto simp: stream_keys_for_storage_key_def Let_def sequence_key_def global_key_def event_key_def
      event_key_prefix_def hex_pair_inj prod_eq_iff)

section \<open>The log\<close>

record redis_entry =
  re_event_id :: string
  re_aggregate_id :: string
  re_aggregate_type :: string
  re_event_type :: string
  re_event_version :: string
  re_payload :: string
  re_metadata :: string
  re_recorded_at_ms :: string

definition entry_args :: "redis_entry \<Rightarrow> string list" where
  "entry_args e = [re_event_id e, re_aggregate_id e, re_aggregate_type e, re_event_type e, re_event_version e,
     re_payload e, re_metadata e, re_recorded_at_ms e]"

definition entry_stream :: "redis_entry \<Rightarrow> string \<times> string" where
  "entry_stream e = (re_aggregate_type e, re_aggregate_id e)"

definition entry_hash :: "redis_entry \<Rightarrow> nat \<Rightarrow> nat \<Rightarrow> (string \<times> string) list" where
  "entry_hash e revision sequence =
     [(''event_id'', re_event_id e), (''aggregate_id'', re_aggregate_id e), (''aggregate_type'', re_aggregate_type e),
      (''revision'', show_nat revision), (''sequence'', show_nat sequence), (''event_type'', re_event_type e),
      (''event_version'', re_event_version e), (''payload'', re_payload e), (''metadata'', re_metadata e),
      (''recorded_at_ms'', re_recorded_at_ms e)]"

text \<open>The positions of a stream's entries; the entry at position \<open>n\<close> has the sequence \<open>n + 1\<close>.\<close>

definition positions :: "redis_entry list \<Rightarrow> string \<times> string \<Rightarrow> nat list" where
  "positions log s = filter (\<lambda>n. entry_stream (log ! n) = s) [0..<length log]"

text \<open>Both kinds of index score a member by its rank.\<close>

definition ranked :: "nat list \<Rightarrow> (string \<times> int) list" where
  "ranked ns = map (\<lambda>j. (show_nat (ns ! j + 1), int j + 1)) [0..<length ns]"

definition set_data :: "(string \<times> int) list \<Rightarrow> redis_data option" where
  "set_data ms = (if ms = [] then None else Some (RSortedSet ms))"

definition counter_data :: "nat \<Rightarrow> redis_data option" where
  "counter_data n = (if n = 0 then None else Some (RString (show_nat n)))"

definition revision_at :: "redis_entry list \<Rightarrow> nat \<Rightarrow> nat" where
  "revision_at log n = length (positions (take n log) (entry_stream (log ! n))) + 1"

definition indexed :: "('e, 'id) redis_event_store \<Rightarrow> redis_entry list \<Rightarrow> keyspace \<Rightarrow> bool" where
  "indexed st log ks \<longleftrightarrow>
     ks (global_key st) = set_data (ranked [0..<length log]) \<and>
     (\<forall>s. ks (sk_stream_key (keys_of st s)) = set_data (ranked (positions log s))) \<and>
     (\<forall>n. ks (event_key st (n + 1)) =
        (if n < length log then Some (RHash (entry_hash (log ! n) (revision_at log n) (n + 1))) else None))"

definition represents :: "('e, 'id) redis_event_store \<Rightarrow> redis_entry list \<Rightarrow> keyspace \<Rightarrow> bool" where
  "represents st log ks \<longleftrightarrow> indexed st log ks \<and>
     ks (sequence_key st) = counter_data (length log) \<and>
     (\<forall>s. ks (sk_revision_key (keys_of st s)) = counter_data (length (positions log s)))"

lemma positions_snoc:
  "positions (log @ [e]) s = positions log s @ (if entry_stream e = s then [length log] else [])"
  by (auto simp: positions_def nth_append intro!: filter_cong)

lemma positions_append:
  "positions (log @ new) s = positions log s @ map (\<lambda>n. length log + n) (positions new s)"
proof (induction new rule: rev_induct)
  case (snoc e new)
  then show ?case by (simp add: positions_snoc flip: append_assoc)
qed (simp add: positions_def)

lemma positions_all: "\<forall>e\<in>set new. entry_stream e = s \<Longrightarrow> positions new s = [0..<length new]"
  by (simp add: positions_def filter_id_conv)

lemma positions_none: "\<forall>e\<in>set new. entry_stream e \<noteq> s \<Longrightarrow> positions new s = []"
  by (simp add: positions_def filter_empty_conv)

lemma positions_less: "n \<in> set (positions log s) \<Longrightarrow> n < length log \<and> entry_stream (log ! n) = s"
  by (auto simp: positions_def)

lemma positions_le: "length (positions log s) \<le> length log"
  unfolding positions_def by (rule order_trans [OF length_filter_le]) simp

lemma ranked_snoc: "ranked (ns @ [n]) = ranked ns @ [(show_nat (n + 1), int (length ns) + 1)]"
  by (simp add: ranked_def nth_append)

lemma ranked_score: "m \<in> set (ranked ns) \<Longrightarrow> snd m \<le> int (length ns) \<and> (\<exists>n\<in>set ns. fst m = show_nat (n + 1))"
  by (auto simp: ranked_def)

lemma revision_at_append: "n < length log \<Longrightarrow> revision_at (log @ new) n = revision_at log n"
  by (simp add: revision_at_def nth_append)

section \<open>The script\<close>

text \<open>Integers below fourteen digits are read and written exactly; a larger text is not read as one.\<close>

definition LUA_EXACT :: nat where "LUA_EXACT = 10 ^ 14"

definition lua_laws :: "lua \<Rightarrow> bool" where
  "lua_laws L \<longleftrightarrow>
     (\<forall>n < LUA_EXACT. lu_tonumber L (show_nat n) = Some (int n) \<and> lu_tostring L (int n) = show_nat n \<and>
        lu_arg L (int n) = show_nat n) \<and>
     (\<forall>n z. LUA_EXACT \<le> n \<longrightarrow> lu_tonumber L (show_nat n) = Some z \<longrightarrow> int LUA_EXACT \<le> z)"

lemma hset_fresh:
  "ks k = None \<Longrightarrow> distinct (map fst fs) \<Longrightarrow> redis_hset k fs ks = (Ok (), ks(k \<mapsto> RHash fs))"
proof -
  have "foldl (\<lambda>fs (f, v). AList.update f v fs) acc new = acc @ new"
    if "distinct (map fst (acc @ new))" for acc new :: "(string \<times> string) list"
    using that
  proof (induction new arbitrary: acc)
    case (Cons p new)
    have "AList.update (fst p) (snd p) acc = acc @ [p]"
      using Cons.prems by (induction acc) auto
    then show ?case using Cons.IH [of "acc @ [p]"] Cons.prems by (simp add: split_beta)
  qed simp
  from this [of "[]" fs] show "ks k = None \<Longrightarrow> distinct (map fst fs) \<Longrightarrow> ?thesis"
    by (simp add: redis_hset_def redis_hgetall_def try_op_def)
qed

lemma zadd_last:
  assumes "ks k = set_data (ranked ns)" "n \<notin> set ns"
  shows "redis_zadd k (int (length ns) + 1) (show_nat (n + 1)) ks =
    (Ok (), ks(k := set_data (ranked (ns @ [n]))))"
proof -
  have members: "redis_zmembers k ks = (Ok (ranked ns), ks)"
    using assms(1) by (auto simp: redis_zmembers_def set_data_def)
  have "\<forall>m\<in>set (ranked ns). fst m \<noteq> show_nat (n + 1) \<and> snd m \<le> int (length ns) + 1"
    using ranked_score assms(2) by fastforce
  then have f: "filter (\<lambda>m. fst m \<noteq> show_nat (n + 1)) (ranked ns) = ranked ns"
    and tw: "takeWhile (\<lambda>m. snd m \<le> int (length ns) + 1) (ranked ns) = ranked ns"
    and dw: "dropWhile (\<lambda>m. snd m \<le> int (length ns) + 1) (ranked ns) = []"
    by (simp_all add: filter_id_conv takeWhile_eq_all_conv dropWhile_eq_Nil_conv)
  show ?thesis
    unfolding redis_zadd_def try_op_def members prod.case sum.case Let_def f tw dw
    by (simp add: ranked_snoc set_data_def)
qed

text \<open>One more entry: its hash and its place in both indexes.\<close>

definition keys_with :: "('e, 'id) redis_event_store \<Rightarrow> redis_entry list \<Rightarrow> redis_entry \<Rightarrow> keyspace \<Rightarrow> keyspace" where
  "keys_with st log e ks = ks
     (event_key st (length log + 1) \<mapsto> RHash (entry_hash e (length (positions log (entry_stream e)) + 1) (length log + 1)),
      sk_stream_key (keys_of st (entry_stream e)) := set_data (ranked (positions log (entry_stream e) @ [length log])),
      global_key st := set_data (ranked [0..<length log + 1]))"

lemma indexed_keys_with: "indexed st log ks \<Longrightarrow> indexed st (log @ [e]) (keys_with st log e ks)"
proof -
  assume ix: "indexed st log ks"
  have rev: "revision_at (log @ [e]) (length log) = length (positions log (entry_stream e)) + 1"
    by (simp add: revision_at_def)
  have old: "revision_at (log @ [e]) n = revision_at log n" if "n < length log" for n
    using that by (rule revision_at_append)
  show ?thesis
    using ix unfolding indexed_def keys_with_def
    by (auto simp: positions_snoc nth_append old rev less_Suc_eq prod_eq_iff simp del: upt_Suc)
qed

lemma keys_with_counters [simp]:
  "keys_with st log e ks (sequence_key st) = ks (sequence_key st)"
  "keys_with st log e ks (sk_revision_key (keys_of st s)) = ks (sk_revision_key (keys_of st s))"
  by (simp_all add: keys_with_def)

lemma append_each_entry:
  assumes L: "lua_laws L" and ix: "indexed st log ks" and bound: "length log + 1 < LUA_EXACT"
    and s: "entry_stream e = s" and r: "r = length (positions log s)"
  shows "append_each L (sk_stream_key (keys_of st s)) (global_key st) (event_key_prefix st) (Suc n)
      (int r + 1) (int (length log) + 1) (entry_args e @ args) ks =
    append_each L (sk_stream_key (keys_of st s)) (global_key st) (event_key_prefix st) n
      (int (r + 1) + 1) (int (length (log @ [e])) + 1) args (keys_with st log e ks)"
proof -
  have seq: "lu_tostring L (int (length log) + 1) = show_nat (length log + 1)"
    and rev: "lu_tostring L (int r + 1) = show_nat (r + 1)"
  proof -
    have "lu_tostring L (int m) = show_nat m" if "m < LUA_EXACT" for m
      using L that by (simp add: lua_laws_def)
    from this [of "length log + 1"] this [of "r + 1"] show "lu_tostring L (int (length log) + 1) = show_nat (length log + 1)"
      "lu_tostring L (int r + 1) = show_nat (r + 1)"
      using bound positions_le [of log s] r by (auto simp: add.commute)
  qed
  let ?k = "event_key_prefix st @ show_nat (length log + 1)"
  let ?ks1 = "ks(event_key st (length log + 1) \<mapsto> RHash (entry_hash e (r + 1) (length log + 1)))"
  have "ks (event_key st (length log + 1)) = None" using ix by (simp add: indexed_def)
  then have h: "redis_hset ?k (entry_hash e (r + 1) (length log + 1)) ks = (Ok (), ?ks1)"
    using hset_fresh [of ks ?k "entry_hash e (r + 1) (length log + 1)"]
    by (simp add: entry_hash_def event_key_def)
  have fresh: "length log \<notin> set (positions log s)" "length log \<notin> set [0..<length log]"
    using positions_less [of "length log" log s] by auto
  have "?ks1 (sk_stream_key (keys_of st s)) = set_data (ranked (positions log s))"
    using ix by (simp add: indexed_def)
  from zadd_last [of ?ks1, OF this fresh(1)]
  have z1: "redis_zadd (sk_stream_key (keys_of st s)) (int r + 1) (show_nat (length log + 1)) ?ks1 =
      (Ok (), ?ks1(sk_stream_key (keys_of st s) := set_data (ranked (positions log s @ [length log]))))"
    by (simp add: r)
  let ?ks2 = "?ks1(sk_stream_key (keys_of st s) := set_data (ranked (positions log s @ [length log])))"
  have "?ks2 (global_key st) = set_data (ranked [0..<length log])" using ix by (simp add: indexed_def)
  from zadd_last [of ?ks2, OF this fresh(2)]
  have z2: "redis_zadd (global_key st) (int (length log) + 1) (show_nat (length log + 1)) ?ks2 = (Ok (), keys_with st log e ks)"
    by (simp add: keys_with_def s r)
  have "append_each L (sk_stream_key (keys_of st s)) (global_key st) (event_key_prefix st) (Suc n)
      (int r + 1) (int (length log) + 1) (entry_args e @ args) ks =
    append_each L (sk_stream_key (keys_of st s)) (global_key st) (event_key_prefix st) n
      (int r + 1 + 1) (int (length log) + 1 + 1) args (keys_with st log e ks)"
    using h z1 z2 unfolding entry_args_def append.simps append_each.simps seq rev entry_hash_def
    by (simp only: try_op_def prod.case sum.case)
  then show ?thesis by (simp add: add.commute add.left_commute)
qed

lemma append_each_entries:
  assumes "lua_laws L" "indexed st log ks" "length log + length new < LUA_EXACT"
    and "\<forall>e\<in>set new. entry_stream e = s"
  shows "\<exists>ks'. append_each L (sk_stream_key (keys_of st s)) (global_key st) (event_key_prefix st) (length new)
      (int (length (positions log s)) + 1) (int (length log) + 1) (concat (map entry_args new)) ks = (Ok (), ks') \<and>
    indexed st (log @ new) ks' \<and> ks' (sequence_key st) = ks (sequence_key st) \<and>
    (\<forall>t. ks' (sk_revision_key (keys_of st t)) = ks (sk_revision_key (keys_of st t)))"
  using assms(2-)
proof (induction new arbitrary: log ks)
  case (Cons e new)
  let ?log = "log @ [e]" and ?ks = "keys_with st log e ks"
  have e: "entry_stream e = s" and len: "length (positions ?log s) = length (positions log s) + 1"
    using Cons.prems(3) by (simp_all add: positions_snoc)
  obtain ks' where ks': "append_each L (sk_stream_key (keys_of st s)) (global_key st) (event_key_prefix st) (length new)
      (int (length (positions ?log s)) + 1) (int (length ?log) + 1) (concat (map entry_args new)) ?ks = (Ok (), ks')"
    "indexed st (?log @ new) ks'" "ks' (sequence_key st) = ?ks (sequence_key st)"
    "\<forall>t. ks' (sk_revision_key (keys_of st t)) = ?ks (sk_revision_key (keys_of st t))"
    using Cons.IH [OF indexed_keys_with [OF Cons.prems(1), of e]] Cons.prems(2,3) by auto
  have "append_each L (sk_stream_key (keys_of st s)) (global_key st) (event_key_prefix st) (length (e # new))
      (int (length (positions log s)) + 1) (int (length log) + 1) (concat (map entry_args (e # new))) ks = (Ok (), ks')"
    using append_each_entry [OF assms(1) Cons.prems(1) _ e refl, of "length new" "concat (map entry_args new)"]
      Cons.prems(2) ks'(1) len by simp
  then show ?case using ks' by (intro exI [of _ ks']) simp
qed (simp add: return_op_def)

section \<open>The whole script\<close>

definition append_keys :: "('e, 'id) redis_event_store \<Rightarrow> string \<times> string \<Rightarrow> string list" where
  "append_keys st s = [sk_revision_key (keys_of st s), sequence_key st, sk_stream_key (keys_of st s),
     global_key st, event_key_prefix st]"

definition append_argv :: "expected_revision \<Rightarrow> redis_entry list \<Rightarrow> string list" where
  "append_argv x new = (let (kind, expected) = expected_revision_arg x in
     [kind, show_nat expected, show_nat (length new)] @ concat (map entry_args new))"

text \<open>The reply of an append that met its expectation, and of one that did not.\<close>

definition appended_reply :: "nat \<Rightarrow> nat \<Rightarrow> nat \<Rightarrow> redis_value" where
  "appended_reply len count actual = Array [Bytes ''OK'', Integer (int len + 1), Integer (int len + int count),
     Integer (int actual + int count)]"

fun rejected_reply :: "expected_revision \<Rightarrow> nat \<Rightarrow> redis_value" where
  "rejected_reply NoStream actual = Array [Bytes ''ERR'', Bytes ''stream_exists'', Integer (int actual)]"
| "rejected_reply x actual = Array [Bytes ''ERR'', Bytes ''wrong_revision'', Integer (int actual)]"

lemma get_counter:
  "ks k = counter_data n \<Longrightarrow> redis_get k ks = (Ok (if n = 0 then None else Some (show_nat n)), ks)"
  by (simp add: redis_get_def counter_data_def)

lemma tonumber_counter:
  assumes "lua_laws L" "n < LUA_EXACT"
  shows "lu_tonumber L (or_zero (if n = 0 then None else Some (show_nat n))) = Some (int n)"
proof -
  have "show_nat 0 = ''0''" by code_simp
  then have "or_zero (if n = 0 then None else Some (show_nat n)) = show_nat n" by (auto simp: or_zero_def)
  then show ?thesis using assms by (simp add: lua_laws_def)
qed

lemma tonumber_expected:
  assumes "lua_laws L" "n < LUA_EXACT"
  shows "Some (int n) \<noteq> lu_tonumber L (show_nat m) \<longleftrightarrow> m \<noteq> n"
proof (cases "m < LUA_EXACT")
  case True
  then show ?thesis using assms(1) by (auto simp: lua_laws_def)
next
  case False
  then have "lu_tonumber L (show_nat m) \<noteq> Some (int n)"
    using assms by (auto simp: lua_laws_def not_less)
  then show ?thesis using False assms(2) by auto
qed

lemma zcard_ranked: "ks k = set_data (ranked ns) \<Longrightarrow> redis_zcard k ks = (Ok (length ns), ks)"
proof -
  have "length (ranked ns) = length ns" by (simp add: ranked_def)
  then show "ks k = set_data (ranked ns) \<Longrightarrow> ?thesis"
    by (auto simp: redis_zcard_def redis_zmembers_def set_data_def try_op_def return_op_def)
qed

lemma append_lua_log:
  assumes L: "lua_laws L" and rep: "represents st log ks" and bound: "length log + length new < LUA_EXACT"
    and s: "\<forall>e\<in>set new. entry_stream e = s" and ne: "new \<noteq> []"
  defines "actual \<equiv> length (positions log s)"
  shows "\<exists>ks'. append_lua L (append_keys st s) (append_argv x new) ks =
      (if expectation_met x actual then (Ok (appended_reply (length log) (length new) actual), ks')
       else (Ok (rejected_reply x actual), ks)) \<and>
    (expectation_met x actual \<longrightarrow> represents st (log @ new) ks')"
proof -
  have lt: "actual < LUA_EXACT" "length log < LUA_EXACT" "length new < LUA_EXACT"
    using bound positions_le [of log s] by (auto simp: actual_def)
  have ix: "indexed st log ks" and rk: "ks (sk_revision_key (keys_of st s)) = counter_data actual"
    and sk: "ks (sequence_key st) = counter_data (length log)"
    and zk: "ks (sk_stream_key (keys_of st s)) = set_data (ranked (positions log s))"
    using rep by (auto simp: represents_def indexed_def actual_def)
  obtain kind expected where arg: "expected_revision_arg x = (kind, expected)" by (meson surj_pair)
  have count: "lu_tonumber L (show_nat (length new)) = Some (int (length new))"
    using L lt(3) by (simp add: lua_laws_def)
  have checks: "(kind = ''no_stream'' \<and> int actual \<noteq> 0) \<or>
      (kind = ''exact'' \<and> Some (int actual) \<noteq> lu_tonumber L (show_nat expected)) \<longleftrightarrow> \<not> expectation_met x actual"
    using arg tonumber_expected [OF L lt(1)] by (cases x) auto
  obtain ks1 where ks1: "append_each L (sk_stream_key (keys_of st s)) (global_key st) (event_key_prefix st) (length new)
      (int actual + 1) (int (length log) + 1) (concat (map entry_args new)) ks = (Ok (), ks1)"
    and ix1: "indexed st (log @ new) ks1" and seq1: "ks1 (sequence_key st) = ks (sequence_key st)"
    and rev1: "\<forall>t. ks1 (sk_revision_key (keys_of st t)) = ks (sk_revision_key (keys_of st t))"
    using append_each_entries [OF L ix bound s] unfolding actual_def by blast
  let ?ks' = "ks1(sk_revision_key (keys_of st s) \<mapsto> RString (lu_arg L (int actual + int (length new))),
      sequence_key st \<mapsto> RString (lu_arg L (int (length log) + int (length new))))"
  have args: "lu_arg L (int actual + int (length new)) = show_nat (actual + length new)"
    "lu_arg L (int (length log) + int (length new)) = show_nat (length log + length new)"
  proof -
    have "lu_arg L (int m) = show_nat m" if "m < LUA_EXACT" for m using L that by (simp add: lua_laws_def)
    from this [of "actual + length new"] this [of "length log + length new"] show
      "lu_arg L (int actual + int (length new)) = show_nat (actual + length new)"
      "lu_arg L (int (length log) + int (length new)) = show_nat (length log + length new)"
      using bound positions_le [of log s] by (auto simp: actual_def)
  qed
  have "represents st (log @ new) ?ks'"
    unfolding represents_def
  proof (intro conjI allI)
    show "indexed st (log @ new) ?ks'" using ix1 by (simp add: indexed_def)
    show "?ks' (sequence_key st) = counter_data (length (log @ new))"
      using ne by (simp add: args counter_data_def)
    fix t
    show "?ks' (sk_revision_key (keys_of st t)) = counter_data (length (positions (log @ new) t))"
    proof (cases "t = s")
      case True
      have "positions new s = [0..<length new]" by (rule positions_all [OF s])
      then have "length (positions (log @ new) s) = actual + length new"
        by (simp add: positions_append actual_def)
      then show ?thesis using True ne by (simp add: args counter_data_def)
    next
      case False
      have "positions new t = []" by (rule positions_none) (use s False in auto)
      moreover have "ks (sk_revision_key (keys_of st t)) = counter_data (length (positions log t))"
        using rep unfolding represents_def by blast
      ultimately show ?thesis using False rev1 by (auto simp: positions_append prod_eq_iff)
    qed
  qed
  moreover obtain c1 where g1: "redis_get (sk_revision_key (keys_of st s)) ks = (Ok c1, ks)"
    and t1: "lu_tonumber L (or_zero c1) = Some (int actual)"
    using get_counter [of ks "sk_revision_key (keys_of st s)", OF rk] tonumber_counter [OF L lt(1)] by blast
  moreover obtain c2 where g2: "redis_get (sequence_key st) ks = (Ok c2, ks)"
    and t2: "lu_tonumber L (or_zero c2) = Some (int (length log))"
    using get_counter [of ks "sequence_key st", OF sk] tonumber_counter [OF L lt(2)] by blast
  moreover have zc: "redis_zcard (sk_stream_key (keys_of st s)) ks = (Ok actual, ks)"
    unfolding actual_def by (rule zcard_ranked) (rule zk)
  moreover have "append_lua L (append_keys st s) (append_argv x new) ks =
      (if expectation_met x actual then (Ok (appended_reply (length log) (length new) actual), ?ks')
       else (Ok (rejected_reply x actual), ks))"
  proof (cases "expectation_met x actual")
    case True
    have t: "lu_tonumber L (show_nat actual) = Some (int actual)" using L lt(1) by (simp add: lua_laws_def)
    show ?thesis using True ne arg g1 zc t1 count g2 t2 ks1 t
      by (cases x) (auto simp: append_keys_def append_argv_def try_op_def return_op_def
          actual_def [symmetric] redis_set_def appended_reply_def)
  next
    case False
    then show ?thesis using checks arg
      by (cases x) (auto simp: append_keys_def append_argv_def try_op_def return_op_def g1 zc
          t1 actual_def [symmetric])
  qed
  ultimately show ?thesis by (intro exI [of _ ?ks']) simp
qed

end
