(* ===== verification/Redis_Log.thy ===== *)
theory Redis_Log
  imports Redis_Facts
begin

text \<open>
  The Redis store under interference: other clients append, the server refuses commands, loses answers
  and forgets scripts, between any two commands.  The log only grows; a paged read of an index returns
  the index of one moment of the call; an append adds its events or nothing.
\<close>

declare upt_Suc [simp del]

section \<open>Worlds\<close>

text \<open>Entries of other types need only name their type; entries of the store's own type decode.\<close>

definition entry_ok :: "('e, 'id) redis_event_store \<Rightarrow> redis_entry \<Rightarrow> bool" where
  "entry_ok st e \<longleftrightarrow> from_utf8 (re_aggregate_type e) = Ok (re_aggregate_type e) \<and>
     (re_aggregate_type e = rs_aggregate_type st \<longrightarrow>
        (\<exists>i. serialize_id (cx_id (rs_codecs st)) i = Ok (re_aggregate_id e)) \<and>
        (\<forall>r n. 0 < r \<longrightarrow> 0 < n \<longrightarrow> r \<le> LUA_EXACT \<longrightarrow> n \<le> LUA_EXACT \<longrightarrow>
           (\<exists>env. hash_to_envelope st (entry_hash e r n) = Ok env \<and> env_revision env = r)))"

fun step_ok :: "('e, 'id) redis_event_store \<Rightarrow> redis_step \<Rightarrow> bool" where
  "step_ok st (OtherAppends keys argv) \<longleftrightarrow>
     (\<exists>s x new. keys = append_keys st s \<and> argv = append_argv x new \<and> new \<noteq> [] \<and>
        (\<forall>e\<in>set new. entry_ok st e \<and> entry_stream e = s))"
| "step_ok st (Loses e) \<longleftrightarrow> \<not> is_noscript_error e"
| "step_ok st step \<longleftrightarrow> True"

text \<open>A bound on the events the schedule appends.\<close>

fun step_events :: "redis_step \<Rightarrow> nat" where
  "step_events (OtherAppends keys argv) = length argv"
| "step_events step = 0"

definition holds :: "('e, 'id) redis_event_store \<Rightarrow> nat \<Rightarrow> redis_world \<Rightarrow> redis_entry list \<Rightarrow> bool" where
  "holds st room w log \<longleftrightarrow> represents st log (rw_keys w) \<and> (\<forall>e\<in>set log. entry_ok st e) \<and>
     (\<forall>step\<in>set (rw_schedule w). step_ok st step) \<and>
     length log + sum_list (map step_events (rw_schedule w)) + room < LUA_EXACT"

lemma length_append_argv: "length (append_argv x new) \<ge> length new"
proof -
  have "length (concat (map entry_args new)) = 8 * length new"
    by (induction new) (simp_all add: entry_args_def)
  then show ?thesis by (simp add: append_argv_def split_beta)
qed

lemma others_hold:
  "lua_laws L \<Longrightarrow> holds st room (w\<lparr>rw_schedule := steps\<rparr>) log \<Longrightarrow>
   \<exists>log1. prefix log log1 \<and> holds st room (others_act L steps w) log1"
proof (induction L steps w arbitrary: log rule: others_act.induct)
  case (1 L keys argv steps w)
  let ?w = "w\<lparr>rw_keys := snd (append_lua L keys argv (rw_keys w))\<rparr>"
  obtain s x new where step: "keys = append_keys st s" "argv = append_argv x new" "new \<noteq> []"
    and new: "\<forall>e\<in>set new. entry_ok st e" "\<forall>e\<in>set new. entry_stream e = s"
    using 1(3) by (auto simp: holds_def)
  have rep: "represents st log (rw_keys w)" and bound: "length log + length new < LUA_EXACT"
    using 1(3) length_append_argv [of new x] by (auto simp: holds_def step(2))
  obtain ks' where ks': "append_lua L keys argv (rw_keys w) =
      (if expectation_met x (length (positions log s))
       then (Ok (appended_reply (length log) (length new) (length (positions log s))), ks')
       else (Ok (rejected_reply x (length (positions log s))), rw_keys w))"
    "expectation_met x (length (positions log s)) \<longrightarrow> represents st (log @ new) ks'"
    using append_lua_log [OF 1(2) rep bound new(2) step(3), of x] unfolding step by blast
  show ?case
  proof (cases "expectation_met x (length (positions log s))")
    case True
    then have "holds st room (?w\<lparr>rw_schedule := steps\<rparr>) (log @ new)"
      using 1(3) ks' new(1) length_append_argv [of new x] by (auto simp: holds_def step(2))
    from 1(1) [OF 1(2) this] obtain log1 where "prefix (log @ new) log1" "holds st room (others_act L steps ?w) log1" by blast
    then show ?thesis by (intro exI [of _ log1]) (simp add: append_prefixD)
  next
    case False
    then have "holds st room (?w\<lparr>rw_schedule := steps\<rparr>) log"
      using 1(3) ks'(1) by (auto simp: holds_def)
    from 1(1) [OF 1(2) this] show ?thesis by auto
  qed
next
  case (2 L steps w)
  then have "holds st room (w\<lparr>rw_scripts := [], rw_schedule := steps\<rparr>) log" by (auto simp: holds_def)
  from 2(1) [OF 2(2) this] show ?case by simp
qed auto

lemma others_act_head:
  "rw_schedule (others_act L steps w) = [] \<or>
   (\<exists>e. hd (rw_schedule (others_act L steps w)) = Refuses e) \<or>
   (\<exists>e. hd (rw_schedule (others_act L steps w)) = Loses e) \<or>
   hd (rw_schedule (others_act L steps w)) = Answers"
  by (induction L steps w rule: others_act.induct) auto

lemma holds_tl: "holds st room w log \<Longrightarrow> holds st room (w\<lparr>rw_schedule := tl (rw_schedule w)\<rparr>) log"
  by (cases "rw_schedule w") (auto simp: holds_def)

lemma holds_other [simp]:
  "holds st room (w\<lparr>rw_scripts := ss\<rparr>) log = holds st room w log"
  "holds st room (w\<lparr>rw_ticks := t\<rparr>) log = holds st room w log"
  "holds st room (w\<lparr>rw_clock := c\<rparr>) log = holds st room w log"
  "holds st room (w\<lparr>rw_published := p\<rparr>) log = holds st room w log"
  by (simp_all add: holds_def)

text \<open>One command: at \<open>v\<close> the server has the log \<open>log1\<close>, and serves the command, or does not.\<close>

lemma execute_spec:
  assumes L: "lua_laws (rc_lua C)" and w: "holds st room w log" and run: "redis_execute C command w = (r, w')"
  shows "\<exists>log1 v. prefix log log1 \<and> holds st room v log1 \<and>
    ((\<exists>e. r = Inl e \<and> w' = v) \<or>
     (\<exists>q. serve_command (rc_lua C) command v = (q, w') \<and>
        (r = map_ok (rc_frame C) q \<or> (\<exists>e. r = Inl e \<and> \<not> is_noscript_error e))))"
proof -
  let ?o = "others_act (rc_lua C) (rw_schedule w) w" and ?serve = "serve_command (rc_lua C) command"
  let ?v = "?o\<lparr>rw_schedule := tl (rw_schedule ?o)\<rparr>"
  obtain log1 where log1: "prefix log log1" "holds st room ?o log1"
    using others_hold [OF L, where st = st and room = room and w = w and steps = "rw_schedule w" and log = log] w by auto
  have v: "holds st room ?v log1" by (rule holds_tl [OF log1(2)])
  obtain q u where q: "?serve ?v = (q, u)" by (meson surj_pair)
  consider (answers) "rw_schedule ?o = [] \<or> hd (rw_schedule ?o) = Answers"
    | (refuses) e where "rw_schedule ?o = Refuses e # tl (rw_schedule ?o)"
    | (loses) e where "rw_schedule ?o = Loses e # tl (rw_schedule ?o)"
    using others_act_head [where L = "rc_lua C" and steps = "rw_schedule w" and w = w] by (cases "rw_schedule ?o") auto
  then show ?thesis
  proof cases
    case answers
    then have "r = map_ok (rc_frame C) q \<and> w' = u" using run q
      by (cases "rw_schedule ?o") (auto simp: redis_execute_def Let_def)
    then show ?thesis using log1(1) v q by blast
  next
    case (refuses e)
    then have "r = Inl e \<and> w' = ?v" using run by (simp add: redis_execute_def Let_def split: list.splits)
    then show ?thesis using log1(1) v by blast
  next
    case (loses e)
    then have "r = Inl e \<and> w' = u" using run q by (simp add: redis_execute_def Let_def split: list.splits)
    moreover have "\<not> is_noscript_error e" using log1(2) loses
      by (metis holds_def list.set_intros(1) step_ok.simps(2))
    ultimately show ?thesis using log1(1) v q by blast
  qed
qed

text \<open>A script, with its second attempt by \<open>EVAL\<close>, when it raises no error on such keys.\<close>

lemma script_spec:
  assumes L: "lua_laws (rc_lua C)" and w: "holds st room w log" and run: "execute_lua_script C script args w = (r, w')"
    and total: "\<And>log1 v. prefix log log1 \<Longrightarrow> holds st room v log1 \<Longrightarrow>
      \<exists>q v'. eval_script (rc_lua C) script args v = (Inr q, v')"
  shows "\<exists>log1 v. prefix log log1 \<and> holds st room v log1 \<and>
    ((\<exists>e. r = Inl e \<and> w' = v) \<or>
     (\<exists>q. eval_script (rc_lua C) script args v = (Inr q, w') \<and> (r = Inr (rc_frame C q) \<or> (\<exists>e. r = Inl e))))"
proof -
  obtain r1 w1 where first: "redis_execute C (EvalSha script args) w = (r1, w1)" by (meson surj_pair)
  obtain log1 v where log1: "prefix log log1" "holds st room v log1" and
    v: "(\<exists>e. r1 = Inl e \<and> w1 = v) \<or> (\<exists>q. serve_command (rc_lua C) (EvalSha script args) v = (q, w1) \<and>
        (r1 = map_ok (rc_frame C) q \<or> (\<exists>e. r1 = Inl e \<and> \<not> is_noscript_error e)))"
    using execute_spec [OF L w first] by blast
  have eval: ?thesis if again: "redis_execute C (Eval script args) w1 = (r, w')" and same: "w1 = v"
  proof -
    obtain log2 v2 where log2: "prefix log1 log2" "holds st room v2 log2" and
      v2: "(\<exists>e. r = Inl e \<and> w' = v2) \<or> (\<exists>q. serve_command (rc_lua C) (Eval script args) v2 = (q, w') \<and>
        (r = map_ok (rc_frame C) q \<or> (\<exists>e. r = Inl e \<and> \<not> is_noscript_error e)))"
      using execute_spec [OF L log1(2) again [unfolded same]] by blast
    let ?v2 = "v2\<lparr>rw_scripts := script # rw_scripts v2\<rparr>"
    have "prefix log log2" "holds st room ?v2 log2" using log1(1) log2 by (auto intro: prefix_order.trans)
    moreover obtain q v' where "eval_script (rc_lua C) script args ?v2 = (Inr q, v')"
      using total calculation by blast
    ultimately have ev: "prefix log log2 \<and> holds st room ?v2 log2 \<and> eval_script (rc_lua C) script args ?v2 = (Inr q, v')" by blast
    from v2 consider (refused) e where "r = Inl e" "w' = v2"
      | (served) "w' = v'" "r = Inr (rc_frame C q) \<or> (\<exists>e. r = Inl e)"
      using ev by (auto simp: serve_command_def)
    then show ?thesis
    proof cases
      case refused
      then show ?thesis using \<open>prefix log log2\<close> log2(2) by blast
    next
      case served
      then show ?thesis using ev by blast
    qed
  qed
  have served: "\<exists>q. eval_script (rc_lua C) script args v = (Inr q, w1)"
    if "serve_command (rc_lua C) (EvalSha script args) v = (q, w1)" "script \<in> set (rw_scripts v)" for q
    using that total [OF log1] by (auto simp: serve_command_def)
  show ?thesis
  proof (cases r1)
    case (Inr a)
    then have "r = Inr a" "w' = w1" using run first by (simp_all add: execute_lua_script_def)
    moreover obtain q where q: "serve_command (rc_lua C) (EvalSha script args) v = (q, w1)" "Inr a = map_ok (rc_frame C) q"
      using v Inr by auto
    moreover have "script \<in> set (rw_scripts v)"
      using q by (auto simp: serve_command_def split: if_splits)
    ultimately show ?thesis using log1 total [OF log1] by (auto simp: serve_command_def intro!: exI [of _ log1] exI [of _ v])
  next
    case (Inl e)
    show ?thesis
    proof (cases "is_noscript_error e")
      case True
      then have again: "redis_execute C (Eval script args) w1 = (r, w')"
        using run first Inl by (simp add: execute_lua_script_def)
      from v Inl True consider "w1 = v" | q where "serve_command (rc_lua C) (EvalSha script args) v = (q, w1)" "Inl e = map_ok (rc_frame C) q"
        by auto
      then show ?thesis
      proof cases
        case 1
        then show ?thesis by (rule eval [OF again])
      next
        case (2 q)
        then have "w1 = v" using total [OF log1] by (cases "script \<in> set (rw_scripts v)") (auto simp: serve_command_def)
        then show ?thesis by (rule eval [OF again])
      qed
    next
      case False
      then have out: "r = Inl e" "w' = w1" using run first Inl by (simp_all add: execute_lua_script_def)
      show ?thesis
      proof (cases "w1 = v")
        case True
        then show ?thesis using out log1 by blast
      next
        case other: False
        then obtain q where "serve_command (rc_lua C) (EvalSha script args) v = (q, w1)" using v by blast
        moreover from this other have "script \<in> set (rw_scripts v)" by (auto simp: serve_command_def split: if_splits)
        ultimately obtain q' where "eval_script (rc_lua C) script args v = (Inr q', w1)" using served by blast
        then show ?thesis using out log1 by blast
      qed
    qed
  qed
qed

section \<open>Reading an index\<close>

text \<open>An index lists, in the order of their scores, positions of the log that stay as it grows.\<close>

definition index_of :: "('e, 'id) redis_event_store \<Rightarrow> string \<Rightarrow> (redis_entry list \<Rightarrow> nat list) \<Rightarrow> bool" where
  "index_of st key idx \<longleftrightarrow>
     (\<forall>log ks. indexed st log ks \<longrightarrow> ks key = set_data (ranked (idx log))) \<and>
     (\<forall>log log1. prefix log log1 \<longrightarrow> prefix (idx log) (idx log1)) \<and>
     (\<forall>log. \<forall>n\<in>set (idx log). n < length log) \<and> (\<forall>log. length (idx log) \<le> length log)"

lemma prefix_positions: "prefix log log1 \<Longrightarrow> prefix (positions log s) (positions log1 s)"
  by (auto simp: prefix_def positions_append)

lemma index_of_stream: "index_of st (sk_stream_key (keys_of st s)) (\<lambda>log. positions log s)"
  using positions_less by (auto simp: index_of_def indexed_def prefix_positions positions_le)

lemma index_of_global: "index_of st (global_key st) (\<lambda>log. [0..<length log])"
proof -
  have "prefix [0..<m] [0..<n]" if "m \<le> n" for m n :: nat
    using that upt_add_eq_append [of 0 m "n - m"] by simp
  then show ?thesis by (auto simp: index_of_def indexed_def prefix_length_le)
qed

lemma ranked_after: "filter (\<lambda>m. snd m > int c) (ranked ns) = drop c (ranked ns)"
proof -
  have "filter (\<lambda>j. int j + 1 > int c) [0..<n] = drop c [0..<n]" for n
    by (induction n) (auto simp: upt_Suc drop_upt)
  then have "filter (\<lambda>m. snd m > int c) (ranked ns) = map (\<lambda>j. (show_nat (ns ! j + 1), int j + 1)) (drop c [0..<length ns])"
    by (simp add: ranked_def filter_map comp_def)
  then show ?thesis by (simp add: ranked_def drop_map)
qed

lemma u64_text: "n \<le> u64_max \<Longrightarrow> redis_value_u64 (Bytes (show_nat n)) label = Ok n"
proof -
  have "from_utf8 (show_nat n) = Ok (show_nat n)"
    using is_dec_ascii show_nat_all_dec by (intro from_utf8_ascii) blast
  then show "n \<le> u64_max \<Longrightarrow> ?thesis" by (simp add: parse_unsigned_show_nat)
qed

lemma pairs_of_concat: "pairs_of (concat (map (\<lambda>x. [f x, g x]) xs)) = map (\<lambda>x. (f x, g x)) xs"
  "even (length (concat (map (\<lambda>x. [f x, g x]) xs)))"
  by (induction xs) auto

lemma page_reply:
  assumes L: "lua_laws L" and ns: "length ns < LUA_EXACT" "\<forall>n\<in>set ns. n < LUA_EXACT"
  shows "redis_scored_sequence_page (bytes_pairs (map (\<lambda>(m, s). (m, lu_arg L s)) (take k (drop c (ranked ns))))) =
    Ok (map (\<lambda>j. (ns ! j + 1, j + 1)) (take k (drop c [0..<length ns])))"
proof -
  let ?js = "take k (drop c [0..<length ns])"
  have lt: "j < length ns" if "j \<in> set ?js" for j
    using that by (auto dest!: in_set_takeD in_set_dropD)
  have arg: "lu_arg L (int j + 1) = show_nat (j + 1)" if "j \<in> set ?js" for j
  proof -
    have "j + 1 < LUA_EXACT" using lt [OF that] ns(1) by simp
    then have "lu_arg L (int (j + 1)) = show_nat (j + 1)" using L unfolding lua_laws_def by blast
    then show ?thesis by (simp add: add.commute)
  qed
  have "map (\<lambda>(m, s). (m, lu_arg L s)) (take k (drop c (ranked ns))) =
      map (\<lambda>j. (show_nat (ns ! j + 1), show_nat (j + 1))) ?js"
    using arg by (simp add: ranked_def drop_map take_map)
  then have "bytes_pairs (map (\<lambda>(m, s). (m, lu_arg L s)) (take k (drop c (ranked ns)))) =
      Array (concat (map (\<lambda>j. [Bytes (show_nat (ns ! j + 1)), Bytes (show_nat (j + 1))]) ?js))"
    by (simp add: bytes_pairs_def comp_def)
  moreover have "collect_results (\<lambda>(member, score).
         and_then (redis_value_u64 member ''Redis sequence'') (\<lambda>m.
         and_then (redis_value_u64 score ''Redis index score'') (\<lambda>s. Ok (m, s))))
       (map (\<lambda>j. (Bytes (show_nat (ns ! j + 1)), Bytes (show_nat (j + 1)))) js) =
      Ok (map (\<lambda>j. (ns ! j + 1, j + 1)) js)" if "set js \<subseteq> set ?js" for js
    using that
  proof (induction js)
    case (Cons j js)
    have "j < length ns" using Cons.prems lt by auto
    then have "ns ! j + 1 \<le> u64_max" "j + 1 \<le> u64_max"
      using ns by (auto simp: LUA_EXACT_def u64_max_def dest!: bspec [OF _ nth_mem])
    then show ?case using Cons by (simp add: u64_text del: redis_value_u64.simps)
  qed simp
  ultimately show ?thesis
    using pairs_of_concat [of "\<lambda>j. Bytes (show_nat (ns ! j + 1))" "\<lambda>j. Bytes (show_nat (j + 1))" ?js]
    by (simp add: redis_scored_sequence_page_def even_iff_mod_2_eq_zero del: redis_value_u64.simps)
qed

definition limited :: "nat option \<Rightarrow> nat \<Rightarrow> 'a list \<Rightarrow> 'a list" where
  "limited limit found xs = (case limit of None \<Rightarrow> xs | Some l \<Rightarrow> take (l - found) xs)"

definition list_frame :: "redis_client \<Rightarrow> bool" where
  "list_frame C \<longleftrightarrow> (\<forall>items. rc_frame C (Array items) = Array items)"

text \<open>A page at one moment of the log.\<close>

lemma page_spec:
  assumes L: "lua_laws (rc_lua C)" and frame: "list_frame C" and idx: "index_of st key idx"
    and w: "holds st room w log" and run: "redis_execute C (ZRangeByScoreCommand key c k) w = (r, w1)"
  shows "\<exists>log1. prefix log log1 \<and> holds st room w1 log1 \<and>
    (\<forall>value. r = Inr value \<longrightarrow> redis_scored_sequence_page value =
       Ok (map (\<lambda>j. (idx log1 ! j + 1, j + 1)) (take k (drop c [0..<length (idx log1)]))))"
proof -
  obtain log1 v where log1: "prefix log log1" "holds st room v log1" and
    v: "(\<exists>e. r = Inl e \<and> w1 = v) \<or> (\<exists>q. serve_command (rc_lua C) (ZRangeByScoreCommand key c k) v = (q, w1) \<and>
        (r = map_ok (rc_frame C) q \<or> (\<exists>e. r = Inl e \<and> \<not> is_noscript_error e)))"
    using execute_spec [OF L w run] by blast
  have ks: "rw_keys v key = set_data (ranked (idx log1))"
    using log1(2) idx by (auto simp: holds_def represents_def index_of_def)
  let ?reply = "bytes_pairs (map (\<lambda>(m, s). (m, lu_arg (rc_lua C) s)) (take k (drop c (ranked (idx log1)))))"
  have serve: "serve_command (rc_lua C) (ZRangeByScoreCommand key c k) v = (Inr ?reply, v)"
    using ks by (auto simp: serve_command_def on_keyspace_def redis_zrange_def redis_zmembers_def try_op_def
        return_op_def set_data_def ranked_after split: if_splits)
  have len: "length log1 < LUA_EXACT" using log1(2) by (simp add: holds_def)
  have "length (idx log1) < LUA_EXACT" "\<forall>n\<in>set (idx log1). n < LUA_EXACT"
    using idx len order_le_less_trans unfolding index_of_def by (blast, fastforce)
  from page_reply [OF L this] have "redis_scored_sequence_page ?reply =
      Ok (map (\<lambda>j. (idx log1 ! j + 1, j + 1)) (take k (drop c [0..<length (idx log1)])))" .
  moreover have "rc_frame C ?reply = ?reply" using frame by (simp add: list_frame_def bytes_pairs_def)
  ultimately show ?thesis using v log1 serve by (intro exI [of _ log1]) auto
qed

lemma limited_full:
  assumes "\<And>l. limit = Some l \<Longrightarrow> k \<le> l - n" and "length xs = k"
  shows "limited limit n (xs @ ys) = xs @ limited limit (n + k) ys"
  using assms by (auto simp: limited_def split: option.splits)

lemma take_prefix_stable: "prefix xs ys \<Longrightarrow> c + k \<le> length xs \<Longrightarrow> take k (drop c ys) = take k (drop c xs)"
  by (auto simp: prefix_def)

lemma index_pages_spec:
  assumes L: "lua_laws (rc_lua C)" and frame: "list_frame C" and idx: "index_of st key idx" and pm: "0 < pm"
  shows "holds st room w log \<Longrightarrow> index_pages C pm key limit found cursor w = (r, w') \<Longrightarrow>
    \<exists>log'. prefix log log' \<and> holds st room w' log' \<and>
      (\<forall>out. r = Inr out \<longrightarrow> (\<exists>log1. prefix log log1 \<and> prefix log1 log' \<and>
         out = found @ limited limit (length found) (map Suc (drop cursor (idx log1)))))"
proof (induction "u64_max - cursor" arbitrary: found cursor w log rule: less_induct)
  case less
  note w = less(2) and run = less(3)
  show ?case
  proof (cases "page_size_of pm limit (length found)")
    case None
    then have "r = Inr found" "w' = w" using run by (subst (asm) index_pages.simps, simp)+
    moreover have "limited limit (length found) xs = []" for xs :: "nat list"
      using None by (auto simp: page_size_of_def limited_def split: option.splits if_splits)
    ultimately show ?thesis using w by (intro exI [of _ log]) auto
  next
    case (Some k)
    have k: "0 < k" "\<And>l. limit = Some l \<Longrightarrow> k \<le> l - length found"
      using Some pm by (auto simp: page_size_of_def split: option.splits if_splits)
    obtain q w1 where q: "redis_execute C (ZRangeByScoreCommand key cursor k) w = (q, w1)" by (meson surj_pair)
    from page_spec [OF L frame idx w q] obtain log1 where log1: "prefix log log1" "holds st room w1 log1"
      and page: "\<And>reply. q = Inr reply \<Longrightarrow> redis_scored_sequence_page reply =
        Ok (map (\<lambda>j. (idx log1 ! j + 1, j + 1)) (take k (drop cursor [0..<length (idx log1)])))" by blast
    show ?thesis
    proof (cases q)
      case (Inl e)
      then have "r = Inl (map_executor_error e)" "w' = w1"
        using run Some q by (subst (asm) index_pages.simps, simp)+
      then show ?thesis using log1 by (intro exI [of _ log1]) auto
    next
      case (Inr reply)
      let ?js = "take k (drop cursor [0..<length (idx log1)])"
      let ?page = "map (\<lambda>j. (idx log1 ! j + 1, j + 1)) ?js"
      have fst_page: "map fst ?page = map Suc (take k (drop cursor (idx log1)))"
        by (rule nth_equalityI) auto
      have step: "index_pages C pm key limit found cursor w =
          (if length ?page < k \<or> ?page = [] then (Ok (found @ map fst ?page), w1)
           else if cursor < snd (last ?page) \<and> snd (last ?page) \<le> u64_max
           then index_pages C pm key limit (found @ map fst ?page) (snd (last ?page)) w1
           else (Ok (found @ map fst ?page), w1))"
        by (subst index_pages.simps) (simp only: Some q Inr page [OF Inr] option.case sum.case prod.case)
      show ?thesis
      proof (cases "length ?page < k")
        case True
        have "(Inr (found @ map fst ?page), w1) = (r, w')"
          using run by (simp only: step if_P [OF disjI1 [OF True]])
        then have "r = Inr (found @ map fst ?page)" "w' = w1" by (simp_all only: prod.inject)
        moreover have "take k (drop cursor (idx log1)) = drop cursor (idx log1)" using True by simp
        then have "limited limit (length found) (map Suc (drop cursor (idx log1))) = map Suc (take k (drop cursor (idx log1)))"
          using True k(2) by (auto simp: limited_def split: option.splits)
        ultimately show ?thesis using log1 fst_page by (intro exI [of _ log1]) (auto intro!: exI [of _ log1])
      next
        case False
        then have full: "cursor + k \<le> length (idx log1)" using k(1) by auto
        have "?js = [cursor..<cursor + k]" using full by (simp add: drop_upt take_upt)
        then have page_eq: "?page = map (\<lambda>j. (idx log1 ! j + 1, j + 1)) ([cursor..<cursor + (k - 1)] @ [cursor + (k - 1)])"
          using k(1) upt_Suc_append [of cursor "cursor + (k - 1)"] by simp
        then have last: "snd (last ?page) = cursor + k" "?page \<noteq> []" using k(1) by auto
        have small: "cursor + k \<le> u64_max"
        proof -
          have "length (idx log1) \<le> length log1" "length log1 < LUA_EXACT"
            using idx log1(2) by (auto simp: index_of_def holds_def)
          then show ?thesis using full by (simp add: LUA_EXACT_def u64_max_def)
        qed
        have run2: "index_pages C pm key limit (found @ map fst ?page) (cursor + k) w1 = (r, w')"
        proof -
          have "cursor < cursor + k \<and> cursor + k \<le> u64_max" using small k(1) by simp
          moreover have "\<not> (length ?page < k \<or> ?page = [])" using False last(2) by blast
          ultimately show ?thesis using run by (simp only: step last(1) if_not_P if_P if_False)
        qed
        have "u64_max - (cursor + k) < u64_max - cursor" using small k(1) by linarith
        from less(1) [OF this log1(2) run2] obtain log' where log': "prefix log1 log'" "holds st room w' log'"
          and out: "\<And>out. r = Inr out \<Longrightarrow> \<exists>log2. prefix log1 log2 \<and> prefix log2 log' \<and>
             out = (found @ map fst ?page) @ limited limit (length (found @ map fst ?page))
               (map Suc (drop (cursor + k) (idx log2)))" by blast
        have "\<exists>log2. prefix log log2 \<and> prefix log2 log' \<and>
            out = found @ limited limit (length found) (map Suc (drop cursor (idx log2)))" if r: "r = Inr out" for out
        proof -
          from out [OF r] obtain log2 where log2: "prefix log1 log2" "prefix log2 log'"
            "out = (found @ map fst ?page) @ limited limit (length (found @ map fst ?page)) (map Suc (drop (cursor + k) (idx log2)))"
            by blast
          have "prefix (idx log1) (idx log2)" using idx log2(1) unfolding index_of_def by blast
          then have "take k (drop cursor (idx log2)) = take k (drop cursor (idx log1))" using full by (rule take_prefix_stable)
          then have "map Suc (drop cursor (idx log2)) = map fst ?page @ map Suc (drop (cursor + k) (idx log2))"
            unfolding fst_page by (metis append_take_drop_id drop_drop map_append add.commute)
          moreover have "length (map fst ?page) = k" using full by simp
          ultimately show ?thesis using log2 log1(1) limited_full [where limit = limit and n = "length found" and k = k
                and xs = "map fst ?page"] k(2) by (intro exI [of _ log2]) (auto intro: prefix_order.trans)
        qed
        then show ?thesis using log' log1(1) by (intro exI [of _ log']) (auto intro: prefix_order.trans)
      qed
    qed
  qed
qed

end
