(* ===== verification/Redis_Read.thy ===== *)
theory Redis_Read
  imports Redis_Log
begin

text \<open>
  Reading the log back: the hashes of a list of sequences in chunks, and a stream as the envelopes of
  its hashes.  Hashes never change, so the chunks of one read agree although the log grows between them.
\<close>

section \<open>Hashes\<close>

definition hash_at :: "redis_entry list \<Rightarrow> nat \<Rightarrow> (string \<times> string) list" where
  "hash_at log n = entry_hash (log ! (n - 1)) (revision_at log (n - 1)) n"

definition in_log :: "redis_entry list \<Rightarrow> nat \<Rightarrow> bool" where
  "in_log log n \<longleftrightarrow> 0 < n \<and> n \<le> length log"

lemma in_log_grows: "prefix log log1 \<Longrightarrow> in_log log n \<Longrightarrow> in_log log1 n \<and> hash_at log1 n = hash_at log n"
  by (auto simp: in_log_def hash_at_def prefix_def nth_append revision_at_append)

definition hash_reply :: "(string \<times> string) list \<Rightarrow> redis_value list" where
  "hash_reply hash = Integer (int (2 * length hash)) # concat (map (\<lambda>(f, v). [Bytes f, Bytes v]) hash)"

lemma hash_items: "length (concat (map (\<lambda>(f, v). [Bytes f, Bytes v]) hash)) = 2 * length hash"
  "pairs_of (concat (map (\<lambda>(f, v). [Bytes f, Bytes v]) hash)) = map (\<lambda>(f, v). (Bytes f, Bytes v)) hash"
  by (induction hash) auto

lemma fetch_hashes_log:
  "represents st log ks \<Longrightarrow> \<forall>n\<in>set ns. in_log log n \<Longrightarrow>
   fetch_hashes_lua (map (event_key st) ns) ks = (Ok (concat (map (\<lambda>n. hash_reply (hash_at log n)) ns)), ks)"
proof (induction ns)
  case (Cons n ns)
  have "ks (event_key st (n - 1 + 1)) = Some (RHash (entry_hash (log ! (n - 1)) (revision_at log (n - 1)) (n - 1 + 1)))"
    using Cons.prems unfolding represents_def indexed_def in_log_def by (metis One_nat_def Suc_eq_plus1 Suc_pred less_eq_Suc_le list.set_intros(1))
  then have "ks (event_key st n) = Some (RHash (hash_at log n))"
    using Cons.prems(2) by (auto simp: in_log_def hash_at_def)
  then have "redis_hgetall (event_key st n) ks = (Ok (hash_at log n), ks)" by (simp add: redis_hgetall_def)
  then show ?case using Cons by (simp add: try_op_def return_op_def hash_reply_def split_def)
qed (simp add: return_op_def)

lemma insert_fields_text:
  "\<forall>(f, v)\<in>set hash. from_utf8 f = Ok f \<Longrightarrow> distinct (map fst (acc @ hash)) \<Longrightarrow>
   insert_fields (map (\<lambda>(f, v). (Bytes f, Bytes v)) hash) acc = Ok (acc @ hash)"
proof (induction hash arbitrary: acc)
  case (Cons p hash)
  obtain f v where p: "p = (f, v)" by (cases p)
  have "AList.update f v acc = acc @ [(f, v)]"
    using Cons.prems(2) p by (induction acc) auto
  then show ?case using Cons.IH [of "acc @ [p]"] Cons.prems p by (auto simp: redis_value_string_def)
qed simp

lemma hash_from_reply: "redis_hash_from_items (concat (map (\<lambda>(f, v). [Bytes f, Bytes v]) (hash_at log n))) = Ok (hash_at log n)"
proof -
  let ?hash = "hash_at log n"
  have "from_utf8 f = Ok f" if "f \<in> {''event_id'', ''aggregate_id'', ''aggregate_type'', ''revision'', ''sequence'',
      ''event_type'', ''event_version'', ''payload'', ''metadata'', ''recorded_at_ms''}" for f
    using that by (intro from_utf8_ascii) auto
  then have "\<forall>(f, v)\<in>set ?hash. from_utf8 f = Ok f" by (auto simp: hash_at_def entry_hash_def)
  moreover have "distinct (map fst ([] @ ?hash))" by (simp add: hash_at_def entry_hash_def)
  ultimately show ?thesis using insert_fields_text [of ?hash "[]"] unfolding redis_hash_from_items_def hash_items by simp
qed

lemma unpack_log:
  "unpack_loop found expected ns (concat (map (\<lambda>n. hash_reply (hash_at log n)) ns)) = Ok (map (hash_at log) ns)"
proof (induction ns arbitrary: found)
  case (Cons n ns)
  have ne: "hash_at log n \<noteq> []" by (simp add: hash_at_def entry_hash_def)
  let ?items = "concat (map (\<lambda>(f, v). [Bytes f, Bytes v]) (hash_at log n))"
  have len: "nat (int (2 * length (hash_at log n))) = length ?items" using hash_items(1) by (metis nat_int)
  have "take (length ?items) (?items @ xs) = ?items" "drop (length ?items) (?items @ xs) = xs" for xs by simp_all
  then show ?case using Cons ne len hash_from_reply [of log n] by (simp add: hash_reply_def del: of_nat_mult)
qed simp

section \<open>Chunks\<close>

lemma eval_fetch:
  assumes "represents st log (rw_keys v)" and "\<forall>n\<in>set ns. in_log log n" and "length ns \<le> u64_max"
  shows "eval_script L FetchHashesScript (show_nat (length ns) # map (event_key st) ns) v =
    (Ok (Array (concat (map (\<lambda>n. hash_reply (hash_at log n)) ns))), v)"
  using fetch_hashes_log [OF assms(1,2)] assms(3)
  by (simp add: eval_script_def parse_unsigned_show_nat on_keyspace_def run_script_def try_op_def return_op_def)

lemma load_chunks_spec:
  assumes L: "lua_laws (rc_lua (rs_client st))" and frame: "list_frame (rs_client st)"
  shows "holds st room w log \<Longrightarrow> \<forall>ns\<in>set cs. length ns \<le> u64_max \<and> (\<forall>n\<in>set ns. in_log log n) \<Longrightarrow>
    load_chunks st cs w = (r, w') \<Longrightarrow>
    \<exists>log'. prefix log log' \<and> holds st room w' log' \<and>
      (\<forall>hs. r = Inr hs \<longrightarrow> hs = map (hash_at log) (concat cs))"
proof (induction cs arbitrary: w log r w')
  case Nil
  then show ?case by (auto simp: return_op_def)
next
  case (Cons ns rest)
  obtain q w1 where q: "execute_lua_script (rs_client st) FetchHashesScript (show_nat (length ns) # map (event_key st) ns) w = (q, w1)"
    by (meson surj_pair)
  have ns: "\<forall>n\<in>set ns. in_log log1 n \<and> hash_at log1 n = hash_at log n" if "prefix log log1" for log1
    using in_log_grows [OF that] Cons.prems(2) by auto
  have eval: "eval_script (rc_lua (rs_client st)) FetchHashesScript (show_nat (length ns) # map (event_key st) ns) v =
      (Ok (Array (concat (map (\<lambda>n. hash_reply (hash_at log1 n)) ns))), v)"
    if "prefix log log1" "holds st room v log1" for log1 v
    using that Cons.prems(2) ns [OF that(1)] by (intro eval_fetch) (auto simp: holds_def)
  have "\<exists>log1 v. prefix log log1 \<and> holds st room v log1 \<and> ((\<exists>e. q = Inl e \<and> w1 = v) \<or>
      (\<exists>x. eval_script (rc_lua (rs_client st)) FetchHashesScript (show_nat (length ns) # map (event_key st) ns) v =
         (Inr x, w1) \<and> (q = Inr (rc_frame (rs_client st) x) \<or> (\<exists>e. q = Inl e))))"
    by (rule script_spec [OF L Cons.prems(1) q]) (use eval in blast)
  then obtain log1 where log1: "prefix log log1" "holds st room w1 log1"
    and reply: "\<And>x. q = Inr x \<Longrightarrow> x = Array (concat (map (\<lambda>n. hash_reply (hash_at log1 n)) ns))"
    using eval frame by (fastforce simp: list_frame_def)
  have same: "map (hash_at log1) ms = map (hash_at log) ms" if "\<forall>n\<in>set ms. in_log log n" for ms
    using in_log_grows [OF log1(1)] that by auto
  have "\<forall>n\<in>set ns. in_log log n" "\<forall>n\<in>set (concat rest). in_log log n" using Cons.prems(2) by auto
  from this [THEN same] have same_ns: "map (hash_at log1) ns = map (hash_at log) ns"
    "map (hash_at log1) (concat rest) = map (hash_at log) (concat rest)" .
  show ?case
  proof (cases q)
    case (Inl e)
    then have "w' = w1" "\<exists>e. r = Inl e" using Cons.prems(3) q by (auto simp: try_op_def op_map_err_def)
    then show ?thesis using log1 by auto
  next
    case (Inr x)
    have "unpack_flat_hash_batch x ns = Ok (map (hash_at log) ns)"
      using reply [OF Inr] unpack_log same_ns by (simp add: unpack_flat_hash_batch_def)
    then have rest: "try_op (load_chunks st rest) (\<lambda>more. return_op (Ok (map (hash_at log) ns @ more))) w1 = (r, w')"
      using Cons.prems(3) q Inr by (simp add: try_op_def op_map_err_def return_op_def)
    obtain r1 w2 where r1: "load_chunks st rest w1 = (r1, w2)" by (meson surj_pair)
    have "\<forall>ns\<in>set rest. length ns \<le> u64_max \<and> (\<forall>n\<in>set ns. in_log log1 n)"
      using Cons.prems(2) in_log_grows [OF log1(1)] by auto
    from Cons.IH [OF log1(2) this r1] obtain log' where log': "prefix log1 log'" "holds st room w2 log'"
      "\<forall>hs. r1 = Inr hs \<longrightarrow> hs = map (hash_at log) (concat rest)" using same_ns(2) by auto
    have "w' = w2" "\<forall>hs. r = Inr hs \<longrightarrow> (\<exists>more. r1 = Inr more \<and> hs = map (hash_at log) ns @ more)"
      using rest r1 by (auto simp: try_op_def return_op_def split: sum.splits)
    then show ?thesis using log' log1(1) by (intro exI [of _ log']) (auto intro: prefix_order.trans)
  qed
qed

lemma concat_chunks: "0 < n \<Longrightarrow> concat (chunks n xs) = xs \<and> (\<forall>c\<in>set (chunks n xs). length c \<le> n)"
proof (induction n xs rule: chunks.induct)
  case (1 n xs)
  then show ?case by (subst (1 2) chunks.simps) auto
qed

lemma load_sequence_hashes_spec:
  assumes "lua_laws (rc_lua (rs_client st))" "list_frame (rs_client st)" "holds st room w log"
    and "\<forall>n\<in>set ns. in_log log n" "load_sequence_hashes st ns w = (r, w')"
  shows "\<exists>log'. prefix log log' \<and> holds st room w' log' \<and> (\<forall>hs. r = Inr hs \<longrightarrow> hs = map (hash_at log) ns)"
proof -
  have c: "concat (chunks HASH_FETCH_CHUNK_SIZE ns) = ns" "\<forall>c\<in>set (chunks HASH_FETCH_CHUNK_SIZE ns). length c \<le> HASH_FETCH_CHUNK_SIZE"
    using concat_chunks [of HASH_FETCH_CHUNK_SIZE ns] by (simp_all add: HASH_FETCH_CHUNK_SIZE_def)
  then have "\<forall>c\<in>set (chunks HASH_FETCH_CHUNK_SIZE ns). set c \<subseteq> set ns" by (metis UN_upper set_concat)
  then have "\<forall>c\<in>set (chunks HASH_FETCH_CHUNK_SIZE ns). length c \<le> u64_max \<and> (\<forall>n\<in>set c. in_log log n)"
    using c(2) assms(4) by (auto simp: HASH_FETCH_CHUNK_SIZE_def u64_max_def)
  from load_chunks_spec [OF assms(1-3) this] show ?thesis using assms(5) c(1) by (simp add: load_sequence_hashes_def)
qed

section \<open>Streams\<close>

definition stream_sequences :: "redis_entry list \<Rightarrow> string \<times> string \<Rightarrow> nat list" where
  "stream_sequences log s = map Suc (positions log s)"

definition storage_stream :: "('e, 'id) redis_event_store \<Rightarrow> redis_entry list \<Rightarrow> string \<Rightarrow> ('e, 'id) event_stream" where
  "storage_stream st log k =
     unwrap_or [] (collect_results (hash_to_envelope st) (map (hash_at log) (stream_sequences log (rs_aggregate_type st, k))))"

definition redis_stream :: "('e, 'id) redis_event_store \<Rightarrow> redis_entry list \<Rightarrow> 'id \<Rightarrow> ('e, 'id) event_stream" where
  "redis_stream st log i = (case serialize_id (cx_id (rs_codecs st)) i of
      Inl _ \<Rightarrow> [] | Inr k \<Rightarrow> storage_stream st log k)"

definition log_ok :: "('e, 'id) redis_event_store \<Rightarrow> redis_entry list \<Rightarrow> bool" where
  "log_ok st log \<longleftrightarrow> (\<forall>e\<in>set log. entry_ok st e) \<and> length log < LUA_EXACT"

lemma holds_log_ok: "holds st room w log \<Longrightarrow> log_ok st log"
  by (auto simp: holds_def log_ok_def)

lemma log_ok_prefix: "prefix log log1 \<Longrightarrow> log_ok st log1 \<Longrightarrow> log_ok st log"
  by (auto simp: log_ok_def prefix_def)

lemma in_log_stream: "n \<in> set (stream_sequences log s) \<Longrightarrow> in_log log n"
  using positions_less [of _ log s] by (auto simp: stream_sequences_def in_log_def Suc_le_eq)

lemma revision_at_position:
  "j < length (positions log s) \<Longrightarrow> revision_at log (positions log s ! j) = j + 1"
proof (induction log rule: rev_induct)
  case (snoc e log)
  show ?case
  proof (cases "j < length (positions log s)")
    case True
    moreover have "positions log s ! j < length log" using positions_less nth_mem [OF True] by blast
    ultimately show ?thesis using snoc.IH by (simp add: positions_snoc nth_append revision_at_append)
  next
    case False
    then have "entry_stream e = s" "j = length (positions log s)"
      using snoc.prems by (auto simp: positions_snoc split: if_splits)
    then show ?thesis by (simp add: positions_snoc revision_at_def)
  qed
qed (simp add: positions_def)

text \<open>The hash of the \<open>j\<close>th entry of a stream decodes, with the revision \<open>j + 1\<close>.\<close>

lemma stream_hash_decodes:
  assumes "log_ok st log" and j: "j < length (positions log (rs_aggregate_type st, k))"
  shows "\<exists>env. hash_to_envelope st (hash_at log (stream_sequences log (rs_aggregate_type st, k) ! j)) = Ok env \<and>
    env_revision env = j + 1"
proof -
  let ?s = "(rs_aggregate_type st, k)" let ?n = "positions log ?s ! j"
  have n: "?n < length log" "re_aggregate_type (log ! ?n) = rs_aggregate_type st"
    using positions_less [OF nth_mem [OF j]] by (auto simp: entry_stream_def)
  have "entry_ok st (log ! ?n)" using assms(1) n(1) by (auto simp: log_ok_def)
  then have decodes: "\<And>r m. 0 < r \<Longrightarrow> 0 < m \<Longrightarrow> r \<le> LUA_EXACT \<Longrightarrow> m \<le> LUA_EXACT \<Longrightarrow>
      \<exists>env. hash_to_envelope st (entry_hash (log ! ?n) r m) = Ok env \<and> env_revision env = r"
    using n(2) unfolding entry_ok_def by meson
  have "0 < j + 1" "j + 1 \<le> LUA_EXACT" "0 < ?n + 1" "?n + 1 \<le> LUA_EXACT"
    using assms j n(1) positions_le [of log ?s] by (auto simp: log_ok_def)
  then have "\<exists>env. hash_to_envelope st (entry_hash (log ! ?n) (j + 1) (?n + 1)) = Ok env \<and> env_revision env = j + 1"
    by (intro decodes)
  moreover have "hash_at log (stream_sequences log ?s ! j) = entry_hash (log ! ?n) (j + 1) (?n + 1)"
    using revision_at_position [OF j] j by (simp add: hash_at_def stream_sequences_def)
  ultimately show ?thesis by simp
qed

lemma storage_stream_decodes:
  fixes k :: string
  assumes ok: "log_ok st log"
  defines "hashes \<equiv> map (hash_at log) (stream_sequences log (rs_aggregate_type st, k))"
  shows "collect_results (hash_to_envelope st) hashes = Ok (storage_stream st log k) \<and>
    map env_revision (storage_stream st log k) = [1..<length hashes + 1]"
proof -
  let ?env = "\<lambda>h. SOME env. hash_to_envelope st h = Ok env"
  have each: "hash_to_envelope st (hashes ! j) = Ok (?env (hashes ! j)) \<and> env_revision (?env (hashes ! j)) = j + 1"
    if "j < length hashes" for j
  proof -
    have "hashes ! j = hash_at log (stream_sequences log (rs_aggregate_type st, k) ! j)"
      "j < length (positions log (rs_aggregate_type st, k))"
      using that by (simp_all add: hashes_def stream_sequences_def)
    then obtain env where "hash_to_envelope st (hashes ! j) = Ok env" "env_revision env = j + 1"
      using stream_hash_decodes [OF ok, of j k] by auto
    then show ?thesis by simp
  qed
  then have "\<forall>h\<in>set hashes. hash_to_envelope st h = Ok (?env h)" by (auto simp: in_set_conv_nth)
  then have all: "collect_results (hash_to_envelope st) hashes = Ok (map ?env hashes)" by (rule collect_results_total)
  then have "storage_stream st log k = map ?env hashes" by (simp add: storage_stream_def hashes_def unwrap_or_def)
  moreover have "map env_revision (map ?env hashes) = [1..<length hashes + 1]"
    by (rule nth_equalityI) (use each in auto)
  ultimately show ?thesis using all by simp
qed

lemma typed_envelopes_stream:
  assumes "log_ok st log" and "set ns \<subseteq> set (stream_sequences log (rs_aggregate_type st, k))"
  shows "typed_envelopes st (map (hash_at log) ns) = collect_results (hash_to_envelope st) (map (hash_at log) ns)"
  using assms(2)
proof (induction ns)
  case (Cons n ns)
  obtain m where m: "n = m + 1" "m < length log" "re_aggregate_type (log ! m) = rs_aggregate_type st"
    using Cons.prems positions_less by (fastforce simp: stream_sequences_def entry_stream_def)
  then have "from_utf8 (rs_aggregate_type st) = Ok (rs_aggregate_type st)"
    using assms(1) nth_mem [OF m(2)] by (auto simp: log_ok_def entry_ok_def)
  then have "hash_field_string_peek (hash_at log n) ''aggregate_type'' = Ok (rs_aggregate_type st)"
    using m by (simp add: hash_field_string_peek_def hash_at_def entry_hash_def)
  then show ?case using Cons by simp
qed simp

lemma collect_results_drop: "collect_results f xs = Ok ys \<Longrightarrow> collect_results f (drop n xs) = Ok (drop n ys)"
  by (simp add: collect_results_Ok list_all2_dropI)

lemma storage_stream_contiguous:
  assumes "log_ok st log"
  shows "contiguous_from 0 (storage_stream st log k)"
proof -
  have "map env_revision (storage_stream st log k) = [1..<length (storage_stream st log k) + 1]"
    using storage_stream_decodes [OF assms, of k] by (metis length_map length_upt diff_add_inverse2)
  then show ?thesis by (simp add: contiguous_from_revisions)
qed

lemma storage_stream_after:
  "log_ok st log \<Longrightarrow> filter (\<lambda>e. env_revision e > n) (storage_stream st log k) = drop n (storage_stream st log k)"
  using contiguous_filter_after [OF storage_stream_contiguous, of st log n k] by simp

lemma stream_sequences_prefix: "prefix log log1 \<Longrightarrow> prefix (stream_sequences log s) (stream_sequences log1 s)"
  using map_mono_prefix [OF prefix_positions] by (simp add: stream_sequences_def)

lemma storage_stream_prefix:
  assumes "prefix log log1" "log_ok st log1"
  shows "prefix (storage_stream st log k) (storage_stream st log1 k)"
proof -
  let ?s = "(rs_aggregate_type st, k)"
  obtain more where more: "stream_sequences log1 ?s = stream_sequences log ?s @ more"
    using stream_sequences_prefix [OF assms(1)] by (auto simp: prefix_def)
  have same: "map (hash_at log1) (stream_sequences log ?s) = map (hash_at log) (stream_sequences log ?s)"
    using in_log_grows [OF assms(1)] in_log_stream by auto
  have "list_all2 (\<lambda>h e. hash_to_envelope st h = Ok e)
      (map (hash_at log) (stream_sequences log ?s) @ map (hash_at log1) more) (storage_stream st log1 k)"
    by (rule storage_stream_decodes [OF assms(2), of k, THEN conjunct1, unfolded collect_results_Ok more map_append same])
  then obtain es es' where es: "storage_stream st log1 k = es @ es'"
    "list_all2 (\<lambda>h e. hash_to_envelope st h = Ok e) (map (hash_at log) (stream_sequences log ?s)) es"
    by (auto simp: list_all2_append1)
  then have "storage_stream st log k = es" using es(2) by (simp add: storage_stream_def collect_results_Ok [symmetric] unwrap_or_def)
  then show ?thesis using es(1) by simp
qed

section \<open>A load under interference\<close>

text \<open>One storage key: the index at one moment, then its hashes.\<close>

lemma load_key_spec:
  assumes L: "lua_laws (rc_lua (rs_client st))" and frame: "list_frame (rs_client st)" and w: "holds st room w log"
    and run: "load_storage_keys st after (k # ks) w = (r, w')"
  shows "\<exists>log1 log2 v. prefix log log1 \<and> prefix log1 log2 \<and> holds st room v log2 \<and>
    ((\<exists>e. r = Inl e \<and> w' = v) \<or>
     (if drop after (storage_stream st log1 k) \<noteq> [] then r = Ok (drop after (storage_stream st log1 k)) \<and> w' = v
      else load_storage_keys st after ks v = (r, w')))"
proof -
  let ?s = "(rs_aggregate_type st, k)"
  obtain q w1 where q: "load_indexed_sequences st (sk_stream_key (keys_of st ?s)) after None w = (q, w1)" by (meson surj_pair)
  have "0 < SEQUENCE_PAGE_SIZE" by (simp add: SEQUENCE_PAGE_SIZE_def)
  from index_pages_spec [OF L frame index_of_stream this w q [unfolded load_indexed_sequences_def]]
  obtain log2 where log2: "prefix log log2" "holds st room w1 log2" and
    out: "\<And>out. q = Inr out \<Longrightarrow> \<exists>log1. prefix log log1 \<and> prefix log1 log2 \<and> out = drop after (stream_sequences log1 ?s)"
    by (auto simp: limited_def stream_sequences_def drop_map)
  show ?thesis
  proof (cases q)
    case (Inl e)
    then have "r = Inl e" "w' = w1" using run q by (simp_all add: try_op_def)
    then show ?thesis using log2 by blast
  next
    case (Inr ns)
    then obtain log1 where log1: "prefix log log1" "prefix log1 log2" "ns = drop after (stream_sequences log1 ?s)"
      using out by blast
    obtain q2 w2 where q2: "load_sequence_hashes st ns w1 = (q2, w2)" by (meson surj_pair)
    have sub: "set ns \<subseteq> set (stream_sequences log1 ?s)" using log1(3) set_drop_subset by fast
    then have "\<forall>n\<in>set ns. in_log log2 n" using in_log_stream in_log_grows [OF log1(2)] by blast
    from load_sequence_hashes_spec [OF L frame log2(2) this q2] obtain log3 where
      log3: "prefix log2 log3" "holds st room w2 log3" and hs: "\<And>hs. q2 = Inr hs \<Longrightarrow> hs = map (hash_at log2) ns" by blast
    have ok: "log_ok st log1" using log_ok_prefix [OF log1(2) holds_log_ok [OF log2(2)]] .
    show ?thesis
    proof (cases q2)
      case (Inl e)
      then have "r = Inl e" "w' = w2" using run q Inr q2 by (simp_all add: try_op_def)
      then show ?thesis using log1 log3 prefix_order.trans [OF log1(2) log3(1)] by blast
    next
      case (Inr hashes)
      have "hashes = map (hash_at log1) ns" using hs [OF Inr] in_log_grows [OF log1(2)] in_log_stream sub by fastforce
      then have "typed_envelopes st hashes = Ok (drop after (storage_stream st log1 k))"
        using typed_envelopes_stream [OF ok sub] storage_stream_decodes [OF ok, of k]
        by (metis collect_results_drop drop_map log1(3))
      then have "(if drop after (storage_stream st log1 k) \<noteq> [] then (Ok (drop after (storage_stream st log1 k)), w2)
          else load_storage_keys st after ks w2) = (r, w')"
        using run q \<open>q = Inr ns\<close> q2 Inr by (simp add: try_op_def return_op_def split: if_splits)
      then show ?thesis using log1(1) prefix_order.trans [OF log1(2) log3(1)] log3(2)
        by (intro exI [of _ log1] exI [of _ log3] exI [of _ w2]) (auto split: if_splits)
    qed
  qed
qed

text \<open>Texts that no identifier is stored under have no events.\<close>

definition unused_keys :: "('e, 'id) redis_event_store \<Rightarrow> string list \<Rightarrow> bool" where
  "unused_keys st ks \<longleftrightarrow> (\<forall>k\<in>set ks. \<forall>j. serialize_id (cx_id (rs_codecs st)) j \<noteq> Ok k)"

lemma unused_empty: "log_ok st log \<Longrightarrow> unused_keys st (k # ks) \<Longrightarrow> storage_stream st log k = []"
proof -
  assume ok: "log_ok st log" and k: "unused_keys st (k # ks)"
  have "entry_stream e \<noteq> (rs_aggregate_type st, k)" if "e \<in> set log" for e
    using ok k that by (auto simp: log_ok_def entry_ok_def unused_keys_def entry_stream_def)
  then have "positions log (rs_aggregate_type st, k) = []" by (intro positions_none) auto
  then show ?thesis by (simp add: storage_stream_def stream_sequences_def unwrap_or_def)
qed

lemma load_unused:
  assumes L: "lua_laws (rc_lua (rs_client st))" and frame: "list_frame (rs_client st)"
  shows "holds st room w log \<Longrightarrow> unused_keys st ks \<Longrightarrow> load_storage_keys st after ks w = (r, w') \<Longrightarrow>
    \<exists>log'. prefix log log' \<and> holds st room w' log' \<and> (\<forall>es. r = Inr es \<longrightarrow> es = [])"
proof (induction ks arbitrary: w log)
  case (Cons k ks)
  obtain log1 log2 v where log: "prefix log log1" "prefix log1 log2" "holds st room v log2" and
    r: "(\<exists>e. r = Inl e \<and> w' = v) \<or>
     (if drop after (storage_stream st log1 k) \<noteq> [] then r = Ok (drop after (storage_stream st log1 k)) \<and> w' = v
      else load_storage_keys st after ks v = (r, w'))"
    using load_key_spec [OF L frame Cons.prems(1,3)] by blast
  have "storage_stream st log1 k = []"
    using unused_empty [OF log_ok_prefix [OF log(2) holds_log_ok [OF log(3)]] Cons.prems(2)] .
  moreover have "unused_keys st ks" using Cons.prems(2) by (simp add: unused_keys_def)
  ultimately have "(\<exists>e. r = Inl e) \<and> w' = v \<or>
      (\<exists>log'. prefix log2 log' \<and> holds st room w' log' \<and> (\<forall>es. r = Inr es \<longrightarrow> es = []))"
    using r Cons.IH [OF log(3)] by (auto split: if_splits)
  moreover have "prefix log log2" using log by (auto intro: prefix_order.trans)
  ultimately show ?case using log(3) prefix_order.trans by blast
qed (auto simp: return_op_def)

lemma load_keys_spec:
  assumes L: "lua_laws (rc_lua (rs_client st))" and frame: "list_frame (rs_client st)" and w: "holds st room w log"
    and unused: "unused_keys st ks" and run: "load_storage_keys st after (k # ks) w = (r, w')"
  shows "\<exists>log'. prefix log log' \<and> holds st room w' log' \<and>
    (\<forall>es. r = Inr es \<longrightarrow> (\<exists>log1. prefix log log1 \<and> prefix log1 log' \<and> es = drop after (storage_stream st log1 k)))"
proof -
  obtain log1 log2 v where log: "prefix log log1" "prefix log1 log2" "holds st room v log2" and
    r: "(\<exists>e. r = Inl e \<and> w' = v) \<or>
     (if drop after (storage_stream st log1 k) \<noteq> [] then r = Ok (drop after (storage_stream st log1 k)) \<and> w' = v
      else load_storage_keys st after ks v = (r, w'))"
    using load_key_spec [OF L frame w run] by blast
  show ?thesis
  proof (cases "w' = v \<and> ((\<exists>e. r = Inl e) \<or> r = Ok (drop after (storage_stream st log1 k)))")
    case True
    then show ?thesis using log by (auto intro: prefix_order.trans)
  next
    case False
    then have rest: "load_storage_keys st after ks v = (r, w')" "drop after (storage_stream st log1 k) = []"
      using r by (auto split: if_splits)
    from load_unused [OF L frame log(3) unused rest(1)] obtain log' where
      "prefix log2 log'" "holds st room w' log'" "\<forall>es. r = Inr es \<longrightarrow> es = []" by blast
    then have log': "prefix log2 log'" "holds st room w' log'" "\<And>es. r = Inr es \<Longrightarrow> es = drop after (storage_stream st log1 k)"
      using rest(2) by auto
    have "prefix log1 log'" using log(2) log'(1) by (rule prefix_order.trans)
    then show ?thesis using log'(2,3) log(1) prefix_order.trans [OF log(1)] by blast
  qed
qed

end
