(* ===== verification/Redis_Append.thy ===== *)
theory Redis_Append
  imports Redis_Read
begin

text \<open>
  The append under interference: what it sends, what the stored hashes decode to, and how the log is
  after it, when it succeeds, when its expectation is not met, and when it never learns.
\<close>

section \<open>Texts\<close>

text \<open>A Rust string is UTF-8: the texts the store takes from its surroundings are.\<close>

abbreviation is_text :: "string \<Rightarrow> bool" where "is_text s \<equiv> from_utf8 s = Ok s"

definition redis_texts :: "('e, 'id) redis_event_store \<Rightarrow> bool" where
  "redis_texts st \<longleftrightarrow> (\<forall>n. is_text (event_id_as_str (fst (rs_source st n)))) \<and> is_text (rs_aggregate_type st) \<and>
     (\<forall>i k. serialize_id (cx_id (rs_codecs st)) i = Ok k \<longrightarrow> is_text k)"

definition typed_events :: "'e new_event list \<Rightarrow> bool" where
  "typed_events evs \<longleftrightarrow> (\<forall>e\<in>set evs. is_text (event_type_as_str (ne_event_type e)))"

definition redis_unupcasted :: "('e, 'id) redis_event_store \<Rightarrow> bool" where
  "redis_unupcasted st \<longleftrightarrow> (\<forall>et v b. prepare_payload (rs_upcasters st) et v b = Ok (v, b))"

lemma show_nat_text: "is_text (show_nat n)"
  using is_dec_ascii show_nat_all_dec by (intro from_utf8_ascii) blast

section \<open>Prepared events\<close>

definition redis_prepared_ok :: "('e, 'id) redis_event_store \<Rightarrow> 'e prepared_redis_event \<Rightarrow> bool" where
  "redis_prepared_ok st p \<longleftrightarrow>
     system_time_to_millis (rs_earlier st) (pr_recorded_at p) = Ok (pr_recorded_at_ms p) \<and>
     (\<exists>v. cd_to_value (cx_event (rs_codecs st)) (pr_payload p) = Ok v \<and> pr_payload_json p = cx_print (rs_codecs st) v) \<and>
     (\<exists>v. cd_to_value (cx_metadata (rs_codecs st)) (pr_metadata p) = Ok v \<and> pr_metadata_json p = cx_print (rs_codecs st) v) \<and>
     pr_event_version p \<le> u32_max \<and> is_text (pr_event_type p) \<and> is_text (event_id_as_str (pr_event_id p)) \<and>
     (\<exists>n. pr_recorded_at p = snd (rs_source st n))"

lemma prepare_redis_Ok:
  "redis_texts st \<Longrightarrow> typed_events evs \<Longrightarrow> prepare_redis_events st evs w = (Inr ps, w') \<Longrightarrow>
   (\<forall>p\<in>set ps. redis_prepared_ok st p) \<and> map pr_payload ps = map ne_payload evs"
proof (induction evs arbitrary: ps w)
  case (Cons e evs)
  then obtain p w1 qs where p: "prepared_redis_event_new st e w = (Inr p, w1)"
    and qs: "prepare_redis_events st evs w1 = (Inr qs, w')" "ps = p # qs"
    by (auto simp: result_simps return_op_def)
  have "(2::nat) ^ 32 - 1 = u32_max" by (simp add: u32_max_def)
  moreover have "n mod 2 ^ 32 \<le> (2::nat) ^ 32 - 1" for n :: nat
    using mod_less_divisor [of "2 ^ 32" n] by simp
  moreover have "is_text (event_type_as_str (ne_event_type e))" "\<And>n. is_text (event_id_as_str (fst (rs_source st n)))"
    using Cons.prems(1,2) by (auto simp: typed_events_def redis_texts_def)
  ultimately have "redis_prepared_ok st p \<and> pr_payload p = ne_payload e"
    using p by (auto simp: prepared_redis_event_new_def redis_prepared_ok_def Let_def split_beta result_simps
        serialize_payload_def serialize_metadata_def)
  moreover have "typed_events evs" using Cons.prems(2) by (simp add: typed_events_def)
  ultimately show ?case using Cons.IH [OF Cons.prems(1) _ qs(1)] qs(2) by simp
qed (simp add: return_op_def)

lemma prepare_redis_world: "prepare_redis_events st evs w = (r, w') \<Longrightarrow> \<exists>t. w' = w\<lparr>rw_ticks := t\<rparr>"
proof (induction evs arbitrary: w r w')
  case Nil
  then show ?case by (auto simp: return_op_def intro: exI [of _ "rw_ticks w"])
next
  case (Cons e evs)
  obtain p w1 where p: "prepared_redis_event_new st e w = (p, w1)" by (meson surj_pair)
  then have w1: "w1 = w\<lparr>rw_ticks := rw_ticks w + 1\<rparr>" by (simp add: prepared_redis_event_new_def split_beta Let_def)
  obtain q w2 where q: "prepare_redis_events st evs w1 = (q, w2)" by (meson surj_pair)
  have "w' = w1 \<or> w' = w2" using Cons.prems p q by (cases p; cases q) (auto simp: try_op_def return_op_def)
  then show ?case using w1 Cons.IH [OF q] by auto
qed

section \<open>What is sent and stored\<close>

definition redis_entry_of :: "('e, 'id) redis_event_store \<Rightarrow> string \<Rightarrow> 'e prepared_redis_event \<Rightarrow> redis_entry" where
  "redis_entry_of st k p = \<lparr>re_event_id = event_id_as_str (pr_event_id p), re_aggregate_id = k,
     re_aggregate_type = rs_aggregate_type st, re_event_type = pr_event_type p,
     re_event_version = show_nat (pr_event_version p), re_payload = pr_payload_json p,
     re_metadata = pr_metadata_json p, re_recorded_at_ms = show_int (pr_recorded_at_ms p)\<rparr>"

definition redis_committed :: "('e, 'id) redis_event_store \<Rightarrow> 'id \<Rightarrow> nat \<Rightarrow> nat \<Rightarrow> 'e prepared_redis_event \<Rightarrow>
   ('e, 'id) event_envelope" where
  "redis_committed st i revision sequence p =
     envelope_new (pr_event_id p) i (aggregate_type_new (rs_aggregate_type st)) revision (Some sequence)
       (event_type_new (pr_event_type p)) (pr_event_version p) (pr_payload p) (pr_metadata p) (pr_recorded_at p)"

lemma redis_committed_from_Cons:
  "redis_committed_from st i r n (p # ps) = redis_committed st i r n p # redis_committed_from st i (r + 1) (n + 1) ps"
  by (simp add: redis_committed_def)

lemma append_args_sent:
  "build_append_eval_args st (keys_of st (rs_aggregate_type st, k)) x ps =
     ''5'' # append_keys st (rs_aggregate_type st, k) @ append_argv x (map (redis_entry_of st k) ps)"
proof -
  have "event_args (stream_keys_for_storage_key st (rs_aggregate_type st) k) (rs_aggregate_type st) =
      (\<lambda>p. entry_args (redis_entry_of st k p))"
    by (simp add: fun_eq_iff event_args_def entry_args_def redis_entry_of_def stream_keys_for_storage_key_def Let_def)
  then show ?thesis by (simp add: build_append_eval_args_def append_keys_def append_argv_def split_beta comp_def)
qed

lemma entry_hash_decodes:
  assumes laws: "sql_codecs_laws (rs_codecs st)" and up: "redis_unupcasted st" and texts: "redis_texts st"
    and ok: "redis_prepared_ok st p" and key: "serialize_id (cx_id (rs_codecs st)) i = Ok k"
    and small: "r \<le> LUA_EXACT" "n \<le> LUA_EXACT"
  shows "hash_to_envelope st (entry_hash (redis_entry_of st k p) r n) = Ok (at_millis (redis_committed st i r n p))"
proof -
  let ?cx = "rs_codecs st"
  from ok obtain v m where v: "cd_to_value (cx_event ?cx) (pr_payload p) = Ok v" "pr_payload_json p = cx_print ?cx v"
    and m: "cd_to_value (cx_metadata ?cx) (pr_metadata p) = Ok m" "pr_metadata_json p = cx_print ?cx m"
    and t: "system_time_to_millis (rs_earlier st) (pr_recorded_at p) = Ok (pr_recorded_at_ms p)"
    and version: "pr_event_version p \<le> u32_max" and typed: "is_text (pr_event_type p)" "is_text (event_id_as_str (pr_event_id p))"
    by (auto simp: redis_prepared_ok_def)
  have id: "deserialize_id (cx_id ?cx) k = Ok i" using laws key by (simp add: sql_codecs_laws_def)
  have parse: "cx_parse ?cx (cx_print ?cx v) = Ok v" "cx_parse ?cx (cx_print ?cx m) = Ok m"
    using laws v(1) m(1) by (auto simp: sql_codecs_laws_def)
  have payload: "deserialize_payload (cx_event ?cx) a b v = Ok (pr_payload p)" for a b
    using laws v(1) by (intro payload_roundtrip) (auto simp: sql_codecs_laws_def serialize_payload_def)
  have meta: "deserialize_metadata (cx_metadata ?cx) a m = Ok (pr_metadata p)" for a
    using laws m(1) by (intro metadata_roundtrip) (auto simp: sql_codecs_laws_def serialize_metadata_def)
  have time: "millis_to_system_time (pr_recorded_at_ms p) = Ok (pr_recorded_at p - pr_recorded_at p mod 1000000)"
    "0 \<le> pr_recorded_at_ms p" "pr_recorded_at_ms p \<le> int i64_max"
    using system_time_roundtrip [OF t] by simp_all
  have ms: "show_int (pr_recorded_at_ms p) = show_nat (nat (pr_recorded_at_ms p))"
    "parse_i64 (show_nat (nat (pr_recorded_at_ms p))) = Ok (pr_recorded_at_ms p)"
    using time parse_i64_show_nat [of "nat (pr_recorded_at_ms p)"] by (simp_all add: show_int_def nat_le_iff)
  have nums: "parse_u64 (show_nat r) = Ok r" "parse_u64 (show_nat n) = Ok n"
    "parse_u64 (show_nat (pr_event_version p)) = Ok (pr_event_version p)"
    using small version by (auto intro!: parse_unsigned_show_nat simp: LUA_EXACT_def u64_max_def u32_max_def)
  have texts: "is_text k" "is_text (rs_aggregate_type st)" using texts key by (auto simp: redis_texts_def)
  show ?thesis
    using version up id parse payload meta time ms nums v(2) m(2) typed texts show_nat_text
    by (cases "pr_event_id p") (simp add: hash_to_envelope_def entry_hash_def redis_entry_of_def take_hash_field_def
        hash_field_string_def hash_field_u64_def hash_field_u32_def hash_field_i64_def redis_unupcasted_def
        redis_committed_def at_millis_def envelope_new_def event_id_from_string_def)
qed

lemma redis_entry_ok:
  assumes "sql_codecs_laws (rs_codecs st)" "redis_unupcasted st" "redis_texts st" "redis_prepared_ok st p"
    and "serialize_id (cx_id (rs_codecs st)) i = Ok k"
  shows "entry_ok st (redis_entry_of st k p)"
  using entry_hash_decodes [OF assms] assms(3,5)
  by (auto simp: entry_ok_def redis_texts_def redis_entry_of_def redis_committed_def at_millis_def envelope_new_def)

lemma redis_entry_stream: "entry_stream (redis_entry_of st k p) = (rs_aggregate_type st, k)"
  by (simp add: entry_stream_def redis_entry_of_def)

section \<open>The streams after an append\<close>

lemma redis_committed_from_nth:
  "length (redis_committed_from st i r n ps) = length ps"
  "j < length ps \<Longrightarrow> redis_committed_from st i r n ps ! j = redis_committed st i (r + j) (n + j) (ps ! j)"
proof -
  show "length (redis_committed_from st i r n ps) = length ps"
    by (induction ps arbitrary: r n) auto
  show "j < length ps \<Longrightarrow> redis_committed_from st i r n ps ! j = redis_committed st i (r + j) (n + j) (ps ! j)"
    by (induction ps arbitrary: r n j) (auto simp: redis_committed_from_Cons nth_Cons' simp del: redis_committed_from.simps)
qed

lemma redis_committed_payloads: "map env_payload (redis_committed_from st i r n ps) = map pr_payload ps"
  by (rule nth_equalityI) (auto simp: redis_committed_from_nth redis_committed_def envelope_new_def)

lemma storage_stream_length:
  "log_ok st log \<Longrightarrow> length (storage_stream st log k) = length (positions log (rs_aggregate_type st, k))"
  using storage_stream_decodes [of st log k] by (metis length_map stream_sequences_def length_upt diff_add_inverse2)

lemma storage_stream_other:
  assumes "\<forall>e\<in>set new. entry_stream e = (rs_aggregate_type st, k)" "k' \<noteq> k"
  shows "storage_stream st (log @ new) k' = storage_stream st log k'"
proof -
  let ?s = "(rs_aggregate_type st, k')"
  have "positions new ?s = []" using assms by (intro positions_none) auto
  then have "stream_sequences (log @ new) ?s = stream_sequences log ?s"
    by (simp add: stream_sequences_def positions_append)
  moreover have "map (hash_at (log @ new)) (stream_sequences log ?s) = map (hash_at log) (stream_sequences log ?s)"
    using in_log_grows [of log "log @ new"] in_log_stream by auto
  ultimately show ?thesis by (simp only: storage_stream_def)
qed

lemma storage_stream_appended:
  assumes laws: "sql_codecs_laws (rs_codecs st)" "redis_unupcasted st" "redis_texts st"
    and ok: "\<forall>p\<in>set ps. redis_prepared_ok st p" and key: "serialize_id (cx_id (rs_codecs st)) i = Ok k"
    and log: "log_ok st log" "length log + length ps < LUA_EXACT"
  shows "storage_stream st (log @ map (redis_entry_of st k) ps) k = storage_stream st log k @
    map at_millis (redis_committed_from st i (length (storage_stream st log k) + 1) (length log + 1) ps)"
proof -
  let ?new = "map (redis_entry_of st k) ps" and ?s = "(rs_aggregate_type st, k)"
  let ?log1 = "log @ ?new" and ?m = "length (positions log (rs_aggregate_type st, k))"
  let ?cs = "map at_millis (redis_committed_from st i (?m + 1) (length log + 1) ps)"
  have "positions ?new ?s = [0..<length ps]" using positions_all [of ?new ?s] redis_entry_stream by auto
  then have pos: "positions ?log1 ?s = positions log ?s @ map (\<lambda>j. length log + j) [0..<length ps]"
    by (simp add: positions_append)
  have old: "map (hash_at ?log1) (stream_sequences log ?s) = map (hash_at log) (stream_sequences log ?s)"
    using in_log_grows [of log ?log1] in_log_stream by auto
  have hash: "hash_to_envelope st (hash_at ?log1 (Suc (length log + j))) = Ok (?cs ! j)" if j: "j < length ps" for j
  proof -
    have "positions ?log1 ?s ! (?m + j) = length log + j" using pos j by (simp add: nth_append)
    then have "revision_at ?log1 (length log + j) = ?m + j + 1"
      using revision_at_position [of "?m + j" ?log1 ?s] pos j by simp
    then have "hash_at ?log1 (Suc (length log + j)) = entry_hash (redis_entry_of st k (ps ! j)) (?m + 1 + j) (length log + 1 + j)"
      using j by (simp add: hash_at_def nth_append add.commute add.left_commute)
    moreover have "?m + 1 + j \<le> LUA_EXACT" "length log + 1 + j \<le> LUA_EXACT"
      using positions_le [of log ?s] log(2) j by auto
    ultimately show ?thesis using entry_hash_decodes [OF laws _ key] ok j nth_mem [OF j]
      by (simp add: redis_committed_from_nth)
  qed
  have "list_all2 (\<lambda>h e. hash_to_envelope st h = Ok e)
      (map (hash_at ?log1 \<circ> (\<lambda>j. Suc (length log + j))) [0..<length ps]) ?cs"
    using hash by (auto simp: list_all2_conv_all_nth redis_committed_from_nth(1))
  moreover have "list_all2 (\<lambda>h e. hash_to_envelope st h = Ok e) (map (hash_at ?log1) (stream_sequences log ?s)) (storage_stream st log k)"
    unfolding old using storage_stream_decodes [OF log(1), of k] by (simp add: collect_results_Ok)
  moreover have "map (hash_at ?log1) (stream_sequences ?log1 ?s) = map (hash_at ?log1) (stream_sequences log ?s) @
      map (hash_at ?log1 \<circ> (\<lambda>j. Suc (length log + j))) [0..<length ps]"
    by (simp add: stream_sequences_def pos)
  ultimately have "collect_results (hash_to_envelope st) (map (hash_at ?log1) (stream_sequences ?log1 ?s)) =
      Ok (storage_stream st log k @ ?cs)"
    by (simp only: collect_results_Ok list_all2_appendI)
  then have "storage_stream st ?log1 k = storage_stream st log k @ ?cs"
    unfolding storage_stream_def by (simp add: unwrap_or_def)
  then show ?thesis by (simp add: storage_stream_length [OF log(1)])
qed

section \<open>The replies\<close>

lemma value_of_integer: "z \<le> u64_max \<Longrightarrow> redis_value_u64 (Integer (int z)) label = Ok z"
  by (simp add: u64_try_from_i64_def)

lemma parse_appended:
  assumes "list_frame C" "len + count < LUA_EXACT" "actual \<le> len"
  shows "parse_append_eval_result (rc_frame C (appended_reply len count actual)) x = Ok (len + 1, len + count, actual + count)"
proof -
  have "redis_value_string (Bytes ''OK'') l = Ok ''OK''" for l
    using from_utf8_ascii [of "''OK''"] by (simp add: redis_value_string_def)
  moreover have "len + 1 \<le> u64_max" "len + count \<le> u64_max" "actual + count \<le> u64_max"
    using assms(2,3) by (auto simp: LUA_EXACT_def u64_max_def)
  ultimately show ?thesis using assms(1) value_of_integer [of "len + 1"] value_of_integer [of "len + count"]
      value_of_integer [of "actual + count"]
    by (simp add: list_frame_def appended_reply_def parse_append_eval_result_def add.commute del: redis_value_u64.simps)
qed

lemma parse_rejected:
  assumes "list_frame C" "actual < LUA_EXACT" "\<not> expectation_met x actual"
  shows "\<exists>e. parse_append_eval_result (rc_frame C (rejected_reply x actual)) x = Err e \<and> check_expected_revision x actual = Err e"
proof -
  have "redis_value_string (Bytes s) l = Ok s" if "s \<in> {''ERR'', ''stream_exists'', ''wrong_revision''}" for s l
    using that from_utf8_ascii [of s] by (auto simp: redis_value_string_def)
  moreover have "actual \<le> u64_max" using assms(2) by (auto simp: LUA_EXACT_def u64_max_def)
  ultimately show ?thesis using assms(1,3) value_of_integer [of actual]
    by (cases x) (auto simp: list_frame_def parse_append_eval_result_def simp del: redis_value_u64.simps)
qed

section \<open>The append\<close>

lemma holds_room: "room' \<le> room \<Longrightarrow> holds st room w log \<Longrightarrow> holds st room' w log"
  by (auto simp: holds_def)

lemma eval_append:
  assumes L: "lua_laws L" and v: "holds st room v log" and room: "length new \<le> room" and ne: "new \<noteq> []"
    and new: "\<forall>e\<in>set new. entry_ok st e \<and> entry_stream e = s"
  defines "actual \<equiv> length (positions log s)"
  shows "\<exists>v'. eval_script L AppendScript (''5'' # append_keys st s @ append_argv x new) v =
      (Ok (if expectation_met x actual then appended_reply (length log) (length new) actual else rejected_reply x actual), v') \<and>
    holds st (room - length new) v' (if expectation_met x actual then log @ new else log)"
proof -
  have five: "parse_u64 ''5'' = Ok 5"
  proof -
    have "show_nat 5 = ''5''" by code_simp
    then show ?thesis using parse_unsigned_show_nat [of 5 u64_max] by (simp add: u64_max_def)
  qed
  have bound: "length log + length new < LUA_EXACT" and rep: "represents st log (rw_keys v)"
    using v room by (auto simp: holds_def)
  obtain ks' where ks': "append_lua L (append_keys st s) (append_argv x new) (rw_keys v) =
      (if expectation_met x actual then (Ok (appended_reply (length log) (length new) actual), ks')
       else (Ok (rejected_reply x actual), rw_keys v))"
    "expectation_met x actual \<longrightarrow> represents st (log @ new) ks'"
    using append_lua_log [OF L rep bound _ ne, of s x] new unfolding actual_def by blast
  let ?v' = "v\<lparr>rw_keys := (if expectation_met x actual then ks' else rw_keys v)\<rparr>"
  have keys: "take 5 (append_keys st s @ argv) = append_keys st s" "drop 5 (append_keys st s @ argv) = argv"
    "5 \<le> length (append_keys st s @ argv)" for argv
    by (simp_all add: append_keys_def)
  have "eval_script L AppendScript (''5'' # append_keys st s @ append_argv x new) v =
      on_keyspace (append_lua L (append_keys st s) (append_argv x new)) v"
    using five keys by (simp add: eval_script_def run_script_def not_less [symmetric])
  also have "\<dots> = (Ok (if expectation_met x actual then appended_reply (length log) (length new) actual else rejected_reply x actual), ?v')"
    using ks'(1) by (simp add: on_keyspace_def)
  finally have "eval_script L AppendScript (''5'' # append_keys st s @ append_argv x new) v =
     (Ok (if expectation_met x actual then appended_reply (length log) (length new) actual else rejected_reply x actual), ?v')" .
  moreover have "holds st (room - length new) ?v' (if expectation_met x actual then log @ new else log)"
    using v room new ks'(2) by (auto simp: holds_def)
  ultimately show ?thesis by blast
qed

text \<open>
  The stored batch: at the moment \<open>log1\<close> it met the expectation, and the log is \<open>log1\<close> with its entries.
  Without an answer the batch may have been stored or not.
\<close>

lemma append_prepared_spec:
  assumes laws: "sql_codecs_laws (rs_codecs st)" "redis_unupcasted st" "redis_texts st"
    and L: "lua_laws (rc_lua (rs_client st))" and frame: "list_frame (rs_client st)"
    and w: "holds st room w log" and room: "length ps \<le> room" and ps: "ps \<noteq> []" "\<forall>p\<in>set ps. redis_prepared_ok st p"
    and key: "serialize_id (cx_id (rs_codecs st)) i = Ok k"
    and run: "execute_lua_script (rs_client st) AppendScript
      (build_append_eval_args st (keys_of st (rs_aggregate_type st, k)) x ps) w = (r, w')"
  shows "\<exists>log1. prefix log log1 \<and> (let n = length (redis_stream st log1 i); new = map (redis_entry_of st k) ps in
    log_ok st log1 \<and> length log1 + length ps < LUA_EXACT \<and>
    (if expectation_met x n \<and> holds st (room - length ps) w' (log1 @ new)
     then (\<exists>e. r = Inl e) \<or> (\<exists>q. r = Inr q \<and> parse_append_eval_result q x = Ok (length log1 + 1, length log1 + length ps, n + length ps))
     else holds st (room - length ps) w' log1 \<and>
       ((\<exists>e. r = Inl e) \<or> (\<exists>q e. r = Inr q \<and> parse_append_eval_result q x = Err e))))"
proof -
  let ?s = "(rs_aggregate_type st, k)" and ?new = "map (redis_entry_of st k) ps" and ?C = "rs_client st"
  let ?args = "''5'' # append_keys st ?s @ append_argv x ?new"
  have new: "\<forall>e\<in>set ?new. entry_ok st e \<and> entry_stream e = ?s" "?new \<noteq> []" "length ?new \<le> room"
    using redis_entry_ok [OF laws _ key] ps room redis_entry_stream by auto
  note eval = eval_append [OF L _ new(3,2,1), of _ _ x]
  have "\<exists>log1 v. prefix log log1 \<and> holds st room v log1 \<and> ((\<exists>e. r = Inl e \<and> w' = v) \<or>
      (\<exists>q. eval_script (rc_lua ?C) AppendScript ?args v = (Inr q, w') \<and> (r = Inr (rc_frame ?C q) \<or> (\<exists>e. r = Inl e))))"
    using run eval unfolding append_args_sent by (intro script_spec [OF L w]) blast+
  then obtain log1 v where log1: "prefix log log1" "holds st room v log1" and
    out: "(\<exists>e. r = Inl e \<and> w' = v) \<or>
      (\<exists>q. eval_script (rc_lua ?C) AppendScript ?args v = (Inr q, w') \<and> (r = Inr (rc_frame ?C q) \<or> (\<exists>e. r = Inl e)))" by blast
  let ?n = "length (positions log1 ?s)"
  have ok: "log_ok st log1" "length log1 + length ps < LUA_EXACT"
    using holds_log_ok [OF log1(2)] log1(2) room by (auto simp: holds_def)
  have n: "length (redis_stream st log1 i) = ?n"
    using storage_stream_length [OF ok(1)] key by (simp add: redis_stream_def)
  have le: "?n \<le> length log1" "?n < LUA_EXACT" using positions_le [of log1 ?s] ok(2) by auto
  have "(if expectation_met x ?n \<and> holds st (room - length ps) w' (log1 @ ?new)
     then (\<exists>e. r = Inl e) \<or> (\<exists>q. r = Inr q \<and> parse_append_eval_result q x = Ok (length log1 + 1, length log1 + length ps, ?n + length ps))
     else holds st (room - length ps) w' log1 \<and>
       ((\<exists>e. r = Inl e) \<or> (\<exists>q e. r = Inr q \<and> parse_append_eval_result q x = Err e)))"
  proof -
    from out consider (failed) e where "r = Inl e" "w' = v"
      | (ran) q where "eval_script (rc_lua ?C) AppendScript ?args v = (Inr q, w')"
          "r = Inr (rc_frame ?C q) \<or> (\<exists>e. r = Inl e)" by blast
    then show ?thesis
    proof cases
    case failed
    moreover have "holds st (room - length ps) v log1" by (rule holds_room [OF _ log1(2)]) simp
    ultimately show ?thesis by auto
  next
    case (ran q)
    note r = ran(2)
    from eval [OF log1(2)] ran(1) have reply: "q = (if expectation_met x ?n then appended_reply (length log1) (length ps) ?n else rejected_reply x ?n)"
      "holds st (room - length ps) w' (if expectation_met x ?n then log1 @ ?new else log1)" by auto
    show ?thesis
    proof (cases "expectation_met x ?n")
      case True
      then show ?thesis using reply r parse_appended [OF frame ok(2) le(1), of x] by auto
    next
      case False
      then show ?thesis using reply r parse_rejected [OF frame le(2) False] by auto
    qed
    qed
  qed
  then show ?thesis using log1(1) ok n by (intro exI [of _ log1]) (simp add: Let_def)
qed

section \<open>The store\<close>

definition redis_store_ok :: "('e, 'id) redis_event_store \<Rightarrow> bool" where
  "redis_store_ok st \<longleftrightarrow> sql_codecs_laws (rs_codecs st) \<and> redis_unupcasted st \<and> redis_texts st \<and>
     lua_laws (rc_lua (rs_client st)) \<and> rc_frame (rs_client st) \<in> {wasi_frame, spin_frame}"

lemma store_list_frame: "redis_store_ok st \<Longrightarrow> list_frame (rs_client st)"
  by (auto simp: redis_store_ok_def list_frame_def wasi_frame_def)

lemma laws_unused:
  "sql_codecs_laws cx \<Longrightarrow> aggregate_id_lookup_keys (cx_id cx) i = Ok (k # ks) \<Longrightarrow>
   l \<in> set ks \<Longrightarrow> serialize_id (cx_id cx) j \<noteq> Ok l"
  unfolding sql_codecs_laws_def by (elim conjE) (drule spec, drule spec, drule spec, drule spec, drule mp, assumption, drule bspec)

lemma lookup_unused:
  assumes "redis_store_ok st" and keys: "aggregate_id_lookup_keys (cx_id (rs_codecs st)) i = Ok (k # ks)"
  shows "serialize_id (cx_id (rs_codecs st)) i = Ok k" "unused_keys st ks"
proof -
  have laws: "sql_codecs_laws (rs_codecs st)" using assms(1) unfolding redis_store_ok_def by (rule conjunct1)
  show "unused_keys st ks" using laws_unused [OF laws keys] by (auto simp: unused_keys_def)
  show "serialize_id (cx_id (rs_codecs st)) i = Ok k" using lookup_keys_serialize(1) [OF keys] by simp
qed

lemma redis_stream_prefix:
  "prefix log log1 \<Longrightarrow> log_ok st log1 \<Longrightarrow> prefix (redis_stream st log i) (redis_stream st log1 i)"
  using storage_stream_prefix by (auto simp: redis_stream_def split: sum.split)

lemma redis_load_after_spec:
  assumes st: "redis_store_ok st" and w: "holds st room w log"
    and run: "redis_load_after_revision st i n w = (r, w')"
  shows "\<exists>log'. prefix log log' \<and> holds st room w' log' \<and> (\<forall>es. r = Inr es \<longrightarrow>
    (\<exists>log1. prefix log log1 \<and> prefix log1 log' \<and> es = filter (\<lambda>e. env_revision e > n) (redis_stream st log1 i)))"
proof (cases "aggregate_id_lookup_keys (cx_id (rs_codecs st)) i")
  case (Inl e)
  then have "r = Inl e" "w' = w" using run by (simp_all add: redis_load_after_revision_def try_op_def return_op_def)
  then show ?thesis using w by auto
next
  case (Inr keys)
  obtain k ks where k: "keys = k # ks" using lookup_keys_serialize(1) [OF Inr] by blast
  have key: "serialize_id (cx_id (rs_codecs st)) i = Ok k" "unused_keys st ks"
    using lookup_unused [OF st Inr [unfolded k]] .
  have load: "load_storage_keys st n (k # ks) w = (r, w')"
    using run Inr k by (simp add: redis_load_after_revision_def try_op_def return_op_def)
  have L: "lua_laws (rc_lua (rs_client st))" using st by (simp add: redis_store_ok_def)
  from load_keys_spec [OF L store_list_frame [OF st] w key(2) load] obtain log' where log': "prefix log log'" "holds st room w' log'"
    and es: "\<And>es. r = Inr es \<Longrightarrow> \<exists>log1. prefix log log1 \<and> prefix log1 log' \<and> es = drop n (storage_stream st log1 k)" by blast
  have "storage_stream st log1 k = redis_stream st log1 i" for log1 using key(1) by (simp add: redis_stream_def)
  moreover have "log_ok st log1" if "prefix log1 log'" for log1
    using that holds_log_ok [OF log'(2)] by (rule log_ok_prefix)
  ultimately show ?thesis using log' es storage_stream_after by metis
qed

lemma redis_load_after_0: "redis_load st = (\<lambda>i. redis_load_after_revision st i 0)"
  by (simp add: fun_eq_iff redis_load_def redis_load_after_revision_def)

lemma redis_stream_revisions:
  "log_ok st log \<Longrightarrow> contiguous_from 0 (redis_stream st log i)"
  using storage_stream_contiguous by (auto simp: redis_stream_def split: sum.split)

lemma redis_load_spec:
  assumes st: "redis_store_ok st" and w: "holds st room w log" and run: "redis_load st i w = (r, w')"
  shows "\<exists>log'. prefix log log' \<and> holds st room w' log' \<and> (\<forall>es. r = Inr es \<longrightarrow>
    (\<exists>log1. prefix log log1 \<and> prefix log1 log' \<and> es = redis_stream st log1 i))"
proof -
  from redis_load_after_spec [OF st w run [unfolded redis_load_after_0]] obtain log' where log': "prefix log log'" "holds st room w' log'"
    and es: "\<And>es. r = Inr es \<Longrightarrow> \<exists>log1. prefix log log1 \<and> prefix log1 log' \<and> es = filter (\<lambda>e. env_revision e > 0) (redis_stream st log1 i)"
    by blast
  have "filter (\<lambda>e. env_revision e > 0) (redis_stream st log1 i) = redis_stream st log1 i" if "prefix log1 log'" for log1
  proof -
    have "log_ok st log1" using that holds_log_ok [OF log'(2)] by (rule log_ok_prefix)
    then have "filter (\<lambda>e. env_revision e > 0) (storage_stream st log1 k) = storage_stream st log1 k" for k
      using storage_stream_after [of st log1 0 k] by simp
    then show ?thesis by (simp add: redis_stream_def split: sum.split)
  qed
  then show ?thesis using log' es by (intro exI [of _ log']) metis
qed

text \<open>The revision counter at one moment; an append of no events only compares it.\<close>

lemma current_revision_spec:
  assumes st: "redis_store_ok st" and w: "holds st room w log"
    and run: "current_revision st (sk_revision_key (keys_of st s)) w = (r, w')"
  shows "\<exists>log1. prefix log log1 \<and> holds st room w' log1 \<and> (\<forall>n. r = Inr n \<longrightarrow> n = length (positions log1 s))"
proof -
  let ?C = "rs_client st" and ?key = "sk_revision_key (keys_of st s)"
  obtain q w1 where q: "redis_execute ?C (GetCommand ?key) w = (q, w1)" by (meson surj_pair)
  have L: "lua_laws (rc_lua ?C)" using st by (simp add: redis_store_ok_def)
  obtain log1 v where log1: "prefix log log1" "holds st room v log1" and
    v: "(\<exists>e. q = Inl e \<and> w1 = v) \<or> (\<exists>a. serve_command (rc_lua ?C) (GetCommand ?key) v = (a, w1) \<and>
        (q = map_ok (rc_frame ?C) a \<or> (\<exists>e. q = Inl e \<and> \<not> is_noscript_error e)))"
    using execute_spec [OF L w q] by blast
  let ?n = "length (positions log1 s)"
  have "rw_keys v ?key = counter_data ?n" "?n < LUA_EXACT"
    using log1(2) positions_le [of log1 s] by (auto simp: holds_def represents_def)
  then have serve: "serve_command (rc_lua ?C) (GetCommand ?key) v = (Inr (if ?n = 0 then NilValue else Bytes (show_nat ?n)), v)"
    and small: "?n \<le> u64_max"
    using get_counter [of "rw_keys v" ?key ?n]
    by (auto simp: serve_command_def on_keyspace_def try_op_def return_op_def LUA_EXACT_def u64_max_def)
  have "redis_optional_u64 (rc_frame ?C (if ?n = 0 then NilValue else Bytes (show_nat ?n))) l = Ok ?n" for l
    using st u64_text [OF small] unfolding redis_store_ok_def
    by (auto simp: redis_optional_u64_def wasi_frame_def simp del: redis_value_u64.simps)
  moreover have "w1 = v" using v serve by auto
  ultimately show ?thesis using run q v serve log1
    by (cases q) (auto simp: current_revision_def try_op_def op_map_err_def return_op_def intro!: exI [of _ log1])
qed

lemma max_revision_unused:
  assumes st: "redis_store_ok st"
  shows "holds st room w log \<Longrightarrow> unused_keys st ks \<Longrightarrow> max_revision_loop st (rs_aggregate_type st) ks m w = (r, w') \<Longrightarrow>
    \<exists>log'. prefix log log' \<and> holds st room w' log' \<and> (\<forall>n. r = Inr n \<longrightarrow> n = m)"
proof (induction ks arbitrary: w log)
  case (Cons k ks)
  let ?s = "(rs_aggregate_type st, k)"
  obtain q w1 where q: "current_revision st (sk_revision_key (keys_of st ?s)) w = (q, w1)" by (meson surj_pair)
  from current_revision_spec [OF st Cons.prems(1) q] obtain log1 where log1: "prefix log log1" "holds st room w1 log1"
    and n: "\<And>n. q = Inr n \<Longrightarrow> n = length (positions log1 ?s)" by blast
  have "positions log1 ?s = []"
    using unused_empty [OF holds_log_ok [OF log1(2)] Cons.prems(2)] storage_stream_length [OF holds_log_ok [OF log1(2)], of k]
    by simp
  moreover have "unused_keys st ks" using Cons.prems(2) by (simp add: unused_keys_def)
  ultimately have "(\<exists>e. r = Inl e) \<and> w' = w1 \<or> (\<exists>log'. prefix log1 log' \<and> holds st room w' log' \<and> (\<forall>n. r = Inr n \<longrightarrow> n = m))"
    using Cons.prems(3) q n Cons.IH [OF log1(2)] by (cases q) (auto simp: try_op_def)
  then show ?case using log1 prefix_order.trans by blast
qed (auto simp: return_op_def)

section \<open>The append, whole\<close>

lemma redis_stream_appended:
  assumes st: "redis_store_ok st" and key: "serialize_id (cx_id (rs_codecs st)) i = Ok k"
    and ps: "\<forall>p\<in>set ps. redis_prepared_ok st p" and log: "log_ok st log" "length log + length ps < LUA_EXACT"
  shows "redis_stream st (log @ map (redis_entry_of st k) ps) = (redis_stream st log)(i := redis_stream st log i @
    map at_millis (redis_committed_from st i (length (redis_stream st log i) + 1) (length log + 1) ps))"
proof
  fix j
  have laws: "sql_codecs_laws (rs_codecs st)" "redis_unupcasted st" "redis_texts st"
    using st unfolding redis_store_ok_def by blast+
  show "redis_stream st (log @ map (redis_entry_of st k) ps) j = ((redis_stream st log)(i := redis_stream st log i @
    map at_millis (redis_committed_from st i (length (redis_stream st log i) + 1) (length log + 1) ps))) j"
  proof (cases "j = i")
    case True
    then show ?thesis using storage_stream_appended [OF laws ps key log] key by (simp add: redis_stream_def)
  next
    case False
    have "storage_stream st (log @ map (redis_entry_of st k) ps) k' = storage_stream st log k'"
      if "serialize_id (cx_id (rs_codecs st)) j = Ok k'" for k'
    proof -
      have "k' \<noteq> k" using serialize_id_inj [OF laws(1) that] key False by blast
      then show ?thesis by (intro storage_stream_other) (auto simp: redis_entry_stream)
    qed
    then show ?thesis using False by (simp add: redis_stream_def split: sum.split)
  qed
qed

text \<open>
  At one moment \<open>log1\<close> of the call.  A success met the expectation there and returned the committed events;
  a failure stored nothing, or the whole batch, which had met its expectation, and lost the answer.
\<close>

definition appended_at ::
  "('e, 'id) redis_event_store \<Rightarrow> 'id \<Rightarrow> expected_revision \<Rightarrow> 'e new_event list \<Rightarrow> redis_entry list \<Rightarrow> redis_entry list \<Rightarrow>
   ('e, 'id) event_stream \<Rightarrow> bool" where
  "appended_at st i x evs log1 log' cs \<longleftrightarrow> expectation_met x (length (redis_stream st log1 i)) \<and>
     map env_payload cs = map ne_payload evs \<and> (\<forall>c\<in>set cs. \<exists>n. env_recorded_at c = snd (rs_source st n)) \<and>
     redis_stream st log' = (redis_stream st log1)(i := redis_stream st log1 i @ map at_millis cs)"

lemma committed_appended_at:
  assumes st: "redis_store_ok st" and key: "serialize_id (cx_id (rs_codecs st)) i = Ok k"
    and ps: "\<forall>p\<in>set ps. redis_prepared_ok st p" "map pr_payload ps = map ne_payload evs"
    and log: "log_ok st log" "length log + length ps < LUA_EXACT" and met: "expectation_met x (length (redis_stream st log i))"
  shows "appended_at st i x evs log (log @ map (redis_entry_of st k) ps)
    (redis_committed_from st i (length (redis_stream st log i) + 1) (length log + 1) ps)"
proof -
  have "\<exists>n. env_recorded_at c = snd (rs_source st n)" if "c \<in> set (redis_committed_from st i r s ps)" for c r s
    using that ps(1) by (fastforce simp: in_set_conv_nth redis_committed_from_nth redis_prepared_ok_def redis_committed_def envelope_new_def)
  then show ?thesis
    using redis_stream_appended [OF st key ps(1) log] met ps(2) by (simp add: appended_at_def redis_committed_payloads)
qed

lemma redis_append_events:
  assumes st: "redis_store_ok st" and evs: "typed_events evs" "length evs \<le> room" "evs \<noteq> []" and w: "holds st room w log"
    and run: "redis_append st i x evs w = (r, w')"
  shows "\<exists>log1 log'. prefix log log1 \<and> prefix log1 log' \<and> holds st (room - length evs) w' log' \<and>
    (case r of Inr cs \<Rightarrow> appended_at st i x evs log1 log' cs
     | Inl e \<Rightarrow> log' = log1 \<or> (\<exists>cs. appended_at st i x evs log1 log' cs))"
proof (cases "aggregate_id_lookup_keys (cx_id (rs_codecs st)) i")
  case (Inl e)
  then have "r = Inl e" "w' = w" using run by (simp_all add: redis_append_def redis_stream_keys_of_def try_op_def return_op_def)
  moreover have "holds st (room - length evs) w log" by (rule holds_room [OF _ w]) simp
  ultimately show ?thesis by (intro exI [of _ log]) simp
next
  case (Inr keys)
  obtain k ks where k: "keys = k # ks" using lookup_keys_serialize(1) [OF Inr] by blast
  have key: "serialize_id (cx_id (rs_codecs st)) i = Ok k" using lookup_unused [OF st Inr [unfolded k]] by blast
  have laws: "sql_codecs_laws (rs_codecs st)" "redis_unupcasted st" "redis_texts st" "lua_laws (rc_lua (rs_client st))"
    using st unfolding redis_store_ok_def by blast+
  have keys: "redis_stream_keys_of st i = Ok (keys_of st (rs_aggregate_type st, k))"
    using Inr k by (simp add: redis_stream_keys_of_def)
  obtain q w1 where q: "prepare_redis_events st evs w = (q, w1)" by (meson surj_pair)
  have w1: "holds st room w1 log" using prepare_redis_world [OF q] w by auto
  show ?thesis
  proof (cases q)
    case (Inl e)
    then have "r = Inl e" "w' = w1" using run keys q by (simp_all add: redis_append_def try_op_def return_op_def)
    moreover have "holds st (room - length evs) w1 log" by (rule holds_room [OF _ w1]) simp
    ultimately show ?thesis by (intro exI [of _ log]) simp
  next
    case (Inr ps)
    have ps: "\<forall>p\<in>set ps. redis_prepared_ok st p" "map pr_payload ps = map ne_payload evs"
      using prepare_redis_Ok [OF laws(3) evs(1) q [unfolded Inr]] by auto
    have len: "length ps = length evs" "ps \<noteq> []" "length ps \<le> room" using ps(2) evs(2,3) by (metis length_map, auto dest: map_eq_imp_length_eq)
    obtain a w2 where a: "execute_lua_script (rs_client st) AppendScript
        (build_append_eval_args st (keys_of st (rs_aggregate_type st, k)) x ps) w1 = (a, w2)" by (meson surj_pair)
    from append_prepared_spec [OF laws(1-4) store_list_frame [OF st] w1 len(3,2) ps(1) key a]
    obtain log1 where log1: "prefix log log1" "log_ok st log1" "length log1 + length ps < LUA_EXACT" and
      out: "if expectation_met x (length (redis_stream st log1 i)) \<and> holds st (room - length ps) w2 (log1 @ map (redis_entry_of st k) ps)
       then (\<exists>e. a = Inl e) \<or> (\<exists>q. a = Inr q \<and> parse_append_eval_result q x =
         Ok (length log1 + 1, length log1 + length ps, length (redis_stream st log1 i) + length ps))
       else holds st (room - length ps) w2 log1 \<and>
         ((\<exists>e. a = Inl e) \<or> (\<exists>q e. a = Inr q \<and> parse_append_eval_result q x = Err e))"
      by (auto simp: Let_def)
    let ?n = "length (redis_stream st log1 i)"
    let ?cs = "redis_committed_from st i (?n + 1) (length log1 + 1) ps"
    have rest: "(case a of Inl e \<Rightarrow> (Err (map_executor_error e), w2) | Inr v \<Rightarrow> (case parse_append_eval_result v x of
          Inl e \<Rightarrow> (Err e, w2)
        | Inr (first_sequence, last_sequence, next_revision) \<Rightarrow>
            if next_revision < length ps
            then (Err (error_deserialization ''Redis append script returned revision smaller than event count''), w2)
            else (Ok (redis_committed_from st i (next_revision - length ps + 1) first_sequence ps), w2))) = (r, w')"
      using run keys q Inr a len(2)
      by (cases a) (simp_all add: redis_append_def try_op_def return_op_def op_map_err_def split: sum.splits prod.splits if_splits)
    show ?thesis
    proof (cases "expectation_met x ?n \<and> holds st (room - length ps) w2 (log1 @ map (redis_entry_of st k) ps)")
      case True
      then have "w' = w2" "(\<exists>e. r = Inl e) \<or> r = Inr ?cs" using out rest by auto
      moreover have "appended_at st i x evs log1 (log1 @ map (redis_entry_of st k) ps) ?cs"
        using committed_appended_at [OF st key ps log1(2,3)] True by blast
      ultimately show ?thesis using True log1(1) len(1)
        by (intro exI [of _ log1] exI [of _ "log1 @ map (redis_entry_of st k) ps"]) auto
    next
      case False
      then have "w' = w2" "\<exists>e. r = Inl e" "holds st (room - length ps) w2 log1" using out rest by auto
      then show ?thesis using log1(1) len(1) by (intro exI [of _ log1]) auto
    qed
  qed
qed

end
