(* ===== verification/Bounded_Store.thy ===== *)
theory Bounded_Store
  imports Event_Store
begin

text \<open>
  The contract of an event store that keeps its promises up to a number of events: \<open>inv n\<close> has room for
  \<open>n\<close> more.  Other writers may act during every call, as in \<open>event_store_contract\<close>; a failed append may
  have been stored.
\<close>

locale bounded_event_store =
  fixes S :: "('w, 'id, 'e, 'se) event_store"
    and inv :: "nat \<Rightarrow> 'w \<Rightarrow> bool"
    and strm :: "'w \<Rightarrow> 'id \<Rightarrow> ('e, 'id) event_stream"
    and admissible :: "'e new_event list \<Rightarrow> bool"
  assumes contiguous: "inv n w \<Longrightarrow> contiguous_from 0 (strm w i)"
    and load_step: "inv n w \<Longrightarrow> es_load S i w = (r, w') \<Longrightarrow>
      inv n w' \<and> (\<forall>j. prefix (strm w j) (strm w' j)) \<and>
      (\<forall>es. r = Inr es \<longrightarrow> prefix (strm w i) es \<and> prefix es (strm w' i))"
    and load_after_step: "inv n w \<Longrightarrow> es_load_after_revision S i k w = (r, w') \<Longrightarrow>
      inv n w' \<and> (\<forall>j. prefix (strm w j) (strm w' j)) \<and>
      (\<forall>es. r = Inr es \<longrightarrow> (\<exists>seen. prefix (strm w i) seen \<and> prefix seen (strm w' i) \<and>
         es = filter (\<lambda>e. env_revision e > k) seen))"
    and append_step: "inv n w \<Longrightarrow> admissible evs \<Longrightarrow> length evs \<le> n \<Longrightarrow> es_append S i x evs w = (r, w') \<Longrightarrow>
      inv (n - length evs) w' \<and> (\<forall>j. prefix (strm w j) (strm w' j)) \<and>
      (\<forall>cs. r = Inr cs \<longrightarrow> (\<exists>before. prefix (strm w i) before \<and>
         prefix (before @ cs) (strm w' i) \<and> expectation_met x (length before) \<and>
         map env_payload cs = map ne_payload evs))"
begin

text \<open>An exact append after a load extends what was loaded: no event of another writer comes between.\<close>

lemma read_then_append:
  assumes "inv n w" "es_load S i w = (Inr es, w1)" "admissible evs" "length evs \<le> n"
    and "es_append S i (Exact (length es)) evs w1 = (Inr cs, w2)"
  shows "inv (n - length evs) w2 \<and> prefix (es @ cs) (strm w2 i) \<and> contiguous_from (length es) cs \<and>
    map env_payload cs = map ne_payload evs"
proof -
  have 1: "inv n w1" "prefix es (strm w1 i)" using load_step [OF assms(1,2)] by auto
  obtain before where b: "prefix (strm w1 i) before" "prefix (before @ cs) (strm w2 i)"
    "expectation_met (Exact (length es)) (length before)" "map env_payload cs = map ne_payload evs"
    and inv: "inv (n - length evs) w2"
    using append_step [OF 1(1) assms(3-5)] by auto
  have "prefix es before" using 1(2) b(1) by (rule prefix_order.trans)
  then have "before = es" using b(3) by (auto simp: prefix_def)
  moreover have "contiguous_from 0 (es @ cs)"
    using contiguous [OF inv, of i] b(2) \<open>before = es\<close> by (auto simp: prefix_def contiguous_from_append)
  ultimately show ?thesis using b inv by (simp add: contiguous_from_append)
qed

text \<open>Of two appends that expect the same revision, at most one succeeds.\<close>

lemma exact_appends_exclude:
  assumes "inv n w" "admissible evs" "evs \<noteq> []" "length evs \<le> n" "es_append S i (Exact k) evs w = (Inr cs, w1)"
    and "admissible evs'" "length evs' \<le> n - length evs" "es_append S i (Exact k) evs' w1 = (r, w2)"
  shows "\<exists>e. r = Inl e"
proof (rule ccontr)
  assume "\<nexists>e. r = Inl e"
  then obtain cs' where r: "r = Inr cs'" by (cases r) auto
  obtain b1 where b1: "prefix (b1 @ cs) (strm w1 i)" "length b1 = k" "length cs = length evs" and inv: "inv (n - length evs) w1"
    using append_step [OF assms(1,2,4,5)] by (auto dest: map_eq_imp_length_eq)
  obtain b2 where "prefix (strm w1 i) b2" "length b2 = k"
    using append_step [OF inv assms(6,7) assms(8)] r by auto
  then have "length (b1 @ cs) \<le> k" using b1(1) prefix_length_le by (metis prefix_order.trans)
  then show False using b1(2,3) assms(3) by simp
qed

end

sublocale event_store_contract < bounded: bounded_event_store S "\<lambda>_. inv" strm "\<lambda>_. True"
  by unfold_locales (erule contiguous | erule (1) load_step | erule (1) load_after_step | erule (1) append_step)+

end
