(* ===== verification/Redis_Contract.thy ===== *)
theory Redis_Contract
  imports Redis_Append Bounded_Store
begin

text \<open>
  The Redis event store keeps the contract of an event store, for as many more events as its counters
  have digits for.  The log is read off the keys: an entry for each member of the global index.
\<close>

section \<open>The log of a server\<close>

definition entry_of_hash :: "(string \<times> string) list \<Rightarrow> redis_entry" where
  "entry_of_hash h = (let field = (\<lambda>name. unwrap_or [] (ok_or () (map_of h name))) in
     \<lparr>re_event_id = field ''event_id'', re_aggregate_id = field ''aggregate_id'',
      re_aggregate_type = field ''aggregate_type'', re_event_type = field ''event_type'',
      re_event_version = field ''event_version'', re_payload = field ''payload'', re_metadata = field ''metadata'',
      re_recorded_at_ms = field ''recorded_at_ms''\<rparr>)"

definition stored_log :: "('e, 'id) redis_event_store \<Rightarrow> keyspace \<Rightarrow> redis_entry list" where
  "stored_log st ks = (case ks (global_key st) of
      Some (RSortedSet members) \<Rightarrow> map (\<lambda>j. case ks (event_key st (j + 1)) of
          Some (RHash h) \<Rightarrow> entry_of_hash h | _ \<Rightarrow> entry_of_hash []) [0..<length members]
    | _ \<Rightarrow> [])"

lemma entry_of_entry_hash: "entry_of_hash (entry_hash e r n) = e"
  by (simp add: entry_of_hash_def entry_hash_def unwrap_or_def Let_def)

lemma represents_stored_log: "represents st log ks \<Longrightarrow> stored_log st ks = log"
proof -
  assume rep: "represents st log ks"
  then have global: "ks (global_key st) = set_data (ranked [0..<length log])"
    and hashes: "\<And>n. n < length log \<Longrightarrow> ks (event_key st (n + 1)) = Some (RHash (entry_hash (log ! n) (revision_at log n) (n + 1)))"
    by (auto simp: represents_def indexed_def)
  have "length (ranked [0..<length log]) = length log" by (simp add: ranked_def)
  moreover have "map (\<lambda>j. case ks (event_key st (j + 1)) of
      Some (RHash h) \<Rightarrow> entry_of_hash h | _ \<Rightarrow> entry_of_hash []) [0..<length log] = log"
    by (rule nth_equalityI) (use hashes in \<open>auto simp: entry_of_entry_hash\<close>)
  moreover have "ranked [0..<length log] = [] \<longleftrightarrow> log = []" by (simp add: ranked_def)
  ultimately show ?thesis using global by (auto simp: stored_log_def set_data_def)
qed

abbreviation redis_log :: "('e, 'id) redis_event_store \<Rightarrow> redis_world \<Rightarrow> redis_entry list" where
  "redis_log st w \<equiv> stored_log st (rw_keys w)"

definition redis_inv :: "('e, 'id) redis_event_store \<Rightarrow> nat \<Rightarrow> redis_world \<Rightarrow> bool" where
  "redis_inv st room w \<longleftrightarrow> holds st room w (redis_log st w)"

definition redis_world_stream :: "('e, 'id) redis_event_store \<Rightarrow> redis_world \<Rightarrow> 'id \<Rightarrow> ('e, 'id) event_stream" where
  "redis_world_stream st w = redis_stream st (redis_log st w)"

lemma holds_log: "holds st room w log \<Longrightarrow> redis_log st w = log"
  by (simp add: holds_def represents_stored_log)

lemma holds_inv: "holds st room w log \<Longrightarrow> redis_inv st room w \<and> redis_world_stream st w = redis_stream st log"
  by (simp add: redis_inv_def redis_world_stream_def holds_log)

section \<open>The contract\<close>

lemma redis_append_empty:
  assumes st: "redis_store_ok st" and w: "holds st room w log" and run: "redis_append st i x [] w = (r, w')"
  shows "\<exists>log1 log'. prefix log log1 \<and> prefix log1 log' \<and> holds st room w' log' \<and>
    (\<forall>cs. r = Inr cs \<longrightarrow> cs = [] \<and> expectation_met x (length (redis_stream st log1 i)))"
proof (cases "aggregate_id_lookup_keys (cx_id (rs_codecs st)) i")
  case (Inl e)
  then have "r = Inl e" "w' = w" using run by (simp_all add: redis_append_def redis_stream_keys_of_def try_op_def return_op_def)
  then show ?thesis using w by auto
next
  case (Inr keys)
  obtain k ks where k: "keys = k # ks" using lookup_keys_serialize(1) [OF Inr] by blast
  have key: "serialize_id (cx_id (rs_codecs st)) i = Ok k" "unused_keys st ks" using lookup_unused [OF st Inr [unfolded k]] .
  let ?s = "(rs_aggregate_type st, k)"
  obtain q w1 where q: "current_revision st (sk_revision_key (keys_of st ?s)) w = (q, w1)" by (meson surj_pair)
  from current_revision_spec [OF st w q] obtain log1 where log1: "prefix log log1" "holds st room w1 log1"
    and n: "\<And>n. q = Inr n \<Longrightarrow> n = length (positions log1 ?s)" by blast
  have len: "length (redis_stream st log1 i) = length (positions log1 ?s)"
    using storage_stream_length [OF holds_log_ok [OF log1(2)], of k] key by (simp add: redis_stream_def)
  have run1: "try_op (try_op (\<lambda>w. (q, w1)) (\<lambda>r. max_revision_loop st (rs_aggregate_type st) ks (max 0 r))) (\<lambda>actual.
       try_op (return_op (check_expected_revision x actual)) (\<lambda>_. return_op (Ok []))) w = (r, w')"
    using run Inr k q by (simp add: redis_append_def redis_stream_keys_of_def max_revision_for_aggregate_id_def
        try_op_def return_op_def)
  show ?thesis
  proof (cases q)
    case (Inl e)
    then have "r = Inl e" "w' = w1" using run1 by (simp_all add: try_op_def)
    then show ?thesis using log1 by auto
  next
    case (Inr m)
    obtain a w2 where a: "max_revision_loop st (rs_aggregate_type st) ks m w1 = (a, w2)" by (meson surj_pair)
    from max_revision_unused [OF st log1(2) key(2) a] obtain log' where log': "prefix log1 log'" "holds st room w2 log'"
      "\<forall>n. a = Inr n \<longrightarrow> n = m" by blast
    have "w' = w2" "\<forall>cs. r = Inr cs \<longrightarrow> a = Inr m \<and> cs = [] \<and> check_expected_revision x m = Ok ()"
      using run1 Inr a log'(3) by (auto simp: try_op_def return_op_def split: sum.splits)
    moreover have "check_expected_revision x m = Ok () \<Longrightarrow> expectation_met x m"
      by (cases x) (auto split: if_splits)
    moreover have "m = length (redis_stream st log1 i)" using n [OF Inr] len by simp
    ultimately have "\<forall>cs. r = Inr cs \<longrightarrow> cs = [] \<and> expectation_met x (length (redis_stream st log1 i))" "w' = w2"
      by blast+
    then show ?thesis using log1(1) log' by blast
  qed
qed

definition redis_whole_millis :: "('e, 'id) redis_event_store \<Rightarrow> bool" where
  "redis_whole_millis st \<longleftrightarrow> (\<forall>n. snd (rs_source st n) mod 1000000 = 0)"

lemma appended_at_exact: "redis_whole_millis st \<Longrightarrow> appended_at st i x evs log1 log' cs \<Longrightarrow> map at_millis cs = cs"
  by (fastforce simp: appended_at_def redis_whole_millis_def at_millis_def intro!: map_idI)

lemma redis_contract:
  assumes st: "redis_store_ok st" and millis: "redis_whole_millis st"
  shows "bounded_event_store (redis_event_store_ops st) (redis_inv st) (redis_world_stream st) typed_events"
proof
  fix n w i r w' k x evs
  show "redis_inv st n w \<Longrightarrow> contiguous_from 0 (redis_world_stream st w i)"
    unfolding redis_inv_def redis_world_stream_def by (rule redis_stream_revisions [OF holds_log_ok])
  have grows: "prefix (redis_stream st log j) (redis_stream st log1 j)" if "prefix log log1" "prefix log1 log'" "holds st m v log'" for log log1 log' m v j
    using redis_stream_prefix [OF that(1) log_ok_prefix [OF that(2) holds_log_ok [OF that(3)]]] .
  have between: "prefix (redis_world_stream st w j) (redis_stream st log1 j) \<and>
      prefix (redis_stream st log1 j) (redis_world_stream st w' j)"
    if "prefix (redis_log st w) log1" "prefix log1 log'" "holds st m w' log'" for log1 log' m w' j
    using grows [OF that, of j] grows [OF that(2) prefix_order.refl that(3), of j] holds_inv [OF that(3)]
    unfolding redis_world_stream_def by simp
  show "redis_inv st n w' \<and> (\<forall>j. prefix (redis_world_stream st w j) (redis_world_stream st w' j)) \<and>
      (\<forall>es. r = Inr es \<longrightarrow> prefix (redis_world_stream st w i) es \<and> prefix es (redis_world_stream st w' i))"
    if inv: "redis_inv st n w" and run: "es_load (redis_event_store_ops st) i w = (r, w')"
  proof -
    have run': "redis_load st i w = (r, w')" using run by (simp add: redis_event_store_ops_def)
    from redis_load_spec [OF st inv [unfolded redis_inv_def] run'] obtain log' where
      log': "prefix (redis_log st w) log'" "holds st n w' log'" and
      es: "\<And>es. r = Inr es \<Longrightarrow> \<exists>log1. prefix (redis_log st w) log1 \<and> prefix log1 log' \<and> es = redis_stream st log1 i"
      by blast
    have "prefix (redis_world_stream st w j) (redis_world_stream st w' j)" for j
      using grows [OF log'(1) prefix_order.refl log'(2)] holds_inv [OF log'(2)] by (simp add: redis_world_stream_def)
    moreover have "prefix (redis_world_stream st w i) es \<and> prefix es (redis_world_stream st w' i)" if r: "r = Inr es" for es
    proof -
      obtain log1 where log1: "prefix (redis_log st w) log1" "prefix log1 log'" "es = redis_stream st log1 i"
        using es [OF r] by (elim exE conjE)
      show ?thesis unfolding log1(3) by (rule between [OF log1(1,2) log'(2)])
    qed
    ultimately show ?thesis using holds_inv [OF log'(2)] by simp
  qed
  show "redis_inv st n w' \<and> (\<forall>j. prefix (redis_world_stream st w j) (redis_world_stream st w' j)) \<and>
      (\<forall>es. r = Inr es \<longrightarrow> (\<exists>seen. prefix (redis_world_stream st w i) seen \<and> prefix seen (redis_world_stream st w' i) \<and>
         es = filter (\<lambda>e. env_revision e > k) seen))"
    if inv: "redis_inv st n w" and run: "es_load_after_revision (redis_event_store_ops st) i k w = (r, w')"
  proof -
    have run': "redis_load_after_revision st i k w = (r, w')" using run by (simp add: redis_event_store_ops_def)
    from redis_load_after_spec [OF st inv [unfolded redis_inv_def] run'] obtain log' where
      log': "prefix (redis_log st w) log'" "holds st n w' log'" and
      es: "\<And>es. r = Inr es \<Longrightarrow> \<exists>log1. prefix (redis_log st w) log1 \<and> prefix log1 log' \<and>
        es = filter (\<lambda>e. env_revision e > k) (redis_stream st log1 i)"
      by blast
    have "prefix (redis_world_stream st w j) (redis_world_stream st w' j)" for j
      using grows [OF log'(1) prefix_order.refl log'(2)] holds_inv [OF log'(2)] by (simp add: redis_world_stream_def)
    moreover have "\<exists>seen. prefix (redis_world_stream st w i) seen \<and> prefix seen (redis_world_stream st w' i) \<and>
         es = filter (\<lambda>e. env_revision e > k) seen" if r: "r = Inr es" for es
    proof -
      obtain log1 where log1: "prefix (redis_log st w) log1" "prefix log1 log'"
        "es = filter (\<lambda>e. env_revision e > k) (redis_stream st log1 i)"
        using es [OF r] by (elim exE conjE)
      show ?thesis using between [OF log1(1,2) log'(2), of i] log1(3) by (intro exI [of _ "redis_stream st log1 i"]) simp
    qed
    ultimately show ?thesis using holds_inv [OF log'(2)] by simp
  qed
  show "redis_inv st (n - length evs) w' \<and> (\<forall>j. prefix (redis_world_stream st w j) (redis_world_stream st w' j)) \<and>
      (\<forall>cs. r = Inr cs \<longrightarrow> (\<exists>before. prefix (redis_world_stream st w i) before \<and>
         prefix (before @ cs) (redis_world_stream st w' i) \<and> expectation_met x (length before) \<and>
         map env_payload cs = map ne_payload evs))"
    if inv: "redis_inv st n w" and evs: "typed_events evs" "length evs \<le> n"
      and run: "es_append (redis_event_store_ops st) i x evs w = (r, w')"
  proof -
    have run': "redis_append st i x evs w = (r, w')" using run by (simp add: redis_event_store_ops_def)
    have "\<exists>log1 log'. prefix (redis_log st w) log1 \<and> prefix log1 log' \<and> holds st (n - length evs) w' log' \<and>
      (\<forall>cs. r = Inr cs \<longrightarrow> expectation_met x (length (redis_stream st log1 i)) \<and> map env_payload cs = map ne_payload evs \<and>
         prefix (redis_stream st log1 i @ cs) (redis_stream st log' i))"
    proof (cases "evs = []")
      case True
      from redis_append_empty [OF st inv [unfolded redis_inv_def] run' [unfolded True]] obtain log1 log' where
        log: "prefix (redis_log st w) log1" "prefix log1 log'" "holds st n w' log'" and
        out: "\<And>cs. r = Inr cs \<Longrightarrow> cs = [] \<and> expectation_met x (length (redis_stream st log1 i))" by blast
      have "prefix (redis_stream st log1 i) (redis_stream st log' i)" using grows [OF log(2) prefix_order.refl log(3)] .
      then have "\<forall>cs. r = Inr cs \<longrightarrow> expectation_met x (length (redis_stream st log1 i)) \<and> map env_payload cs = map ne_payload evs \<and>
         prefix (redis_stream st log1 i @ cs) (redis_stream st log' i)"
        using out unfolding True by (metis append_Nil2 list.map(1))
      moreover have "holds st (n - length evs) w' log'" using log(3) unfolding True by simp
      ultimately show ?thesis using log(1,2) by blast
    next
      case False
      from redis_append_events [OF st evs False inv [unfolded redis_inv_def] run'] obtain log1 log' where
        log: "prefix (redis_log st w) log1" "prefix log1 log'" "holds st (n - length evs) w' log'" and
        out: "case r of Inr cs \<Rightarrow> appended_at st i x evs log1 log' cs
          | Inl e \<Rightarrow> log' = log1 \<or> (\<exists>cs. appended_at st i x evs log1 log' cs)" by blast
      have "expectation_met x (length (redis_stream st log1 i)) \<and> map env_payload cs = map ne_payload evs \<and>
         prefix (redis_stream st log1 i @ cs) (redis_stream st log' i)" if "r = Inr cs" for cs
      proof -
        have at: "appended_at st i x evs log1 log' cs" using out that by simp
        then show ?thesis using appended_at_exact [OF millis at] by (simp add: appended_at_def)
      qed
      then show ?thesis using log by blast
    qed
    then obtain log1 log' where log: "prefix (redis_log st w) log1" "prefix log1 log'" "holds st (n - length evs) w' log'" and
      out: "\<And>cs. r = Inr cs \<Longrightarrow> expectation_met x (length (redis_stream st log1 i)) \<and> map env_payload cs = map ne_payload evs \<and>
         prefix (redis_stream st log1 i @ cs) (redis_stream st log' i)" by blast
    have "prefix (redis_world_stream st w j) (redis_world_stream st w' j)" for j
      using grows [OF prefix_order.trans [OF log(1,2)] prefix_order.refl log(3)] holds_inv [OF log(3)]
      by (simp add: redis_world_stream_def)
    moreover have "\<exists>before. prefix (redis_world_stream st w i) before \<and>
         prefix (before @ cs) (redis_world_stream st w' i) \<and> expectation_met x (length before) \<and>
         map env_payload cs = map ne_payload evs" if "r = Inr cs" for cs
      using out [OF that] grows [OF log] holds_inv [OF log(3)] unfolding redis_world_stream_def
      by (intro exI [of _ "redis_stream st log1 i"]) simp
    ultimately show ?thesis using holds_inv [OF log(3)] by simp
  qed
qed

end
