(* ===== verification/Redis_Properties.thy ===== *)
theory Redis_Properties
  imports Redis_Keys Redis_Contract Sqlite_Properties
begin

text \<open>
  What the Redis stores promise: an append adds its events or nothing while other clients append and the
  server refuses commands or loses answers, a load is the stream of one moment of the call, and two
  replies that the snapshot and the idempotency store misread.
\<close>

section \<open>A calm server\<close>

text \<open>A script when nothing is scheduled, whether or not the server still has it.\<close>

lemma calm_execute:
  "rw_schedule w = [] \<Longrightarrow> redis_execute C command w =
     (case serve_command (rc_lua C) command w of (r, w') \<Rightarrow> (map_ok (rc_frame C) r, w'))"
  by (cases w) (simp add: redis_execute_def Let_def)

lemma noscript_reply: "is_noscript_error ''NOSCRIPT No matching script. Please use EVAL.''" by code_simp

lemma calm_script:
  assumes calm: "rw_schedule w = []" and run: "run_script (rc_lua C) script keys argv (rw_keys w) = (Ok q, ks')"
    and n: "parse_u64 n = Ok (length keys)"
  shows "\<exists>ss. execute_lua_script C script (n # keys @ argv) w = (Ok (rc_frame C q), w\<lparr>rw_keys := ks', rw_scripts := ss\<rparr>)"
proof -
  let ?args = "n # keys @ argv"
  have eval: "eval_script (rc_lua C) script ?args v = (Ok q, v\<lparr>rw_keys := ks'\<rparr>)" if "rw_keys v = rw_keys w" for v
    using that run n by (simp add: eval_script_def on_keyspace_def)
  have plain: "redis_execute C (Eval script ?args) w =
      (Ok (rc_frame C q), w\<lparr>rw_keys := ks', rw_scripts := script # rw_scripts w\<rparr>)"
    unfolding calm_execute [OF calm] serve_command_def
    using eval [of "w\<lparr>rw_scripts := script # rw_scripts w\<rparr>"] by (cases w) simp
  show ?thesis
  proof (cases "script \<in> set (rw_scripts w)")
    case True
    then have "redis_execute C (EvalSha script ?args) w = (Ok (rc_frame C q), w\<lparr>rw_keys := ks'\<rparr>)"
      unfolding calm_execute [OF calm] serve_command_def using eval [of w] by simp
    then have "execute_lua_script C script ?args w = (Ok (rc_frame C q), w\<lparr>rw_keys := ks', rw_scripts := rw_scripts w\<rparr>)"
      by (cases w) (simp add: execute_lua_script_def)
    then show ?thesis by blast
  next
    case False
    then have "redis_execute C (EvalSha script ?args) w = (Err ''NOSCRIPT No matching script. Please use EVAL.'', w)"
      unfolding calm_execute [OF calm] serve_command_def by simp
    then show ?thesis using plain noscript_reply
      by (auto simp: execute_lua_script_def intro: exI [of _ "script # rw_scripts w"])
  qed
qed

lemma one_key: "parse_u64 ''1'' = Ok 1"
proof -
  have "show_nat 1 = ''1''" by code_simp
  then show ?thesis using parse_unsigned_show_nat [of 1 u64_max] by (simp add: u64_max_def)
qed

section \<open>A small world\<close>

definition demo_lua :: lua where
  "demo_lua = \<lparr>lu_tonumber = (\<lambda>s. case parse_u64 s of Inl e \<Rightarrow> None | Inr n \<Rightarrow> Some (int n)),
     lu_tostring = show_int, lu_arg = show_int\<rparr>"

lemma parse_digits_mono: "parse_digits ov limit acc s = Ok n \<Longrightarrow> limit \<le> limit' \<Longrightarrow> parse_digits ov limit' acc s = Ok n"
  by (induction s arbitrary: acc) (auto split: if_splits)

lemma parse_unsigned_shown: "parse_unsigned limit (show_nat n) = Ok m \<Longrightarrow> m = n"
proof (cases "show_nat n")
  case (Cons c cs)
  assume "parse_unsigned limit (show_nat n) = Ok m"
  moreover have "c \<noteq> CHR ''+''" using show_nat_all_dec [of c n] Cons by auto
  ultimately have "parse_digits pos_overflow_error limit 0 (show_nat n) = Ok m" using Cons
    by (simp add: parse_unsigned_def)
  then have "parse_digits pos_overflow_error (max limit n) 0 (show_nat n) = Ok m" by (rule parse_digits_mono) simp
  then show ?thesis using parse_digits_show_nat [of n "max limit n" pos_overflow_error] by simp
qed simp

lemma demo_lua_laws: "lua_laws demo_lua"
proof -
  have "lu_tonumber demo_lua (show_nat n) = Some (int n)" if "n < LUA_EXACT" for n
    using that parse_unsigned_show_nat [of n u64_max] by (simp add: demo_lua_def LUA_EXACT_def u64_max_def)
  moreover have "int LUA_EXACT \<le> z" if n: "LUA_EXACT \<le> n" "lu_tonumber demo_lua (show_nat n) = Some z" for n z
  proof -
    show ?thesis using n parse_unsigned_shown [of u64_max n]
      by (auto simp: demo_lua_def split: sum.splits)
  qed
  moreover have "lu_tostring demo_lua (int n) = show_nat n" "lu_arg demo_lua (int n) = show_nat n" for n
    by (simp_all add: demo_lua_def show_int_def)
  ultimately show ?thesis unfolding lua_laws_def by blast
qed

definition demo_redis_client :: "(redis_value \<Rightarrow> redis_value) \<Rightarrow> redis_client" where
  "demo_redis_client frame = \<lparr>rc_lua = demo_lua, rc_frame = frame\<rparr>"

definition demo_redis_world :: redis_world where
  "demo_redis_world = \<lparr>rw_keys = (\<lambda>_. None), rw_scripts = [], rw_published = [], rw_schedule = [],
     rw_clock = demo_clock, rw_ticks = 0\<rparr>"

definition demo_redis_snapshots :: "(redis_value \<Rightarrow> redis_value) \<Rightarrow> string redis_snapshots" where
  "demo_redis_snapshots frame = \<lparr>rn_client = demo_redis_client frame, rn_prefix = DEFAULT_PREFIX,
     rn_aggregate_type = ''account'', rn_state = string_codec, rn_metadata = empty_object_codec,
     rn_earlier = (\<lambda>_. [])\<rparr>"

definition demo_redis_keys :: "(redis_value \<Rightarrow> redis_value) \<Rightarrow> string redis_idempotency" where
  "demo_redis_keys frame = \<lparr>ri_client = demo_redis_client frame, ri_prefix = DEFAULT_PREFIX, ri_value = string_codec\<rparr>"

definition demo_old_snapshot :: "(string, nat) snapshot" where
  "demo_old_snapshot = \<lparr>sn_aggregate_id = 7, sn_aggregate_type = ''account'', sn_revision = 3,
     sn_state = ''ten'', sn_metadata = metadata_new, sn_recorded_at = 0\<rparr>"

section \<open>Appends\<close>

lemma redis_calm_append:
  assumes st: "redis_store_ok st" and w: "holds st room w log" "rw_schedule w = []"
    and evs: "typed_events evs" "evs \<noteq> []" "length evs \<le> room" and key: "serialize_id (cx_id (rs_codecs st)) i = Ok k"
    and prep: "prepare_redis_events st evs w = (Ok ps, w1)" and met: "expectation_met x (length (redis_stream st log i))"
  shows "\<exists>cs w'. redis_append st i x evs w = (Ok cs, w')"
proof -
  have laws: "sql_codecs_laws (rs_codecs st)" "redis_unupcasted st" "redis_texts st" "lua_laws (rc_lua (rs_client st))"
    using st unfolding redis_store_ok_def by blast+
  obtain ks where ks: "aggregate_id_lookup_keys (cx_id (rs_codecs st)) i = Ok (k # ks)" using lookup_keys_serialize(2) [OF key] ..
  let ?s = "(rs_aggregate_type st, k)" and ?new = "map (redis_entry_of st k) ps" and ?C = "rs_client st"
  let ?actual = "length (positions log ?s)"
  have ps: "\<forall>p\<in>set ps. redis_prepared_ok st p" "length ps = length evs"
    using prepare_redis_Ok [OF laws(3) evs(1) prep] by (auto dest: map_eq_imp_length_eq)
  have w1: "holds st room w1 log" "rw_schedule w1 = []" using prepare_redis_world [OF prep] w by auto
  have n: "length (redis_stream st log i) = ?actual"
    using storage_stream_length [OF holds_log_ok [OF w(1)], of k] key by (simp add: redis_stream_def)
  have bound: "length log + length ?new < LUA_EXACT" using w(1) evs(3) ps(2) by (simp add: holds_def)
  obtain ks' where script: "append_lua (rc_lua ?C) (append_keys st ?s) (append_argv x ?new) (rw_keys w1) =
      (Ok (appended_reply (length log) (length ?new) ?actual), ks')"
  proof -
    have "\<forall>e\<in>set ?new. entry_stream e = ?s" "?new \<noteq> []" using ps(2) evs(2) by (auto simp: redis_entry_stream)
    moreover have "represents st log (rw_keys w1)" using w1(1) by (simp add: holds_def)
    ultimately show thesis using append_lua_log [OF laws(4) _ bound, of st "rw_keys w1" ?s x] met n that by auto
  qed
  have "parse_u64 ''5'' = Ok (length (append_keys st ?s))"
  proof -
    have "show_nat 5 = ''5''" by code_simp
    then show ?thesis using parse_unsigned_show_nat [of 5 u64_max] by (simp add: u64_max_def append_keys_def)
  qed
  from calm_script [OF w1(2) _ this, of ?C AppendScript "append_argv x ?new"] obtain ss where
    run: "execute_lua_script ?C AppendScript (build_append_eval_args st (keys_of st ?s) x ps) w1 =
      (Ok (rc_frame ?C (appended_reply (length log) (length ?new) ?actual)), w1\<lparr>rw_keys := ks', rw_scripts := ss\<rparr>)"
    using script unfolding append_args_sent by (auto simp: run_script_def)
  have "parse_append_eval_result (rc_frame ?C (appended_reply (length log) (length ?new) ?actual)) x =
      Ok (length log + 1, length log + length ?new, ?actual + length ?new)"
    by (rule parse_appended [OF store_list_frame [OF st] bound positions_le])
  then show ?thesis using ks prep run ps(2) evs(2)
    by (auto simp: redis_append_def redis_stream_keys_of_def try_op_def return_op_def op_map_err_def)
qed



definition demo_redis :: "(string, nat) redis_event_store" where
  "demo_redis = \<lparr>rs_client = demo_redis_client wasi_frame, rs_prefix = DEFAULT_PREFIX, rs_aggregate_type = ''account'',
     rs_upcasters = upcaster_registry_new, rs_codecs = demo_codecs,
     rs_source = (\<lambda>n. (EventId (show_nat n), int n * 1000000)), rs_earlier = (\<lambda>_. [])\<rparr>"

lemma demo_redis_ok: "redis_store_ok demo_redis" "redis_whole_millis demo_redis"
proof -
  have "is_text ''account''" by (rule from_utf8_ascii) auto
  moreover have "is_text k" if "serialize_id nat_codec n = Ok k" for n k
    using that show_nat_text by (auto simp: nat_codec_keys split: if_splits)
  ultimately show "redis_store_ok demo_redis" "redis_whole_millis demo_redis"
    using demo_codecs_laws(1) demo_lua_laws show_nat_text
    by (auto simp: redis_store_ok_def demo_redis_def redis_unupcasted_def redis_texts_def redis_whole_millis_def
        demo_redis_client_def prepare_payload_def registry_is_empty_def upcaster_registry_new_def demo_codecs_def)
qed

interpretation demo_redis: bounded_event_store "redis_event_store_ops demo_redis" "redis_inv demo_redis"
  "redis_world_stream demo_redis" typed_events
  by (rule redis_contract [OF demo_redis_ok])


lemma demo_redis_empty: "holds demo_redis n demo_redis_world []" if "n < LUA_EXACT"
  using that by (simp add: holds_def represents_def indexed_def demo_redis_world_def set_data_def counter_data_def
      ranked_def positions_def)

lemma demo_redis_inv: "n < LUA_EXACT \<Longrightarrow> redis_inv demo_redis n demo_redis_world"
  using holds_inv [OF demo_redis_empty] by blast

lemma demo_typed: "typed_events [demo_deposit]"
proof -
  have "is_text ''Deposited''" by (rule from_utf8_ascii) auto
  then show ?thesis by (simp add: typed_events_def demo_deposit_def new_event_with_type_def)
qed

lemma demo_redis_prepared: "\<exists>p w1. prepare_redis_events demo_redis [demo_deposit] demo_redis_world = (Ok [p], w1)"
  by (simp add: demo_steps prepared_redis_event_new_def demo_redis_def demo_redis_world_def system_time_to_millis_def
      i64_try_from_u64_def i64_max_def serialize_payload_def serialize_metadata_def string_codec_def empty_object_codec_def)



section \<open>Snapshots\<close>

lemma tonumber_exact: "lua_laws L \<Longrightarrow> n < LUA_EXACT \<Longrightarrow> lu_tonumber L (show_nat n) = Some (int n)"
  by (simp add: lua_laws_def)

lemma snapshot_save_lua_stale:
  assumes L: "lua_laws L" and ks: "ks k = Some (RHash h)" "map_of h ''revision'' = Some (show_nat current)"
    and lt: "offered < current" "current < LUA_EXACT"
  shows "run_script L SnapshotSaveScript [k] [show_nat offered, state, m, at, ty] ks =
    (Ok (Array [Bytes ''ERR'', Bytes ''stale_revision'', Integer (int current)]), ks)"
proof -
  have "offered < LUA_EXACT" using lt by simp
  then show ?thesis
    using assms tonumber_exact [OF L lt(2)] tonumber_exact [OF L, of offered]
    by (simp add: run_script_def redis_hget_def redis_hgetall_def try_op_def return_op_def or_zero_def)
qed

text \<open>C15: the snapshot store reports a stale snapshot as an unreadable reply.  \<open>SNAPSHOT_SAVE_LUA\<close> returns the
  stored revision as a Lua number, which arrives as an integer; \<open>save_snapshot\<close> expects bytes there, so
  its \<open>StaleSnapshotRevision\<close> branch is dead, and the error a caller could act on becomes a deserialization
  error.  The stored snapshot stays as it was.\<close>

theorem redis_stale_snapshot_misreported:
  assumes L: "lua_laws (rc_lua (rn_client rn))" and frame: "list_frame (rn_client rn)"
    and calm: "rw_schedule w = []"
    and id: "serialize_id I (sn_aggregate_id s) = Ok i" and state: "cd_to_string (rn_state rn) (sn_state s) = Ok sj"
    and metadata: "cd_to_string (rn_metadata rn) (sn_metadata s) = Ok mj"
    and at: "system_time_to_millis (rn_earlier rn) (sn_recorded_at s) = Ok at"
    and stored: "rw_keys w (snapshot_key rn (rn_aggregate_type rn) i) = Some (RHash h)"
      "map_of h ''revision'' = Some (show_nat current)"
    and stale: "sn_revision s < current" "current < LUA_EXACT"
    and run: "redis_save_snapshot rn I s w = (r, w')"
  shows "rw_keys w' = rw_keys w \<and> r \<noteq> Err (stale_snapshot_revision_error (sn_revision s) current) \<and>
    r = Err (error_deserialization (''unexpected redis snapshot save reply: Array([Bytes([69, 82, 82]), Bytes([115, 116, 97, 108, 101, 95, 114, 101, 118, 105, 115, 105, 111, 110]), Int('' @ show_nat current @ '')])''))"
proof -
  let ?reply = "Array [Bytes ''ERR'', Bytes ''stale_revision'', Integer (int current)]"
  have save: "run_script (rc_lua (rn_client rn)) SnapshotSaveScript [snapshot_key rn (rn_aggregate_type rn) i]
      [show_nat (sn_revision s), sj, mj, show_int at, sn_aggregate_type s] (rw_keys w) = (Ok ?reply, rw_keys w)"
    by (rule snapshot_save_lua_stale [OF L]) (rule stored stale)+
  obtain ss where "execute_lua_script (rn_client rn) SnapshotSaveScript
      (''1'' # [snapshot_key rn (rn_aggregate_type rn) i] @ [show_nat (sn_revision s), sj, mj, show_int at, sn_aggregate_type s]) w =
      (Ok (rc_frame (rn_client rn) ?reply), w\<lparr>rw_keys := rw_keys w, rw_scripts := ss\<rparr>)"
    using calm_script [OF calm save, of "''1''"] one_key by auto
  then have "redis_save_snapshot rn I s w = (unexpected_save_reply ?reply, w\<lparr>rw_scripts := ss\<rparr>)"
    using frame id state metadata at
    by (simp add: redis_save_snapshot_def try_op_def return_op_def op_map_err_def list_frame_def snapshot_save_reply_def)
  moreover have "debug_redis_value ?reply = ''Array([Bytes([69, 82, 82]), Bytes([115, 116, 97, 108, 101, 95, 114, 101, 118, 105, 115, 105, 111, 110]), Int('' @ show_nat current @ '')])''"
  proof -
    have "join_text '', '' (map (\<lambda>c. show_nat (of_char c)) ''ERR'') = ''69, 82, 82''"
      "join_text '', '' (map (\<lambda>c. show_nat (of_char c)) ''stale_revision'') =
       ''115, 116, 97, 108, 101, 95, 114, 101, 118, 105, 115, 105, 111, 110''" by code_simp+
    moreover have "show_int (int current) = show_nat current" by (simp add: show_int_def)
    ultimately show ?thesis by (simp only: debug_redis_value.simps join_text.simps list.map append.simps append_assoc)
  qed
  ultimately show ?thesis using run
    by (auto simp: unexpected_save_reply_def stale_snapshot_revision_error_def error_deserialization_def)
qed

theorem redis_stale_snapshot_misreported_witness:
  "\<exists>w r w'. redis_save_snapshot (demo_redis_snapshots wasi_frame) nat_codec demo_old_snapshot w = (r, w') \<and>
     rw_keys w' = rw_keys w \<and> r \<noteq> Err (stale_snapshot_revision_error 3 5)"
proof -
  let ?rn = "demo_redis_snapshots wasi_frame"
  let ?w = "demo_redis_world\<lparr>rw_keys := [snapshot_key ?rn ''account'' (show_nat 7) \<mapsto> RHash [(''revision'', show_nat 5)]]\<rparr>"
  obtain r w' where run: "redis_save_snapshot ?rn nat_codec demo_old_snapshot ?w = (r, w')" by (meson surj_pair)
  have "lua_laws (rc_lua (rn_client ?rn))" "list_frame (rn_client ?rn)" "rw_schedule ?w = []"
    "serialize_id nat_codec (sn_aggregate_id demo_old_snapshot) = Ok (show_nat 7)"
    "cd_to_string (rn_state ?rn) (sn_state demo_old_snapshot) = Ok (quote_mark # escape_text ''ten'')"
    "cd_to_string (rn_metadata ?rn) (sn_metadata demo_old_snapshot) = Ok ''{}''"
    "system_time_to_millis (rn_earlier ?rn) (sn_recorded_at demo_old_snapshot) = Ok 0"
    "rw_keys ?w (snapshot_key ?rn (rn_aggregate_type ?rn) (show_nat 7)) = Some (RHash [(''revision'', show_nat 5)])"
    "map_of [(''revision'', show_nat 5)] ''revision'' = Some (show_nat 5)"
    "sn_revision demo_old_snapshot < 5" "5 < LUA_EXACT"
    by (simp_all add: demo_redis_snapshots_def demo_redis_client_def demo_lua_laws list_frame_def wasi_frame_def
        demo_redis_world_def demo_old_snapshot_def nat_codec_keys u64_max_def string_codec_def empty_object_codec_def
        system_time_to_millis_def i64_try_from_u64_def i64_max_def LUA_EXACT_def)
  from redis_stale_snapshot_misreported [OF this run]
  have "rw_keys w' = rw_keys ?w" "r \<noteq> Err (stale_snapshot_revision_error (sn_revision demo_old_snapshot) 5)" by blast+
  then show ?thesis using run by (intro exI [of _ ?w]) (auto simp: demo_old_snapshot_def)
qed

section \<open>Answers under Spin\<close>

lemma redis_execute_framed: "redis_execute C command w = (Ok v, w') \<Longrightarrow> \<exists>q. v = rc_frame C q"
  by (auto simp: redis_execute_def Let_def result_simps split: list.splits redis_step.splits prod.splits)

lemma execute_lua_script_framed: "execute_lua_script C script args w = (Ok v, w') \<Longrightarrow> \<exists>q. v = rc_frame C q"
  using redis_execute_framed by (fastforce simp: execute_lua_script_def split: prod.splits sum.splits if_splits)

lemma spin_frame_list: "\<exists>items. spin_frame q = Array items"
  by (cases q) auto

lemma spin_save_reply: "snapshot_save_reply revision (spin_frame q) \<noteq> Ok ()"
proof -
  obtain items where "spin_frame q = Array items" using spin_frame_list by blast
  then show ?thesis by (auto simp: snapshot_save_reply_def unexpected_save_reply_def stale_snapshot_revision_error_def
      result_simps split: redis_value.splits)
qed

lemma reserve_lua_free:
  "ks k = None \<Longrightarrow> run_script L IdempotencyReserveScript [k] [me, expiry, now] ks =
     (Ok (Integer 1), ks(k \<mapsto> RHash [(''state'', ''pending''), (''owner'', me), (''expires_at_ms'', expiry)]))"
  using hset_fresh [of ks k "[(''state'', ''pending''), (''owner'', me), (''expires_at_ms'', expiry)]"]
  by (simp add: run_script_def redis_hget_def redis_hgetall_def try_op_def return_op_def)

lemma spin_reserve_never:
  "rc_frame (ri_client ri) = spin_frame \<Longrightarrow> redis_reserve_with_lease ri key config w \<noteq> (Ok b, w')"
proof
  assume spin: "rc_frame (ri_client ri) = spin_frame" and run: "redis_reserve_with_lease ri key config w = (Ok b, w')"
  obtain lease w1 now w2 where clock: "on_redis_clock (new_lease config) w = (lease, w1)" "on_redis_clock now_ms w1 = (now, w2)"
    by (meson surj_pair)
  obtain v w3 where v: "execute_lua_script (ri_client ri) IdempotencyReserveScript
      [''1'', redis_idempotency_key ri key, il_owner lease, show_nat (il_expires_at_ms lease), show_nat now] w2 = (Ok v, w3)"
    and reply: "(case v of Integer z \<Rightarrow> if z = 1 then Ok True else if z = 0 then Ok False
               else Err (error_deserialization (''unexpected redis idempotency reserve reply: '' @ debug_redis_value v))
           | _ \<Rightarrow> Err (error_deserialization (''unexpected redis idempotency reserve reply: '' @ debug_redis_value v))) = Ok b"
    using run clock by (auto simp: redis_reserve_with_lease_def try_op_def op_map_err_def return_op_def result_simps
        split: prod.splits sum.splits)
  obtain items where "v = Array items"
    using execute_lua_script_framed [OF v] spin spin_frame_list by metis
  then show False using reply by simp
qed

lemma spin_save_never:
  "rc_frame (rn_client rn) = spin_frame \<Longrightarrow> redis_save_snapshot rn I s w \<noteq> (Ok (), w')"
proof
  assume spin: "rc_frame (rn_client rn) = spin_frame" and run: "redis_save_snapshot rn I s w = (Ok (), w')"
  then obtain args v w1 where v: "execute_lua_script (rn_client rn) SnapshotSaveScript args w = (Ok v, w1)"
    and reply: "snapshot_save_reply (sn_revision s) v = Ok ()"
    by (auto simp: redis_save_snapshot_def return_op_def result_simps)
  then show False using execute_lua_script_framed [OF v] spin spin_save_reply by metis
qed

lemma spin_heartbeat_never:
  "rc_frame (ri_client ri) = spin_frame \<Longrightarrow> redis_heartbeat ri key me w \<noteq> (Ok True, w')"
proof
  assume spin: "rc_frame (ri_client ri) = spin_frame" and run: "redis_heartbeat ri key me w = (Ok True, w')"
  then obtain args w1 w2 where v: "redis_execute (ri_client ri) (Eval HeartbeatScript args) w1 = (Ok (Integer 1), w2)"
    by (auto simp: redis_heartbeat_def return_op_def result_simps split: prod.splits)
  then show False using redis_execute_framed [OF v] spin spin_frame_list by (metis redis_value.distinct)
qed

text \<open>C16: under Spin the stores misread answers of one value.  Spin's client hands every answer over as a
  list, which the event and the checkpoint store take into account; \<open>reserve_with_lease\<close> and \<open>heartbeat\<close> match
  a bare integer and \<open>save_snapshot\<close> a bare text, so they never succeed there, whatever the server does.
  A reservation of a free key still writes the pending row, as the same call through the socket client,
  which reports success.\<close>

theorem redis_spin_replies_misread:
  assumes spin: "rc_frame (ri_client ri) = spin_frame" "rc_frame (rn_client rn) = spin_frame"
    and calm: "rw_schedule w = []" and free: "rw_keys w (redis_idempotency_key ri key) = None"
  shows "(\<forall>v b v'. redis_reserve_with_lease ri key config v \<noteq> (Ok b, v')) \<and>
    (\<forall>me v v'. redis_heartbeat ri key me v \<noteq> (Ok True, v')) \<and>
    (\<forall>s v v'. redis_save_snapshot rn I s v \<noteq> (Ok (), v')) \<and>
    (\<exists>ks e w1 w2. redis_reserve_with_lease ri key config w = (Err e, w1) \<and> rw_keys w1 = ks \<and>
       redis_reserve_with_lease (ri\<lparr>ri_client := (ri_client ri)\<lparr>rc_frame := wasi_frame\<rparr>\<rparr>) key config w = (Ok True, w2) \<and>
       rw_keys w2 = ks \<and>
       (\<exists>me expiry. ks = (rw_keys w)(redis_idempotency_key ri key \<mapsto>
          RHash [(''state'', ''pending''), (''owner'', me), (''expires_at_ms'', expiry)])))"
proof -
  obtain lease w1 now w2 where clock: "on_redis_clock (new_lease config) w = (lease, w1)" "on_redis_clock now_ms w1 = (now, w2)"
    by (meson surj_pair)
  let ?key = "redis_idempotency_key ri key"
  let ?argv = "[il_owner lease, show_nat (il_expires_at_ms lease), show_nat now]"
  let ?ks = "(rw_keys w)(?key \<mapsto> RHash [(''state'', ''pending''), (''owner'', il_owner lease),
      (''expires_at_ms'', show_nat (il_expires_at_ms lease))])"
  have w2: "rw_schedule w2 = []" "rw_keys w2 = rw_keys w"
    using clock calm by (auto simp: lift_op_def split: prod.splits)
  have script: "run_script (rc_lua C) IdempotencyReserveScript [?key] ?argv (rw_keys w2) = (Ok (Integer 1), ?ks)" for C
    unfolding w2(2) by (rule reserve_lua_free [where ks = "rw_keys w", OF free])
  have reply: "\<exists>ss. execute_lua_script C IdempotencyReserveScript (''1'' # [?key] @ ?argv) w2 =
      (Ok (rc_frame C (Integer 1)), w2\<lparr>rw_keys := ?ks, rw_scripts := ss\<rparr>)" for C
    using calm_script [OF w2(1) script [of C], of "''1''"] one_key by simp
  obtain ss where "execute_lua_script (ri_client ri) IdempotencyReserveScript (''1'' # [?key] @ ?argv) w2 =
      (Ok (Array [Integer 1]), w2\<lparr>rw_keys := ?ks, rw_scripts := ss\<rparr>)"
    using reply [of "ri_client ri"] spin(1) by auto
  then have "\<exists>e. redis_reserve_with_lease ri key config w = (Err e, w2\<lparr>rw_keys := ?ks, rw_scripts := ss\<rparr>)"
    using clock by (simp add: redis_reserve_with_lease_def try_op_def op_map_err_def return_op_def)
  moreover obtain ss' where "execute_lua_script ((ri_client ri)\<lparr>rc_frame := wasi_frame\<rparr>) IdempotencyReserveScript
      (''1'' # [?key] @ ?argv) w2 = (Ok (Integer 1), w2\<lparr>rw_keys := ?ks, rw_scripts := ss'\<rparr>)"
    using reply [of "(ri_client ri)\<lparr>rc_frame := wasi_frame\<rparr>"] by (auto simp: wasi_frame_def)
  then have "redis_reserve_with_lease (ri\<lparr>ri_client := (ri_client ri)\<lparr>rc_frame := wasi_frame\<rparr>\<rparr>) key config w =
      (Ok True, w2\<lparr>rw_keys := ?ks, rw_scripts := ss'\<rparr>)"
    using clock by (simp add: redis_reserve_with_lease_def try_op_def op_map_err_def return_op_def redis_idempotency_key_def)
  ultimately show ?thesis
    using spin_reserve_never [OF spin(1)] spin_heartbeat_never [OF spin(1)] spin_save_never [OF spin(2)] by fastforce
qed

theorem redis_spin_replies_misread_witness:
  "\<exists>e w1. redis_reserve_with_lease (demo_redis_keys spin_frame) (IdempotencyKey ''k'') lease_config_default demo_redis_world = (Err e, w1) \<and>
     rw_keys w1 \<noteq> rw_keys demo_redis_world"
proof -
  have spin: "rc_frame (ri_client (demo_redis_keys spin_frame)) = spin_frame"
    "rc_frame (rn_client (demo_redis_snapshots spin_frame)) = spin_frame"
    "rw_schedule demo_redis_world = []"
    "rw_keys demo_redis_world (redis_idempotency_key (demo_redis_keys spin_frame) (IdempotencyKey ''k'')) = None"
    by (simp_all add: demo_redis_keys_def demo_redis_snapshots_def demo_redis_client_def demo_redis_world_def)
  from redis_spin_replies_misread [OF this, of lease_config_default nat_codec] obtain e w1 me expiry where
    "redis_reserve_with_lease (demo_redis_keys spin_frame) (IdempotencyKey ''k'') lease_config_default demo_redis_world = (Err e, w1)"
    "rw_keys w1 = (rw_keys demo_redis_world)(redis_idempotency_key (demo_redis_keys spin_frame) (IdempotencyKey ''k'') \<mapsto>
       RHash [(''state'', ''pending''), (''owner'', me), (''expires_at_ms'', expiry)])"
    by blast
  moreover from this(2) spin(4) have "rw_keys w1 \<noteq> rw_keys demo_redis_world" by (metis fun_upd_same option.distinct(1))
  ultimately show ?thesis by blast
qed

end
