(* ===== verification/Spec2Isabelle.thy ===== *)
theory Spec2Isabelle
  imports Repository_Properties Async_Repository Projection_World Async_Projection Process_Manager Upcast
    Connection_Pool Append_Semantics Sql_Text Row_Codec Json_File_Properties Sqlite_Properties
    Redis_Client Redis_Properties
begin

text \<open>
  Verification of the event sourcing library \<open>ddd_cqrs_es\<close> (\<open>src/src\<close>).

  \<^bold>\<open>The program.\<close>  An application gives an aggregate: a state, an \<open>apply\<close> for its events and a
  \<open>handle\<close> that turns a command into new events or an error.  A repository loads the events of one
  aggregate from an event store, folds them, handles the command, and appends the new events under
  the expectation that nobody else appended in between.  Around this core stand snapshots (a saved
  state that shortens the fold), idempotency keys (a command is executed once per key), projections
  (a cursor over the global order of events, saved as a checkpoint), process managers (events that
  answer with commands) and upcasters (old payloads read as new ones).  Stores keep all this in
  memory, in files or in a database; the adapters for serverless databases build one SQL statement
  for an append.

  \<^bold>\<open>Conventions.\<close>  An operation on shared state \<open>'w\<close> is a function from the state to its result and the
  next state (\<open>op\<close> in \<open>Prelude\<close>); \<open>try_op\<close> is the question mark operator and \<open>op_map_err\<close> is
  \<open>map_err\<close>.  A \<open>Result\<close> is a sum, \<open>Err\<close> and \<open>Ok\<close> its injections.  A trait is the record of its methods, and
  what its implementors promise is a locale; each implementor interprets it.  A \<open>u64\<close> that only counts
  stored events is a \<open>nat\<close>; conversions between \<open>u64\<close> and \<open>i64\<close>, saturating and wrapping arithmetic are
  written out; a hash is computed on \<open>64 word\<close>.  A loop with no bound of its own is a
  \<open>partial_function (option)\<close>, and that it returns is proved.  Faults of a file system, a database or a clock are lists of
  outcomes in the state, so a theorem over every state covers every fault.

  \<^bold>\<open>Theories.\<close>
  \<^item> \<open>Prelude\<close>: operations, results, machine integers, decimal and hexadecimal text.
  \<^item> \<open>Event_Model\<close> (\<open>event.rs\<close>, \<open>metadata.rs\<close>): identifiers, metadata, new events, envelopes.
  \<^item> \<open>Store_Errors\<close> (\<open>error.rs\<close>): the error taxonomy, its classification and rendering.
  \<^item> \<open>Aggregate_Core\<close> (\<open>aggregate.rs\<close>, \<open>replay.rs\<close>): the fold of a stream and command handling.
  \<^item> \<open>Event_Store\<close> (\<open>event_store.rs\<close>): the trait, its provided methods, and the contracts \<open>event_store_contract\<close>
    (other writers may act around every call), \<open>quiet_event_store\<close> (nobody else writes) and \<open>event_feed\<close>
    (the global order).
  \<^item> \<open>Memory_Store\<close> (\<open>memory.rs\<close>): the in-memory store satisfies the three contracts.
  \<^item> \<open>Snapshot\<close>, \<open>Timing\<close>, \<open>Idempotency\<close> (\<open>snapshot.rs\<close>, \<open>idempotency.rs\<close>): the two other stores of a repository, the clock,
    leases and the wait policy.
  \<^item> \<open>Repository\<close>, \<open>Repository_Facts\<close>, \<open>Idempotent_Facts\<close>, \<open>Memory_World\<close>, \<open>Repository_Properties\<close> (\<open>repository.rs\<close>): no lost
    update, once per key, the wait loop returns, snapshots do not change results.
  \<^item> \<open>Async_Repository\<close>, \<open>Async_Projection\<close> (\<open>async_api.rs\<close>): the asynchronous twins compute what the
    synchronous ones do.
  \<^item> \<open>Checkpoints\<close>, \<open>Projection\<close>, \<open>Projection_Facts\<close>, \<open>Projection_World\<close> (\<open>projection.rs\<close>, the checkpoint store of \<open>sqlite.rs\<close>):
    every event is projected in order, and checkpoints do not move back.
  \<^item> \<open>Process_Manager\<close> (\<open>process_manager.rs\<close>): at-least-once handling with keys per event and command.
  \<^item> \<open>Upcast\<close> (\<open>upcast.rs\<close>): the chain of upcasters ends and is deterministic.
  \<^item> \<open>Connection_Pool\<close> (\<open>pool.rs\<close>): the slots of the pool, the retry discipline.
  \<^item> \<open>Json_Value\<close>, \<open>Sql_Common\<close>, \<open>Append_Atomic\<close>, \<open>Append_Semantics\<close>, \<open>Sql_Text\<close>, \<open>Row_Codec\<close> (\<open>sql_common.rs\<close>,
    \<open>adapters/append_atomic.rs\<close>, \<open>adapters/sql_text.rs\<close>, \<open>adapters/mod.rs\<close>): what the SQL stores and adapters share, the
    single-statement append and its meaning on a table, the decoding of rows.
  \<^item> \<open>Json_File\<close>, \<open>Json_File_Facts\<close>, \<open>Json_File_Properties\<close> (\<open>adapters/json_file.rs\<close>): the file stores.
  \<^item> \<open>Sqlite_Driver\<close>, \<open>Sqlite_Store\<close>, \<open>Sqlite_Keys\<close> (\<open>sqlite.rs\<close>): a database whose every statement may fail, the
    event store with its retried transactions and the append under an idempotency key, the idempotency
    store and the snapshot store.  \<open>Sqlite_Facts\<close>, \<open>Sqlite_Contract\<close>, \<open>Sqlite_Atomic\<close>, \<open>Sqlite_World\<close>,
    \<open>Sqlite_Properties\<close>: the store satisfies \<open>quiet_event_store\<close> and, with its keys, the contract of
    \<open>execute_idempotent\<close>, so the repository theorems hold of it; transactions roll back whole.
  \<^item> \<open>Redis_Protocol\<close>, \<open>Redis_Client\<close> (\<open>redis.rs\<close>, the socket client): the framing of replies, the address of a
    server, and the reuse of a connection: a command is executed at most once.
  \<^item> \<open>Redis_Server\<close>, \<open>Redis_Store\<close>, \<open>Redis_Keys\<close> (\<open>redis.rs\<close>): the Lua scripts over the keys of a server, whose
    other clients append and which may refuse a command, lose an answer or forget a script; the event,
    checkpoint, idempotency and snapshot stores.  \<open>Redis_Facts\<close>, \<open>Redis_Log\<close>, \<open>Redis_Read\<close>, \<open>Redis_Append\<close>,
    \<open>Redis_Contract\<close>, \<open>Redis_Properties\<close>: the keys represent one log; a paged read is the log of one
    moment; an append is whole or absent; the store satisfies \<open>bounded_event_store\<close> (\<open>Bounded_Store\<close>), the
    contract of a store that counts up to a limit.

  \<^bold>\<open>Bounds and fuel.\<close>  No definition takes fuel.  The wait loops end because each sleep is positive and
  within the timeout; the drain of the global feed ends because each full page moves the cursor; the
  upcast chain ends because each hop raises the version.  A page of a Redis index moves the cursor below the
  largest \<open>u64\<close>.  Lua writes numbers with fourteen digits (\<open>lua_laws\<close>), so the Redis theorems hold while the
  log stays below \<open>10 ^ 14\<close> events; \<open>room\<close> in their invariant is what is left.

  \<^bold>\<open>Not modelled.\<close>  The serialisation library, the database drivers and engines and the HTTP client are
  not in the repository: they appear as parameters whose laws are named (\<open>codec_laws\<close>, \<open>file_codec_laws\<close>,
  \<open>integer_cell\<close>, \<open>lua_laws\<close>).  The commands of the Redis scripts act on a keyspace as the Redis manual states.
  Sockets, TLS and subscriptions of the Redis client are not modelled beyond their outcomes.  Thread scheduling inside one call is not modelled: locks serialise calls, and other
  writers act between them.  The examples, the templates and the user interface are applications of the library.
\<close>

end
